(* ===== verification/FG_Prelude.thy ===== *)
theory FG_Prelude
  imports Main "HOL-Library.Word" "HOL-Library.Signed_Division" "HOL-Library.Multiset"
begin

text \<open>
  Shared vocabulary of the development: the fixed-width integer types of the C++ code, the
  theorem collections that carry the component proofs, and the generic facts on words, lists and
  results that more than one component needs.

  Unsigned integers of the source are words of the same width, so that an unguarded \<open>+\<close> or
  \<open>-\<close> wraps exactly as it does in C++. Signed integers are words of the same width too; they are
  compared with \<open><s\<close> and \<open>\<le>s\<close> and read with \<open>sint\<close>, and a \<open>static_cast\<close> between the signed and
  the unsigned type of one width is the identity on the word. Sizes of containers
  (\<open>std::size_t\<close>) are \<open>nat\<close>.
\<close>

section \<open>Types\<close>

type_synonym u8 = "8 word"
type_synonym u16 = "16 word"
type_synonym u32 = "32 word"
type_synonym u64 = "64 word"
type_synonym i32 = "32 word"
type_synonym i64 = "64 word"
type_synonym bytes = "u8 list"

section \<open>Theorem collections\<close>

named_theorems word_nat \<open>facts that move a word operation to the natural numbers\<close>
named_theorems fg_defs \<open>definitions of guards that proofs unfold together\<close>

section \<open>Words as natural numbers\<close>

declare word_le_nat_alt [word_nat] word_less_nat_alt [word_nat] word_unat_eq_iff [word_nat]

lemma unat_bounded [simp]: "unat (w :: 'a::len word) < 2 ^ LENGTH('a)"
  by (rule unsigned_less)

lemma unat_u64_bounded: "unat (w :: u64) < 18446744073709551616"
  using unat_bounded [of w] by simp

lemma unat_plus_exact:
  "unat a + unat b < 2 ^ LENGTH('a) \<Longrightarrow> unat (a + b :: 'a::len word) = unat a + unat b"
  by (simp add: unat_add_lem)

lemma unat_minus_exact:
  "b \<le> a \<Longrightarrow> unat (a - b :: 'a::len word) = unat a - unat b"
  by (simp add: unat_sub)

lemma unat_times_exact:
  "unat a * unat b < 2 ^ LENGTH('a) \<Longrightarrow> unat (a * b :: 'a::len word) = unat a * unat b"
  by (simp add: unat_mult_lem)

lemma unat_min [word_nat]: "unat (min a b) = min (unat a) (unat b)"
  by (simp add: min_def word_le_nat_alt)

lemma unat_max [word_nat]: "unat (max a b) = max (unat a) (unat b)"
  by (simp add: max_def word_le_nat_alt)

lemma unat_minus_min: "unat (a - min b a :: 'a::len word) = unat a - min (unat b) (unat a)"
  by (simp add: unat_minus_exact word_le_nat_alt unat_min)

lemma unat_max_word: "unat (- 1 :: 'a::len word) = 2 ^ LENGTH('a) - 1"
  by (simp add: unsigned_minus_1_eq_mask mask_eq_exp_minus_1)

lemma unat_ucast_up:
  "LENGTH('a) \<le> LENGTH('b) \<Longrightarrow> unat (ucast (w :: 'a::len word) :: 'b::len word) = unat w"
  by (simp add: unsigned_ucast_eq take_bit_nat_eq_self_iff)
     (meson less_le_trans one_le_numeral power_increasing unat_bounded)

lemma unat_of_nat_exact: "n < 2 ^ LENGTH('a) \<Longrightarrow> unat (of_nat n :: 'a::len word) = n"
  by (simp add: unsigned_of_nat take_bit_nat_eq_self)

lemma u64_zero_iff [word_nat]: "(w :: 'a::len word) = 0 \<longleftrightarrow> unat w = 0"
  by (simp add: unat_eq_0)

section \<open>Lists\<close>

text \<open>A loop over a vector that reads element \<open>i\<close> and bumps an accumulator is a fold;
  the sums below are what the accumulators hold.\<close>

definition nsum :: "'a::len word list \<Rightarrow> nat" where
  "nsum ws = sum_list (map unat ws)"

lemma nsum_Nil [simp]: "nsum [] = 0"
  by (simp add: nsum_def)

lemma nsum_Cons [simp]: "nsum (w # ws) = unat w + nsum ws"
  by (simp add: nsum_def)

lemma nsum_append [simp]: "nsum (xs @ ys) = nsum xs + nsum ys"
  by (simp add: nsum_def)

lemma nsum_replicate_zero [simp]: "nsum (replicate n 0) = 0"
  by (induction n) simp_all

lemma nsum_member: "w \<in> set ws \<Longrightarrow> unat w \<le> nsum ws"
  by (induction ws) auto

lemma nsum_update:
  "i < length ws \<Longrightarrow> nsum (ws[i := w]) + unat (ws ! i) = nsum ws + unat w"
proof (induction ws arbitrary: i)
  case (Cons x xs)
  then show ?case by (cases i) (auto simp: algebra_simps)
qed simp

lemma nsum_le_nsum:
  assumes "list_all2 (\<le>) (map unat xs) (map unat ys)"
  shows "nsum xs \<le> nsum ys"
  using assms by (auto simp: nsum_def list_all2_conv_all_nth intro: sum_list_mono2)

lemma sum_list_bound:
  "(\<And>x. x \<in> set xs \<Longrightarrow> f x \<le> (b::nat)) \<Longrightarrow> sum_list (map f xs) \<le> length xs * b"
  by (induction xs) (auto intro: add_mono)

lemma sum_list_mset_cong:
  "mset xs = mset ys \<Longrightarrow> sum_list (map f xs) = sum_list (map (f :: _ \<Rightarrow> nat) ys)"
  by (metis mset_map sum_mset_sum_list)

lemma nth_in_set: "i < length xs \<Longrightarrow> xs ! i \<in> set xs"
  by simp

lemma find_Some_iff_mem:
  "List.find P xs = Some x \<Longrightarrow> x \<in> set xs \<and> P x"
  by (auto simp: find_Some_iff)

lemma find_distinct_key:
  "\<lbrakk>x \<in> set xs; distinct (map key xs)\<rbrakk> \<Longrightarrow> List.find (\<lambda>y. key y = key x) xs = Some x"
proof (induction xs)
  case (Cons y ys)
  then show ?case by (auto simp: image_iff)
qed simp

end
