(* ===== verification/FG_Core.thy ===== *)
theory FG_Core
  imports FG_Prelude
begin

text \<open>
  The core layer: status codes and results (\<open>core/status.hpp\<close>), typed identities and generations
  (\<open>core/ids.hpp\<close>), the bounded-domain limits (\<open>core/limits.hpp\<close>) and checked integer arithmetic
  (\<open>core/checked.hpp\<close>).

  A \<open>Status\<close> is modelled by its code: its detail text is a human-readable diagnostic and carries
  no authority. A function that returns \<open>Status\<close> returns a \<open>StatusCode\<close>, with \<open>Ok\<close> for
  success; a function that returns \<open>Result<T>\<close> returns \<open>StatusCode + 'a\<close>, with \<open>Inl\<close> for a failure.
  The strongly typed \<open>Id\<close> and \<open>Generation\<close> wrappers are their 64-bit values.
\<close>

section \<open>Status codes and results\<close>

datatype (plugins only: code size) StatusCode =
    Ok
  | InvalidArgument | OutOfRange | NotFound | AlreadyExists | Duplicate | Conflict
  | NotInitialized | Unsupported | Internal
  | StaleGeneration | StaleEpoch | StaleIncarnation | StaleEvidence | EvidenceMissing
  | EvidenceContradictory | AuthorityMismatch | IncarnationMismatch
  | PolicyInvalid | PolicyGenerationMismatch | PolicyOvercommit | GroupCycle
  | GroupDepthExceeded | SubjectGenerationMismatch
  | ArithmeticOverflow | ArithmeticUnderflow | DivideByZero | LimitExceeded
  | IoError | CorruptRecord | UnsupportedFormat | Truncated | ChecksumMismatch
  | OversizedPayload | CommitRejected | RecoveryRequired
  | TransportError | FrameInvalid | FrameTooLarge | HandshakeRejected | SequenceViolation
  | LinkClosed | LinkBusy | IdleTimeout
  | ShuttingDown | Cancelled | Busy

type_synonym 'a result = "StatusCode + 'a"

section \<open>Identities and generations\<close>

type_synonym Id = u64
type_synonym Generation = u64

definition id_valid :: "Id \<Rightarrow> bool" where
  "id_valid v \<longleftrightarrow> v \<noteq> 0"

definition generation_valid :: "Generation \<Rightarrow> bool" where
  "generation_valid v \<longleftrightarrow> v \<noteq> 0"

definition generation_next :: "Generation \<Rightarrow> Generation" where
  "generation_next g = (if g = - 1 then g else g + 1)"

record Incarnation =
  inc_boot :: Id
  inc_ordinal :: u64

definition incarnation_valid :: "Incarnation \<Rightarrow> bool" where
  "incarnation_valid i \<longleftrightarrow> id_valid (inc_boot i) \<and> inc_ordinal i \<noteq> 0"

section \<open>Limits\<close>

definition kMaxServiceUnits :: u64 where "kMaxServiceUnits = push_bit 40 1"
definition kMaxSubjects :: u32 where "kMaxSubjects = 4096"
definition kMaxGroups :: u32 where "kMaxGroups = 256"
definition kMaxGroupDepth :: u32 where "kMaxGroupDepth = 8"
definition kMaxShareWeight :: u32 where "kMaxShareWeight = 0x7FFFFFFF"
definition kMaxCarryUnits :: u64 where "kMaxCarryUnits = push_bit 48 1"
definition kMaxCorrectiveIntents :: u32 where "kMaxCorrectiveIntents = 2 * 4096"
definition kMaxEvidenceRecords :: u32 where "kMaxEvidenceRecords = 4096"
definition kMaxHistoryWindows :: u32 where "kMaxHistoryWindows = 1024"
definition kMaxDurablePayloadBytes :: u64 where "kMaxDurablePayloadBytes = push_bit 22 1"
definition kMaxFramePayloadBytes :: u32 where "kMaxFramePayloadBytes = push_bit 20 1 - 1"
definition kBasisPointScale :: i64 where "kBasisPointScale = 10000"
definition kMaxPriorityModifierBps :: i32 where "kMaxPriorityModifierBps = 100000"

lemma limits_unat [simp]:
  "unat kMaxServiceUnits = 2 ^ 40"
  "unat kMaxSubjects = 4096"
  "unat kMaxGroups = 256"
  "unat kMaxGroupDepth = 8"
  "unat kMaxShareWeight = 2 ^ 31 - 1"
  "unat kMaxCarryUnits = 2 ^ 48"
  "unat kMaxCorrectiveIntents = 8192"
  "unat kMaxEvidenceRecords = 4096"
  "unat kMaxDurablePayloadBytes = 2 ^ 22"
  "unat kBasisPointScale = 10000"
  "unat kMaxPriorityModifierBps = 100000"
  by (simp_all add: kMaxServiceUnits_def kMaxSubjects_def kMaxGroups_def kMaxGroupDepth_def
      kMaxShareWeight_def kMaxCarryUnits_def kMaxCorrectiveIntents_def kMaxEvidenceRecords_def
      kMaxDurablePayloadBytes_def kBasisPointScale_def kMaxPriorityModifierBps_def push_bit_eq_mult)

section \<open>Checked arithmetic\<close>

text \<open>The C++ helpers return \<open>false\<close> and leave \<open>out\<close> untouched on overflow; here they return
  \<open>None\<close>. The type variable is the unsigned type the template is used at.\<close>

definition checked_add :: "'a::len word \<Rightarrow> 'a word \<Rightarrow> 'a word option" where
  "checked_add a b = (if a > (- 1) - b then None else Some (a + b))"

definition checked_mul :: "'a::len word \<Rightarrow> 'a word \<Rightarrow> 'a word option" where
  "checked_mul a b = (if a \<noteq> 0 \<and> b > (- 1) div a then None else Some (a * b))"

definition checked_sub :: "'a::len word \<Rightarrow> 'a word \<Rightarrow> 'a word option" where
  "checked_sub a b = (if b > a then None else Some (a - b))"

definition int64_max :: i64 where "int64_max = 0x7FFFFFFFFFFFFFFF"
definition int64_min :: i64 where "int64_min = 0x8000000000000000"

definition checked_add_signed :: "i64 \<Rightarrow> i64 \<Rightarrow> i64 option" where
  "checked_add_signed a b =
     (if 0 <s b \<and> int64_max - b <s a then None
      else if b <s 0 \<and> a <s int64_min - b then None
      else Some (a + b))"

definition checked_sub_signed :: "i64 \<Rightarrow> i64 \<Rightarrow> i64 option" where
  "checked_sub_signed a b =
     (if b = int64_min then None else checked_add_signed a (- b))"

text \<open>C++ \<open>/\<close> on \<open>int64_t\<close> truncates towards zero.\<close>

definition i64_div :: "i64 \<Rightarrow> i64 \<Rightarrow> i64" where
  "i64_div a b = word_of_int (sint a sdiv sint b)"

definition checked_mul_signed :: "i64 \<Rightarrow> i64 \<Rightarrow> i64 option" where
  "checked_mul_signed a b =
     (if a = 0 \<or> b = 0 then Some 0
      else if a = - 1 \<and> b = int64_min then None
      else if b = - 1 \<and> a = int64_min then None
      else if 0 <s a then
        (if 0 <s b
         then (if i64_div int64_max b <s a then None else Some (a * b))
         else (if b <s i64_div int64_min a then None else Some (a * b)))
      else
        (if 0 <s b
         then (if a <s i64_div int64_min b then None else Some (a * b))
         else (if a \<noteq> 0 \<and> b <s i64_div int64_max a then None else Some (a * b))))"

definition magnitude :: "i64 \<Rightarrow> u64" where
  "magnitude v = (if 0 \<le>s v then v else (- (v + 1)) + 1)"

definition saturating_add :: "u64 \<Rightarrow> u64 \<Rightarrow> u64" where
  "saturating_add a b = (case checked_add a b of None \<Rightarrow> - 1 | Some c \<Rightarrow> c)"

section \<open>What checked arithmetic guarantees\<close>

lemma checked_add_eq:
  "checked_add a b =
     (if unat a + unat b < 2 ^ LENGTH('a) then Some (a + b) else None)"
  for a b :: "'a::len word"
proof -
  have "unat ((- 1) - b) = 2 ^ LENGTH('a) - 1 - unat b"
    by (simp add: unat_minus_exact unat_max_word)
  then have "a > (- 1) - b \<longleftrightarrow> \<not> unat a + unat b < 2 ^ LENGTH('a)"
    unfolding word_less_nat_alt using unat_bounded [of b] by arith
  then show ?thesis by (simp add: checked_add_def)
qed

lemma checked_add_SomeD:
  "checked_add a b = Some c \<Longrightarrow> c = a + b \<and> unat c = unat a + unat b"
  by (auto simp: checked_add_eq unat_plus_exact split: if_splits)

lemma checked_add_NoneD:
  "checked_add (a :: 'a::len word) b = None \<Longrightarrow> 2 ^ LENGTH('a) \<le> unat a + unat b"
  by (simp add: checked_add_eq split: if_splits)

lemma checked_add_exact:
  "unat a + unat b < 2 ^ LENGTH('a) \<Longrightarrow> checked_add (a :: 'a::len word) b = Some (a + b)"
  by (simp add: checked_add_eq)

lemma checked_mul_eq:
  "checked_mul a b =
     (if unat a * unat b < 2 ^ LENGTH('a) then Some (a * b) else None)"
  for a b :: "'a::len word"
proof (cases "a = 0")
  case True
  then show ?thesis by (simp add: checked_mul_def)
next
  case False
  then have "0 < unat a" by (simp add: unat_gt_0)
  have "unat ((- 1) div a) = (2 ^ LENGTH('a) - 1) div unat a"
    by (simp add: unat_div_distrib unat_max_word)
  moreover have "unat b \<le> (2 ^ LENGTH('a) - 1) div unat a \<longleftrightarrow> unat b * unat a \<le> 2 ^ LENGTH('a) - 1"
    using \<open>0 < unat a\<close> by (simp add: less_eq_div_iff_mult_less_eq)
  moreover have "unat b * unat a \<le> 2 ^ LENGTH('a) - 1 \<longleftrightarrow> unat a * unat b < 2 ^ LENGTH('a)"
    by (metis Suc_pred' less_Suc_eq_le mult.commute zero_less_numeral zero_less_power)
  ultimately have "b > (- 1) div a \<longleftrightarrow> \<not> unat a * unat b < 2 ^ LENGTH('a)"
    by (simp add: word_less_nat_alt not_le [symmetric])
  with False show ?thesis by (simp add: checked_mul_def)
qed

lemma checked_mul_SomeD:
  "checked_mul a b = Some c \<Longrightarrow> unat c = unat a * unat b"
  by (auto simp: checked_mul_eq unat_times_exact split: if_splits)

lemma checked_sub_SomeD:
  "checked_sub a b = Some c \<Longrightarrow> unat b \<le> unat a \<and> unat c = unat a - unat b"
  by (auto simp: checked_sub_def unat_minus_exact word_le_nat_alt not_less split: if_splits)

lemma sint_plus_exact:
  "\<lbrakk>- (2 ^ (LENGTH('a) - 1)) \<le> sint a + sint b; sint a + sint b < 2 ^ (LENGTH('a) - 1)\<rbrakk>
   \<Longrightarrow> sint (a + b :: 'a::len word) = sint a + sint b"
  by (simp add: sint_word_ariths signed_take_bit_int_eq_self)

lemma sint_minus_exact:
  "\<lbrakk>- (2 ^ (LENGTH('a) - 1)) \<le> sint a - sint b; sint a - sint b < 2 ^ (LENGTH('a) - 1)\<rbrakk>
   \<Longrightarrow> sint (a - b :: 'a::len word) = sint a - sint b"
  by (simp add: sint_word_ariths signed_take_bit_int_eq_self)

lemma sint_i64_range: "- (2 ^ 63) \<le> sint (w :: i64) \<and> sint w < 2 ^ 63"
  using sint_range_size [of w] by (simp add: word_size)

lemma uint_eq_sint: "uint (w :: i64) = (if 0 \<le> sint w then sint w else sint w + 2 ^ 64)"
proof -
  have "uint w = sint w mod 2 ^ 64"
    by (simp add: uint_sint take_bit_eq_mod)
  moreover have "sint w mod 2 ^ 64 = (if 0 \<le> sint w then sint w else sint w + 2 ^ 64)"
  proof (cases "0 \<le> sint w")
    case True
    then show ?thesis using sint_i64_range [of w] by simp
  next
    case False
    then have "(sint w + 2 ^ 64) mod 2 ^ 64 = sint w + 2 ^ 64"
      using sint_i64_range [of w] by (intro mod_pos_pos_trivial) auto
    with False show ?thesis by (metis mod_add_self2)
  qed
  ultimately show ?thesis by simp
qed

lemma sint_small: "unat w < 2 ^ 63 \<Longrightarrow> sint (w :: i64) = int (unat w)"
  using uint_eq_sint [of w] sint_i64_range [of w] by (simp add: unat_eq_nat_uint split: if_splits)

lemma int64_limits [simp]: "sint int64_max = 2 ^ 63 - 1" "sint int64_min = - (2 ^ 63)"
  by (simp_all add: int64_max_def int64_min_def)

lemma checked_add_signed_eq:
  "checked_add_signed a b =
     (if - (2 ^ 63) \<le> sint a + sint b \<and> sint a + sint b < 2 ^ 63 then Some (a + b) else None)"
proof -
  have up: "sint (int64_max - b) = 2 ^ 63 - 1 - sint b" if "0 < sint b"
    using that sint_i64_range [of b] by (simp add: sint_minus_exact)
  have dn: "sint (int64_min - b) = - (2 ^ 63) - sint b" if "sint b < 0"
    using that sint_i64_range [of b] by (simp add: sint_minus_exact)
  show ?thesis
    using up dn sint_i64_range [of a] sint_i64_range [of b]
    by (auto simp: checked_add_signed_def word_sless_alt)
qed

lemma checked_add_signed_SomeD:
  "checked_add_signed a b = Some c \<Longrightarrow> sint c = sint a + sint b"
  by (auto simp: checked_add_signed_eq sint_plus_exact split: if_splits)

lemma sint_uminus_exact: "b \<noteq> int64_min \<Longrightarrow> sint (- b) = - sint b"
proof -
  assume "b \<noteq> int64_min"
  then have "sint b \<noteq> - (2 ^ 63)" by (metis int64_limits(2) signed_word_eqI)
  then show ?thesis using sint_minus_exact [of 0 b] sint_i64_range [of b] by simp
qed

lemma checked_sub_signed_SomeD:
  "checked_sub_signed a b = Some c \<Longrightarrow> sint c = sint a - sint b"
  by (auto simp: checked_sub_signed_def sint_uminus_exact dest: checked_add_signed_SomeD
      split: if_splits)

lemma checked_sub_signed_exact:
  "\<lbrakk>b \<noteq> int64_min; - (2 ^ 63) \<le> sint a - sint b; sint a - sint b < 2 ^ 63\<rbrakk>
   \<Longrightarrow> checked_sub_signed a b = Some (a - b)"
  by (simp add: checked_sub_signed_def checked_add_signed_eq sint_uminus_exact)

lemma unat_magnitude: "unat (magnitude v) = nat \<bar>sint v\<bar>"
proof (cases "0 \<le> sint v")
  case True
  then show ?thesis using uint_eq_sint [of v] by (simp add: magnitude_def word_sle_eq unat_eq_nat_uint)
next
  case False
  then have "uint v = sint v + 2 ^ 64"
    by (simp add: uint_eq_sint)
  then have "uint (- v) = (- sint v - 2 ^ 64) mod 2 ^ 64"
    using uint_word_arith_bintrs(4) [of v] by (simp add: take_bit_eq_mod)
  also have "\<dots> = (- sint v) mod 2 ^ 64"
    by (rule minus_mod_self2)
  also have "\<dots> = - sint v"
    using False sint_i64_range [of v] by (intro mod_pos_pos_trivial) auto
  finally have "unat (- v) = nat (- sint v)"
    by (simp only: unat_eq_nat_uint)
  with False show ?thesis by (simp add: magnitude_def word_sle_eq)
qed

end
