(* ===== verification/FG_Policy.thy ===== *)
theory FG_Policy
  imports FG_Core
begin

text \<open>
  The fairness policy (\<open>model/refs.hpp\<close>, \<open>model/policy.hpp\<close>, \<open>model/policy.cpp\<close>): groups that form a
  forest, the subjects that compete inside them, and the bounds of a corrective plan. The validation
  is modelled check by check in the order of the code; \<open>policy_wf\<close> is what it promises, and the two
  are proved equivalent, which also shows that the overflow checks of the validation never fire.
\<close>

section \<open>Data\<close>

type_synonym cpp_string = "u8 list"

record Provenance =
  pv_revision :: u64
  pv_source :: cpp_string
  pv_source_digest :: u64
  pv_captured_at_ns :: i64

definition provenance_bound :: "Provenance \<Rightarrow> bool" where
  "provenance_bound p \<longleftrightarrow> pv_source_digest p \<noteq> 0 \<and> pv_revision p \<noteq> 0"

record PriorityClassRef =
  pr_id :: Id
  pr_generation :: Generation

definition priority_present :: "PriorityClassRef \<Rightarrow> bool" where
  "priority_present r \<longleftrightarrow> id_valid (pr_id r)"

definition priority_consistent :: "PriorityClassRef \<Rightarrow> bool" where
  "priority_consistent r \<longleftrightarrow> id_valid (pr_id r) = generation_valid (pr_generation r)"

record QosClassRef =
  qos_id :: Id
  qos_generation :: Generation

definition qos_present :: "QosClassRef \<Rightarrow> bool" where
  "qos_present r \<longleftrightarrow> id_valid (qos_id r)"

definition qos_consistent :: "QosClassRef \<Rightarrow> bool" where
  "qos_consistent r \<longleftrightarrow> id_valid (qos_id r) = generation_valid (qos_generation r)"

record ProducerIdentity =
  pd_name :: cpp_string
  pd_instance :: u64
  pd_version :: u64

record FairnessGroup =
  fg_id :: Id
  fg_generation :: Generation
  fg_parent :: Id
  fg_share_weight :: u32
  fg_guarantee_floor :: u64
  fg_obligation_rank :: u32
  fg_protected_obligation :: bool
  fg_label :: cpp_string

record Subject =
  sb_id :: Id
  sb_generation :: Generation
  sb_group :: Id
  sb_tenant :: Id
  sb_share_weight :: u32
  sb_guarantee_floor :: u64
  sb_starvation_windows :: u32
  sb_guarantee_starvation_windows :: u32
  sb_priority :: PriorityClassRef
  sb_qos :: QosClassRef
  sb_priority_modifier_bps :: i32
  sb_priority_rank :: u32
  sb_obligation_rank :: u32
  sb_protected_obligation :: bool
  sb_max_reduce_units :: u64
  sb_max_augment_units :: u64
  sb_label :: cpp_string

record FairnessPolicy =
  fp_id :: Id
  fp_generation :: Generation
  fp_epoch :: Generation
  fp_window_units :: u64
  fp_fair_band_units :: u64
  fp_correction_threshold_units :: u64
  fp_cooldown_windows :: u32
  fp_max_correction_units :: u64
  fp_max_correction_bps :: u32
  fp_max_priority_modifier_bps :: u32
  fp_max_evidence_age_windows :: u32
  fp_max_evidence_age_ns :: u64
  fp_max_carry_units :: u64
  fp_enforce_guarantee_floors :: bool
  fp_groups :: "FairnessGroup list"
  fp_subjects :: "Subject list"
  fp_provenance :: Provenance

definition find_subject :: "FairnessPolicy \<Rightarrow> Id \<Rightarrow> Subject option" where
  "find_subject policy wanted = List.find (\<lambda>s. sb_id s = wanted) (fp_subjects policy)"

definition find_group :: "FairnessPolicy \<Rightarrow> Id \<Rightarrow> FairnessGroup option" where
  "find_group policy wanted = List.find (\<lambda>g. fg_id g = wanted) (fp_groups policy)"

section \<open>Validation\<close>

text \<open>A sequence of guarded early returns: the code of the first guard that holds, else \<open>Ok\<close>.\<close>

fun first_fail :: "(bool \<times> StatusCode) list \<Rightarrow> StatusCode" where
  "first_fail [] = Ok"
| "first_fail ((guard, code) # rest) = (if guard then code else first_fail rest)"

fun first_fail_each :: "('a \<Rightarrow> StatusCode) \<Rightarrow> 'a list \<Rightarrow> StatusCode" where
  "first_fail_each check [] = Ok"
| "first_fail_each check (x # xs) =
     (if check x = Ok then first_fail_each check xs else check x)"

definition kMaxLabelBytes :: nat where "kMaxLabelBytes = 128"

definition weight_sum_fits :: "u64 \<Rightarrow> u32 \<Rightarrow> u64 option" where
  "weight_sum_fits accumulator weight = checked_add accumulator (ucast weight)"

definition check_header :: "FairnessPolicy \<Rightarrow> StatusCode" where
  "check_header policy = first_fail
     [(\<not> id_valid (fp_id policy), PolicyInvalid),
      (\<not> generation_valid (fp_generation policy), PolicyInvalid),
      (\<not> generation_valid (fp_epoch policy), PolicyInvalid),
      (unat kMaxGroups < length (fp_groups policy), LimitExceeded),
      (fp_subjects policy = [], PolicyInvalid),
      (unat kMaxSubjects < length (fp_subjects policy), LimitExceeded),
      (kMaxServiceUnits < fp_fair_band_units policy, OutOfRange),
      (kMaxServiceUnits < fp_correction_threshold_units policy, OutOfRange),
      (fp_correction_threshold_units policy < fp_fair_band_units policy, PolicyInvalid),
      (kMaxServiceUnits * ucast kMaxSubjects < fp_max_correction_units policy, OutOfRange),
      (100000 < fp_max_correction_bps policy, OutOfRange),
      (kMaxPriorityModifierBps < fp_max_priority_modifier_bps policy, OutOfRange),
      (fp_max_evidence_age_windows policy = 0, PolicyInvalid),
      (1000000 < fp_max_evidence_age_windows policy, OutOfRange),
      (kMaxCarryUnits < fp_max_carry_units policy, OutOfRange),
      (kMaxLabelBytes < length (pv_source (fp_provenance policy)), LimitExceeded)]"

text \<open>The hash index from group identity to position; \<open>emplace\<close> refuses a key that is present.\<close>

type_synonym group_index = "(u64 \<times> nat) list"

definition check_group :: "group_index \<Rightarrow> FairnessGroup \<Rightarrow> StatusCode" where
  "check_group index grp = first_fail
     [(\<not> id_valid (fg_id grp), PolicyInvalid),
      (\<not> generation_valid (fg_generation grp), PolicyInvalid),
      (map_of index (fg_id grp) \<noteq> None, AlreadyExists),
      (fg_share_weight grp = 0 \<or> kMaxShareWeight < fg_share_weight grp, OutOfRange),
      (kMaxServiceUnits < fg_guarantee_floor grp, OutOfRange),
      (fg_protected_obligation grp \<and> fg_obligation_rank grp = 0, PolicyInvalid),
      (kMaxLabelBytes < length (fg_label grp), LimitExceeded)]"

fun check_groups :: "FairnessGroup list \<Rightarrow> nat \<Rightarrow> group_index \<Rightarrow> group_index result" where
  "check_groups [] i index = Inr index"
| "check_groups (grp # rest) i index =
     (if check_group index grp \<noteq> Ok then Inl (check_group index grp)
      else check_groups rest (Suc i) ((fg_id grp, i) # index))"

definition check_parent :: "group_index \<Rightarrow> FairnessGroup \<Rightarrow> StatusCode" where
  "check_parent index grp =
     (if \<not> id_valid (fg_parent grp) then Ok
      else first_fail
        [(map_of index (fg_parent grp) = None, NotFound),
         (fg_parent grp = fg_id grp, GroupCycle)])"

text \<open>The walk to the root; \<open>depth\<close> counts the groups visited so far.\<close>

function check_depth :: "FairnessPolicy \<Rightarrow> group_index \<Rightarrow> nat \<Rightarrow> Id \<Rightarrow> StatusCode" where
  "check_depth policy index depth cursor =
     (if unat kMaxGroupDepth < Suc depth then GroupDepthExceeded
      else case map_of index cursor of
             None \<Rightarrow> NotFound
           | Some i \<Rightarrow>
               (if \<not> id_valid (fg_parent (fp_groups policy ! i)) then Ok
                else check_depth policy index (Suc depth) (fg_parent (fp_groups policy ! i))))"
  by pat_completeness auto
termination
  by (relation "measure (\<lambda>(policy, index, depth, cursor). unat kMaxGroupDepth - depth)") auto

declare check_depth.simps [simp del]

text \<open>The magnitude of a subject's modifier, cast to 32 bits.\<close>

definition modifier_magnitude :: "i32 \<Rightarrow> u32" where
  "modifier_magnitude m =
     ucast (if m <s 0 then - (scast m :: i64) else scast m :: i64)"

definition check_subject :: "FairnessPolicy \<Rightarrow> group_index \<Rightarrow> Id list \<Rightarrow> Subject \<Rightarrow> StatusCode" where
  "check_subject policy index subject_ids subject = first_fail
     [(\<not> id_valid (sb_id subject), PolicyInvalid),
      (\<not> generation_valid (sb_generation subject), PolicyInvalid),
      (sb_id subject \<in> set subject_ids, AlreadyExists),
      (\<not> id_valid (sb_group subject), PolicyInvalid),
      (map_of index (sb_group subject) = None, NotFound),
      (sb_share_weight subject = 0 \<or> kMaxShareWeight < sb_share_weight subject, OutOfRange),
      (kMaxServiceUnits < sb_guarantee_floor subject, OutOfRange),
      (1000000 < sb_starvation_windows subject \<or>
       1000000 < sb_guarantee_starvation_windows subject, OutOfRange),
      (\<not> priority_consistent (sb_priority subject), PolicyInvalid),
      (\<not> qos_consistent (sb_qos subject), PolicyInvalid),
      (sb_protected_obligation subject \<and> sb_obligation_rank subject = 0, PolicyInvalid),
      (fp_max_priority_modifier_bps policy
         < modifier_magnitude (sb_priority_modifier_bps subject), OutOfRange),
      (kMaxPriorityModifierBps < modifier_magnitude (sb_priority_modifier_bps subject), OutOfRange),
      (kMaxServiceUnits < sb_max_reduce_units subject, OutOfRange),
      (kMaxServiceUnits < sb_max_augment_units subject, OutOfRange),
      (kMaxLabelBytes < length (sb_label subject), LimitExceeded)]"

fun check_subjects ::
    "FairnessPolicy \<Rightarrow> group_index \<Rightarrow> Subject list \<Rightarrow> Id list \<Rightarrow> StatusCode" where
  "check_subjects policy index [] subject_ids = Ok"
| "check_subjects policy index (subject # rest) subject_ids =
     (if check_subject policy index subject_ids subject \<noteq> Ok
      then check_subject policy index subject_ids subject
      else check_subjects policy index rest (sb_id subject # subject_ids))"

definition group_subject_weight_sum :: "FairnessPolicy \<Rightarrow> Id \<Rightarrow> u64" where
  "group_subject_weight_sum policy grp =
     fold (\<lambda>s acc. if sb_group s = grp then acc + ucast (sb_share_weight s) else acc)
       (fp_subjects policy) 0"

fun weights_fit :: "u32 list \<Rightarrow> u64 \<Rightarrow> bool" where
  "weights_fit [] acc = True"
| "weights_fit (w # ws) acc =
     (case weight_sum_fits acc w of None \<Rightarrow> False | Some acc' \<Rightarrow> weights_fit ws acc')"

definition child_groups :: "FairnessPolicy \<Rightarrow> Id \<Rightarrow> FairnessGroup list" where
  "child_groups policy gid = filter (\<lambda>c. fg_parent c = gid) (fp_groups policy)"

definition member_subjects :: "FairnessPolicy \<Rightarrow> Id \<Rightarrow> Subject list" where
  "member_subjects policy gid = filter (\<lambda>s. sb_group s = gid) (fp_subjects policy)"

definition check_weights :: "FairnessPolicy \<Rightarrow> FairnessGroup \<Rightarrow> StatusCode" where
  "check_weights policy grp = first_fail
     [(\<not> weights_fit (map fg_share_weight (child_groups policy (fg_id grp))) 0, ArithmeticOverflow),
      (group_subject_weight_sum policy (fg_id grp) = 0, PolicyInvalid),
      (\<not> weights_fit (map sb_share_weight (member_subjects policy (fg_id grp))) 0,
       ArithmeticOverflow)]"

fun floor_sum_loop :: "u64 list \<Rightarrow> u64 \<Rightarrow> u64 option" where
  "floor_sum_loop [] acc = Some acc"
| "floor_sum_loop (f # fs) acc =
     (case checked_add acc f of None \<Rightarrow> None | Some acc' \<Rightarrow> floor_sum_loop fs acc')"

definition check_floors :: "FairnessPolicy \<Rightarrow> FairnessGroup \<Rightarrow> StatusCode" where
  "check_floors policy grp =
     (if fg_guarantee_floor grp = 0 then Ok
      else case floor_sum_loop
                  (map fg_guarantee_floor (child_groups policy (fg_id grp)) @
                   map sb_guarantee_floor (member_subjects policy (fg_id grp))) 0 of
             None \<Rightarrow> ArithmeticOverflow
           | Some child_floors \<Rightarrow>
               (if fg_guarantee_floor grp < child_floors then PolicyOvercommit else Ok))"

text \<open>The phases after the index is built, each a loop over the groups or the subjects.\<close>

definition check_structure :: "FairnessPolicy \<Rightarrow> group_index \<Rightarrow> StatusCode" where
  "check_structure policy index =
     (let parents = first_fail_each (check_parent index) (fp_groups policy) in
      if parents \<noteq> Ok then parents else
      let depths = first_fail_each (\<lambda>g. check_depth policy index 0 (fg_id g)) (fp_groups policy) in
      if depths \<noteq> Ok then depths else
      let subjects = check_subjects policy index (fp_subjects policy) [] in
      if subjects \<noteq> Ok then subjects else
      let weights = first_fail_each (check_weights policy) (fp_groups policy) in
      if weights \<noteq> Ok then weights else
      first_fail_each (check_floors policy) (fp_groups policy))"

definition validate_policy :: "FairnessPolicy \<Rightarrow> StatusCode" where
  "validate_policy policy =
     (if check_header policy \<noteq> Ok then check_header policy
      else case check_groups (fp_groups policy) 0 [] of
             Inl code \<Rightarrow> code
           | Inr index \<Rightarrow> check_structure policy index)"

text \<open>\<open>group_depths\<close>: the same walk, which breaks out instead of reporting.\<close>

definition index_groups :: "FairnessPolicy \<Rightarrow> group_index" where
  "index_groups policy =
     fold (\<lambda>(g, i) index. if map_of index (fg_id g) = None then (fg_id g, i) # index else index)
       (zip (fp_groups policy) [0..<length (fp_groups policy)]) []"

function depth_of :: "FairnessPolicy \<Rightarrow> group_index \<Rightarrow> nat \<Rightarrow> nat \<Rightarrow> nat" where
  "depth_of policy index depth cursor =
     (if \<not> id_valid (fg_parent (fp_groups policy ! cursor)) then Suc depth
      else case map_of index (fg_parent (fp_groups policy ! cursor)) of
             None \<Rightarrow> Suc depth
           | Some next \<Rightarrow>
               (if unat kMaxGroupDepth + 1 < Suc depth then Suc depth
                else depth_of policy index (Suc depth) next))"
  by pat_completeness auto
termination
  by (relation "measure (\<lambda>(policy, index, depth, cursor). unat kMaxGroupDepth + 1 - depth)") auto

declare depth_of.simps [simp del]

definition group_depths :: "FairnessPolicy \<Rightarrow> u32 list" where
  "group_depths policy =
     map (\<lambda>i. of_nat (depth_of policy (index_groups policy) 0 i)) [0..<length (fp_groups policy)]"

section \<open>What a validated policy satisfies\<close>

text \<open>The depth of a group in the forest: a root has depth 1.\<close>

inductive group_depth :: "FairnessPolicy \<Rightarrow> Id \<Rightarrow> nat \<Rightarrow> bool" for policy where
  root: "\<lbrakk>find_group policy gid = Some g; \<not> id_valid (fg_parent g)\<rbrakk> \<Longrightarrow> group_depth policy gid 1"
| child: "\<lbrakk>find_group policy gid = Some g; id_valid (fg_parent g); group_depth policy (fg_parent g) d\<rbrakk>
          \<Longrightarrow> group_depth policy gid (Suc d)"

inductive_cases group_depthE: "group_depth policy gid d"

definition group_wf :: "FairnessGroup \<Rightarrow> bool" where
  "group_wf g \<longleftrightarrow> fg_id g \<noteq> 0 \<and> fg_generation g \<noteq> 0 \<and> fg_share_weight g \<noteq> 0 \<and>
     fg_share_weight g \<le> kMaxShareWeight \<and> fg_guarantee_floor g \<le> kMaxServiceUnits \<and>
     (fg_protected_obligation g \<longrightarrow> fg_obligation_rank g \<noteq> 0) \<and> length (fg_label g) \<le> kMaxLabelBytes"

definition subject_wf :: "FairnessPolicy \<Rightarrow> Subject \<Rightarrow> bool" where
  "subject_wf p s \<longleftrightarrow> sb_id s \<noteq> 0 \<and> sb_generation s \<noteq> 0 \<and> sb_group s \<noteq> 0 \<and>
     sb_share_weight s \<noteq> 0 \<and> sb_share_weight s \<le> kMaxShareWeight \<and>
     sb_guarantee_floor s \<le> kMaxServiceUnits \<and>
     sb_starvation_windows s \<le> 1000000 \<and> sb_guarantee_starvation_windows s \<le> 1000000 \<and>
     priority_consistent (sb_priority s) \<and> qos_consistent (sb_qos s) \<and>
     (sb_protected_obligation s \<longrightarrow> sb_obligation_rank s \<noteq> 0) \<and>
     modifier_magnitude (sb_priority_modifier_bps s) \<le> fp_max_priority_modifier_bps p \<and>
     modifier_magnitude (sb_priority_modifier_bps s) \<le> kMaxPriorityModifierBps \<and>
     sb_max_reduce_units s \<le> kMaxServiceUnits \<and> sb_max_augment_units s \<le> kMaxServiceUnits \<and>
     length (sb_label s) \<le> kMaxLabelBytes"

definition header_wf :: "FairnessPolicy \<Rightarrow> bool" where
  "header_wf p \<longleftrightarrow> fp_id p \<noteq> 0 \<and> fp_generation p \<noteq> 0 \<and> fp_epoch p \<noteq> 0 \<and>
     length (fp_groups p) \<le> 256 \<and> fp_subjects p \<noteq> [] \<and> length (fp_subjects p) \<le> 4096 \<and>
     fp_fair_band_units p \<le> fp_correction_threshold_units p \<and>
     fp_correction_threshold_units p \<le> kMaxServiceUnits \<and>
     fp_max_correction_units p \<le> kMaxServiceUnits * 4096 \<and> fp_max_correction_bps p \<le> 100000 \<and>
     fp_max_priority_modifier_bps p \<le> kMaxPriorityModifierBps \<and>
     fp_max_evidence_age_windows p \<noteq> 0 \<and> fp_max_evidence_age_windows p \<le> 1000000 \<and>
     fp_max_carry_units p \<le> kMaxCarryUnits \<and>
     length (pv_source (fp_provenance p)) \<le> kMaxLabelBytes"

text \<open>The floors of the direct children fit inside a declared group floor.\<close>

definition floors_coherent :: "FairnessPolicy \<Rightarrow> FairnessGroup \<Rightarrow> bool" where
  "floors_coherent p g \<longleftrightarrow> (fg_guarantee_floor g \<noteq> 0 \<longrightarrow>
     nsum (map fg_guarantee_floor (child_groups p (fg_id g))) +
     nsum (map sb_guarantee_floor (member_subjects p (fg_id g))) \<le> unat (fg_guarantee_floor g))"

definition policy_wf :: "FairnessPolicy \<Rightarrow> bool" where
  "policy_wf p \<longleftrightarrow> header_wf p \<and>
     distinct (map fg_id (fp_groups p)) \<and> (\<forall>g\<in>set (fp_groups p). group_wf g) \<and>
     (\<forall>g\<in>set (fp_groups p). \<exists>d\<le>8. group_depth p (fg_id g) d) \<and>
     distinct (map sb_id (fp_subjects p)) \<and> (\<forall>s\<in>set (fp_subjects p). subject_wf p s) \<and>
     (\<forall>s\<in>set (fp_subjects p). find_group p (sb_group s) \<noteq> None) \<and>
     (\<forall>g\<in>set (fp_groups p). member_subjects p (fg_id g) \<noteq> []) \<and>
     (\<forall>g\<in>set (fp_groups p). floors_coherent p g)"

section \<open>The validation decides well-formedness\<close>

lemma check_header_iff: "check_header p = Ok \<longleftrightarrow> header_wf p"
proof -
  have "(kMaxServiceUnits * ucast kMaxSubjects :: u64) = kMaxServiceUnits * 4096"
    by (simp add: kMaxSubjects_def)
  then show ?thesis
    by (simp add: check_header_def header_wf_def id_valid_def generation_valid_def not_less)
       (auto intro: order_trans)
qed

lemma first_fail_each_iff: "first_fail_each check xs = Ok \<longleftrightarrow> (\<forall>x\<in>set xs. check x = Ok)"
  by (induction xs) auto

lemma seq_Ok: "(if c \<noteq> Ok then c else rest) = Ok \<longleftrightarrow> c = Ok \<and> rest = Ok"
  by simp

lemma check_group_iff: "check_group index g = Ok \<longleftrightarrow> group_wf g \<and> map_of index (fg_id g) = None"
  by (auto simp: check_group_def group_wf_def id_valid_def generation_valid_def not_less)

lemma check_groups_InrD:
  "check_groups gs i index = Inr index' \<Longrightarrow> index' = rev (zip (map fg_id gs) [i..<i + length gs]) @ index"
proof (induction gs arbitrary: i index)
  case (Cons g gs)
  then have "check_groups gs (Suc i) ((fg_id g, i) # index) = Inr index'"
    by (simp split: if_splits)
  then have "index' = rev (zip (map fg_id gs) [Suc i..<Suc i + length gs]) @ (fg_id g, i) # index"
    by (rule Cons.IH)
  moreover have "[i..<i + length (g # gs)] = i # [Suc i..<Suc i + length gs]"
    using upt_conv_Cons [of i "i + length (g # gs)"] by simp
  ultimately show ?case by simp
qed simp

lemma check_groups_iff:
  "(\<exists>index'. check_groups gs i index = Inr index') \<longleftrightarrow>
   (\<forall>g\<in>set gs. group_wf g) \<and> distinct (map fg_id gs) \<and> (\<forall>g\<in>set gs. map_of index (fg_id g) = None)"
proof (induction gs arbitrary: i index)
  case (Cons g gs)
  then show ?case by (auto simp: check_group_iff) (metis imageI)
qed simp

text \<open>Looking a group up through the index is \<open>find_group\<close>.\<close>

lemma find_nth:
  "\<lbrakk>distinct (map key xs); i < length xs\<rbrakk> \<Longrightarrow> List.find (\<lambda>x. key x = key (xs ! i)) xs = Some (xs ! i)"
  by (rule find_distinct_key) simp_all

lemma index_lookup:
  assumes "distinct (map fg_id (fp_groups p))"
    and "index = rev (zip (map fg_id (fp_groups p)) [0..<length (fp_groups p)])"
  shows "map_option (\<lambda>i. fp_groups p ! i) (map_of index gid) = find_group p gid"
proof -
  let ?gs = "fp_groups p"
  have mem: "(k, i) \<in> set index \<longleftrightarrow> i < length ?gs \<and> k = fg_id (?gs ! i)" for k i
    unfolding assms(2) set_rev set_zip by (auto intro: exI [of _ i])
  show ?thesis
  proof (cases "map_of index gid")
    case None
    then have "(gid, i) \<notin> set index" for i by (auto dest: weak_map_of_SomeI)
    then have "\<forall>i<length ?gs. fg_id (?gs ! i) \<noteq> gid" unfolding mem by blast
    then have "\<forall>g\<in>set ?gs. fg_id g \<noteq> gid" by (simp add: all_set_conv_all_nth)
    then have "find_group p gid = None" unfolding find_group_def find_None_iff by blast
    then show ?thesis using None by simp
  next
    case (Some i)
    then have "(gid, i) \<in> set index" by (rule map_of_SomeD)
    then have "i < length ?gs" "gid = fg_id (?gs ! i)" unfolding mem by simp_all
    then show ?thesis using Some find_nth [OF assms(1)] by (simp add: find_group_def)
  qed
qed

lemma check_depth_iff:
  assumes "distinct (map fg_id (fp_groups p))"
    and "index = rev (zip (map fg_id (fp_groups p)) [0..<length (fp_groups p)])"
  shows "check_depth p index depth cursor = Ok \<longleftrightarrow> (\<exists>d. group_depth p cursor d \<and> depth + d \<le> 8)"
  using assms
proof (induction p index depth cursor rule: check_depth.induct)
  case (1 p index depth cursor)
  note look = index_lookup [OF 1(2,3), of cursor]
  show ?case
  proof (cases "map_of index cursor")
    case None
    then have "find_group p cursor = None" using look by simp
    then have "\<not> group_depth p cursor d" for d by (auto elim: group_depthE)
    then show ?thesis using None by (simp add: check_depth.simps)
  next
    case (Some i)
    let ?g = "fp_groups p ! i"
    have g: "find_group p cursor = Some ?g" using look Some by simp
    have pos: "0 < d" if "group_depth p c d" for c d using that by (auto elim: group_depthE)
    show ?thesis
    proof (cases "8 < Suc depth \<or> \<not> id_valid (fg_parent ?g)")
      case True
      then have "check_depth p index depth cursor = Ok \<longleftrightarrow> \<not> 8 < Suc depth"
        using Some by (auto simp: check_depth.simps [of p index depth])
      moreover have "\<exists>d. group_depth p cursor d \<and> depth + d \<le> 8" if "\<not> 8 < Suc depth"
        using that True group_depth.root [OF g] by (intro exI [of _ 1]) simp
      moreover have "\<not> 8 < Suc depth" if "group_depth p cursor d" "depth + d \<le> 8" for d
        using pos [OF that(1)] that(2) by simp
      ultimately show ?thesis by blast
    next
      case False
      then have "check_depth p index depth cursor = check_depth p index (Suc depth) (fg_parent ?g)"
        using Some by (simp add: check_depth.simps [of p index depth])
      moreover have "group_depth p cursor d \<longleftrightarrow> (\<exists>d'. d = Suc d' \<and> group_depth p (fg_parent ?g) d')" for d
        using g False group_depth.child [OF g] by (auto elim: group_depthE)
      moreover have "check_depth p index (Suc depth) (fg_parent ?g) = Ok \<longleftrightarrow>
          (\<exists>d. group_depth p (fg_parent ?g) d \<and> Suc depth + d \<le> 8)"
        using False by (intro 1(1) [OF _ Some _ 1(2,3)]) simp_all
      ultimately show ?thesis by auto
    qed
  qed
qed


text \<open>Sums over the members of a valid policy stay far below the word size.\<close>

lemma nsum_bound: "(\<And>w. w \<in> set ws \<Longrightarrow> unat w \<le> b) \<Longrightarrow> nsum ws \<le> length ws * b"
  unfolding nsum_def by (rule sum_list_bound)

lemma floor_sum_loop_ok:
  "unat acc + nsum fs < 2 ^ 64 \<Longrightarrow>
   \<exists>s. floor_sum_loop fs acc = Some s \<and> unat s = unat acc + nsum fs"
proof (induction fs arbitrary: acc)
  case (Cons f fs)
  then have "checked_add acc f = Some (acc + f)" "unat (acc + f) = unat acc + unat f"
    by (simp_all add: checked_add_exact unat_plus_exact)
  with Cons.prems Cons.IH [of "acc + f"] show ?case by auto
qed simp

lemma weights_fit_ok: "unat acc + nsum ws < 2 ^ 64 \<Longrightarrow> weights_fit ws acc"
proof (induction ws arbitrary: acc)
  case (Cons w ws)
  then have "weight_sum_fits acc w = Some (acc + ucast w)" "unat (acc + ucast w) = unat acc + unat w"
    by (simp_all add: weight_sum_fits_def checked_add_exact unat_plus_exact unat_ucast_up)
  with Cons.prems Cons.IH [of "acc + ucast w"] show ?case by simp
qed simp

lemma weight_fold_sum:
  "unat (acc :: u64) + nsum (map sb_share_weight (filter (\<lambda>s. sb_group s = gid) ss)) < 2 ^ 64 \<Longrightarrow>
   unat (fold (\<lambda>s acc. if sb_group s = gid then acc + ucast (sb_share_weight s) else acc) ss acc)
   = unat acc + nsum (map sb_share_weight (filter (\<lambda>s. sb_group s = gid) ss))"
proof (induction ss arbitrary: acc)
  case (Cons s ss)
  show ?case
  proof (cases "sb_group s = gid")
    case True
    then have "unat (acc + ucast (sb_share_weight s)) = unat acc + unat (sb_share_weight s)"
      using Cons.prems by (subst unat_plus_exact) (simp_all add: unat_ucast_up)
    then show ?thesis using True Cons by simp
  qed (use Cons in simp)
qed simp

lemma member_weights_bound:
  assumes "length (fp_subjects p) \<le> 4096" "\<forall>s\<in>set (fp_subjects p). subject_wf p s"
  shows "nsum (map sb_share_weight (member_subjects p gid)) \<le> 4096 * (2 ^ 31 - 1)"
    "nsum (map sb_guarantee_floor (member_subjects p gid)) \<le> 4096 * 2 ^ 40"
proof -
  have "length (member_subjects p gid) \<le> 4096"
    using assms(1) length_filter_le unfolding member_subjects_def by (rule le_trans [rotated])
  moreover have "nsum (map sb_share_weight (member_subjects p gid)) \<le> length (member_subjects p gid) * (2 ^ 31 - 1)"
    using assms(2) by (intro order_trans [OF nsum_bound [of _ "2 ^ 31 - 1"]])
      (auto simp: member_subjects_def subject_wf_def word_le_nat_alt)
  moreover have "nsum (map sb_guarantee_floor (member_subjects p gid)) \<le> length (member_subjects p gid) * 2 ^ 40"
    using assms(2) by (intro order_trans [OF nsum_bound [of _ "2 ^ 40"]])
      (auto simp: member_subjects_def subject_wf_def word_le_nat_alt)
  ultimately show "nsum (map sb_share_weight (member_subjects p gid)) \<le> 4096 * (2 ^ 31 - 1)"
    "nsum (map sb_guarantee_floor (member_subjects p gid)) \<le> 4096 * 2 ^ 40"
    by (meson le_trans mult_le_mono1)+
qed

lemma child_weights_bound:
  assumes "length (fp_groups p) \<le> 256" "\<forall>g\<in>set (fp_groups p). group_wf g"
  shows "nsum (map fg_share_weight (child_groups p gid)) \<le> 256 * (2 ^ 31 - 1)"
    "nsum (map fg_guarantee_floor (child_groups p gid)) \<le> 256 * 2 ^ 40"
proof -
  have "length (child_groups p gid) \<le> 256"
    using assms(1) length_filter_le unfolding child_groups_def by (rule le_trans [rotated])
  moreover have "nsum (map fg_share_weight (child_groups p gid)) \<le> length (child_groups p gid) * (2 ^ 31 - 1)"
    using assms(2) by (intro order_trans [OF nsum_bound [of _ "2 ^ 31 - 1"]])
      (auto simp: child_groups_def group_wf_def word_le_nat_alt)
  moreover have "nsum (map fg_guarantee_floor (child_groups p gid)) \<le> length (child_groups p gid) * 2 ^ 40"
    using assms(2) by (intro order_trans [OF nsum_bound [of _ "2 ^ 40"]])
      (auto simp: child_groups_def group_wf_def word_le_nat_alt)
  ultimately show "nsum (map fg_share_weight (child_groups p gid)) \<le> 256 * (2 ^ 31 - 1)"
    "nsum (map fg_guarantee_floor (child_groups p gid)) \<le> 256 * 2 ^ 40"
    by (meson le_trans mult_le_mono1)+
qed


lemma check_subject_iff:
  "check_subject p index seen s = Ok \<longleftrightarrow>
   subject_wf p s \<and> sb_id s \<notin> set seen \<and> map_of index (sb_group s) \<noteq> None"
  by (auto simp: check_subject_def subject_wf_def id_valid_def generation_valid_def not_less)

lemma check_subjects_iff:
  "check_subjects p index ss seen = Ok \<longleftrightarrow>
   (\<forall>s\<in>set ss. subject_wf p s \<and> map_of index (sb_group s) \<noteq> None) \<and>
   distinct (map sb_id ss) \<and> sb_id ` set ss \<inter> set seen = {}"
  by (induction ss arbitrary: seen) (auto simp: check_subject_iff)

lemma check_weights_iff:
  assumes "header_wf p" "\<forall>g\<in>set (fp_groups p). group_wf g" "\<forall>s\<in>set (fp_subjects p). subject_wf p s"
  shows "check_weights p g = Ok \<longleftrightarrow> member_subjects p (fg_id g) \<noteq> []"
proof -
  let ?m = "member_subjects p (fg_id g)"
  have len: "length (fp_groups p) \<le> 256" "length (fp_subjects p) \<le> 4096"
    using assms(1) by (simp_all add: header_wf_def)
  note b = child_weights_bound(1) [OF len(1) assms(2), of "fg_id g"]
    member_weights_bound(1) [OF len(2) assms(3), of "fg_id g"]
  have "unat (group_subject_weight_sum p (fg_id g)) = nsum (map sb_share_weight ?m)"
    using weight_fold_sum [of 0 "fg_id g" "fp_subjects p"] b(2)
    by (simp add: group_subject_weight_sum_def member_subjects_def)
  moreover have "0 < nsum (map sb_share_weight ?m)" if "?m \<noteq> []"
  proof -
    have "hd ?m \<in> set ?m" using that by simp
    then have "sb_share_weight (hd ?m) \<noteq> 0" "sb_share_weight (hd ?m) \<in> set (map sb_share_weight ?m)"
      using assms(3) by (auto simp: member_subjects_def subject_wf_def)
    then have "0 < unat (sb_share_weight (hd ?m))" by (simp add: unat_gt_0)
    also have "\<dots> \<le> nsum (map sb_share_weight ?m)" by (rule nsum_member) fact
    finally show ?thesis .
  qed
  ultimately have "group_subject_weight_sum p (fg_id g) = 0 \<longleftrightarrow> ?m = []"
    by (cases "?m = []") (auto simp: u64_zero_iff)
  then show ?thesis using b by (simp add: check_weights_def weights_fit_ok)
qed

lemma check_floors_iff:
  assumes "header_wf p" "\<forall>g\<in>set (fp_groups p). group_wf g" "\<forall>s\<in>set (fp_subjects p). subject_wf p s"
  shows "check_floors p g = Ok \<longleftrightarrow> floors_coherent p g"
proof -
  let ?fs = "map fg_guarantee_floor (child_groups p (fg_id g)) @
    map sb_guarantee_floor (member_subjects p (fg_id g))"
  have len: "length (fp_groups p) \<le> 256" "length (fp_subjects p) \<le> 4096"
    using assms(1) by (simp_all add: header_wf_def)
  have "nsum ?fs < 2 ^ 64"
    using child_weights_bound(2) [OF len(1) assms(2), of "fg_id g"]
      member_weights_bound(2) [OF len(2) assms(3), of "fg_id g"] by simp
  then obtain s where "floor_sum_loop ?fs 0 = Some s" "unat s = nsum ?fs"
    using floor_sum_loop_ok [of 0 ?fs] by auto
  then show ?thesis
    by (auto simp: check_floors_def floors_coherent_def word_less_nat_alt)
qed

lemma group_depth_unique: "\<lbrakk>group_depth p gid d; group_depth p gid d'\<rbrakk> \<Longrightarrow> d = d'"
proof (induction arbitrary: d' rule: group_depth.induct)
  case (root gid g)
  then show ?case by (auto elim: group_depthE)
next
  case (child gid g d)
  from child.prems child.hyps(1,2) obtain d0 where "d' = Suc d0" "group_depth p (fg_parent g) d0"
    by (auto elim: group_depthE)
  with child.IH show ?case by simp
qed

lemma group_depth_parent:
  assumes "group_depth p (fg_id g) d" "find_group p (fg_id g) = Some g" "id_valid (fg_parent g)"
  shows "find_group p (fg_parent g) \<noteq> None" "fg_parent g \<noteq> fg_id g"
proof -
  obtain d0 where d0: "d = Suc d0" "group_depth p (fg_parent g) d0"
    using assms by (auto elim: group_depthE)
  then show "find_group p (fg_parent g) \<noteq> None" by (auto elim: group_depthE)
  show "fg_parent g \<noteq> fg_id g" using d0 group_depth_unique [OF assms(1), of d0] by auto
qed

lemma validate_policy_iff: "validate_policy p = Ok \<longleftrightarrow> policy_wf p"
proof (cases "header_wf p \<and> distinct (map fg_id (fp_groups p)) \<and> (\<forall>g\<in>set (fp_groups p). group_wf g)")
  case False
  then have "\<not> policy_wf p" by (auto simp: policy_wf_def)
  moreover have "code \<noteq> Ok" if "check_groups gs i index = Inl code" for gs i index code
    using that by (induction gs arbitrary: i index) (auto split: if_splits)
  then have "validate_policy p \<noteq> Ok"
    using False check_groups_iff [of "fp_groups p" 0 "[]"] check_header_iff [of p]
    by (auto simp: validate_policy_def split: sum.splits)
  ultimately show ?thesis by simp
next
  case True
  then have hdr: "header_wf p" and dist: "distinct (map fg_id (fp_groups p))"
    and gwf: "\<forall>g\<in>set (fp_groups p). group_wf g" by auto
  obtain index where ok: "check_groups (fp_groups p) 0 [] = Inr index"
    using check_groups_iff [of "fp_groups p" 0 "[]"] dist gwf by auto
  have index: "index = rev (zip (map fg_id (fp_groups p)) [0..<length (fp_groups p)])"
    using check_groups_InrD [OF ok] by simp
  have look: "map_of index gid = None \<longleftrightarrow> find_group p gid = None" for gid
    using index_lookup [OF dist index, of gid] by (metis map_option_is_None)
  have self: "find_group p (fg_id g) = Some g" if "g \<in> set (fp_groups p)" for g
    using find_distinct_key [OF that dist] by (simp add: find_group_def)
  have depth: "check_depth p index 0 gid = Ok \<longleftrightarrow> (\<exists>d\<le>8. group_depth p gid d)" for gid
    using check_depth_iff [OF dist index, of 0 gid] by auto
  have parent: "check_parent index g = Ok" if "g \<in> set (fp_groups p)" "group_depth p (fg_id g) d" for g d
    using group_depth_parent [OF that(2) self [OF that(1)]] look by (auto simp: check_parent_def)
  have "validate_policy p = Ok \<longleftrightarrow> check_structure p index = Ok"
    using hdr ok by (simp add: validate_policy_def check_header_iff)
  also have "\<dots> \<longleftrightarrow> (\<forall>g\<in>set (fp_groups p). check_parent index g = Ok) \<and>
      (\<forall>g\<in>set (fp_groups p). \<exists>d\<le>8. group_depth p (fg_id g) d) \<and>
      check_subjects p index (fp_subjects p) [] = Ok \<and>
      (\<forall>g\<in>set (fp_groups p). check_weights p g = Ok) \<and> (\<forall>g\<in>set (fp_groups p). check_floors p g = Ok)"
    unfolding check_structure_def Let_def seq_Ok unfolding first_fail_each_iff depth by (rule refl)
  also have "\<dots> \<longleftrightarrow> policy_wf p"
    using hdr dist gwf parent check_weights_iff [OF hdr gwf] check_floors_iff [OF hdr gwf]
    by (auto simp: policy_wf_def check_subjects_iff look)
  finally show ?thesis .
qed


section \<open>Depths\<close>

lemma index_groups_eq:
  assumes "distinct (map fg_id (fp_groups p))"
  shows "index_groups p = rev (zip (map fg_id (fp_groups p)) [0..<length (fp_groups p)])"
proof -
  have "\<lbrakk>distinct (map fg_id gs); length ns = length gs; \<forall>g\<in>set gs. map_of acc (fg_id g) = None\<rbrakk> \<Longrightarrow>
    fold (\<lambda>(g, i) index. if map_of index (fg_id g) = None then (fg_id g, i) # index else index)
      (zip gs ns) acc = rev (zip (map fg_id gs) ns) @ acc" for gs and ns :: "nat list" and acc
  proof (induction gs arbitrary: ns acc)
    case (Cons g gs)
    then obtain n ns' where ns: "ns = n # ns'" "length ns' = length gs" by (cases ns) auto
    have "\<forall>h\<in>set gs. map_of ((fg_id g, n) # acc) (fg_id h) = None"
      using Cons.prems(1,3) by (auto simp: image_iff)
    with Cons.IH [of ns' "(fg_id g, n) # acc"] Cons.prems ns show ?case by simp
  qed simp
  from this [OF assms, of "[0..<length (fp_groups p)]" "[]"] show ?thesis
    by (simp add: index_groups_def)
qed

lemma depth_of_eq:
  assumes "distinct (map fg_id (fp_groups p))"
    and "index = rev (zip (map fg_id (fp_groups p)) [0..<length (fp_groups p)])"
  shows "\<lbrakk>group_depth p gid d; map_of index gid = Some i; depth + d \<le> 9\<rbrakk>
    \<Longrightarrow> depth_of p index depth i = depth + d"
proof (induction arbitrary: depth i rule: group_depth.induct)
  case (root gid g)
  then have "fp_groups p ! i = g" using index_lookup [OF assms, of gid] by simp
  with root show ?case by (simp add: depth_of.simps)
next
  case (child gid g d)
  then have g: "fp_groups p ! i = g" using index_lookup [OF assms, of gid] by simp
  have "find_group p (fg_parent g) \<noteq> None" using child.hyps(3) by (auto elim: group_depthE)
  then obtain j where j: "map_of index (fg_parent g) = Some j"
    using index_lookup [OF assms, of "fg_parent g"] by (cases "map_of index (fg_parent g)") auto
  have "0 < d" using child.hyps(3) by (auto elim: group_depthE)
  then show ?case using child.IH [OF j, of "Suc depth"] child.prems(2) child.hyps(2) g j
    by (simp add: depth_of.simps [of p index depth i])
qed

lemma group_depths_correct:
  assumes "policy_wf p" and "i < length (fp_groups p)"
  shows "group_depth p (fg_id (fp_groups p ! i)) (unat (group_depths p ! i))"
    and "unat (group_depths p ! i) \<le> 8"
proof -
  let ?g = "fp_groups p ! i"
  have dist: "distinct (map fg_id (fp_groups p))" using assms(1) by (simp add: policy_wf_def)
  obtain d where d: "d \<le> 8" "group_depth p (fg_id ?g) d"
    using assms(1) nth_mem [OF assms(2)] unfolding policy_wf_def by blast
  have "(fg_id ?g, i) \<in> set (index_groups p)"
    unfolding index_groups_eq [OF dist] set_rev set_zip using assms(2) by (auto intro: exI [of _ i])
  moreover have "distinct (map fst (index_groups p))"
    unfolding index_groups_eq [OF dist] using dist by (simp flip: rev_map)
  ultimately have "map_of (index_groups p) (fg_id ?g) = Some i" by (simp add: map_of_is_SomeI)
  from depth_of_eq [OF dist index_groups_eq [OF dist] d(2) this, of 0] d(1)
  have "group_depths p ! i = of_nat d" using assms(2) by (simp add: group_depths_def)
  then have "unat (group_depths p ! i) = d" using d(1) by (simp add: unat_of_nat_exact)
  with d show "group_depth p (fg_id ?g) (unat (group_depths p ! i))" "unat (group_depths p ! i) \<le> 8"
    by simp_all
qed

section \<open>Properties\<close>

text \<open>C5: The validation accepts exactly the well-formed policies: valid and distinct identities, every
  bound of the header, of each group and of each subject, a group forest of depth at most eight, every
  subject in a declared group, at least one subject in every group, and group floors that cover the
  floors of their direct children. In particular the overflow checks of the code never refuse a policy
  that passes the other checks.\<close>

theorem validate_policy_decides_wf: "validate_policy p = Ok \<longleftrightarrow> policy_wf p"
  by (rule validate_policy_iff)

text \<open>On a validated policy \<open>group_depths\<close> reports, for every group, its depth in the group forest,
  which is at most eight.\<close>

theorem group_depths_of_valid_policy:
  assumes "validate_policy p = Ok" and "i < length (fp_groups p)"
  shows "group_depth p (fg_id (fp_groups p ! i)) (unat (group_depths p ! i)) \<and>
    unat (group_depths p ! i) \<le> 8"
  using group_depths_correct [of p i] assms by (simp add: validate_policy_iff)

text \<open>A small policy that the witnesses of several components share: a root group with a child
  group, one subject in the root and two in the child.\<close>

definition sample_group :: "u64 \<Rightarrow> u64 \<Rightarrow> FairnessGroup" where
  "sample_group gid parent = \<lparr>fg_id = gid, fg_generation = 1, fg_parent = parent,
     fg_share_weight = 1, fg_guarantee_floor = 0, fg_obligation_rank = 0,
     fg_protected_obligation = False, fg_label = []\<rparr>"

definition sample_subject :: "u64 \<Rightarrow> u64 \<Rightarrow> u32 \<Rightarrow> u64 \<Rightarrow> Subject" where
  "sample_subject sid gid weight floor_units = \<lparr>sb_id = sid, sb_generation = 1, sb_group = gid,
     sb_tenant = 0, sb_share_weight = weight, sb_guarantee_floor = floor_units,
     sb_starvation_windows = 3, sb_guarantee_starvation_windows = 0,
     sb_priority = \<lparr>pr_id = 0, pr_generation = 0\<rparr>, sb_qos = \<lparr>qos_id = 0, qos_generation = 0\<rparr>,
     sb_priority_modifier_bps = 0, sb_priority_rank = 0, sb_obligation_rank = 0,
     sb_protected_obligation = False, sb_max_reduce_units = 50, sb_max_augment_units = 50,
     sb_label = []\<rparr>"

definition sample_policy :: FairnessPolicy where
  "sample_policy = \<lparr>fp_id = 1, fp_generation = 1, fp_epoch = 1, fp_window_units = 0,
     fp_fair_band_units = 2, fp_correction_threshold_units = 5, fp_cooldown_windows = 0,
     fp_max_correction_units = 100, fp_max_correction_bps = 10000, fp_max_priority_modifier_bps = 0,
     fp_max_evidence_age_windows = 1, fp_max_evidence_age_ns = 0, fp_max_carry_units = 1000,
     fp_enforce_guarantee_floors = True,
     fp_groups = [sample_group 1 0, sample_group 2 1],
     fp_subjects = [sample_subject 10 1 2 0, sample_subject 20 2 1 0, sample_subject 30 2 1 0],
     fp_provenance = \<lparr>pv_revision = 0, pv_source = [], pv_source_digest = 0, pv_captured_at_ns = 0\<rparr>\<rparr>"

lemma sample_policy_valid: "validate_policy sample_policy = Ok"
  by code_simp

lemma sample_policy_wf: "policy_wf sample_policy"
  using sample_policy_valid by (simp add: validate_policy_iff)

theorem group_depths_of_valid_policy_witness:
  "group_depth sample_policy (fg_id (fp_groups sample_policy ! 1)) (unat (group_depths sample_policy ! 1)) \<and>
   unat (group_depths sample_policy ! 1) \<le> 8"
  by (rule group_depths_of_valid_policy [OF sample_policy_valid]) (simp add: sample_policy_def)

end
