(* ===== verification/FG_Accounting.thy ===== *)
theory FG_Accounting
  imports FG_Core
begin

text \<open>
  Durable accounting (\<open>model/accounting.hpp\<close>, \<open>model/accounting.cpp\<close>): the carry of one subject, the
  window update of that carry and the closure check. The signed combination
  \<open>cumulative_deficit - cumulative_surplus + discarded_deficit - discarded_surplus\<close> of an entry is
  \<open>closure_of\<close>; the update moves it by exactly the window's net.
\<close>

section \<open>Definitions\<close>

record SubjectAccounting =
  sa_id :: Id
  sa_generation :: Generation
  sa_cumulative_deficit :: u64
  sa_cumulative_surplus :: u64
  sa_discarded_deficit :: u64
  sa_discarded_surplus :: u64
  sa_unserved_streak :: u32
  sa_below_floor_streak :: u32
  sa_windows_observed :: u64
  sa_total_served_units :: u64
  sa_last_correction_window :: Id
  sa_last_correction_generation :: Generation

record FairnessAccounting =
  ac_policy_id :: Id
  ac_policy_generation :: Generation
  ac_epoch :: Generation
  ac_generation :: u64
  ac_intervention_generation :: Generation
  ac_last_window :: Id
  ac_last_window_generation :: Generation
  ac_writer_boot :: Id
  ac_subjects :: "SubjectAccounting list"

definition default_subject_accounting :: SubjectAccounting where
  "default_subject_accounting = \<lparr>sa_id = 0, sa_generation = 0, sa_cumulative_deficit = 0,
     sa_cumulative_surplus = 0, sa_discarded_deficit = 0, sa_discarded_surplus = 0,
     sa_unserved_streak = 0, sa_below_floor_streak = 0, sa_windows_observed = 0,
     sa_total_served_units = 0, sa_last_correction_window = 0, sa_last_correction_generation = 0\<rparr>"

definition default_accounting :: FairnessAccounting where
  "default_accounting = \<lparr>ac_policy_id = 0, ac_policy_generation = 0, ac_epoch = 0, ac_generation = 0,
     ac_intervention_generation = 0, ac_last_window = 0, ac_last_window_generation = 0,
     ac_writer_boot = 0, ac_subjects = []\<rparr>"

definition accounting_find :: "FairnessAccounting \<Rightarrow> Id \<Rightarrow> SubjectAccounting option" where
  "accounting_find accounting wanted = List.find (\<lambda>e. sa_id e = wanted) (ac_subjects accounting)"

record CarryOutcome =
  co_cumulative_deficit :: u64
  co_cumulative_surplus :: u64
  co_discarded_deficit :: u64
  co_discarded_surplus :: u64
  co_deficit_units :: u64
  co_surplus_units :: u64
  co_credit_applied :: u64
  co_debit_applied :: u64
  co_saturated :: bool

text \<open>The first half of the update: credit against surplus, or debit against deficit.\<close>

definition carry_net :: "SubjectAccounting \<Rightarrow> i64 \<Rightarrow> CarryOutcome option" where
  "carry_net current net =
     (let base = \<lparr>co_cumulative_deficit = sa_cumulative_deficit current,
                  co_cumulative_surplus = sa_cumulative_surplus current,
                  co_discarded_deficit = sa_discarded_deficit current,
                  co_discarded_surplus = sa_discarded_surplus current,
                  co_deficit_units = 0, co_surplus_units = 0, co_credit_applied = 0,
                  co_debit_applied = 0, co_saturated = False\<rparr>
      in if 0 \<le>s net
         then let credit = min net (co_cumulative_surplus base);
                  remaining = net - credit
              in (case checked_add (co_cumulative_deficit base) remaining of
                    None \<Rightarrow> None
                  | Some carried \<Rightarrow>
                      Some (base\<lparr>co_credit_applied := credit,
                                 co_cumulative_surplus := co_cumulative_surplus base - credit,
                                 co_deficit_units := remaining,
                                 co_cumulative_deficit := carried\<rparr>))
         else let debit = min (magnitude net) (co_cumulative_deficit base);
                  remaining = magnitude net - debit
              in (case checked_add (co_cumulative_surplus base) remaining of
                    None \<Rightarrow> None
                  | Some carried \<Rightarrow>
                      Some (base\<lparr>co_debit_applied := debit,
                                 co_cumulative_deficit := co_cumulative_deficit base - debit,
                                 co_surplus_units := remaining,
                                 co_cumulative_surplus := carried\<rparr>)))"

definition saturate_deficit :: "u64 \<Rightarrow> CarryOutcome \<Rightarrow> CarryOutcome option" where
  "saturate_deficit max_carry r =
     (if max_carry < co_cumulative_deficit r
      then case checked_add (co_discarded_deficit r) (co_cumulative_deficit r - max_carry) of
             None \<Rightarrow> None
           | Some discarded \<Rightarrow>
               Some (r\<lparr>co_discarded_deficit := discarded, co_cumulative_deficit := max_carry,
                       co_saturated := True\<rparr>)
      else Some r)"

definition saturate_surplus :: "u64 \<Rightarrow> CarryOutcome \<Rightarrow> CarryOutcome option" where
  "saturate_surplus max_carry r =
     (if max_carry < co_cumulative_surplus r
      then case checked_add (co_discarded_surplus r) (co_cumulative_surplus r - max_carry) of
             None \<Rightarrow> None
           | Some discarded \<Rightarrow>
               Some (r\<lparr>co_discarded_surplus := discarded, co_cumulative_surplus := max_carry,
                       co_saturated := True\<rparr>)
      else Some r)"

definition apply_window_carry :: "SubjectAccounting \<Rightarrow> i64 \<Rightarrow> u64 \<Rightarrow> CarryOutcome option" where
  "apply_window_carry current net max_carry =
     (case carry_net current net of
        None \<Rightarrow> None
      | Some r \<Rightarrow>
          (case saturate_deficit max_carry r of
             None \<Rightarrow> None
           | Some r \<Rightarrow> saturate_surplus max_carry r))"

definition closes_step :: "i64 \<Rightarrow> SubjectAccounting \<Rightarrow> i64 option" where
  "closes_step residual entry =
     (if int64_max < sa_cumulative_deficit entry \<or> int64_max < sa_cumulative_surplus entry \<or>
         int64_max < sa_discarded_deficit entry \<or> int64_max < sa_discarded_surplus entry
      then None
      else case checked_add_signed residual (sa_cumulative_deficit entry) of
             None \<Rightarrow> None
           | Some residual \<Rightarrow>
               (case checked_sub_signed residual (sa_cumulative_surplus entry) of
                  None \<Rightarrow> None
                | Some residual \<Rightarrow>
                    (case checked_add_signed residual (sa_discarded_deficit entry) of
                       None \<Rightarrow> None
                     | Some residual \<Rightarrow> checked_sub_signed residual (sa_discarded_surplus entry))))"

fun closes_loop :: "SubjectAccounting list \<Rightarrow> i64 \<Rightarrow> i64 option" where
  "closes_loop [] residual = Some residual"
| "closes_loop (entry # rest) residual =
     (case closes_step residual entry of None \<Rightarrow> None | Some residual' \<Rightarrow> closes_loop rest residual')"

definition accounting_closes :: "FairnessAccounting \<Rightarrow> i64 \<Rightarrow> bool" where
  "accounting_closes accounting expected_net_sum =
     (case closes_loop (ac_subjects accounting) 0 of
        None \<Rightarrow> False
      | Some residual \<Rightarrow> residual = expected_net_sum)"

fun checked_total :: "u64 list \<Rightarrow> u64 \<Rightarrow> u64 option" where
  "checked_total [] tot = Some tot"
| "checked_total (v # vs) tot =
     (case checked_add tot v of None \<Rightarrow> None | Some tot' \<Rightarrow> checked_total vs tot')"

definition accounting_deficit_total :: "FairnessAccounting \<Rightarrow> u64 option" where
  "accounting_deficit_total accounting =
     checked_total (map sa_cumulative_deficit (ac_subjects accounting)) 0"

definition accounting_surplus_total :: "FairnessAccounting \<Rightarrow> u64 option" where
  "accounting_surplus_total accounting =
     checked_total (map sa_cumulative_surplus (ac_subjects accounting)) 0"

section \<open>The closure identity\<close>

definition closure_of :: "u64 \<Rightarrow> u64 \<Rightarrow> u64 \<Rightarrow> u64 \<Rightarrow> int" where
  "closure_of deficit surplus discarded_deficit discarded_surplus =
     int (unat deficit) - int (unat surplus) + int (unat discarded_deficit) - int (unat discarded_surplus)"

definition entry_closure :: "SubjectAccounting \<Rightarrow> int" where
  "entry_closure e = closure_of (sa_cumulative_deficit e) (sa_cumulative_surplus e)
     (sa_discarded_deficit e) (sa_discarded_surplus e)"

definition outcome_closure :: "CarryOutcome \<Rightarrow> int" where
  "outcome_closure r = closure_of (co_cumulative_deficit r) (co_cumulative_surplus r)
     (co_discarded_deficit r) (co_discarded_surplus r)"

lemma min_le_word: "min a b \<le> (a :: u64)" "min a b \<le> b"
  by simp_all

lemma carry_net_spec:
  assumes "carry_net current net = Some r"
  shows "outcome_closure r = entry_closure current + sint net"
    and "int (unat (co_deficit_units r)) + int (unat (co_credit_applied r)) = max 0 (sint net)"
    and "int (unat (co_surplus_units r)) + int (unat (co_debit_applied r)) = max 0 (- sint net)"
    and "\<not> co_saturated r"
    and "sa_cumulative_deficit current = 0 \<or> sa_cumulative_surplus current = 0 \<Longrightarrow>
         co_cumulative_deficit r = 0 \<or> co_cumulative_surplus r = 0"
proof -
  have "outcome_closure r = entry_closure current + sint net \<and>
    int (unat (co_deficit_units r)) + int (unat (co_credit_applied r)) = max 0 (sint net) \<and>
    int (unat (co_surplus_units r)) + int (unat (co_debit_applied r)) = max 0 (- sint net) \<and>
    \<not> co_saturated r \<and>
    (sa_cumulative_deficit current = 0 \<or> sa_cumulative_surplus current = 0 \<longrightarrow>
         co_cumulative_deficit r = 0 \<or> co_cumulative_surplus r = 0)"
  proof (cases "0 \<le>s net")
    case True
    then have n: "0 \<le> sint net" by (simp add: word_sle_eq)
    then have u: "int (unat net) = sint net" using uint_eq_sint [of net] by simp
    have mx: "max 0 (sint net) = sint net" "max 0 (- sint net) = 0" using n by linarith+
    have s: "unat (net - min net (sa_cumulative_surplus current))
        = unat net - min (unat net) (unat (sa_cumulative_surplus current))"
      "unat (sa_cumulative_surplus current - min net (sa_cumulative_surplus current))
        = unat (sa_cumulative_surplus current) - min (unat net) (unat (sa_cumulative_surplus current))"
      using unat_minus_min [of net "sa_cumulative_surplus current"]
        unat_minus_min [of "sa_cumulative_surplus current" net] by (simp_all add: min.commute)
    from assms True obtain c where c: "checked_add (sa_cumulative_deficit current)
        (net - min net (sa_cumulative_surplus current)) = Some c"
      and r: "r = \<lparr>co_cumulative_deficit = c,
        co_cumulative_surplus = sa_cumulative_surplus current - min net (sa_cumulative_surplus current),
        co_discarded_deficit = sa_discarded_deficit current, co_discarded_surplus = sa_discarded_surplus current,
        co_deficit_units = net - min net (sa_cumulative_surplus current), co_surplus_units = 0,
        co_credit_applied = min net (sa_cumulative_surplus current), co_debit_applied = 0,
        co_saturated = False\<rparr>"
      by (auto simp: carry_net_def Let_def split: option.splits)
    have "unat c = unat (sa_cumulative_deficit current) +
        (unat net - min (unat net) (unat (sa_cumulative_surplus current)))"
      using conjunct2 [OF checked_add_SomeD [OF c]] s(1) by simp
    then show ?thesis
      using r s u unfolding mx by (auto simp: outcome_closure_def entry_closure_def closure_of_def unat_min
          u64_zero_iff)
  next
    case False
    then have n: "sint net < 0" by (simp add: word_sle_eq)
    define m where "m = magnitude net"
    have u: "int (unat m) = - sint net" using n unat_magnitude [of net] by (simp add: m_def)
    have mx: "max 0 (sint net) = 0" "max 0 (- sint net) = - sint net" using n by linarith+
    have s: "unat (m - min m (sa_cumulative_deficit current))
        = unat m - min (unat m) (unat (sa_cumulative_deficit current))"
      "unat (sa_cumulative_deficit current - min m (sa_cumulative_deficit current))
        = unat (sa_cumulative_deficit current) - min (unat m) (unat (sa_cumulative_deficit current))"
      using unat_minus_min [of m "sa_cumulative_deficit current"]
        unat_minus_min [of "sa_cumulative_deficit current" m] by (simp_all add: min.commute)
    from assms False obtain c where c: "checked_add (sa_cumulative_surplus current)
        (m - min m (sa_cumulative_deficit current)) = Some c"
      and r: "r = \<lparr>co_cumulative_deficit = sa_cumulative_deficit current - min m (sa_cumulative_deficit current),
        co_cumulative_surplus = c,
        co_discarded_deficit = sa_discarded_deficit current, co_discarded_surplus = sa_discarded_surplus current,
        co_deficit_units = 0, co_surplus_units = m - min m (sa_cumulative_deficit current),
        co_credit_applied = 0, co_debit_applied = min m (sa_cumulative_deficit current),
        co_saturated = False\<rparr>"
      by (auto simp: carry_net_def Let_def m_def split: option.splits)
    have "unat c = unat (sa_cumulative_surplus current) +
        (unat m - min (unat m) (unat (sa_cumulative_deficit current)))"
      using conjunct2 [OF checked_add_SomeD [OF c]] s(1) by simp
    then show ?thesis
      using r s u unfolding mx by (auto simp: outcome_closure_def entry_closure_def closure_of_def unat_min
          u64_zero_iff)
  qed
  then show "outcome_closure r = entry_closure current + sint net"
    "int (unat (co_deficit_units r)) + int (unat (co_credit_applied r)) = max 0 (sint net)"
    "int (unat (co_surplus_units r)) + int (unat (co_debit_applied r)) = max 0 (- sint net)"
    "\<not> co_saturated r"
    "sa_cumulative_deficit current = 0 \<or> sa_cumulative_surplus current = 0 \<Longrightarrow>
         co_cumulative_deficit r = 0 \<or> co_cumulative_surplus r = 0"
    by auto
qed


lemma saturate_deficit_spec:
  assumes "saturate_deficit max_carry r = Some r'"
  shows "outcome_closure r' = outcome_closure r" "co_cumulative_deficit r' \<le> max_carry"
    "co_cumulative_deficit r' \<le> co_cumulative_deficit r"
    "co_cumulative_surplus r' = co_cumulative_surplus r" "co_deficit_units r' = co_deficit_units r"
    "co_surplus_units r' = co_surplus_units r" "co_credit_applied r' = co_credit_applied r"
    "co_debit_applied r' = co_debit_applied r"
proof -
  have "outcome_closure r' = outcome_closure r \<and> co_cumulative_deficit r' \<le> max_carry \<and>
    co_cumulative_deficit r' \<le> co_cumulative_deficit r"
  proof (cases "max_carry < co_cumulative_deficit r")
    case True
    then obtain d where d: "checked_add (co_discarded_deficit r) (co_cumulative_deficit r - max_carry) = Some d"
      "r' = r\<lparr>co_discarded_deficit := d, co_cumulative_deficit := max_carry, co_saturated := True\<rparr>"
      using assms by (auto simp: saturate_deficit_def split: option.splits)
    have "unat d = unat (co_discarded_deficit r) + (unat (co_cumulative_deficit r) - unat max_carry)"
      using conjunct2 [OF checked_add_SomeD [OF d(1)]] unat_minus_exact [OF less_imp_le [OF True]] by simp
    then show ?thesis using d(2) True by (auto simp: outcome_closure_def closure_of_def word_less_nat_alt word_le_nat_alt)
  qed (use assms in \<open>auto simp: saturate_deficit_def\<close>)
  then show "outcome_closure r' = outcome_closure r" "co_cumulative_deficit r' \<le> max_carry"
    "co_cumulative_deficit r' \<le> co_cumulative_deficit r" by auto
  show "co_cumulative_surplus r' = co_cumulative_surplus r" "co_deficit_units r' = co_deficit_units r"
    "co_surplus_units r' = co_surplus_units r" "co_credit_applied r' = co_credit_applied r"
    "co_debit_applied r' = co_debit_applied r"
    using assms by (auto simp: saturate_deficit_def split: if_splits option.splits)
qed

lemma saturate_surplus_spec:
  assumes "saturate_surplus max_carry r = Some r'"
  shows "outcome_closure r' = outcome_closure r" "co_cumulative_surplus r' \<le> max_carry"
    "co_cumulative_surplus r' \<le> co_cumulative_surplus r"
    "co_cumulative_deficit r' = co_cumulative_deficit r" "co_deficit_units r' = co_deficit_units r"
    "co_surplus_units r' = co_surplus_units r" "co_credit_applied r' = co_credit_applied r"
    "co_debit_applied r' = co_debit_applied r"
proof -
  have "outcome_closure r' = outcome_closure r \<and> co_cumulative_surplus r' \<le> max_carry \<and>
    co_cumulative_surplus r' \<le> co_cumulative_surplus r"
  proof (cases "max_carry < co_cumulative_surplus r")
    case True
    then obtain d where d: "checked_add (co_discarded_surplus r) (co_cumulative_surplus r - max_carry) = Some d"
      "r' = r\<lparr>co_discarded_surplus := d, co_cumulative_surplus := max_carry, co_saturated := True\<rparr>"
      using assms by (auto simp: saturate_surplus_def split: option.splits)
    have "unat d = unat (co_discarded_surplus r) + (unat (co_cumulative_surplus r) - unat max_carry)"
      using conjunct2 [OF checked_add_SomeD [OF d(1)]] unat_minus_exact [OF less_imp_le [OF True]] by simp
    then show ?thesis using d(2) True by (auto simp: outcome_closure_def closure_of_def word_less_nat_alt word_le_nat_alt)
  qed (use assms in \<open>auto simp: saturate_surplus_def\<close>)
  then show "outcome_closure r' = outcome_closure r" "co_cumulative_surplus r' \<le> max_carry"
    "co_cumulative_surplus r' \<le> co_cumulative_surplus r" by auto
  show "co_cumulative_deficit r' = co_cumulative_deficit r" "co_deficit_units r' = co_deficit_units r"
    "co_surplus_units r' = co_surplus_units r" "co_credit_applied r' = co_credit_applied r"
    "co_debit_applied r' = co_debit_applied r"
    using assms by (auto simp: saturate_surplus_def split: if_splits option.splits)
qed

text \<open>The carry of a subject is netted: it never holds a deficit and a surplus at once.\<close>

definition netted :: "SubjectAccounting \<Rightarrow> bool" where
  "netted e \<longleftrightarrow> sa_cumulative_deficit e = 0 \<or> sa_cumulative_surplus e = 0"

lemma apply_window_carry_spec:
  assumes "apply_window_carry current net max_carry = Some out"
  shows "outcome_closure out = entry_closure current + sint net"
    "co_cumulative_deficit out \<le> max_carry" "co_cumulative_surplus out \<le> max_carry"
    "int (unat (co_deficit_units out)) + int (unat (co_credit_applied out)) = max 0 (sint net)"
    "int (unat (co_surplus_units out)) + int (unat (co_debit_applied out)) = max 0 (- sint net)"
    "netted current \<Longrightarrow> co_cumulative_deficit out = 0 \<or> co_cumulative_surplus out = 0"
proof -
  obtain r r' where r: "carry_net current net = Some r" "saturate_deficit max_carry r = Some r'"
    "saturate_surplus max_carry r' = Some out"
    using assms by (auto simp: apply_window_carry_def split: option.splits)
  note specs = carry_net_spec [OF r(1)] saturate_deficit_spec [OF r(2)] saturate_surplus_spec [OF r(3)]
  show "outcome_closure out = entry_closure current + sint net"
    "co_cumulative_deficit out \<le> max_carry" "co_cumulative_surplus out \<le> max_carry"
    "int (unat (co_deficit_units out)) + int (unat (co_credit_applied out)) = max 0 (sint net)"
    "int (unat (co_surplus_units out)) + int (unat (co_debit_applied out)) = max 0 (- sint net)"
    using specs by simp_all
  show "co_cumulative_deficit out = 0 \<or> co_cumulative_surplus out = 0" if "netted current"
    using specs that by (auto simp: netted_def word_le_nat_alt u64_zero_iff)
qed

text \<open>The update succeeds while the four counters are far from the word size.\<close>

lemma apply_window_carry_total:
  assumes "unat (sa_cumulative_deficit current) < 2 ^ 62" "unat (sa_cumulative_surplus current) < 2 ^ 62"
    and "unat (sa_discarded_deficit current) < 2 ^ 62" "unat (sa_discarded_surplus current) < 2 ^ 62"
    and "\<bar>sint net\<bar> < 2 ^ 62"
  shows "\<exists>out. apply_window_carry current net max_carry = Some out"
proof -
  have m: "unat (magnitude net) < 2 ^ 62" using assms(5) unat_magnitude [of net] by simp
  have p: "unat net < 2 ^ 62" if "0 \<le>s net"
    using that assms(5) uint_eq_sint [of net] by (simp add: word_sle_eq unat_eq_nat_uint)
  have "\<exists>r. carry_net current net = Some r \<and> unat (co_cumulative_deficit r) < 2 ^ 63 \<and>
     unat (co_cumulative_surplus r) < 2 ^ 63 \<and> unat (co_discarded_deficit r) < 2 ^ 62 \<and>
     unat (co_discarded_surplus r) < 2 ^ 62"
  proof (cases "0 \<le>s net")
    case True
    let ?s = "sa_cumulative_surplus current"
    have rem: "unat (net - min net ?s) < 2 ^ 62"
      using p [OF True] unat_minus_min [of net ?s] by (simp add: min.commute)
    have "unat (?s - min net ?s) \<le> unat ?s" using unat_minus_min [of ?s net] by simp
    moreover have "unat (sa_cumulative_deficit current) + unat (net - min net ?s) < 2 ^ 63"
      using rem assms(1) by simp
    ultimately show ?thesis
      using True assms by (simp add: carry_net_def Let_def checked_add_exact unat_plus_exact)
  next
    case False
    let ?d = "sa_cumulative_deficit current"
    have rem: "unat (magnitude net - min (magnitude net) ?d) < 2 ^ 62"
      using m unat_minus_min [of "magnitude net" ?d] by (simp add: min.commute)
    have "unat (?d - min (magnitude net) ?d) \<le> unat ?d" using unat_minus_min [of ?d "magnitude net"] by simp
    moreover have "unat (sa_cumulative_surplus current) + unat (magnitude net - min (magnitude net) ?d) < 2 ^ 63"
      using rem assms(2) by simp
    ultimately show ?thesis
      using False assms by (simp add: carry_net_def Let_def checked_add_exact unat_plus_exact)
  qed
  then obtain r where r: "carry_net current net = Some r" "unat (co_cumulative_deficit r) < 2 ^ 63"
    "unat (co_cumulative_surplus r) < 2 ^ 63" "unat (co_discarded_deficit r) < 2 ^ 62"
    "unat (co_discarded_surplus r) < 2 ^ 62" by blast
  have sub: "unat (a - max_carry) \<le> unat a" if "max_carry < a" for a
    using that by (simp add: unat_minus_exact)
  obtain r' where r': "saturate_deficit max_carry r = Some r'"
    "co_cumulative_surplus r' = co_cumulative_surplus r" "co_discarded_surplus r' = co_discarded_surplus r"
    using r(2,4) sub [of "co_cumulative_deficit r"]
    by (cases "max_carry < co_cumulative_deficit r") (auto simp: saturate_deficit_def checked_add_exact)
  have "\<exists>out. saturate_surplus max_carry r' = Some out"
    using r(3,5) r'(2,3) sub [of "co_cumulative_surplus r'"]
    by (cases "max_carry < co_cumulative_surplus r'") (auto simp: saturate_surplus_def checked_add_exact)
  then show ?thesis using r(1) r'(1) by (simp add: apply_window_carry_def)
qed


section \<open>The closure check\<close>

definition closure_total :: "FairnessAccounting \<Rightarrow> int" where
  "closure_total a = sum_list (map entry_closure (ac_subjects a))"

lemma small_signed: "\<not> int64_max < (w :: u64) \<Longrightarrow> sint w = int (unat w)"
proof -
  assume "\<not> int64_max < w"
  then have "unat w < 2 ^ 63" using int64_limits by (simp add: word_less_nat_alt int64_max_def)
  then show ?thesis using sint_small by blast
qed

lemma closes_step_SomeD:
  assumes "closes_step residual entry = Some r"
  shows "sint r = sint residual + entry_closure entry"
proof -
  from assms obtain a b c where
    sm: "\<not> int64_max < sa_cumulative_deficit entry" "\<not> int64_max < sa_cumulative_surplus entry"
      "\<not> int64_max < sa_discarded_deficit entry" "\<not> int64_max < sa_discarded_surplus entry"
    and st: "checked_add_signed residual (sa_cumulative_deficit entry) = Some a"
      "checked_sub_signed a (sa_cumulative_surplus entry) = Some b"
      "checked_add_signed b (sa_discarded_deficit entry) = Some c"
      "checked_sub_signed c (sa_discarded_surplus entry) = Some r"
    by (auto simp: closes_step_def split: if_splits option.splits)
  show ?thesis
    using checked_add_signed_SomeD [OF st(1)] checked_sub_signed_SomeD [OF st(2)]
      checked_add_signed_SomeD [OF st(3)] checked_sub_signed_SomeD [OF st(4)] sm [THEN small_signed]
    by (simp add: entry_closure_def closure_of_def)
qed

lemma closes_loop_SomeD:
  "closes_loop es residual = Some r \<Longrightarrow> sint r = sint residual + sum_list (map entry_closure es)"
  by (induction es arbitrary: residual) (auto split: option.splits dest: closes_step_SomeD)

lemma checked_sub_signed_ok:
  assumes "sint b = int k" "- (2 ^ 63) \<le> sint a - int k" "sint a - int k < 2 ^ 63"
  shows "\<exists>c. checked_sub_signed a b = Some c \<and> sint c = sint a - int k"
proof -
  have "b \<noteq> int64_min" using assms(1) int64_limits(2) by auto
  then have "checked_sub_signed a b = Some (a - b)"
    using assms by (intro checked_sub_signed_exact) simp_all
  with checked_sub_signed_SomeD [OF this] assms(1) show ?thesis by simp
qed

lemma checked_add_signed_ok:
  assumes "sint b = int k" "- (2 ^ 63) \<le> sint a + int k" "sint a + int k < 2 ^ 63"
  shows "\<exists>c. checked_add_signed a b = Some c \<and> sint c = sint a + int k"
proof -
  have "checked_add_signed a b = Some (a + b)" unfolding checked_add_signed_eq assms(1) using assms by simp
  with checked_add_signed_SomeD [OF this] assms(1) show ?thesis by simp
qed

definition entry_mass :: "SubjectAccounting \<Rightarrow> nat" where
  "entry_mass e = unat (sa_cumulative_deficit e) + unat (sa_cumulative_surplus e) +
     unat (sa_discarded_deficit e) + unat (sa_discarded_surplus e)"

lemma entry_closure_abs: "\<bar>entry_closure e\<bar> \<le> int (entry_mass e)"
proof -
  have "\<bar>int a - int b + int c - int d\<bar> \<le> int (a + b + c + d)" for a b c d by linarith
  then show ?thesis unfolding entry_closure_def closure_of_def entry_mass_def .
qed

lemma closes_step_ok:
  assumes "\<bar>sint residual\<bar> + int (entry_mass e) < 2 ^ 63"
  shows "\<exists>r. closes_step residual e = Some r"
proof -
  define p q u v where "p = unat (sa_cumulative_deficit e)" and "q = unat (sa_cumulative_surplus e)"
    and "u = unat (sa_discarded_deficit e)" and "v = unat (sa_discarded_surplus e)"
  have mass: "\<bar>sint residual\<bar> + int p + int q + int u + int v < 2 ^ 63"
    using assms unfolding entry_mass_def p_def q_def u_def v_def of_nat_add by linarith
  then have num: "\<bar>sint residual\<bar> + int p + int q + int u + int v < 9223372036854775808" by simp
  then have "p < 9223372036854775808" "q < 9223372036854775808" "u < 9223372036854775808"
    "v < 9223372036854775808" by linarith+
  then have lt: "p < 2 ^ 63" "q < 2 ^ 63" "u < 2 ^ 63" "v < 2 ^ 63" by simp_all
  note val = sint_small [of "sa_cumulative_deficit e", folded p_def, OF lt(1)]
    sint_small [of "sa_cumulative_surplus e", folded q_def, OF lt(2)]
    sint_small [of "sa_discarded_deficit e", folded u_def, OF lt(3)]
    sint_small [of "sa_discarded_surplus e", folded v_def, OF lt(4)]
  have "\<exists>a. checked_add_signed residual (sa_cumulative_deficit e) = Some a \<and> sint a = sint residual + int p"
    by (rule checked_add_signed_ok [OF val(1)]) (use mass in linarith)+
  then obtain a where a: "checked_add_signed residual (sa_cumulative_deficit e) = Some a"
    "sint a = sint residual + int p" by blast
  have "\<exists>b. checked_sub_signed a (sa_cumulative_surplus e) = Some b \<and> sint b = sint a - int q"
    by (rule checked_sub_signed_ok [OF val(2)]) (use mass a(2) in linarith)+
  then obtain b where b: "checked_sub_signed a (sa_cumulative_surplus e) = Some b"
    "sint b = sint a - int q" by blast
  have "\<exists>c. checked_add_signed b (sa_discarded_deficit e) = Some c \<and> sint c = sint b + int u"
    by (rule checked_add_signed_ok [OF val(3)]) (use mass a(2) b(2) in linarith)+
  then obtain c where c: "checked_add_signed b (sa_discarded_deficit e) = Some c"
    "sint c = sint b + int u" by blast
  have "\<exists>d. checked_sub_signed c (sa_discarded_surplus e) = Some d \<and> sint d = sint c - int v"
    by (rule checked_sub_signed_ok [OF val(4)]) (use mass a(2) b(2) c(2) in linarith)+
  then obtain d where d: "checked_sub_signed c (sa_discarded_surplus e) = Some d" by blast
  have "\<not> int64_max < sa_cumulative_deficit e" "\<not> int64_max < sa_cumulative_surplus e"
    "\<not> int64_max < sa_discarded_deficit e" "\<not> int64_max < sa_discarded_surplus e"
    using lt by (simp_all add: word_less_nat_alt int64_max_def p_def q_def u_def v_def)
  then show ?thesis using a(1) b(1) c(1) d by (simp add: closes_step_def)
qed

lemma closes_loop_ok:
  "\<bar>sint residual\<bar> + int (sum_list (map entry_mass es)) < 2 ^ 63 \<Longrightarrow>
   \<exists>r. closes_loop es residual = Some r"
proof (induction es arbitrary: residual)
  case (Cons e es)
  have "\<bar>sint residual\<bar> + int (entry_mass e) < 2 ^ 63" using Cons.prems by simp
  then obtain r where r: "closes_step residual e = Some r" using closes_step_ok by blast
  have "\<bar>sint r\<bar> + int (sum_list (map entry_mass es)) < 2 ^ 63"
    using closes_step_SomeD [OF r] entry_closure_abs [of e] Cons.prems by simp
  with Cons.IH r show ?case by simp
qed simp

lemma accounting_closes_iff:
  assumes "sum_list (map entry_mass (ac_subjects a)) < 2 ^ 63"
  shows "accounting_closes a n \<longleftrightarrow> closure_total a = sint n"
proof -
  have "\<bar>sint (0 :: i64)\<bar> + int (sum_list (map entry_mass (ac_subjects a))) < 2 ^ 63"
    using assms by simp
  then obtain r where r: "closes_loop (ac_subjects a) 0 = Some r" using closes_loop_ok by blast
  from closes_loop_SomeD [OF r] have "sint r = closure_total a" by (simp add: closure_total_def)
  then show ?thesis
    using r signed_word_eqI [of r n] by (auto simp: accounting_closes_def)
qed

section \<open>Properties\<close>

text \<open>What a window leaves to be carried before the bound cuts it off, and when every counter can hold it.\<close>

definition gross_deficit :: "SubjectAccounting \<Rightarrow> i64 \<Rightarrow> nat" where
  "gross_deficit current net = unat (sa_cumulative_deficit current) +
     (nat (sint net) - unat (sa_cumulative_surplus current)) - nat (- sint net)"

definition gross_surplus :: "SubjectAccounting \<Rightarrow> i64 \<Rightarrow> nat" where
  "gross_surplus current net = unat (sa_cumulative_surplus current) +
     (nat (- sint net) - unat (sa_cumulative_deficit current)) - nat (sint net)"

definition carry_fits :: "SubjectAccounting \<Rightarrow> i64 \<Rightarrow> u64 \<Rightarrow> bool" where
  "carry_fits current net max_carry \<longleftrightarrow>
     gross_deficit current net < 2 ^ 64 \<and> gross_surplus current net < 2 ^ 64 \<and>
     unat (sa_discarded_deficit current) + (gross_deficit current net - unat max_carry) < 2 ^ 64 \<and>
     unat (sa_discarded_surplus current) + (gross_surplus current net - unat max_carry) < 2 ^ 64"

lemma carry_net_exact:
  "case carry_net current net of
     None \<Rightarrow> \<not> (gross_deficit current net < 2 ^ 64 \<and> gross_surplus current net < 2 ^ 64)
   | Some r \<Rightarrow> unat (co_cumulative_deficit r) = gross_deficit current net \<and>
       unat (co_cumulative_surplus r) = gross_surplus current net \<and>
       co_discarded_deficit r = sa_discarded_deficit current \<and> co_discarded_surplus r = sa_discarded_surplus current"
proof (cases "0 \<le>s net")
  case True
  then have n: "0 \<le> sint net" by (simp add: word_sle_eq)
  have u: "unat net = nat (sint net)" using n uint_eq_sint [of net] by (simp add: unat_eq_nat_uint)
  let ?cs = "sa_cumulative_surplus current"
  have s: "unat (net - min net ?cs) = unat net - unat ?cs" "unat (?cs - min net ?cs) = unat ?cs - unat net"
    using unat_minus_min [of net ?cs] unat_minus_min [of ?cs net] by (simp_all add: min.commute min_def)
  have g: "gross_deficit current net = unat (sa_cumulative_deficit current) + (unat net - unat ?cs)"
    "gross_surplus current net = unat ?cs - unat net"
    using n by (simp_all add: gross_deficit_def gross_surplus_def u)
  show ?thesis
  proof (cases "checked_add (sa_cumulative_deficit current) (net - min net ?cs)")
    case None
    then show ?thesis using True checked_add_NoneD [OF None] by (simp add: carry_net_def Let_def g s)
  next
    case (Some c)
    then show ?thesis using True conjunct2 [OF checked_add_SomeD [OF Some]] by (simp add: carry_net_def Let_def g s)
  qed
next
  case False
  then have n: "sint net < 0" by (simp add: word_sle_eq)
  let ?m = "magnitude net" and ?cd = "sa_cumulative_deficit current"
  have u: "unat ?m = nat (- sint net)" using n unat_magnitude [of net] by simp
  have s: "unat (?m - min ?m ?cd) = unat ?m - unat ?cd" "unat (?cd - min ?m ?cd) = unat ?cd - unat ?m"
    using unat_minus_min [of ?m ?cd] unat_minus_min [of ?cd ?m] by (simp_all add: min.commute min_def)
  have g: "gross_surplus current net = unat (sa_cumulative_surplus current) + (unat ?m - unat ?cd)"
    "gross_deficit current net = unat ?cd - unat ?m"
    using n by (simp_all add: gross_deficit_def gross_surplus_def u)
  show ?thesis
  proof (cases "checked_add (sa_cumulative_surplus current) (?m - min ?m ?cd)")
    case None
    then show ?thesis using False checked_add_NoneD [OF None] by (simp add: carry_net_def Let_def g s)
  next
    case (Some c)
    then show ?thesis using False conjunct2 [OF checked_add_SomeD [OF Some]] by (simp add: carry_net_def Let_def g s)
  qed
qed

lemma saturate_deficit_exact:
  "case saturate_deficit max_carry r of
     None \<Rightarrow> 2 ^ 64 \<le> unat (co_discarded_deficit r) + (unat (co_cumulative_deficit r) - unat max_carry)
   | Some r' \<Rightarrow> unat (co_discarded_deficit r) + (unat (co_cumulative_deficit r) - unat max_carry) < 2 ^ 64 \<and>
       unat (co_cumulative_deficit r') = min (unat max_carry) (unat (co_cumulative_deficit r)) \<and>
       co_discarded_surplus r' = co_discarded_surplus r \<and>
       (co_saturated r' \<longleftrightarrow> co_saturated r \<or> max_carry < co_cumulative_deficit r)"
proof (cases "max_carry < co_cumulative_deficit r")
  case True
  have m: "unat (co_cumulative_deficit r - max_carry) = unat (co_cumulative_deficit r) - unat max_carry"
    using True by (simp add: unat_minus_exact less_imp_le)
  show ?thesis
  proof (cases "checked_add (co_discarded_deficit r) (co_cumulative_deficit r - max_carry)")
    case None
    then show ?thesis using True checked_add_NoneD [OF None] by (simp add: saturate_deficit_def m)
  next
    case (Some c)
    then show ?thesis
      using True conjunct2 [OF checked_add_SomeD [OF Some]] unat_u64_bounded [of c] by (simp add: saturate_deficit_def m word_less_nat_alt)
  qed
next
  case False
  have "unat (co_cumulative_deficit r) \<le> unat max_carry" using False by (simp add: not_less word_le_nat_alt)
  then show ?thesis using False unat_u64_bounded [of "co_discarded_deficit r"]
    by (simp add: saturate_deficit_def min_absorb2)
qed

lemma saturate_surplus_exact:
  "case saturate_surplus max_carry r of
     None \<Rightarrow> 2 ^ 64 \<le> unat (co_discarded_surplus r) + (unat (co_cumulative_surplus r) - unat max_carry)
   | Some r' \<Rightarrow> unat (co_discarded_surplus r) + (unat (co_cumulative_surplus r) - unat max_carry) < 2 ^ 64 \<and>
       unat (co_cumulative_surplus r') = min (unat max_carry) (unat (co_cumulative_surplus r)) \<and>
       (co_saturated r' \<longleftrightarrow> co_saturated r \<or> max_carry < co_cumulative_surplus r)"
proof (cases "max_carry < co_cumulative_surplus r")
  case True
  have m: "unat (co_cumulative_surplus r - max_carry) = unat (co_cumulative_surplus r) - unat max_carry"
    using True by (simp add: unat_minus_exact less_imp_le)
  show ?thesis
  proof (cases "checked_add (co_discarded_surplus r) (co_cumulative_surplus r - max_carry)")
    case None
    then show ?thesis using True checked_add_NoneD [OF None] by (simp add: saturate_surplus_def m)
  next
    case (Some c)
    then show ?thesis
      using True conjunct2 [OF checked_add_SomeD [OF Some]] unat_u64_bounded [of c] by (simp add: saturate_surplus_def m word_less_nat_alt)
  qed
next
  case False
  have "unat (co_cumulative_surplus r) \<le> unat max_carry" using False by (simp add: not_less word_le_nat_alt)
  then show ?thesis using False unat_u64_bounded [of "co_discarded_surplus r"]
    by (simp add: saturate_surplus_def min_absorb2)
qed

text \<open>The update succeeds exactly where no counter overflows, and what it carries is the gross carry cut at
  the bound.\<close>

lemma apply_window_carry_exact:
  "case apply_window_carry current net max_carry of
     None \<Rightarrow> \<not> carry_fits current net max_carry
   | Some out \<Rightarrow> carry_fits current net max_carry \<and>
       unat (co_cumulative_deficit out) = min (unat max_carry) (gross_deficit current net) \<and>
       unat (co_cumulative_surplus out) = min (unat max_carry) (gross_surplus current net) \<and>
       (co_saturated out \<longleftrightarrow> unat max_carry < gross_deficit current net \<or> unat max_carry < gross_surplus current net)"
proof (cases "carry_net current net")
  case None
  then show ?thesis using carry_net_exact [of current net] by (auto simp: apply_window_carry_def carry_fits_def)
next
  case (Some r)
  note n = carry_net_exact [of current net, unfolded Some option.case] carry_net_spec(4) [OF Some]
  have fit: "gross_deficit current net < 2 ^ 64" "gross_surplus current net < 2 ^ 64"
    using n(1) unat_u64_bounded [of "co_cumulative_deficit r"] unat_u64_bounded [of "co_cumulative_surplus r"] by simp_all
  show ?thesis
  proof (cases "saturate_deficit max_carry r")
    case None
    then show ?thesis using saturate_deficit_exact [of r max_carry] n Some by (simp add: apply_window_carry_def carry_fits_def)
  next
    case (Some r')
    have d: "unat (sa_discarded_deficit current) + (gross_deficit current net - unat max_carry) < 2 ^ 64"
      "unat (co_cumulative_deficit r') = min (unat max_carry) (gross_deficit current net)"
      "co_discarded_surplus r' = sa_discarded_surplus current"
      "unat (co_cumulative_surplus r') = gross_surplus current net"
      "co_saturated r' \<longleftrightarrow> unat max_carry < gross_deficit current net"
      using saturate_deficit_exact [of r max_carry] saturate_deficit_spec(4) [OF Some] n Some
      by (simp_all add: word_less_nat_alt)
    have eq: "apply_window_carry current net max_carry = saturate_surplus max_carry r'"
      using \<open>carry_net current net = Some r\<close> Some by (simp add: apply_window_carry_def)
    show ?thesis
    proof (cases "saturate_surplus max_carry r'")
      case None
      then show ?thesis using saturate_surplus_exact [of r' max_carry] d by (simp add: eq carry_fits_def)
    next
      case (Some out)
      then show ?thesis using saturate_surplus_exact [of r' max_carry] saturate_surplus_spec(4) [OF Some] d fit
        by (simp add: eq carry_fits_def word_less_nat_alt)
    qed
  qed
qed

text \<open>The identity at the head of \<open>accounting.hpp\<close> (live deficit less live surplus is the net plus discarded deficit less
  discarded surplus) does not hold where the carry saturates.\<close>

lemma header_identity_fails:
  "case apply_window_carry default_subject_accounting 5 3 of
     None \<Rightarrow> False
   | Some out \<Rightarrow> int (unat (co_cumulative_deficit out)) - int (unat (co_cumulative_surplus out))
       \<noteq> 5 + int (unat (co_discarded_deficit out)) - int (unat (co_discarded_surplus out))"
  by code_simp

text \<open>C6: One window of carry, exactly. The update succeeds if and only if no counter overflows, and it fails with
  nothing else; saturation is no failure. What it then carries is the gross deficit and surplus of the window, each
  cut at the bound, and it says whether anything was cut. The closure combination of the subject (live deficit
  minus live surplus plus discarded deficit minus discarded surplus) moves by exactly the net of the window, also where
  the carry saturates, because saturation only moves units into the discarded terms. What the window recognises as
  deficit and the credit it consumes add up to the positive net (and dually for surplus and debit), and a carry
  that does not hold a deficit and a surplus at once keeps that form. (The closure is the one of the comment on the
  function; the comment at the head of \<open>accounting.hpp\<close> has the discarded terms with the other sign, which
  \<open>header_identity_fails\<close> refutes.)\<close>

theorem apply_window_carry_closes:
  "case apply_window_carry current net max_carry of
     None \<Rightarrow> \<not> carry_fits current net max_carry
   | Some out \<Rightarrow> carry_fits current net max_carry \<and>
       outcome_closure out = entry_closure current + sint net \<and>
       unat (co_cumulative_deficit out) = min (unat max_carry) (gross_deficit current net) \<and>
       unat (co_cumulative_surplus out) = min (unat max_carry) (gross_surplus current net) \<and>
       (co_saturated out \<longleftrightarrow> unat max_carry < gross_deficit current net \<or> unat max_carry < gross_surplus current net) \<and>
       int (unat (co_deficit_units out)) + int (unat (co_credit_applied out)) = max 0 (sint net) \<and>
       int (unat (co_surplus_units out)) + int (unat (co_debit_applied out)) = max 0 (- sint net) \<and>
       (netted current \<longrightarrow> co_cumulative_deficit out = 0 \<or> co_cumulative_surplus out = 0)"
proof (cases "apply_window_carry current net max_carry")
  case None
  then show ?thesis using apply_window_carry_exact [of current net max_carry] by simp
next
  case (Some out)
  then show ?thesis using apply_window_carry_exact [of current net max_carry] apply_window_carry_spec [OF Some] by simp
qed

theorem apply_window_carry_closes_witness:
  "\<exists>out. apply_window_carry (default_subject_accounting\<lparr>sa_cumulative_surplus := 30\<rparr>) 50 15 = Some out \<and>
     outcome_closure out = entry_closure (default_subject_accounting\<lparr>sa_cumulative_surplus := 30\<rparr>) + 50"
proof -
  have "apply_window_carry (default_subject_accounting\<lparr>sa_cumulative_surplus := 30\<rparr>) 50 15 =
     Some \<lparr>co_cumulative_deficit = 15, co_cumulative_surplus = 0, co_discarded_deficit = 5,
       co_discarded_surplus = 0, co_deficit_units = 20, co_surplus_units = 0, co_credit_applied = 30,
       co_debit_applied = 0, co_saturated = True\<rparr>" by code_simp
  then show ?thesis
    using apply_window_carry_closes [of "default_subject_accounting\<lparr>sa_cumulative_surplus := 30\<rparr>" 50 15] by simp
qed

text \<open>The closure check decides the identity it is named for: on every accounting whose counters add
  up below \<open>2 ^ 63\<close>, \<open>accounting_closes\<close> holds exactly where the signed closure combination over all
  subjects is the expected net sum; and whatever the counters are, it never accepts a wrong sum.\<close>

theorem accounting_closes_decides:
  "(accounting_closes a n \<longrightarrow> closure_total a = sint n) \<and>
   (sum_list (map entry_mass (ac_subjects a)) < 2 ^ 63 \<longrightarrow>
      (accounting_closes a n \<longleftrightarrow> closure_total a = sint n))"
  using accounting_closes_iff closes_loop_SomeD
  by (fastforce simp: accounting_closes_def closure_total_def split: option.splits)

theorem accounting_closes_decides_witness:
  "accounting_closes (default_accounting\<lparr>ac_subjects := [default_subject_accounting
     \<lparr>sa_cumulative_surplus := 3, sa_discarded_deficit := 1\<rparr>]\<rparr>) (- 2)"
  using accounting_closes_decides [of "default_accounting\<lparr>ac_subjects := [default_subject_accounting
     \<lparr>sa_cumulative_surplus := 3, sa_discarded_deficit := 1\<rparr>]\<rparr>" "- 2"]
  by (simp add: default_accounting_def default_subject_accounting_def entry_mass_def
      closure_total_def entry_closure_def closure_of_def)

end
