(* ===== verification/FG_Bytes.thy ===== *)
theory FG_Bytes
  imports FG_Core
begin

text \<open>
  Bounded little-endian encoding (\<open>core/bytes.hpp\<close>) and the FNV-1a digest (\<open>core/ids.hpp\<close>).

  A \<open>ByteWriter\<close> only appends: the model of a write is the byte list it appends. A \<open>ByteReader\<close> is a
  pointer, a size and an offset: the model of its state is the list of bytes that remain, and a read
  that would run off the end is \<open>None\<close>. The locale \<open>wire_format\<close> is the contract between an encoder and
  a decoder; every record of the codec is an instance of it.
\<close>

unbundle bit_operations_syntax

section \<open>Definitions\<close>

text \<open>The bytes of a value, least significant first: the loop \<open>push_back((value >> shift) & 0xFF)\<close>.\<close>

definition le_bytes :: "nat \<Rightarrow> 'a::len word \<Rightarrow> bytes" where
  "le_bytes n v = map (\<lambda>i. ucast (drop_bit (8 * i) v AND 0xFF)) [0..<n]"

text \<open>The loop \<open>value |= static_cast<T>(data[i]) << (8 * i)\<close>.\<close>

fun le_or :: "nat \<Rightarrow> bytes \<Rightarrow> 'a::len word \<Rightarrow> 'a word" where
  "le_or i [] acc = acc"
| "le_or i (b # bs) acc = le_or (Suc i) bs (acc OR push_bit (8 * i) (ucast b))"

definition put_u8 :: "u8 \<Rightarrow> bytes" where "put_u8 v = [v]"
definition put_u16 :: "u16 \<Rightarrow> bytes" where "put_u16 v = le_bytes 2 v"
definition put_u32 :: "u32 \<Rightarrow> bytes" where "put_u32 v = le_bytes 4 v"
definition put_u64 :: "u64 \<Rightarrow> bytes" where "put_u64 v = le_bytes 8 v"
definition put_i64 :: "i64 \<Rightarrow> bytes" where "put_i64 v = put_u64 v"

definition put_blob :: "bytes \<Rightarrow> bytes" where
  "put_blob s = put_u32 (of_nat (length s)) @ s"

definition get_u8 :: "bytes \<Rightarrow> (u8 \<times> bytes) option" where
  "get_u8 r = (if length r < 1 then None else Some (hd r, tl r))"

definition get_u16 :: "bytes \<Rightarrow> (u16 \<times> bytes) option" where
  "get_u16 r = (if length r < 2 then None else Some (le_or 0 (take 2 r) 0, drop 2 r))"

definition get_u32 :: "bytes \<Rightarrow> (u32 \<times> bytes) option" where
  "get_u32 r = (if length r < 4 then None else Some (le_or 0 (take 4 r) 0, drop 4 r))"

definition get_u64 :: "bytes \<Rightarrow> (u64 \<times> bytes) option" where
  "get_u64 r = (if length r < 8 then None else Some (le_or 0 (take 8 r) 0, drop 8 r))"

definition get_i64 :: "bytes \<Rightarrow> (i64 \<times> bytes) option" where
  "get_i64 r = get_u64 r"

definition get_raw :: "nat \<Rightarrow> bytes \<Rightarrow> (bytes \<times> bytes) option" where
  "get_raw n r = (if length r < n then None else Some (take n r, drop n r))"

definition get_blob :: "u32 \<Rightarrow> bytes \<Rightarrow> (bytes \<times> bytes) option" where
  "get_blob max_size r =
     (case get_u32 r of
        None \<Rightarrow> None
      | Some (len, r) \<Rightarrow>
          (if max_size < len then None
           else if length r < unat len then None
           else Some (take (unat len) r, drop (unat len) r)))"

definition skip_bytes :: "nat \<Rightarrow> bytes \<Rightarrow> bytes option" where
  "skip_bytes n r = (if length r < n then None else Some (drop n r))"

definition store_le :: "nat \<Rightarrow> u64 \<Rightarrow> bytes" where
  "store_le n v = le_bytes n v"

definition load_le :: "bytes \<Rightarrow> u64" where
  "load_le bs = le_or 0 bs 0"

definition kFnvOffsetBasis :: u64 where "kFnvOffsetBasis = 1469598103934665603"

definition fnv1a64 :: "bytes \<Rightarrow> u64 \<Rightarrow> u64" where
  "fnv1a64 data seed = fold (\<lambda>b hash. (hash XOR ucast b) * 1099511628211) data seed"

definition checksum64 :: "bytes \<Rightarrow> u64" where
  "checksum64 data = fnv1a64 data kFnvOffsetBasis"

text \<open>A counted sequence of elements: the loops of the decoders.\<close>

fun get_many :: "(bytes \<Rightarrow> ('a \<times> bytes) option) \<Rightarrow> nat \<Rightarrow> bytes \<Rightarrow> ('a list \<times> bytes) option" where
  "get_many get 0 r = Some ([], r)"
| "get_many get (Suc n) r =
     (case get r of
        None \<Rightarrow> None
      | Some (x, r) \<Rightarrow>
          (case get_many get n r of None \<Rightarrow> None | Some (xs, r) \<Rightarrow> Some (x # xs, r)))"

section \<open>Little-endian words\<close>

lemma le_bytes_length [simp]: "length (le_bytes n v) = n"
  by (simp add: le_bytes_def)

lemma bit_le_bytes:
  "\<lbrakk>k < n; m < 8\<rbrakk> \<Longrightarrow> bit (le_bytes n v ! k) m = bit v (8 * k + m)"
proof -
  assume km: "k < n" "m < 8"
  have m: "(0xFF :: 'a word) = mask 8" by (simp add: mask_eq_exp_minus_1)
  show ?thesis
    unfolding le_bytes_def m using km by (auto simp: bit_simps dest: bit_imp_le_length)
qed

lemma bit_le_or:
  "bit (le_or i bs (acc :: 'a::len word)) n \<longleftrightarrow> bit acc n \<or>
   (8 * i \<le> n \<and> n < 8 * (i + length bs) \<and> n < LENGTH('a) \<and> bit (bs ! (n div 8 - i)) (n mod 8))"
proof (induction bs arbitrary: i acc)
  case (Cons b bs)
  have hd: "bit (push_bit (8 * i) (ucast b :: 'a word)) n \<longleftrightarrow>
      8 * i \<le> n \<and> n < LENGTH('a) \<and> bit b (n - 8 * i)"
    by (auto simp: bit_push_bit_iff bit_ucast_iff)
  have IH: "bit (le_or i (b # bs) acc) n \<longleftrightarrow> bit acc n \<or>
      (8 * i \<le> n \<and> n < LENGTH('a) \<and> bit b (n - 8 * i)) \<or>
      (8 * Suc i \<le> n \<and> n < 8 * (Suc i + length bs) \<and> n < LENGTH('a) \<and>
       bit (bs ! (n div 8 - Suc i)) (n mod 8))"
    unfolding le_or.simps Cons.IH bit_or_iff hd by blast
  show ?case
  proof (cases "8 * i \<le> n")
    case False
    then show ?thesis unfolding IH by simp
  next
    case True
    then obtain k where n: "n = 8 * i + k" using le_Suc_ex by blast
    have dm: "n mod 8 = k mod 8" "n div 8 - i = k div 8" "n div 8 - Suc i = k div 8 - 1"
      "n - 8 * i = k" by (simp_all add: n)
    show ?thesis
    proof (cases "k < 8")
      case True
      then show ?thesis unfolding IH dm using n by simp
    next
      case False
      then have "\<not> bit b k" using bit_imp_le_length [of b k] by auto
      moreover have "k div 8 = Suc (k div 8 - 1)" using False by (simp add: Suc_diff_1 div_greater_zero_iff)
      then have "(b # bs) ! (k div 8) = bs ! (k div 8 - 1)" by (metis nth_Cons_Suc)
      ultimately show ?thesis unfolding IH dm using n False by simp
    qed
  qed
next
  case Nil
  have "\<not> (8 * i \<le> n \<and> n < 8 * (i + length ([] :: bytes)))" by simp
  then show ?case unfolding le_or.simps by blast
qed

lemma le_round_trip:
  assumes "LENGTH('a) = 8 * n"
  shows "le_or 0 (le_bytes n v) 0 = (v :: 'a::len word)"
proof (rule bit_word_eqI)
  fix k assume "k < LENGTH('a)"
  then have "k div 8 < n" "k mod 8 < 8" using assms by auto
  then show "bit (le_or 0 (le_bytes n v) 0 :: 'a word) k \<longleftrightarrow> bit v k"
    using \<open>k < LENGTH('a)\<close> assms by (simp add: bit_le_or bit_le_bytes)
qed

section \<open>The contract of an encoder and its decoder\<close>

text \<open>\<open>put\<close> appends an element, \<open>get\<close> reads one back and leaves what follows; \<open>ok\<close> says which elements
  can be written.\<close>

locale wire_format =
  fixes ok :: "'a \<Rightarrow> bool" and put :: "'a \<Rightarrow> bytes" and get :: "bytes \<Rightarrow> ('a \<times> bytes) option"
  assumes get_put: "ok x \<Longrightarrow> get (put x @ r) = Some (x, r)"
begin

lemma put_injective:
  assumes "ok x" "ok y" "put x @ r = put y @ r'"
  shows "x = y \<and> r = r'"
proof -
  have "get (put x @ r) = Some (x, r)" by (rule get_put [OF assms(1)])
  moreover have "get (put x @ r) = Some (y, r')" unfolding assms(3) by (rule get_put [OF assms(2)])
  ultimately show ?thesis by simp
qed

lemma get_many_put:
  "\<forall>x\<in>set xs. ok x \<Longrightarrow> get_many get (length xs) (concat (map put xs) @ r) = Some (xs, r)"
  by (induction xs) (simp_all add: get_put)

lemma put_list_injective:
  assumes "\<forall>x\<in>set xs. ok x" "\<forall>y\<in>set ys. ok y" "length xs = length ys"
    and "concat (map put xs) @ r = concat (map put ys) @ r'"
  shows "xs = ys \<and> r = r'"
proof -
  have "get_many get (length ys) (concat (map put xs) @ r) = Some (xs, r)"
    using get_many_put [OF assms(1)] assms(3) by simp
  moreover have "get_many get (length ys) (concat (map put xs) @ r) = Some (ys, r')"
    unfolding assms(4) by (rule get_many_put [OF assms(2)])
  ultimately show ?thesis by simp
qed

end

interpretation wire_u8: wire_format "\<lambda>_. True" put_u8 get_u8
  by unfold_locales (simp add: put_u8_def get_u8_def)

interpretation wire_u16: wire_format "\<lambda>_. True" put_u16 get_u16
  by unfold_locales (simp add: put_u16_def get_u16_def le_round_trip)

interpretation wire_u32: wire_format "\<lambda>_. True" put_u32 get_u32
  by unfold_locales (simp add: put_u32_def get_u32_def le_round_trip)

interpretation wire_u64: wire_format "\<lambda>_. True" put_u64 get_u64
  by unfold_locales (simp add: put_u64_def get_u64_def le_round_trip)

interpretation wire_i64: wire_format "\<lambda>_. True" put_i64 get_i64
  by unfold_locales (simp add: put_i64_def get_i64_def wire_u64.get_put)

lemma get_put_blob:
  assumes "length s \<le> unat max_size"
  shows "get_blob max_size (put_blob s @ r) = Some (s, r)"
proof -
  have "unat (of_nat (length s) :: u32) = length s"
    using assms unat_bounded [of max_size] by (intro unat_of_nat_exact) simp
  then show ?thesis
    using assms by (simp add: get_blob_def put_blob_def wire_u32.get_put word_less_nat_alt)
qed

interpretation wire_blob: wire_format "\<lambda>s. length s \<le> unat max_size" put_blob "get_blob max_size"
  for max_size
  by unfold_locales (rule get_put_blob)

lemmas get_put_simps [simp] = wire_u8.get_put [OF TrueI] wire_u16.get_put [OF TrueI]
  wire_u32.get_put [OF TrueI] wire_u64.get_put [OF TrueI] wire_i64.get_put [OF TrueI] get_put_blob

lemma put_length [simp]:
  "length (put_u8 a) = 1" "length (put_u16 b) = 2" "length (put_u32 c) = 4" "length (put_u64 d) = 8"
  "length (put_i64 e) = 8" "length (put_blob s) = 4 + length s"
  by (simp_all add: put_u8_def put_u16_def put_u32_def put_u64_def put_i64_def put_blob_def)

text \<open>A read consumes a prefix of what remains: no read runs off the end of the buffer.\<close>

definition reads_prefix :: "(bytes \<Rightarrow> ('a \<times> bytes) option) \<Rightarrow> bool" where
  "reads_prefix get \<longleftrightarrow> (\<forall>r x r'. get r = Some (x, r') \<longrightarrow> (\<exists>used. r = used @ r'))"

lemma prefix_drop: "\<exists>used. r = used @ drop n r"
  by (metis append_take_drop_id)

lemma reads_prefix_primitives:
  "reads_prefix get_u8" "reads_prefix get_u16" "reads_prefix get_u32" "reads_prefix get_u64"
  "reads_prefix get_i64" "reads_prefix (get_raw n)"
proof -
  have "\<exists>used. r = used @ tl r" for r :: bytes using prefix_drop [of r 1] by (simp add: drop_Suc)
  then show "reads_prefix get_u8" by (auto simp: reads_prefix_def get_u8_def split: if_splits)
qed (auto simp: reads_prefix_def get_u16_def get_u32_def get_u64_def get_i64_def get_raw_def prefix_drop
    split: if_splits)

end
