(* ===== verification/FG_Greedy.thy ===== *)
theory FG_Greedy
  imports FG_Core "HOL-Library.Product_Lexorder"
begin

text \<open>
  Two ingredients that the allocation primitive and the correction planner share:

  \<^item> \<open>std::sort\<close> with a caller-supplied strict ordering. The contract of \<open>std::sort\<close> is the locale
    \<open>std_sorter\<close>; \<open>std_sort\<close> is an executable instance. Where the comparator is total on the sorted
    elements, the contract determines the result, so no property rests on the instance.
  \<^item> the grant loop \<open>for index in order: if (remaining == 0) break; g = min(cap[index], remaining);
    out[index] op= g; remaining -= g\<close>, which the code writes four times.
\<close>

section \<open>Sorting by a comparator\<close>

fun sort_insert :: "('a \<Rightarrow> 'a \<Rightarrow> bool) \<Rightarrow> 'a \<Rightarrow> 'a list \<Rightarrow> 'a list" where
  "sort_insert lt x [] = [x]"
| "sort_insert lt x (y # ys) = (if lt y x then y # sort_insert lt x ys else x # y # ys)"

definition std_sort :: "('a \<Rightarrow> 'a \<Rightarrow> bool) \<Rightarrow> 'a list \<Rightarrow> 'a list" where
  "std_sort lt xs = foldr (sort_insert lt) xs []"

text \<open>The requirement \<open>Compare\<close> of the C++ standard, on the elements that are sorted.\<close>

definition strict_weak :: "('a \<Rightarrow> 'a \<Rightarrow> bool) \<Rightarrow> 'a set \<Rightarrow> bool" where
  "strict_weak lt A \<longleftrightarrow>
     (\<forall>a\<in>A. \<not> lt a a) \<and>
     (\<forall>a\<in>A. \<forall>b\<in>A. \<forall>c\<in>A. lt a b \<longrightarrow> lt b c \<longrightarrow> lt a c) \<and>
     (\<forall>a\<in>A. \<forall>b\<in>A. \<forall>c\<in>A. \<not> lt a b \<longrightarrow> \<not> lt b c \<longrightarrow> \<not> lt a c)"

definition total_on_elements :: "('a \<Rightarrow> 'a \<Rightarrow> bool) \<Rightarrow> 'a set \<Rightarrow> bool" where
  "total_on_elements lt A \<longleftrightarrow> (\<forall>a\<in>A. \<forall>b\<in>A. a \<noteq> b \<longrightarrow> lt a b \<or> lt b a)"

lemma strict_weak_key:
  "(\<And>a b. \<lbrakk>a \<in> A; b \<in> A\<rbrakk> \<Longrightarrow> lt a b \<longleftrightarrow> key a < (key b :: _::linorder)) \<Longrightarrow> strict_weak lt A"
  unfolding strict_weak_def by (auto intro: less_trans)

lemma total_on_elements_key:
  "\<lbrakk>\<And>a b. \<lbrakk>a \<in> A; b \<in> A\<rbrakk> \<Longrightarrow> lt a b \<longleftrightarrow> key a < (key b :: _::linorder); inj_on key A\<rbrakk>
   \<Longrightarrow> total_on_elements lt A"
  unfolding total_on_elements_def by (metis inj_onD linorder_neqE)

lemma sorted_mset_unique:
  "\<lbrakk>mset ys = mset zs; sorted_wrt R ys; sorted_wrt R zs;
    \<And>a b. \<lbrakk>a \<in> set ys; b \<in> set ys; R a b; R b a\<rbrakk> \<Longrightarrow> a = b\<rbrakk> \<Longrightarrow> ys = zs"
proof (induction ys arbitrary: zs)
  case (Cons y ys)
  then obtain z zs' where zs: "zs = z # zs'" by (cases zs) auto
  have set_eq: "insert y (set ys) = insert z (set zs')"
    using Cons.prems(1) zs by (metis list.simps(15) set_mset_mset)
  have "y = z"
  proof (rule ccontr)
    assume ne: "y \<noteq> z"
    with set_eq have "z \<in> set ys" "y \<in> set zs'" by auto
    with Cons.prems(2,3) zs have "R y z" "R z y" by auto
    with Cons.prems(4) \<open>z \<in> set ys\<close> ne show False by auto
  qed
  with Cons zs show ?case by simp
qed simp

locale std_sorter =
  fixes sorter :: "('a \<Rightarrow> 'a \<Rightarrow> bool) \<Rightarrow> 'a list \<Rightarrow> 'a list"
  assumes sorter_mset: "mset (sorter lt xs) = mset xs"
    and sorter_ordered:
      "strict_weak lt (set xs) \<Longrightarrow> sorted_wrt (\<lambda>a b. \<not> lt b a) (sorter lt xs)"
begin

lemma sorter_set [simp]: "set (sorter lt xs) = set xs"
  using sorter_mset by (metis set_mset_mset)

lemma sorter_length [simp]: "length (sorter lt xs) = length xs"
  using sorter_mset by (metis size_mset)

lemma sorter_distinct [simp]: "distinct (sorter lt xs) \<longleftrightarrow> distinct xs"
  using sorter_mset by (metis mset_eq_imp_distinct_iff)

text \<open>The contract determines the result where the comparator separates the elements.\<close>

lemma sorter_unique:
  assumes "strict_weak lt (set xs)" and "total_on_elements lt (set xs)"
    and "mset ys = mset xs" and "sorted_wrt (\<lambda>a b. \<not> lt b a) ys"
  shows "ys = sorter lt xs"
proof (rule sorted_mset_unique)
  show "mset ys = mset (sorter lt xs)" using assms(3) by (simp add: sorter_mset)
  show "sorted_wrt (\<lambda>a b. \<not> lt b a) (sorter lt xs)" using assms(1) by (rule sorter_ordered)
  have "set ys = set xs" using assms(3) by (metis set_mset_mset)
  then show "a = b" if "a \<in> set ys" "b \<in> set ys" "\<not> lt b a" "\<not> lt a b" for a b
    using that assms(2) by (auto simp: total_on_elements_def)
qed (fact assms(4))

text \<open>Elements that come first do not lose against the ones that come later.\<close>

lemma sorter_before:
  assumes "strict_weak lt (set xs)" and "sorter lt xs = us @ a # vs" and "b \<in> set vs"
  shows "\<not> lt b a"
  using sorter_ordered [OF assms(1)] assms(2,3) by (simp add: sorted_wrt_append)

end

lemma mset_sort_insert: "mset (sort_insert lt x ys) = add_mset x (mset ys)"
  by (induction ys) auto

lemma mset_std_sort: "mset (std_sort lt xs) = mset xs"
  by (induction xs) (simp_all add: std_sort_def mset_sort_insert)

lemma sorted_sort_insert:
  assumes "strict_weak lt A" and "x \<in> A" and "set ys \<subseteq> A" and "sorted_wrt (\<lambda>a b. \<not> lt b a) ys"
  shows "sorted_wrt (\<lambda>a b. \<not> lt b a) (sort_insert lt x ys)"
  using assms(3,4)
proof (induction ys)
  case (Cons y ys)
  have set_ins: "set (sort_insert lt x ys) = insert x (set ys)"
    using mset_sort_insert [of lt x ys] by (metis set_mset_add_mset_insert set_mset_mset)
  from assms(1,2) Cons.prems have neg: "\<lbrakk>\<not> lt y x; z \<in> set ys\<rbrakk> \<Longrightarrow> \<not> lt z x" for z
    unfolding strict_weak_def by (metis insert_subset list.simps(15) sorted_wrt.simps(2) subsetD)
  have asym: "lt y x \<Longrightarrow> \<not> lt x y"
    using assms(1,2) Cons.prems(1) unfolding strict_weak_def by (metis insert_subset list.simps(15))
  show ?case using Cons neg asym by (auto simp: set_ins)
qed simp

lemma sorted_std_sort:
  assumes "strict_weak lt (set xs)"
  shows "sorted_wrt (\<lambda>a b. \<not> lt b a) (std_sort lt xs)"
proof -
  have "sorted_wrt (\<lambda>a b. \<not> lt b a) (std_sort lt ys)" if "set ys \<subseteq> set xs" for ys
    using that
  proof (induction ys)
    case (Cons y ys)
    moreover have "set (std_sort lt ys) = set ys" by (metis mset_std_sort set_mset_mset)
    ultimately show ?case
      using sorted_sort_insert [OF assms, of y "std_sort lt ys"] by (simp add: std_sort_def)
  qed (simp add: std_sort_def)
  then show ?thesis by simp
qed

interpretation sorting: std_sorter std_sort
  by unfold_locales (simp_all add: mset_std_sort sorted_std_sort)

section \<open>The grant loop\<close>

fun grant_loop :: "('i \<Rightarrow> u64) \<Rightarrow> ('i \<Rightarrow> u64 \<Rightarrow> 's \<Rightarrow> 's) \<Rightarrow> 'i list \<Rightarrow> u64 \<Rightarrow> 's \<Rightarrow> 's \<times> u64" where
  "grant_loop cap put [] remaining s = (s, remaining)"
| "grant_loop cap put (i # rest) remaining s =
     (if remaining = 0 then (s, remaining)
      else let g = min (cap i) remaining in grant_loop cap put rest (remaining - g) (put i g s))"

text \<open>What each index is granted, as a function of the order, the caps and the budget: an index
  gets what is left of the budget after the caps before it, up to its own cap.\<close>

fun grant_of :: "('i \<Rightarrow> nat) \<Rightarrow> 'i list \<Rightarrow> nat \<Rightarrow> 'i \<Rightarrow> nat" where
  "grant_of cap [] budget j = 0"
| "grant_of cap (i # rest) budget j =
     (if j = i then min (cap i) budget else grant_of cap rest (budget - min (cap i) budget) j)"

lemma grant_of_le_cap: "grant_of cap order budget j \<le> cap j"
  by (induction order arbitrary: budget) auto

lemma grant_of_not_in: "j \<notin> set order \<Longrightarrow> grant_of cap order budget j = 0"
  by (induction order arbitrary: budget) auto

lemma grant_of_zero_budget [simp]: "grant_of cap order 0 j = 0"
  by (induction order) auto

lemma sum_grants:
  "distinct order \<Longrightarrow>
   (\<Sum>j\<in>set order. grant_of cap order budget j) = min budget (\<Sum>j\<in>set order. cap j)"
proof (induction order arbitrary: budget)
  case (Cons i rest)
  have "(\<Sum>j\<in>set rest. grant_of cap (i # rest) budget j)
      = (\<Sum>j\<in>set rest. grant_of cap rest (budget - min (cap i) budget) j)"
    using Cons.prems by (intro sum.cong) auto
  then show ?case using Cons by (auto simp: min_def)
qed simp

lemma grant_of_full:
  "\<lbrakk>distinct order; (\<Sum>j\<in>set order. cap j) \<le> budget; j \<in> set order\<rbrakk>
   \<Longrightarrow> grant_of cap order budget j = cap j"
proof (induction order arbitrary: budget)
  case (Cons i rest)
  then show ?case by (auto simp: min_def)
qed simp

text \<open>Priority: where an index gets anything, everything before it in the order got its full cap.\<close>

lemma grant_of_priority:
  assumes "0 < grant_of cap (us @ i # vs) budget j" and "j \<in> set vs" and "distinct (us @ i # vs)"
  shows "grant_of cap (us @ i # vs) budget i = cap i"
  using assms
proof (induction us arbitrary: budget)
  case Nil
  then show ?case by (auto simp: min_def split: if_splits)
qed (auto split: if_splits)

text \<open>The loop stores exactly these grants, and what remains is the budget less the caps.\<close>

lemma grant_loop_remaining:
  "distinct order \<Longrightarrow>
   unat (snd (grant_loop cap put order remaining s))
   = unat remaining - (\<Sum>j\<in>set order. unat (cap j))"
proof (induction order arbitrary: remaining s)
  case (Cons i rest)
  have "unat (remaining - min (cap i) remaining) = unat remaining - unat (cap i)"
    unfolding unat_minus_min by simp
  with Cons show ?case by (simp add: Let_def u64_zero_iff)
qed simp

lemma grant_loop_inv:
  assumes "\<And>i g t. \<lbrakk>i \<in> set order; unat g \<le> unat (cap i); P t\<rbrakk> \<Longrightarrow> P (put i g t)" and "P s"
  shows "P (fst (grant_loop cap put order remaining s))"
  using assms
proof (induction order arbitrary: remaining s)
  case (Cons i rest)
  have "unat (min (cap i) remaining) \<le> unat (cap i)" by (simp add: unat_min)
  with Cons.prems have "P (put i (min (cap i) remaining) s)" by simp
  with Cons show ?case by (simp add: Let_def)
qed simp

lemma grant_loop_nth:
  assumes put: "\<And>i g t j. \<lbrakk>i \<in> set order; P t\<rbrakk> \<Longrightarrow>
      get (put i g t) j = (if j = i then upd (get t i) g else get t j) \<and> P (put i g t)"
    and noop: "\<And>v. upd v 0 = v" and "distinct order" and "P s"
  shows "get (fst (grant_loop cap put order remaining s)) j
       = (if j \<in> set order
          then upd (get s j) (of_nat (grant_of (\<lambda>i. unat (cap i)) order (unat remaining) j))
          else get s j)"
  using assms(1,3,4)
proof (induction order arbitrary: remaining s)
  case (Cons i rest)
  show ?case
  proof (cases "remaining = 0")
    case True
    then show ?thesis by (simp add: noop)
  next
    case False
    have rem: "unat (remaining - min (cap i) remaining) = unat remaining - min (unat (cap i)) (unat remaining)"
      by (rule unat_minus_min)
    have g: "of_nat (min (unat (cap i)) (unat remaining)) = min (cap i) remaining"
      by (simp flip: unat_min)
    have put': "get (put i (min (cap i) remaining) s) k
        = (if k = i then upd (get s i) (min (cap i) remaining) else get s k)" for k
      using Cons.prems(1) [of i s] Cons.prems(3) by auto
    have P': "P (put i (min (cap i) remaining) s)"
      using Cons.prems(1) [of i s] Cons.prems(3) by auto
    show ?thesis
      using Cons.IH [OF Cons.prems(1) _ P', of "remaining - min (cap i) remaining"] Cons.prems(2) False
      by (auto simp: Let_def put' rem g grant_of_not_in noop)
  qed
qed simp

text \<open>The variant without the early exit: every index of the order is written.\<close>

fun grant_all_loop :: "('i \<Rightarrow> u64) \<Rightarrow> ('i \<Rightarrow> u64 \<Rightarrow> 's \<Rightarrow> 's) \<Rightarrow> 'i list \<Rightarrow> u64 \<Rightarrow> 's \<Rightarrow> 's \<times> u64" where
  "grant_all_loop cap put [] available s = (s, available)"
| "grant_all_loop cap put (i # rest) available s =
     (let g = min (cap i) available in grant_all_loop cap put rest (available - g) (put i g s))"

lemma grant_all_loop_remaining:
  "distinct order \<Longrightarrow>
   unat (snd (grant_all_loop cap put order available s))
   = unat available - (\<Sum>j\<in>set order. unat (cap j))"
proof (induction order arbitrary: available s)
  case (Cons i rest)
  have "unat (available - min (cap i) available) = unat available - unat (cap i)"
    unfolding unat_minus_min by simp
  with Cons show ?case by (simp add: Let_def)
qed simp

lemma grant_all_loop_nth:
  assumes put: "\<And>i g t j. \<lbrakk>i \<in> set order; P t\<rbrakk> \<Longrightarrow>
      get (put i g t) j = (if j = i then g else get t j) \<and> P (put i g t)"
    and "distinct order" and "P s"
  shows "get (fst (grant_all_loop cap put order available s)) j
       = (if j \<in> set order
          then of_nat (grant_of (\<lambda>i. unat (cap i)) order (unat available) j)
          else get s j)"
  using assms
proof (induction order arbitrary: available s)
  case (Cons i rest)
  have rem: "unat (available - min (cap i) available) = unat available - min (unat (cap i)) (unat available)"
    by (rule unat_minus_min)
  have g: "of_nat (min (unat (cap i)) (unat available)) = min (cap i) available"
    by (simp flip: unat_min)
  have put': "get (put i (min (cap i) available) s) k
      = (if k = i then min (cap i) available else get s k)" for k
    using Cons.prems(1) [of i s] Cons.prems(3) by auto
  have P': "P (put i (min (cap i) available) s)"
    using Cons.prems(1) [of i s] Cons.prems(3) by auto
  show ?case
    using Cons.IH [OF Cons.prems(1) _ P', of "available - min (cap i) available"] Cons.prems(2)
    by (auto simp: Let_def put' rem g)
qed simp

end
