(* ===== verification/FG_Evidence.thy ===== *)
theory FG_Evidence
  imports FG_Policy FG_Bytes FG_Greedy
begin

text \<open>
  Observed service (\<open>model/evidence.hpp\<close>, \<open>model/evidence.cpp\<close>): the structural validation of a
  service-window report and the order-independent digest of its observations. \<open>evidence_wf\<close> is what the
  validation promises; the two are proved equivalent.
\<close>

section \<open>Definitions\<close>

record SubjectObservation =
  ob_id :: Id
  ob_generation :: Generation
  ob_served_units :: u64
  ob_unserved_streak :: u32
  ob_below_floor_streak :: u32
  ob_priority :: PriorityClassRef
  ob_qos :: QosClassRef

record EvidenceSnapshot =
  ev_id :: Id
  ev_generation :: Generation
  ev_window :: Id
  ev_window_generation :: Generation
  ev_epoch :: Generation
  ev_captured_at_ns :: i64
  ev_sequence :: u64
  ev_producer :: ProducerIdentity
  ev_provenance :: Provenance
  ev_declared_digest :: u64
  ev_observations :: "SubjectObservation list"

definition evidence_find :: "EvidenceSnapshot \<Rightarrow> Id \<Rightarrow> SubjectObservation option" where
  "evidence_find snapshot sid = List.find (\<lambda>ob. ob_id ob = sid) (ev_observations snapshot)"

definition kMaxStreakWindows :: u32 where "kMaxStreakWindows = 1000000"
definition kMaxProducerNameBytes :: nat where "kMaxProducerNameBytes = 128"
definition kMaxProvenanceSourceBytes :: nat where "kMaxProvenanceSourceBytes = 128"

definition observation_bytes :: "SubjectObservation \<Rightarrow> bytes" where
  "observation_bytes ob =
     store_le 8 (ob_id ob) @ store_le 8 (ob_generation ob) @ store_le 8 (ob_served_units ob) @
     store_le 8 (ucast (ob_unserved_streak ob)) @ store_le 8 (ucast (ob_below_floor_streak ob)) @
     store_le 8 (pr_id (ob_priority ob)) @ store_le 8 (qos_id (ob_qos ob))"

definition observation_digest :: "SubjectObservation \<Rightarrow> u64" where
  "observation_digest ob = fnv1a64 (observation_bytes ob) kFnvOffsetBasis"

definition digest_loop :: "SubjectObservation list \<Rightarrow> u64 \<times> u64 \<Rightarrow> u64 \<times> u64" where
  "digest_loop = fold (\<lambda>ob (sm, xored). (sm + observation_digest ob, xored XOR observation_digest ob))"

definition compute_observation_digest :: "EvidenceSnapshot \<Rightarrow> u64" where
  "compute_observation_digest snapshot =
     (case digest_loop (ev_observations snapshot) (0, 0) of
        (sm, xored) \<Rightarrow> (sm * 0x9E3779B97F4A7C15) XOR xored XOR kFnvOffsetBasis)"

definition check_snapshot :: "EvidenceSnapshot \<Rightarrow> StatusCode" where
  "check_snapshot snapshot = first_fail
     [(\<not> id_valid (ev_id snapshot), InvalidArgument),
      (\<not> generation_valid (ev_generation snapshot), InvalidArgument),
      (\<not> id_valid (ev_window snapshot), InvalidArgument),
      (\<not> generation_valid (ev_window_generation snapshot), InvalidArgument),
      (\<not> generation_valid (ev_epoch snapshot), InvalidArgument),
      (unat kMaxEvidenceRecords < length (ev_observations snapshot), LimitExceeded),
      (kMaxProducerNameBytes < length (pd_name (ev_producer snapshot)), LimitExceeded),
      (kMaxProvenanceSourceBytes < length (pv_source (ev_provenance snapshot)), LimitExceeded),
      (ev_captured_at_ns snapshot <s 0, InvalidArgument)]"

definition check_observation :: "SubjectObservation \<Rightarrow> StatusCode" where
  "check_observation ob = first_fail
     [(\<not> id_valid (ob_id ob), InvalidArgument),
      (\<not> generation_valid (ob_generation ob), InvalidArgument),
      (kMaxServiceUnits < ob_served_units ob, OutOfRange),
      (kMaxStreakWindows < ob_unserved_streak ob \<or> kMaxStreakWindows < ob_below_floor_streak ob,
       OutOfRange),
      (\<not> priority_consistent (ob_priority ob), InvalidArgument),
      (\<not> qos_consistent (ob_qos ob), InvalidArgument),
      (0 < ob_served_units ob \<and> ob_unserved_streak ob \<noteq> 0, EvidenceContradictory)]"

fun check_observations :: "SubjectObservation list \<Rightarrow> u64 \<Rightarrow> StatusCode" where
  "check_observations [] total_served = Ok"
| "check_observations (ob # rest) total_served =
     (if check_observation ob \<noteq> Ok then check_observation ob
      else case checked_add total_served (ob_served_units ob) of
             None \<Rightarrow> ArithmeticOverflow
           | Some total' \<Rightarrow> check_observations rest total')"

fun adjacent_equal :: "u64 list \<Rightarrow> bool" where
  "adjacent_equal (a # b # rest) = (a = b \<or> adjacent_equal (b # rest))"
| "adjacent_equal _ = False"

definition validate_evidence :: "EvidenceSnapshot \<Rightarrow> StatusCode" where
  "validate_evidence snapshot =
     (if check_snapshot snapshot \<noteq> Ok then check_snapshot snapshot
      else if check_observations (ev_observations snapshot) 0 \<noteq> Ok
      then check_observations (ev_observations snapshot) 0
      else if adjacent_equal (std_sort (<) (map ob_id (ev_observations snapshot))) then Duplicate
      else if ev_declared_digest snapshot \<noteq> 0 \<and>
              compute_observation_digest snapshot \<noteq> ev_declared_digest snapshot
      then EvidenceContradictory
      else Ok)"

section \<open>What validated evidence satisfies\<close>

definition observation_wf :: "SubjectObservation \<Rightarrow> bool" where
  "observation_wf ob \<longleftrightarrow> ob_id ob \<noteq> 0 \<and> ob_generation ob \<noteq> 0 \<and> ob_served_units ob \<le> kMaxServiceUnits \<and>
     ob_unserved_streak ob \<le> 1000000 \<and> ob_below_floor_streak ob \<le> 1000000 \<and>
     priority_consistent (ob_priority ob) \<and> qos_consistent (ob_qos ob) \<and>
     (ob_served_units ob = 0 \<or> ob_unserved_streak ob = 0)"

definition evidence_wf :: "EvidenceSnapshot \<Rightarrow> bool" where
  "evidence_wf e \<longleftrightarrow> ev_id e \<noteq> 0 \<and> ev_generation e \<noteq> 0 \<and> ev_window e \<noteq> 0 \<and>
     ev_window_generation e \<noteq> 0 \<and> ev_epoch e \<noteq> 0 \<and> length (ev_observations e) \<le> 4096 \<and>
     length (pd_name (ev_producer e)) \<le> 128 \<and> length (pv_source (ev_provenance e)) \<le> 128 \<and>
     0 \<le> sint (ev_captured_at_ns e) \<and> (\<forall>ob\<in>set (ev_observations e). observation_wf ob) \<and>
     distinct (map ob_id (ev_observations e)) \<and>
     (ev_declared_digest e \<noteq> 0 \<longrightarrow> ev_declared_digest e = compute_observation_digest e)"

lemma check_snapshot_iff:
  "check_snapshot e = Ok \<longleftrightarrow> ev_id e \<noteq> 0 \<and> ev_generation e \<noteq> 0 \<and> ev_window e \<noteq> 0 \<and>
     ev_window_generation e \<noteq> 0 \<and> ev_epoch e \<noteq> 0 \<and> length (ev_observations e) \<le> 4096 \<and>
     length (pd_name (ev_producer e)) \<le> 128 \<and> length (pv_source (ev_provenance e)) \<le> 128 \<and>
     0 \<le> sint (ev_captured_at_ns e)"
  by (auto simp: check_snapshot_def id_valid_def generation_valid_def not_less word_sless_alt
      kMaxProducerNameBytes_def kMaxProvenanceSourceBytes_def)

lemma check_observation_iff: "check_observation ob = Ok \<longleftrightarrow> observation_wf ob"
proof -
  have "\<not> 0 < ob_served_units ob \<longleftrightarrow> ob_served_units ob = 0" by (simp add: word_gt_0)
  then show ?thesis
    by (simp add: check_observation_def observation_wf_def id_valid_def generation_valid_def not_less
        kMaxStreakWindows_def) auto
qed

lemma check_observations_iff:
  "unat tot + length obs * 2 ^ 40 < 2 ^ 64 \<Longrightarrow>
   check_observations obs tot = Ok \<longleftrightarrow> (\<forall>ob\<in>set obs. observation_wf ob)"
proof (induction obs arbitrary: tot)
  case (Cons ob obs)
  show ?case
  proof (cases "observation_wf ob")
    case True
    then have "unat (ob_served_units ob) \<le> 2 ^ 40"
      by (simp add: observation_wf_def word_le_nat_alt)
    then have "checked_add tot (ob_served_units ob) = Some (tot + ob_served_units ob)"
      "unat (tot + ob_served_units ob) + length obs * 2 ^ 40 < 2 ^ 64"
      using Cons.prems by (simp_all add: checked_add_exact unat_plus_exact)
    with True Cons.IH show ?thesis by (simp add: check_observation_iff)
  qed (simp add: check_observation_iff)
qed simp

lemma adjacent_equal_sorted:
  "sorted_wrt (\<lambda>a b. \<not> b < a) xs \<Longrightarrow> adjacent_equal xs \<longleftrightarrow> \<not> distinct xs"
  by (induction xs rule: adjacent_equal.induct) (auto simp: not_less intro: order.antisym)

lemma strict_weak_less: "strict_weak ((<) :: u64 \<Rightarrow> u64 \<Rightarrow> bool) A"
  by (rule strict_weak_key [where key = id]) simp

lemma validate_evidence_iff: "validate_evidence e = Ok \<longleftrightarrow> evidence_wf e"
proof -
  have "adjacent_equal (std_sort (<) xs) \<longleftrightarrow> \<not> distinct xs" for xs :: "u64 list"
    using adjacent_equal_sorted [OF sorting.sorter_ordered [OF strict_weak_less]] by simp
  moreover have "check_observations (ev_observations e) 0 = Ok \<longleftrightarrow>
      (\<forall>ob\<in>set (ev_observations e). observation_wf ob)" if "length (ev_observations e) \<le> 4096"
    using that by (intro check_observations_iff) simp
  ultimately show ?thesis
    by (auto simp: validate_evidence_def evidence_wf_def check_snapshot_iff)
qed

text \<open>The digest combines the observations with commutative operators.\<close>

lemma digest_loop_mset:
  assumes "mset obs = mset obs'"
  shows "digest_loop obs acc = digest_loop obs' acc"
proof -
  have "fold (\<lambda>ob (sm, xored). (sm + observation_digest ob, xored XOR observation_digest ob)) obs
      = fold (\<lambda>ob (sm, xored). (sm + observation_digest ob, xored XOR observation_digest ob)) obs'"
    by (rule fold_multiset_equiv) (auto simp: fun_eq_iff ac_simps assms)
  then show ?thesis by (simp add: digest_loop_def)
qed

section \<open>Properties\<close>

text \<open>C7: The validation accepts exactly the well-formed reports: valid identities, bounded sizes, a
  capture instant that is not negative, every observation inside the service domain with coherent
  references and never both served and unserved, no subject twice, and a declared digest, where there is
  one, that is the digest of the observations. The overflow check on the total is never what refuses a
  report.\<close>

theorem validate_evidence_decides_wf: "validate_evidence e = Ok \<longleftrightarrow> evidence_wf e"
  by (rule validate_evidence_iff)

text \<open>The digest does not depend on the order in which a producer emits its observations, so neither
  does the verdict of the validation.\<close>

theorem observation_digest_order_independent:
  assumes "mset (ev_observations e) = mset (ev_observations e')"
  shows "compute_observation_digest e = compute_observation_digest e'"
  using digest_loop_mset [OF assms] by (simp add: compute_observation_digest_def)

definition sample_observation :: "u64 \<Rightarrow> u64 \<Rightarrow> SubjectObservation" where
  "sample_observation sid served = \<lparr>ob_id = sid, ob_generation = 1, ob_served_units = served,
     ob_unserved_streak = 0, ob_below_floor_streak = 0, ob_priority = \<lparr>pr_id = 0, pr_generation = 0\<rparr>,
     ob_qos = \<lparr>qos_id = 0, qos_generation = 0\<rparr>\<rparr>"

definition sample_evidence :: EvidenceSnapshot where
  "sample_evidence = \<lparr>ev_id = 1, ev_generation = 1, ev_window = 1, ev_window_generation = 1,
     ev_epoch = 1, ev_captured_at_ns = 0, ev_sequence = 1,
     ev_producer = \<lparr>pd_name = [], pd_instance = 1, pd_version = 1\<rparr>,
     ev_provenance = \<lparr>pv_revision = 0, pv_source = [], pv_source_digest = 0, pv_captured_at_ns = 0\<rparr>,
     ev_declared_digest = 0,
     ev_observations = [sample_observation 10 60, sample_observation 20 10, sample_observation 30 30]\<rparr>"

lemma sample_evidence_valid: "validate_evidence sample_evidence = Ok"
  by (simp add: validate_evidence_iff evidence_wf_def sample_evidence_def sample_observation_def
      observation_wf_def priority_consistent_def qos_consistent_def id_valid_def generation_valid_def
      word_le_nat_alt)

theorem observation_digest_order_independent_witness:
  "compute_observation_digest sample_evidence =
   compute_observation_digest (sample_evidence\<lparr>ev_observations := rev (ev_observations sample_evidence)\<rparr>)"
  by (rule observation_digest_order_independent) simp

end
