(* ===== verification/FG_Outcome.thy ===== *)
theory FG_Outcome
  imports FG_Policy FG_Accounting FG_Evidence
begin

text \<open>
  The decision vocabulary (\<open>model/outcome.hpp\<close>) and the inputs of an evaluation
  (\<open>eval/governor.hpp\<close>): outcomes and their severity, reasons, the authority vector, per-subject and
  per-group states, corrective intents and the decision record.
\<close>

datatype (plugins only: code size) Outcome =
  Fair | OverServed | UnderServed | StarvationRisk | CorrectionRequired
  | BlockedByStrongerObligation | Unknown | Stale

definition outcome_rank :: "Outcome \<Rightarrow> nat" where
  "outcome_rank oc = (case oc of
     Fair \<Rightarrow> 0 | OverServed \<Rightarrow> 1 | UnderServed \<Rightarrow> 2 | StarvationRisk \<Rightarrow> 3 | CorrectionRequired \<Rightarrow> 4
   | BlockedByStrongerObligation \<Rightarrow> 5 | Unknown \<Rightarrow> 6 | Stale \<Rightarrow> 7)"

datatype (plugins only: code size) ReasonCode =
  Reason_None | Reason_WithinFairBand | Reason_WeightedShareDeficit | Reason_WeightedShareSurplus
  | Reason_GuaranteeFloorDeficit | Reason_GuaranteeFloorSurplus | Reason_StarvationUnserved
  | Reason_StarvationBelowFloor | Reason_EvidenceAbsent | Reason_EvidenceStaleGeneration
  | Reason_EvidenceStaleWindow | Reason_EvidenceStaleEpoch | Reason_EvidenceStaleAge
  | Reason_SubjectGenerationMismatch | Reason_PolicyGenerationMismatch
  | Reason_PriorityReferenceMismatch | Reason_CorrectiveBudgetExhausted | Reason_CorrectiveCooldown
  | Reason_ProtectedObligationHeld | Reason_SubjectCapReached | Reason_PolicyBoundReached
  | Reason_NoCorrectionAvailable | Reason_OvercommitDetected

text \<open>The underlying value of a reason, as \<open>static_cast<std::uint16_t>\<close> yields it.\<close>

definition reason_value :: "ReasonCode \<Rightarrow> u16" where
  "reason_value rc = (case rc of
     Reason_None \<Rightarrow> 0 | Reason_WithinFairBand \<Rightarrow> 1 | Reason_WeightedShareDeficit \<Rightarrow> 2
   | Reason_WeightedShareSurplus \<Rightarrow> 3 | Reason_GuaranteeFloorDeficit \<Rightarrow> 4
   | Reason_GuaranteeFloorSurplus \<Rightarrow> 5 | Reason_StarvationUnserved \<Rightarrow> 6
   | Reason_StarvationBelowFloor \<Rightarrow> 7 | Reason_EvidenceAbsent \<Rightarrow> 8
   | Reason_EvidenceStaleGeneration \<Rightarrow> 9 | Reason_EvidenceStaleWindow \<Rightarrow> 10
   | Reason_EvidenceStaleEpoch \<Rightarrow> 11 | Reason_EvidenceStaleAge \<Rightarrow> 12
   | Reason_SubjectGenerationMismatch \<Rightarrow> 13 | Reason_PolicyGenerationMismatch \<Rightarrow> 14
   | Reason_PriorityReferenceMismatch \<Rightarrow> 15 | Reason_CorrectiveBudgetExhausted \<Rightarrow> 16
   | Reason_CorrectiveCooldown \<Rightarrow> 17 | Reason_ProtectedObligationHeld \<Rightarrow> 18
   | Reason_SubjectCapReached \<Rightarrow> 19 | Reason_PolicyBoundReached \<Rightarrow> 20
   | Reason_NoCorrectionAvailable \<Rightarrow> 21 | Reason_OvercommitDetected \<Rightarrow> 22)"

datatype (plugins only: code size) CorrectionBound =
  Bound_None | Bound_SubjectAugmentCap | Bound_SubjectReduceCap | Bound_PolicyTotalBudget
  | Bound_PolicyBasisPoints | Bound_ProtectedObligation | Bound_Cooldown | Bound_BudgetExhausted
  | Bound_DemandSatisfied | Bound_AuthorityMissing

definition bound_value :: "CorrectionBound \<Rightarrow> u8" where
  "bound_value b = (case b of
     Bound_None \<Rightarrow> 0 | Bound_SubjectAugmentCap \<Rightarrow> 1 | Bound_SubjectReduceCap \<Rightarrow> 2
   | Bound_PolicyTotalBudget \<Rightarrow> 3 | Bound_PolicyBasisPoints \<Rightarrow> 4 | Bound_ProtectedObligation \<Rightarrow> 5
   | Bound_Cooldown \<Rightarrow> 6 | Bound_BudgetExhausted \<Rightarrow> 7 | Bound_DemandSatisfied \<Rightarrow> 8
   | Bound_AuthorityMissing \<Rightarrow> 9)"

datatype (plugins only: code size) CorrectionDirection = Augment | Reduce

definition direction_value :: "CorrectionDirection \<Rightarrow> u8" where
  "direction_value d = (case d of Augment \<Rightarrow> 0 | Reduce \<Rightarrow> 1)"

record AuthorityVector =
  av_policy_id :: Id
  av_policy_generation :: Generation
  av_epoch :: Generation
  av_evidence_id :: Id
  av_evidence_generation :: Generation
  av_window :: Id
  av_window_generation :: Generation
  av_accounting_generation :: u64
  av_governor :: Incarnation
  av_request_id :: u64
  av_attempt :: u32

record SubjectFairnessState =
  ss_id :: Id
  ss_generation :: Generation
  ss_group :: Id
  ss_outcome :: Outcome
  ss_reason :: ReasonCode
  ss_has_authority :: bool
  ss_is_protected_obligation :: bool
  ss_obligation_rank :: u32
  ss_group_entitlement_units :: u64
  ss_entitlement_units :: u64
  ss_base_entitlement_units :: u64
  ss_guarantee_floor_units :: u64
  ss_priority_delta_units :: i64
  ss_applied_modifier_bps :: i32
  ss_modifier_clipped :: bool
  ss_served_units :: u64
  ss_deviation_units :: i64
  ss_deficit_units :: u64
  ss_surplus_units :: u64
  ss_cumulative_deficit_after :: u64
  ss_cumulative_surplus_after :: u64
  ss_unserved_streak :: u32
  ss_below_floor_streak :: u32
  ss_starvation_limit_windows :: u32
  ss_guarantee_starvation_limit_windows :: u32
  ss_proposed_augment_units :: u64
  ss_proposed_reduce_units :: u64
  ss_unsatisfied_demand_units :: u64
  ss_expected_priority :: PriorityClassRef
  ss_observed_priority :: PriorityClassRef
  ss_label :: cpp_string

record GroupFairnessState =
  gs_id :: Id
  gs_generation :: Generation
  gs_parent :: Id
  gs_depth :: u32
  gs_entitlement_units :: u64
  gs_served_units :: u64
  gs_deviation_units :: i64
  gs_is_protected_obligation :: bool
  gs_obligation_rank :: u32
  gs_guarantee_floor_units :: u64
  gs_withheld_correction :: bool
  gs_label :: cpp_string

record CorrectiveIntent =
  ci_id :: Id
  ci_generation :: Generation
  ci_direction :: CorrectionDirection
  ci_subject :: Id
  ci_subject_generation :: Generation
  ci_group :: Id
  ci_units :: u64
  ci_bound :: CorrectionBound
  ci_reason :: ReasonCode
  ci_from_starvation :: bool
  ci_from_protected_obligation :: bool
  ci_obligation_rank :: u32

record CorrectionSummary =
  cs_reducible_pool_units :: u64
  cs_demand_units :: u64
  cs_authorized_budget_units :: u64
  cs_augment_units :: u64
  cs_reduce_units :: u64
  cs_withheld_units :: u64
  cs_unsatisfied_demand_units :: u64
  cs_cooldown_suppressed :: u32
  cs_bounded_by_policy_total :: bool
  cs_bounded_by_policy_bps :: bool
  cs_protected_obligation_blocked :: bool
  cs_authority_missing :: bool

text \<open>The text of a note is dropped.\<close>

record DiagnosticNote =
  dn_code :: StatusCode
  dn_reason :: ReasonCode
  dn_subject :: Id

record OutcomeCounts =
  oc_fair :: u32
  oc_over_served :: u32
  oc_under_served :: u32
  oc_starvation_risk :: u32
  oc_correction_required :: u32
  oc_blocked_by_stronger_obligation :: u32
  oc_unknown :: u32
  oc_stale :: u32

definition counts_total :: "OutcomeCounts \<Rightarrow> u32" where
  "counts_total c = oc_fair c + oc_over_served c + oc_under_served c + oc_starvation_risk c +
     oc_correction_required c + oc_blocked_by_stronger_obligation c + oc_unknown c + oc_stale c"

record FairnessDecision =
  fd_authority :: AuthorityVector
  fd_outcome :: Outcome
  fd_counts :: OutcomeCounts
  fd_subjects :: "SubjectFairnessState list"
  fd_groups :: "GroupFairnessState list"
  fd_intents :: "CorrectiveIntent list"
  fd_correction :: CorrectionSummary
  fd_notes :: "DiagnosticNote list"
  fd_content_digest :: u64

definition is_authoritative_for :: "FairnessDecision \<Rightarrow> AuthorityVector \<Rightarrow> bool" where
  "is_authoritative_for decision live \<longleftrightarrow>
     (let a = fd_authority decision
      in av_policy_id a = av_policy_id live \<and> av_policy_generation a = av_policy_generation live \<and>
         av_epoch a = av_epoch live \<and> av_evidence_id a = av_evidence_id live \<and>
         av_evidence_generation a = av_evidence_generation live \<and> av_window a = av_window live \<and>
         av_window_generation a = av_window_generation live \<and>
         av_accounting_generation a = av_accounting_generation live)"

record EvaluationRequest =
  rq_policy_id :: Id
  rq_policy_generation :: Generation
  rq_epoch :: Generation
  rq_evidence_id :: Id
  rq_evidence_generation :: Generation
  rq_window :: Id
  rq_window_generation :: Generation
  rq_now_ns :: i64
  rq_request_id :: u64
  rq_attempt :: u32
  rq_treat_missing_as_unknown :: bool
  rq_allow_stale_result :: bool

text \<open>The pointers of the context: the policy and the accounting are never null where the code builds
  one; a null evidence pointer is \<open>None\<close>.\<close>

record EvaluationContext =
  ec_policy :: "FairnessPolicy option"
  ec_accounting :: "FairnessAccounting option"
  ec_evidence :: "EvidenceSnapshot option"
  ec_request :: EvaluationRequest
  ec_current_epoch :: Generation
  ec_current_window :: Id
  ec_last_committed_window :: Id

text \<open>The severity ordering is total and separates the outcomes; the absence of authority dominates.\<close>

lemma outcome_rank_inj: "outcome_rank a = outcome_rank b \<Longrightarrow> a = b"
  by (cases a; cases b) (simp_all add: outcome_rank_def)

lemma outcome_rank_authority: "outcome_rank a \<ge> 6 \<longleftrightarrow> a \<in> {Unknown, Stale}"
  by (cases a) (simp_all add: outcome_rank_def)

end
