(* ===== verification/FG_U128.thy ===== *)
theory FG_U128
  imports FG_Core
begin

text \<open>
  The portable 128-bit primitives of \<open>core/u128.hpp\<close>: the 64x64 to 128 bit product built from
  32-bit limbs, the 128/64 restoring division, and \<open>mul_div\<close>. The theorems state that the limb
  product is the product, that the 128 iterations of the division loop compute quotient and
  remainder, and that \<open>mul_div\<close> is floor division with an exact overflow flag.
\<close>

unbundle bit_operations_syntax

section \<open>Definitions\<close>

record U128 =
  u128_lo :: u64
  u128_hi :: u64

definition u128_is_zero :: "U128 \<Rightarrow> bool" where
  "u128_is_zero v \<longleftrightarrow> u128_lo v = 0 \<and> u128_hi v = 0"

definition fits_u64 :: "U128 \<Rightarrow> bool" where
  "fits_u64 v \<longleftrightarrow> u128_hi v = 0"

definition mul_wide :: "u64 \<Rightarrow> u64 \<Rightarrow> U128" where
  "mul_wide a b =
     (let a_lo = a AND 0xFFFFFFFF; a_hi = drop_bit 32 a;
          b_lo = b AND 0xFFFFFFFF; b_hi = drop_bit 32 b;
          p0 = a_lo * b_lo; p1 = a_lo * b_hi; p2 = a_hi * b_lo; p3 = a_hi * b_hi;
          mid = p1 + drop_bit 32 p0;
          mid2 = p2 + (mid AND 0xFFFFFFFF);
          carry = drop_bit 32 mid2 + drop_bit 32 mid
      in \<lparr>u128_lo = push_bit 32 mid2 OR (p0 AND 0xFFFFFFFF), u128_hi = p3 + carry\<rparr>)"

record Div128Result =
  dv_quotient :: U128
  dv_remainder :: u64
  dv_divide_by_zero :: bool

text \<open>One iteration of the division loop, and the loop itself: \<open>div_loop n\<close> runs the iterations
  for \<open>bit = n - 1, \<dots>, 0\<close>.\<close>

definition div_step :: "U128 \<Rightarrow> u64 \<Rightarrow> nat \<Rightarrow> U128 \<times> u64 \<Rightarrow> U128 \<times> u64" where
  "div_step numerator denominator k qr =
     (let (quotient, remainder) = qr;
          incoming = (if 64 \<le> k then drop_bit (k - 64) (u128_hi numerator) AND 1 \<noteq> 0
                      else drop_bit k (u128_lo numerator) AND 1 \<noteq> 0);
          carry_out = drop_bit 63 remainder \<noteq> 0;
          remainder = push_bit 1 remainder OR (if incoming then 1 else 0)
      in if carry_out \<or> denominator \<le> remainder
         then ((if 64 \<le> k then quotient\<lparr>u128_hi := u128_hi quotient OR push_bit (k - 64) 1\<rparr>
                else quotient\<lparr>u128_lo := u128_lo quotient OR push_bit k 1\<rparr>),
               remainder - denominator)
         else (quotient, remainder))"

fun div_loop :: "U128 \<Rightarrow> u64 \<Rightarrow> nat \<Rightarrow> U128 \<times> u64 \<Rightarrow> U128 \<times> u64" where
  "div_loop numerator denominator 0 qr = qr"
| "div_loop numerator denominator (Suc k) qr =
     div_loop numerator denominator k (div_step numerator denominator k qr)"

definition div_wide :: "U128 \<Rightarrow> u64 \<Rightarrow> Div128Result" where
  "div_wide numerator denominator =
     (if denominator = 0
      then \<lparr>dv_quotient = \<lparr>u128_lo = 0, u128_hi = 0\<rparr>, dv_remainder = 0, dv_divide_by_zero = True\<rparr>
      else let (quotient, remainder) =
                 div_loop numerator denominator 128 (\<lparr>u128_lo = 0, u128_hi = 0\<rparr>, 0)
           in \<lparr>dv_quotient = quotient, dv_remainder = remainder, dv_divide_by_zero = False\<rparr>)"

record MulDivResult =
  md_value :: u64
  md_remainder :: u64
  md_overflow :: bool
  md_divide_by_zero :: bool

definition mul_div_ok :: "MulDivResult \<Rightarrow> bool" where
  "mul_div_ok r \<longleftrightarrow> \<not> md_overflow r \<and> \<not> md_divide_by_zero r"

definition mul_div :: "u64 \<Rightarrow> u64 \<Rightarrow> u64 \<Rightarrow> MulDivResult" where
  "mul_div v multiplier divisor =
     (if divisor = 0
      then \<lparr>md_value = 0, md_remainder = 0, md_overflow = False, md_divide_by_zero = True\<rparr>
      else let product = mul_wide v multiplier;
               divided = div_wide product divisor
           in if \<not> fits_u64 (dv_quotient divided)
              then \<lparr>md_value = 0, md_remainder = 0, md_overflow = True, md_divide_by_zero = False\<rparr>
              else \<lparr>md_value = u128_lo (dv_quotient divided), md_remainder = dv_remainder divided,
                    md_overflow = False, md_divide_by_zero = False\<rparr>)"

definition mul_div_is_exact :: "u64 \<Rightarrow> u64 \<Rightarrow> u64 \<Rightarrow> bool" where
  "mul_div_is_exact v multiplier divisor \<longleftrightarrow>
     (let r = mul_div v multiplier divisor in mul_div_ok r \<and> md_remainder r = 0)"

definition div_trunc :: "i64 \<Rightarrow> i64 \<Rightarrow> i64" where
  "div_trunc v divisor = (if divisor = 0 then 0 else i64_div v divisor)"

section \<open>Bit operations as arithmetic\<close>

lemma unat_and_mask32: "unat ((w :: u64) AND 0xFFFFFFFF) = unat w mod 2 ^ 32"
proof -
  have "w AND 0xFFFFFFFF = take_bit 32 w"
    by (simp add: take_bit_eq_mask mask_numeral)
  then have "unat (w AND 0xFFFFFFFF) = take_bit 32 (unat w)"
    by (simp only: unsigned_take_bit_eq)
  then show ?thesis by (simp only: take_bit_eq_mod)
qed

lemma unat_drop_bit: "unat (drop_bit k (w :: 'a::len word)) = unat w div 2 ^ k"
  unfolding unsigned_drop_bit_eq by (simp add: drop_bit_eq_div take_bit_nat_eq_self)

lemma unat_push_bit: "unat (push_bit k (w :: u64)) = (unat w * 2 ^ k) mod 2 ^ 64"
  unfolding unsigned_push_bit_eq by (simp add: push_bit_eq_mult take_bit_eq_mod)

lemma unat_or_disjoint:
  assumes "\<And>n. \<not> bit a n \<or> \<not> bit b n" and "unat a + unat b < 2 ^ LENGTH('a)"
  shows "unat (a OR b :: 'a::len word) = unat a + unat b"
  using assms by (simp add: disjunctive_add [symmetric] unat_plus_exact)

lemma unat_concat32:
  "unat (push_bit 32 (m :: u64) OR (p AND 0xFFFFFFFF)) = (unat m mod 2 ^ 32) * 2 ^ 32 + unat p mod 2 ^ 32"
proof -
  have "p AND 0xFFFFFFFF = take_bit 32 p"
    by (simp add: take_bit_eq_mask mask_numeral)
  then have disj: "\<not> bit (push_bit 32 m) n \<or> \<not> bit (p AND 0xFFFFFFFF) n" for n
    by (auto simp only: bit_push_bit_iff bit_take_bit_iff)
  have "unat (push_bit 32 m) = (unat m mod 2 ^ 32) * 2 ^ 32"
    by (simp only: unat_push_bit) (simp add: mult_mod_left)
  then show ?thesis
    by (subst unat_or_disjoint [OF disj]) (auto simp: unat_and_mask32)
qed

lemma odd_drop_bit: "drop_bit k (w :: u64) AND 1 \<noteq> 0 \<longleftrightarrow> odd (unat w div 2 ^ k)"
proof -
  have "drop_bit k w AND 1 \<noteq> 0 \<longleftrightarrow> bit w k"
    by (simp add: and_one_eq bit_iff_odd_drop_bit mod2_eq_if)
  also have "\<dots> \<longleftrightarrow> bit (unat w) k"
    by (auto simp: bit_unsigned_iff dest: bit_imp_le_length)
  finally show ?thesis by (simp add: bit_iff_odd)
qed

section \<open>The limb product\<close>

definition u128_val :: "U128 \<Rightarrow> nat" where
  "u128_val v = unat (u128_hi v) * 2 ^ 64 + unat (u128_lo v)"

lemma limb_product:
  fixes al ah bl bh B :: nat
  assumes p0: "al * bl = q0 * B + r0" and mid: "al * bh + q0 = qm * B + rm"
    and mid2: "ah * bl + rm = q2 * B + r2"
  shows "(ah * bh + (q2 + qm)) * (B * B) + (r2 * B + r0) = (ah * B + al) * (bh * B + bl)"
proof -
  have "(ah * B + al) * (bh * B + bl) = ah * bh * (B * B) + (ah * bl) * B + (al * bh) * B + al * bl"
    by (simp add: algebra_simps)
  also have "\<dots> = ah * bh * (B * B) + (ah * bl) * B + (al * bh + q0) * B + r0"
    unfolding p0 by (simp add: algebra_simps)
  also have "\<dots> = ah * bh * (B * B) + (ah * bl + rm) * B + qm * (B * B) + r0"
    unfolding mid by (simp add: algebra_simps)
  also have "\<dots> = (ah * bh + (q2 + qm)) * (B * B) + (r2 * B + r0)"
    unfolding mid2 by (simp add: algebra_simps)
  finally show ?thesis by simp
qed

lemma limb_bound: "\<lbrakk>x < 2 ^ 32; y < 2 ^ 32; z < 2 ^ 32\<rbrakk> \<Longrightarrow> x * y + z < 2 ^ 64" for x y z :: nat
proof -
  assume "x < 2 ^ 32" "y < 2 ^ 32" and z: "z < 2 ^ 32"
  then have "x * y \<le> (2 ^ 32 - 1) * (2 ^ 32 - 1)" by (intro mult_mono) auto
  with z show "x * y + z < 2 ^ 64" by simp
qed

lemma mul_wide_val: "u128_val (mul_wide a b) = unat a * unat b"
proof -
  define al ah bl bh where "al = unat a mod 2 ^ 32" and "ah = unat a div 2 ^ 32"
    and "bl = unat b mod 2 ^ 32" and "bh = unat b div 2 ^ 32"
  have bounds: "al < 2 ^ 32" "ah < 2 ^ 32" "bl < 2 ^ 32" "bh < 2 ^ 32"
    using unat_u64_bounded [of a] unat_u64_bounded [of b]
    by (simp_all add: al_def ah_def bl_def bh_def div_less_iff_less_mult)
  define mid mid2 where "mid = al * bh + al * bl div 2 ^ 32" and "mid2 = ah * bl + mid mod 2 ^ 32"
  have p: "unat ((a AND 0xFFFFFFFF) * (b AND 0xFFFFFFFF)) = al * bl"
    "unat ((a AND 0xFFFFFFFF) * drop_bit 32 b) = al * bh"
    "unat (drop_bit 32 a * (b AND 0xFFFFFFFF)) = ah * bl"
    "unat (drop_bit 32 a * drop_bit 32 b) = ah * bh"
    using limb_bound [of al bl 0] limb_bound [of al bh 0] limb_bound [of ah bl 0]
      limb_bound [of ah bh 0] bounds
    by (auto simp: unat_times_exact unat_and_mask32 unat_drop_bit al_def ah_def bl_def bh_def)
  have q: "al * bl div 2 ^ 32 < 2 ^ 32"
    using limb_bound [of al bl 0] bounds by (simp add: div_less_iff_less_mult)
  then have mid: "unat ((a AND 0xFFFFFFFF) * drop_bit 32 b +
      drop_bit 32 ((a AND 0xFFFFFFFF) * (b AND 0xFFFFFFFF))) = mid" (is "unat ?mid = _")
    using limb_bound [of al bh "al * bl div 2 ^ 32"] bounds
    by (simp add: unat_plus_exact p unat_drop_bit mid_def)
  have mid2: "unat (drop_bit 32 a * (b AND 0xFFFFFFFF) + (?mid AND 0xFFFFFFFF)) = mid2"
    (is "unat ?mid2 = _")
    using limb_bound [of ah bl "mid mod 2 ^ 32"] bounds
    by (simp add: unat_plus_exact p mid unat_and_mask32 mid2_def)
  have eq: "(ah * bh + (mid2 div 2 ^ 32 + mid div 2 ^ 32)) * (2 ^ 32 * 2 ^ 32)
      + ((mid2 mod 2 ^ 32) * 2 ^ 32 + al * bl mod 2 ^ 32) = unat a * unat b"
  proof -
    have "unat a = ah * 2 ^ 32 + al" "unat b = bh * 2 ^ 32 + bl"
      by (simp_all add: al_def ah_def bl_def bh_def)
    then show ?thesis
      by (simp only:) (rule limb_product, simp_all add: mid_def mid2_def)
  qed
  have ab: "unat a * unat b < 2 ^ 64 * 2 ^ 64"
    by (intro mult_strict_mono) (use unat_bounded [of a] unat_bounded [of b] in auto)
  have hi: "ah * bh + (mid2 div 2 ^ 32 + mid div 2 ^ 32) < 2 ^ 64" (is "?hi < _")
  proof (rule ccontr)
    assume "\<not> ?hi < 2 ^ 64"
    then have "2 ^ 64 * (2 ^ 32 * 2 ^ 32) \<le> ?hi * (2 ^ 32 * 2 ^ 32)" by (intro mult_right_mono) auto
    with eq ab show False by simp
  qed
  have c: "unat (drop_bit 32 ?mid2 + drop_bit 32 ?mid) = mid2 div 2 ^ 32 + mid div 2 ^ 32"
    using hi by (simp add: unat_plus_exact unat_drop_bit mid mid2)
  have "unat (u128_hi (mul_wide a b)) = ?hi"
    using hi by (simp add: mul_wide_def Let_def unat_plus_exact p c)
  moreover have "unat (u128_lo (mul_wide a b)) = (mid2 mod 2 ^ 32) * 2 ^ 32 + al * bl mod 2 ^ 32"
    by (simp only: mul_wide_def Let_def U128.simps unat_concat32 mid2 p)
  ultimately show ?thesis
    using eq by (simp add: u128_val_def)
qed

section \<open>The restoring division\<close>

text \<open>The loop invariant when the bits at and above \<open>n\<close> have been processed: the quotient so far
  is a multiple of \<open>2 ^ n\<close>, and it is the quotient, with remainder \<open>r\<close>, of the numerator's
  leading bits.\<close>

definition div_inv :: "U128 \<Rightarrow> u64 \<Rightarrow> nat \<Rightarrow> U128 \<times> u64 \<Rightarrow> bool" where
  "div_inv num d n qr \<longleftrightarrow>
     2 ^ n dvd u128_val (fst qr) \<and> unat (snd qr) < unat d \<and>
     u128_val num div 2 ^ n = (u128_val (fst qr) div 2 ^ n) * unat d + unat (snd qr)"

lemma pow2_split: "j \<le> k \<Longrightarrow> (2 :: nat) ^ k = 2 ^ j * 2 ^ (k - j)"
  by (simp flip: power_add)

lemma u128_val_div_high: "64 \<le> k \<Longrightarrow> u128_val v div 2 ^ k = unat (u128_hi v) div 2 ^ (k - 64)"
proof -
  assume "64 \<le> k"
  then have "2 ^ k = (2 ^ 64 * 2 ^ (k - 64) :: nat)" by (rule pow2_split)
  moreover have "unat (u128_lo v) div 2 ^ 64 = 0" by (simp add: unat_u64_bounded)
  ultimately show ?thesis by (simp add: u128_val_def div_mult2_eq)
qed

lemma u128_val_div_low: "k < 64 \<Longrightarrow> u128_val v div 2 ^ k = unat (u128_hi v) * 2 ^ (64 - k) + unat (u128_lo v) div 2 ^ k"
proof -
  assume "k < 64"
  then have "2 ^ 64 = (2 ^ (64 - k) * 2 ^ k :: nat)" by (simp flip: power_add)
  then show ?thesis by (simp only: u128_val_def mult.assoc [symmetric]) simp
qed

lemma incoming_bit:
  "(if 64 \<le> k then drop_bit (k - 64) (u128_hi v) AND 1 \<noteq> 0 else drop_bit k (u128_lo v) AND 1 \<noteq> 0)
   \<longleftrightarrow> odd (u128_val v div 2 ^ k)"
  by (auto simp: odd_drop_bit u128_val_div_high u128_val_div_low)

lemma unat_set_bit:
  assumes "k < 64" and "2 ^ Suc k dvd unat w"
  shows "unat ((w :: u64) OR push_bit k 1) = unat w + 2 ^ k"
proof -
  have nb: "\<not> bit w n" if "n \<le> k" for n
  proof -
    from that assms(2) have "2 ^ Suc n dvd unat w" by (meson Suc_le_mono dvd_trans le_imp_power_dvd)
    then have "even (unat w div 2 ^ n)" by (metis dvd_div_iff_mult dvd_refl power_Suc power_not_zero zero_neq_numeral mult.commute dvd_trans dvd_triv_left)
    then have "\<not> bit (unat w) n" by (simp add: bit_iff_odd)
    then show ?thesis by (auto simp: bit_unsigned_iff dest: bit_imp_le_length)
  qed
  have disj: "\<not> bit w n \<or> \<not> bit (push_bit k 1 :: u64) n" for n
  proof (cases "n \<le> k")
    case True
    with nb show ?thesis by blast
  next
    case False
    then show ?thesis by (simp only: bit_push_bit_iff bit_1_iff) simp
  qed
  have p: "unat (push_bit k 1 :: u64) = 2 ^ k"
  proof -
    have "(2 :: nat) ^ k < 2 ^ 64" using assms(1) by (rule power_strict_increasing) simp
    then show ?thesis unfolding unat_push_bit by simp
  qed
  have "unat w + 2 ^ k < 2 ^ 64"
  proof -
    obtain m where m: "unat w = 2 ^ Suc k * m" using assms(2) by blast
    have "(2 :: nat) ^ 64 = 2 ^ Suc k * 2 ^ (63 - k)" using assms(1) by (simp flip: power_add)
    moreover have "unat w < 2 ^ 64" by (simp add: unat_u64_bounded)
    ultimately have "2 ^ Suc k * m < 2 ^ Suc k * 2 ^ (63 - k)" using m by argo
    then have "m < 2 ^ (63 - k)" by (simp only: mult_less_cancel1)
    then have "2 ^ Suc k * (m + 1) \<le> 2 ^ Suc k * (2 ^ (63 - k) :: nat)" by (intro mult_left_mono) auto
    moreover have "0 < (2 :: nat) ^ k" by simp
    moreover have "2 ^ Suc k * (m + 1) = 2 ^ Suc k * m + 2 * 2 ^ k" by simp
    ultimately show ?thesis using m \<open>2 ^ 64 = _\<close> by linarith
  qed
  then show ?thesis using unat_or_disjoint [OF disj] p by simp
qed

lemma set_quotient_bit:
  assumes "k < 128" and "2 ^ Suc k dvd u128_val q"
  shows "u128_val (if 64 \<le> k then q\<lparr>u128_hi := u128_hi q OR push_bit (k - 64) 1\<rparr>
                   else q\<lparr>u128_lo := u128_lo q OR push_bit k 1\<rparr>) = u128_val q + 2 ^ k"
proof (cases "64 \<le> k")
  case True
  have split: "2 ^ Suc k = (2 ^ 64 * 2 ^ Suc (k - 64) :: nat)"
    using True pow2_split [of 64 "Suc k"] by (simp only: Suc_diff_le le_SucI)
  have "2 ^ 64 dvd u128_val q" using assms(2) split by (metis dvd_mult_left)
  then have "2 ^ 64 dvd unat (u128_lo q)" by (simp add: u128_val_def dvd_add_right_iff)
  then have lo: "unat (u128_lo q) = 0"
    using unat_bounded [of "u128_lo q"] by (auto dest: nat_dvd_not_less)
  then have "2 ^ Suc (k - 64) dvd unat (u128_hi q)"
    using assms(2) split by (simp add: u128_val_def mult.commute)
  then have "unat (u128_hi q OR push_bit (k - 64) 1) = unat (u128_hi q) + 2 ^ (k - 64)"
    using assms(1) by (intro unat_set_bit) auto
  moreover have "(2 :: nat) ^ k = 2 ^ (k - 64) * 2 ^ 64"
    using True by (simp only: pow2_split [of 64 k] mult.commute)
  ultimately show ?thesis using True by (simp add: u128_val_def algebra_simps)
next
  case False
  then have "2 ^ Suc k dvd (2 :: nat) ^ 64" by (intro le_imp_power_dvd) simp
  then have "2 ^ Suc k dvd unat (u128_lo q)"
    using assms(2) by (simp add: u128_val_def dvd_add_right_iff)
  then have "unat (u128_lo q OR push_bit k 1) = unat (u128_lo q) + 2 ^ k"
    using False by (intro unat_set_bit) auto
  with False show ?thesis by (simp add: u128_val_def)
qed

text \<open>The shifted remainder, with the bit that left the word: the comparison and the wrapped
  subtraction of the code decide and compute as on the 65-bit value.\<close>

lemma shifted_remainder:
  fixes r d :: u64 and b :: bool
  defines "r' \<equiv> push_bit 1 r OR (if b then 1 else 0)"
  assumes "unat r < unat d"
  shows "drop_bit 63 r \<noteq> 0 \<or> d \<le> r' \<longleftrightarrow> unat d \<le> 2 * unat r + of_bool b"
    and "unat d \<le> 2 * unat r + of_bool b \<Longrightarrow> unat (r' - d) = 2 * unat r + of_bool b - unat d"
    and "\<not> unat d \<le> 2 * unat r + of_bool b \<Longrightarrow> unat r' = 2 * unat r + of_bool b"
proof -
  have disj: "\<not> bit (push_bit 1 r) n \<or> \<not> bit (if b then 1 else 0 :: u64) n" for n
  proof (cases n)
    case 0
    then show ?thesis by (simp only: bit_push_bit_iff) simp
  next
    case (Suc m)
    then show ?thesis by (cases b) (simp_all add: bit_1_iff)
  qed
  have push: "unat (push_bit 1 r) = 2 * unat r mod 2 ^ 64"
    unfolding unat_push_bit by (simp add: mult.commute)
  have ev: "2 * unat r mod 2 ^ 64 + of_bool b < 2 ^ 64"
  proof -
    obtain j where j: "2 * unat r mod 2 ^ 64 = 2 * j" by (metis dvd_mod dvd_triv_left dvdE even_numeral even_power zero_less_numeral)
    have "2 * j < 2 ^ 64" unfolding j [symmetric] by simp
    then have "2 * j + 1 < 2 ^ 64" by simp
    then show ?thesis unfolding j by (cases b) auto
  qed
  have r': "unat r' = 2 * unat r mod 2 ^ 64 + of_bool b"
    unfolding r'_def using unat_or_disjoint [OF disj] push ev by (cases b) simp_all
  have top: "drop_bit 63 r \<noteq> 0 \<longleftrightarrow> 2 ^ 63 \<le> unat r"
    by (simp add: u64_zero_iff unat_drop_bit div_eq_0_iff not_less)
  have wrap: "2 * unat r mod 2 ^ 64 = (if 2 ^ 63 \<le> unat r then 2 * unat r - 2 ^ 64 else 2 * unat r)"
    using unat_bounded [of r] by (auto simp: le_mod_geq)
  note d = unat_bounded [of d]
  show "drop_bit 63 r \<noteq> 0 \<or> d \<le> r' \<longleftrightarrow> unat d \<le> 2 * unat r + of_bool b"
    unfolding top word_le_nat_alt r' wrap using d by auto
  show "unat r' = 2 * unat r + of_bool b" if "\<not> unat d \<le> 2 * unat r + of_bool b"
    unfolding r' wrap using that d by auto
  show "unat (r' - d) = 2 * unat r + of_bool b - unat d" if "unat d \<le> 2 * unat r + of_bool b"
    unfolding unat_sub_if_size word_size r' wrap
    using that assms(2) d unat_bounded [of r] by auto
qed

lemma div_step_inv:
  assumes "k < 128" and inv: "div_inv num d (Suc k) (q, r)"
  shows "div_inv num d k (div_step num d k (q, r))"
proof -
  let ?b = "odd (u128_val num div 2 ^ k)" and ?Q = "u128_val q div 2 ^ Suc k"
  let ?x = "2 * unat r + of_bool ?b"
  let ?r' = "push_bit 1 r OR (if ?b then 1 else 0)"
  let ?q' = "if 64 \<le> k then q\<lparr>u128_hi := u128_hi q OR push_bit (k - 64) 1\<rparr>
             else q\<lparr>u128_lo := u128_lo q OR push_bit k 1\<rparr>"
  from inv have dvd: "2 ^ Suc k dvd u128_val q" and r: "unat r < unat d"
    and eq: "u128_val num div 2 ^ Suc k = ?Q * unat d + unat r"
    by (auto simp: div_inv_def)
  note rem = shifted_remainder [OF r, of ?b]
  have Q: "u128_val q div 2 ^ k = 2 * ?Q" and dvdk: "2 ^ k dvd u128_val q"
    using dvd by (auto elim!: dvdE)
  have "u128_val num div 2 ^ Suc k = u128_val num div 2 ^ k div 2"
    by (simp only: power_Suc2 div_mult2_eq)
  then have "u128_val num div 2 ^ k = 2 * (u128_val num div 2 ^ Suc k) + of_bool ?b"
    by (cases ?b) (simp_all only: of_bool_eq odd_two_times_div_two_succ even_two_times_div_two
        not_not add_0_right simp_thms)
  then have num: "u128_val num div 2 ^ k = 2 * ?Q * unat d + ?x"
    unfolding eq by (simp only: distrib_left mult.assoc add.assoc)
  have x: "unat d \<le> ?x \<longleftrightarrow> drop_bit 63 r \<noteq> 0 \<or> d \<le> ?r'" using rem(1) by blast
  have step: "div_step num d k (q, r) =
      (if unat d \<le> ?x then (?q', ?r' - d) else (q, ?r'))"
    unfolding x by (simp only: div_step_def Let_def prod.case incoming_bit)
  show ?thesis
  proof (cases "unat d \<le> ?x")
    case True
    have "u128_val ?q' div 2 ^ k = 2 * ?Q + 1"
      using set_quotient_bit [OF assms(1) dvd] Q by (simp add: div_add dvdk)
    moreover have "2 ^ k dvd u128_val ?q'"
      using set_quotient_bit [OF assms(1) dvd] dvdk by simp
    moreover have "?x - unat d < unat d"
      using r by (cases ?b) auto
    ultimately show ?thesis
      using True num rem(2) [OF True] by (simp add: div_inv_def step algebra_simps)
  next
    case False
    then show ?thesis
      using num rem(3) [OF False] Q dvdk by (simp add: div_inv_def step)
  qed
qed

lemma div_loop_inv:
  "\<lbrakk>n \<le> 128; div_inv num d n qr\<rbrakk> \<Longrightarrow> div_inv num d 0 (div_loop num d n qr)"
proof (induction n arbitrary: qr)
  case (Suc k)
  then have "div_inv num d k (div_step num d k qr)"
    by (cases qr) (simp add: div_step_inv)
  then show ?case using Suc by simp
qed simp

lemma u128_val_bounded: "u128_val v < 2 ^ 128"
proof -
  have "unat (u128_hi v) * 2 ^ 64 + unat (u128_lo v) < (2 ^ 64 - 1) * 2 ^ 64 + 2 ^ 64"
    using unat_u64_bounded [of "u128_hi v"] unat_u64_bounded [of "u128_lo v"]
    by (intro add_le_less_mono mult_right_mono) auto
  then show ?thesis by (simp add: u128_val_def)
qed

lemma div_wide_val:
  assumes "d \<noteq> 0"
  shows "u128_val (dv_quotient (div_wide num d)) = u128_val num div unat d"
    and "unat (dv_remainder (div_wide num d)) = u128_val num mod unat d"
proof -
  let ?z = "(\<lparr>u128_lo = 0, u128_hi = 0\<rparr>, 0) :: U128 \<times> u64"
  obtain q r where qr: "div_loop num d 128 ?z = (q, r)" by (cases "div_loop num d 128 ?z")
  have "div_inv num d 128 ?z"
    using assms u128_val_bounded [of num] by (simp add: div_inv_def u128_val_def unat_gt_0)
  then have "div_inv num d 0 (q, r)"
    using div_loop_inv [of 128 num d ?z] qr by simp
  then have eq: "u128_val num = u128_val q * unat d + unat r" and r: "unat r < unat d"
    by (auto simp: div_inv_def)
  have "dv_quotient (div_wide num d) = q" "dv_remainder (div_wide num d) = r"
    using assms qr by (simp_all add: div_wide_def)
  with eq r show "u128_val (dv_quotient (div_wide num d)) = u128_val num div unat d"
    and "unat (dv_remainder (div_wide num d)) = u128_val num mod unat d" by auto
qed

section \<open>Exact multiply-divide\<close>

lemma mul_div_cases:
  assumes "divisor \<noteq> 0"
  shows "mul_div_ok (mul_div v m divisor) \<longleftrightarrow> unat v * unat m div unat divisor < 2 ^ 64"
    and "mul_div_ok (mul_div v m divisor) \<Longrightarrow>
           unat (md_value (mul_div v m divisor)) = unat v * unat m div unat divisor"
    and "mul_div_ok (mul_div v m divisor) \<Longrightarrow>
           unat (md_remainder (mul_div v m divisor)) = unat v * unat m mod unat divisor"
proof -
  let ?d = "div_wide (mul_wide v m) divisor"
  have q: "unat (u128_hi (dv_quotient ?d)) * 2 ^ 64 + unat (u128_lo (dv_quotient ?d))
      = unat v * unat m div unat divisor"
    using div_wide_val(1) [OF assms, of "mul_wide v m"]
    by (simp only: mul_wide_val u128_val_def [symmetric])
  have fits: "fits_u64 (dv_quotient ?d) \<longleftrightarrow> unat v * unat m div unat divisor < 2 ^ 64"
    using q unat_u64_bounded [of "u128_lo (dv_quotient ?d)"]
    by (cases "unat (u128_hi (dv_quotient ?d))") (auto simp: fits_u64_def u64_zero_iff)
  show ok: "mul_div_ok (mul_div v m divisor) \<longleftrightarrow> unat v * unat m div unat divisor < 2 ^ 64"
    using assms fits by (simp add: mul_div_def mul_div_ok_def Let_def)
  show "unat (md_value (mul_div v m divisor)) = unat v * unat m div unat divisor"
    if "mul_div_ok (mul_div v m divisor)"
    using that ok fits q assms by (simp add: mul_div_def Let_def fits_u64_def)
  show "unat (md_remainder (mul_div v m divisor)) = unat v * unat m mod unat divisor"
    if "mul_div_ok (mul_div v m divisor)"
    using that ok fits assms div_wide_val(2) [OF assms, of "mul_wide v m"]
    by (simp add: mul_div_def Let_def mul_wide_val)
qed

section \<open>Properties\<close>

text \<open>C4: For a non-zero divisor, \<open>mul_div\<close> reports success exactly where the quotient of the full
  128-bit product fits in 64 bits, and then its value and remainder are the exact quotient and
  remainder of the unbounded product; for a zero divisor it reports \<open>divide_by_zero\<close>. The limb
  product and the 128-step restoring division therefore lose no bit.\<close>

theorem mul_div_exact:
  "if divisor = 0 then md_divide_by_zero (mul_div v m divisor) \<and> \<not> mul_div_ok (mul_div v m divisor)
   else (mul_div_ok (mul_div v m divisor) \<longleftrightarrow> unat v * unat m div unat divisor < 2 ^ 64) \<and>
        (mul_div_ok (mul_div v m divisor) \<longrightarrow>
           unat (md_value (mul_div v m divisor)) = unat v * unat m div unat divisor \<and>
           unat (md_remainder (mul_div v m divisor)) = unat v * unat m mod unat divisor)"
proof (cases "divisor = 0")
  case True
  then show ?thesis by (simp add: mul_div_def mul_div_ok_def)
next
  case False
  with mul_div_cases [OF False, of v m] show ?thesis by simp
qed

theorem mul_div_exact_witness:
  "unat (md_value (mul_div (- 1) (- 1) (- 1))) = unat (- 1 :: u64) * unat (- 1 :: u64) div unat (- 1 :: u64)"
proof -
  have "unat (- 1 :: u64) * unat (- 1 :: u64) div unat (- 1 :: u64) < 2 ^ 64"
    unfolding unat_max_word by simp
  then show ?thesis using mul_div_exact [of "- 1" "- 1" "- 1"] by simp
qed

end
