(* ===== verification/FG_Allocate.thy ===== *)
theory FG_Allocate
  imports FG_U128 FG_Greedy
begin

text \<open>
  The exact allocation primitive of \<open>eval/engine.cpp\<close>: \<open>effective_share_weight\<close> and
  \<open>allocate_whole\<close>, which splits a whole among weighted competitors with guarantee floors.
  Every loop of the function is a definition of its own; \<open>allocate_whole\<close> composes them with the
  code's checks in the code's order. The loops that stand twice in the code (the weighted share and
  the hand-out of the rounding residue) are one definition used twice.
\<close>

section \<open>Definitions\<close>

record AllocationInput =
  ai_key :: u64
  ai_weight :: u64
  ai_floor :: u64
  ai_obligation_rank :: u32

record AllocationResult =
  ar_allocations :: "u64 list"
  ar_floor_binding :: "u8 list"
  ar_overcommit :: bool
  ar_overcommit_shortfall :: u64

definition effective_share_weight :: "u32 \<Rightarrow> i32 \<Rightarrow> u64" where
  "effective_share_weight weight modifier_bps =
     (let factor = kBasisPointScale + scast modifier_bps;
          scale = (if factor \<le>s 0 then 1 else factor);
          product = mul_wide (ucast weight) scale
      in if \<not> fits_u64 product \<or> u128_lo product = 0 then 1 else u128_lo product)"

fun weight_sum_loop :: "AllocationInput list \<Rightarrow> u64 \<Rightarrow> u64 result" where
  "weight_sum_loop [] weight_sum = Inr weight_sum"
| "weight_sum_loop (child # rest) weight_sum =
     (if ai_weight child = 0 then Inl OutOfRange
      else case checked_add weight_sum (ai_weight child) of
             None \<Rightarrow> Inl ArithmeticOverflow
           | Some weight_sum' \<Rightarrow> weight_sum_loop rest weight_sum')"

text \<open>The weighted shares of a whole, each with its remainder, and their checked total.\<close>

fun share_loop :: "u64 \<Rightarrow> u64 \<Rightarrow> AllocationInput list \<Rightarrow> u64 \<Rightarrow> ((u64 \<times> u64) list \<times> u64) result" where
  "share_loop whole weight_sum [] assigned = Inr ([], assigned)"
| "share_loop whole weight_sum (child # rest) assigned =
     (let computed = mul_div whole (ai_weight child) weight_sum
      in if \<not> mul_div_ok computed then Inl ArithmeticOverflow
         else case checked_add assigned (md_value computed) of
                None \<Rightarrow> Inl ArithmeticOverflow
              | Some assigned' \<Rightarrow>
                  (case share_loop whole weight_sum rest assigned' of
                     Inl e \<Rightarrow> Inl e
                   | Inr (shares, tot) \<Rightarrow>
                       Inr ((md_value computed, md_remainder computed) # shares, tot)))"

fun floor_loop :: "(AllocationInput \<times> u64) list \<Rightarrow> u64 \<Rightarrow> u64 \<Rightarrow> (u64 \<times> u64) result" where
  "floor_loop [] need slack = Inr (need, slack)"
| "floor_loop ((child, share) # rest) need slack =
     (if share < ai_floor child
      then case checked_add need (ai_floor child - share) of
             None \<Rightarrow> Inl ArithmeticOverflow
           | Some need' \<Rightarrow> floor_loop rest need' slack
      else case checked_add slack (share - ai_floor child) of
             None \<Rightarrow> Inl ArithmeticOverflow
           | Some slack' \<Rightarrow> floor_loop rest need slack')"

definition donor_less :: "AllocationInput list \<Rightarrow> u64 list \<Rightarrow> nat \<Rightarrow> nat \<Rightarrow> bool" where
  "donor_less children share a b =
     (let slack_a = share ! a - ai_floor (children ! a);
          slack_b = share ! b - ai_floor (children ! b)
      in if slack_a \<noteq> slack_b then slack_b < slack_a
         else if ai_obligation_rank (children ! a) \<noteq> ai_obligation_rank (children ! b)
         then ai_obligation_rank (children ! a) < ai_obligation_rank (children ! b)
         else ai_key (children ! a) < ai_key (children ! b))"

definition overcommit_less :: "AllocationInput list \<Rightarrow> nat \<Rightarrow> nat \<Rightarrow> bool" where
  "overcommit_less children a b =
     (if ai_obligation_rank (children ! a) \<noteq> ai_obligation_rank (children ! b)
      then ai_obligation_rank (children ! b) < ai_obligation_rank (children ! a)
      else if ai_floor (children ! a) \<noteq> ai_floor (children ! b)
      then ai_floor (children ! b) < ai_floor (children ! a)
      else ai_key (children ! a) < ai_key (children ! b))"

definition residue_less :: "AllocationInput list \<Rightarrow> u64 list \<Rightarrow> nat \<Rightarrow> nat \<Rightarrow> bool" where
  "residue_less children residue a b =
     (if residue ! a \<noteq> residue ! b then residue ! b < residue ! a
      else ai_key (children ! a) < ai_key (children ! b))"

text \<open>The loop \<open>for (k = 0; k < units; ++k) allocation[order[k]] += 1\<close>.\<close>

definition hand_out :: "nat list \<Rightarrow> u64 \<Rightarrow> u64 list \<Rightarrow> u64 list" where
  "hand_out order units allocation =
     fold (\<lambda>i a. a[i := a ! i + 1]) (take (unat units) order) allocation"

definition reallocate_floors ::
    "AllocationInput list \<Rightarrow> u64 list \<Rightarrow> u64 \<Rightarrow> (u64 list \<times> u8 list) result" where
  "reallocate_floors children share need =
     (let count = length children;
          donors = std_sort (donor_less children share)
                     (filter (\<lambda>i. ai_floor (children ! i) < share ! i) [0..<count]);
          (allocation, remaining) =
            grant_loop (\<lambda>i. share ! i - ai_floor (children ! i))
              (\<lambda>i t a. a[i := a ! i - t]) donors need share;
          allocation' = map (\<lambda>i. if share ! i < ai_floor (children ! i)
                                 then ai_floor (children ! i) else allocation ! i) [0..<count];
          binding = map (\<lambda>i. if share ! i < ai_floor (children ! i) then 1 else 0) [0..<count]
      in if remaining \<noteq> 0 then Inl Internal else Inr (allocation', binding))"

fun shortfall_loop :: "(AllocationInput \<times> u64) list \<Rightarrow> u64 \<Rightarrow> u64 result" where
  "shortfall_loop [] shortfall = Inr shortfall"
| "shortfall_loop ((child, allocation) # rest) shortfall =
     (if allocation < ai_floor child
      then case checked_add shortfall (ai_floor child - allocation) of
             None \<Rightarrow> Inl ArithmeticOverflow
           | Some shortfall' \<Rightarrow> shortfall_loop rest shortfall'
      else shortfall_loop rest shortfall)"

definition overcommit_shortfall ::
    "AllocationInput list \<Rightarrow> u64 list \<Rightarrow> u64 list \<Rightarrow> (u64 list \<times> u8 list \<times> u64) result" where
  "overcommit_shortfall children share allocation =
     (let binding = map (\<lambda>i. if allocation ! i < ai_floor (children ! i) then 0
                             else if share ! i < ai_floor (children ! i) then 1
                             else 0) [0..<length children]
      in case shortfall_loop (zip children allocation) 0 of
           Inl e \<Rightarrow> Inl e
         | Inr shortfall \<Rightarrow> Inr (allocation, binding, shortfall))"

definition overcommit_extra ::
    "AllocationInput list \<Rightarrow> u64 list \<Rightarrow> u64 list \<Rightarrow> (u64 \<times> u64) list \<Rightarrow> u64
     \<Rightarrow> (u64 list \<times> u8 list \<times> u64) result" where
  "overcommit_extra children share allocation extra extra_left =
     (let count = length children
      in if count + 1 \<le> unat extra_left then Inl Internal
         else overcommit_shortfall children share
                (hand_out (std_sort (residue_less children (map snd extra)) [0..<count]) extra_left
                   (map (\<lambda>i. allocation ! i + fst (extra ! i)) [0..<count])))"

fun overcommit_spread ::
    "AllocationInput list \<Rightarrow> u64 list \<Rightarrow> u64 \<Rightarrow> u64 list \<times> u64 \<Rightarrow> (u64 list \<times> u8 list \<times> u64) result" where
  "overcommit_spread children share weight_sum (allocation, available) =
     (case share_loop available weight_sum children 0 of
        Inl e \<Rightarrow> Inl e
      | Inr (extra, extra_assigned) \<Rightarrow>
          overcommit_extra children share allocation extra (available - extra_assigned))"

definition overcommit_allocate ::
    "AllocationInput list \<Rightarrow> u64 list \<Rightarrow> u64 \<Rightarrow> u64 \<Rightarrow> (u64 list \<times> u8 list \<times> u64) result" where
  "overcommit_allocate children share weight_sum whole =
     overcommit_spread children share weight_sum
       (grant_all_loop (\<lambda>i. ai_floor (children ! i)) (\<lambda>i g a. a[i := g])
          (std_sort (overcommit_less children) [0..<length children]) whole
          (replicate (length children) 0))"

fun total_loop :: "u64 list \<Rightarrow> u64 \<Rightarrow> u64 result" where
  "total_loop [] tot = Inr tot"
| "total_loop (v # rest) tot =
     (case checked_add tot v of
        None \<Rightarrow> Inl ArithmeticOverflow
      | Some tot' \<Rightarrow> total_loop rest tot')"

text \<open>Floors, by the three branches of the code: no shortfall, shortfall covered by the slack,
  overcommit. The result is the allocation before the residue hand-out of the first two branches.\<close>

definition apply_floors ::
    "AllocationInput list \<Rightarrow> u64 list \<Rightarrow> u64 \<Rightarrow> u64 \<Rightarrow> u64 \<Rightarrow> u64 \<Rightarrow> AllocationResult result" where
  "apply_floors children share weight_sum whole need slack =
     (if need = 0
      then Inr \<lparr>ar_allocations = share, ar_floor_binding = replicate (length children) 0,
                ar_overcommit = False, ar_overcommit_shortfall = 0\<rparr>
      else if need \<le> slack
      then (case reallocate_floors children share need of
              Inl e \<Rightarrow> Inl e
            | Inr (allocation, binding) \<Rightarrow>
                Inr \<lparr>ar_allocations = allocation, ar_floor_binding = binding,
                     ar_overcommit = False, ar_overcommit_shortfall = 0\<rparr>)
      else (case overcommit_allocate children share weight_sum whole of
              Inl e \<Rightarrow> Inl e
            | Inr (allocation, binding, shortfall) \<Rightarrow>
                Inr \<lparr>ar_allocations = allocation, ar_floor_binding = binding,
                     ar_overcommit = True, ar_overcommit_shortfall = shortfall\<rparr>))"

definition close_allocation ::
    "AllocationInput list \<Rightarrow> u64 list \<Rightarrow> u64 \<Rightarrow> u64 \<Rightarrow> AllocationResult \<Rightarrow> AllocationResult result" where
  "close_allocation children residue leftover whole r =
     (let count = length children
      in if \<not> ar_overcommit r \<and> 0 < leftover \<and> count + 1 \<le> unat leftover then Inl Internal
         else
           (let allocation =
                  (if \<not> ar_overcommit r \<and> 0 < leftover
                   then hand_out (std_sort (residue_less children residue) [0..<count]) leftover
                          (ar_allocations r)
                   else ar_allocations r)
            in case total_loop allocation 0 of
                 Inl e \<Rightarrow> Inl e
               | Inr tot \<Rightarrow>
                   (if tot \<noteq> whole then Inl Internal
                    else Inr (r\<lparr>ar_allocations := allocation\<rparr>))))"

definition allocate_whole :: "AllocationInput list \<Rightarrow> u64 \<Rightarrow> AllocationResult result" where
  "allocate_whole children whole =
     (if children = [] then Inl InvalidArgument
      else if length children > unat kMaxSubjects + unat kMaxGroups then Inl LimitExceeded
      else case weight_sum_loop children 0 of
        Inl e \<Rightarrow> Inl e
      | Inr weight_sum \<Rightarrow>
          (case share_loop whole weight_sum children 0 of
             Inl e \<Rightarrow> Inl e
           | Inr (shares, assigned) \<Rightarrow>
               (let share = map fst shares; residue = map snd shares
                in if whole < assigned then Inl Internal
                   else let leftover = whole - assigned
                        in case floor_loop (zip children share) 0 0 of
                             Inl e \<Rightarrow> Inl e
                           | Inr (need, slack) \<Rightarrow>
                               (case apply_floors children share weight_sum whole need slack of
                                  Inl e \<Rightarrow> Inl e
                                | Inr r \<Rightarrow> close_allocation children residue leftover whole r))))"

section \<open>The loops, on natural numbers\<close>

abbreviation w_of :: "AllocationInput list \<Rightarrow> nat \<Rightarrow> nat" where
  "w_of children i \<equiv> unat (ai_weight (children ! i))"

abbreviation f_of :: "AllocationInput list \<Rightarrow> nat \<Rightarrow> nat" where
  "f_of children i \<equiv> unat (ai_floor (children ! i))"

definition weight_total :: "AllocationInput list \<Rightarrow> nat" where
  "weight_total children = (\<Sum>i<length children. w_of children i)"

definition floor_total :: "AllocationInput list \<Rightarrow> nat" where
  "floor_total children = (\<Sum>i<length children. f_of children i)"

lemma sum_Cons_nth: "(\<Sum>i<length (x # xs). f ((x # xs) ! i)) = f x + (\<Sum>i<length xs. f (xs ! i))"
  for f :: "_ \<Rightarrow> nat"
  by (simp add: sum.lessThan_Suc_shift del: sum.lessThan_Suc)

lemma nsum_nth: "nsum ws = (\<Sum>i<length ws. unat (ws ! i))"
  by (simp add: nsum_def sum_list_sum_nth atLeast0LessThan)

lemma weight_total_Nil [simp]: "weight_total [] = 0"
  by (simp add: weight_total_def)

lemma weight_total_Cons [simp]: "weight_total (c # cs) = unat (ai_weight c) + weight_total cs"
  unfolding weight_total_def by (rule sum_Cons_nth)

lemma weight_sum_loop_ok:
  "\<lbrakk>\<forall>c\<in>set cs. ai_weight c \<noteq> 0; unat acc + weight_total cs < 2 ^ 64\<rbrakk>
   \<Longrightarrow> \<exists>s. weight_sum_loop cs acc = Inr s \<and> unat s = unat acc + weight_total cs"
proof (induction cs arbitrary: acc)
  case (Cons c cs)
  then have "checked_add acc (ai_weight c) = Some (acc + ai_weight c)"
    "unat (acc + ai_weight c) = unat acc + unat (ai_weight c)"
    by (simp_all add: checked_add_exact unat_plus_exact)
  with Cons.prems Cons.IH [of "acc + ai_weight c"] show ?case by auto
qed simp

lemma weight_sum_loop_InrD:
  "weight_sum_loop cs acc = Inr s \<Longrightarrow>
   (\<forall>c\<in>set cs. ai_weight c \<noteq> 0) \<and> unat s = unat acc + weight_total cs"
  by (induction cs arbitrary: acc) (fastforce split: if_splits option.splits dest: checked_add_SomeD)+

lemma share_loop_ok:
  assumes "W \<noteq> 0"
  shows "\<lbrakk>\<forall>i<length cs. w_of cs i \<le> unat W;
    unat acc + (\<Sum>i<length cs. unat a * w_of cs i div unat W) < 2 ^ 64\<rbrakk>
   \<Longrightarrow> \<exists>sr t. share_loop a W cs acc = Inr (sr, t) \<and> length sr = length cs \<and>
        (\<forall>i<length cs. unat (fst (sr ! i)) = unat a * w_of cs i div unat W \<and>
           unat (snd (sr ! i)) = unat a * w_of cs i mod unat W) \<and>
        unat t = unat acc + (\<Sum>i<length cs. unat a * w_of cs i div unat W)"
proof (induction cs arbitrary: acc)
  case (Cons c cs)
  let ?q = "unat a * unat (ai_weight c) div unat W"
  have W: "0 < unat W" using assms by (simp add: unat_gt_0)
  have "?q \<le> unat a"
    using Cons.prems(1) W by (metis div_le_mono div_mult_self_is_m length_greater_0_conv
        list.discI mult_le_mono2 nth_Cons_0)
  then have ok: "mul_div_ok (mul_div a (ai_weight c) W)"
    using mul_div_cases(1) [OF assms] unat_u64_bounded [of a] by simp
  then have v: "unat (md_value (mul_div a (ai_weight c) W)) = ?q"
    "unat (md_remainder (mul_div a (ai_weight c) W)) = unat a * unat (ai_weight c) mod unat W"
    by (rule mul_div_cases(2,3) [OF assms])+
  have sum: "(\<Sum>i<length (c # cs). unat a * w_of (c # cs) i div unat W)
      = ?q + (\<Sum>i<length cs. unat a * w_of cs i div unat W)"
    by (rule sum_Cons_nth)
  let ?acc = "acc + md_value (mul_div a (ai_weight c) W)"
  have acc: "unat ?acc = unat acc + ?q" and chk: "checked_add acc (md_value (mul_div a (ai_weight c) W)) = Some ?acc"
    using Cons.prems(2) sum v by (simp_all add: unat_plus_exact checked_add_exact)
  have "\<forall>i<length cs. w_of cs i \<le> unat W" using Cons.prems(1) by fastforce
  then obtain sr t where "share_loop a W cs ?acc = Inr (sr, t)" "length sr = length cs"
    "\<forall>i<length cs. unat (fst (sr ! i)) = unat a * w_of cs i div unat W \<and>
       unat (snd (sr ! i)) = unat a * w_of cs i mod unat W"
    "unat t = unat ?acc + (\<Sum>i<length cs. unat a * w_of cs i div unat W)"
    using Cons.IH [of ?acc] Cons.prems(2) sum acc by auto
  with ok v chk sum acc show ?case
    by (auto simp: Let_def nth_Cons split: nat.splits)
qed simp

text \<open>Weighted shares never exceed the whole, and miss it by fewer units than there are
  competitors.\<close>

lemma floor_shares:
  fixes w :: "nat \<Rightarrow> nat" and a n :: nat
  assumes "0 < (\<Sum>i<n. w i)"
  defines "q \<equiv> \<lambda>i. a * w i div (\<Sum>i<n. w i)"
  shows "(\<Sum>i<n. q i) \<le> a" and "a - (\<Sum>i<n. q i) < n"
proof -
  let ?W = "\<Sum>i<n. w i"
  have "(\<Sum>i<n. q i) * ?W + (\<Sum>i<n. a * w i mod ?W) = (\<Sum>i<n. a * w i)"
    unfolding q_def sum_distrib_right sum.distrib [symmetric] by (intro sum.cong refl div_mult_mod_eq)
  also have "\<dots> = a * ?W" by (simp add: sum_distrib_left)
  finally have eq: "(\<Sum>i<n. q i) * ?W + (\<Sum>i<n. a * w i mod ?W) = a * ?W" .
  then have "(\<Sum>i<n. q i) * ?W \<le> a * ?W" by linarith
  then show le: "(\<Sum>i<n. q i) \<le> a" using assms(1) by (simp only: mult_le_cancel2)
  have "n \<noteq> 0" using assms(1) by (cases n) auto
  then have "(\<Sum>i<n. a * w i mod ?W) < n * ?W"
    using sum_strict_mono [of "{..<n}" "\<lambda>i. a * w i mod ?W" "\<lambda>_. ?W"] assms(1) by auto
  with eq have "(a - (\<Sum>i<n. q i)) * ?W < n * ?W"
    by (simp add: diff_mult_distrib)
  then show "a - (\<Sum>i<n. q i) < n" by (simp only: mult_less_cancel2)
qed

text \<open>The units a competitor misses up to its floor, and those it has above it.\<close>

definition below_floor :: "AllocationInput \<times> u64 \<Rightarrow> nat" where
  "below_floor p = unat (ai_floor (fst p)) - unat (snd p)"

definition above_floor :: "AllocationInput \<times> u64 \<Rightarrow> nat" where
  "above_floor p = unat (snd p) - unat (ai_floor (fst p))"

lemma floor_loop_ok:
  "\<lbrakk>unat need + sum_list (map below_floor ps) < 2 ^ 64;
    unat slack + sum_list (map above_floor ps) < 2 ^ 64\<rbrakk>
   \<Longrightarrow> \<exists>n s. floor_loop ps need slack = Inr (n, s) \<and>
         unat n = unat need + sum_list (map below_floor ps) \<and>
         unat s = unat slack + sum_list (map above_floor ps)"
proof (induction ps arbitrary: need slack)
  case (Cons p ps)
  obtain c v where p: "p = (c, v)" by (cases p)
  show ?case
  proof (cases "v < ai_floor c")
    case True
    then have d: "unat (ai_floor c - v) = below_floor p" "above_floor p = 0"
      by (simp_all add: unat_minus_exact word_less_nat_alt word_le_nat_alt below_floor_def
          above_floor_def p)
    then have "unat (need + (ai_floor c - v)) = unat need + below_floor p"
      and "checked_add need (ai_floor c - v) = Some (need + (ai_floor c - v))"
      using Cons.prems(1) by (simp_all add: unat_plus_exact checked_add_exact)
    then show ?thesis
      using True Cons.IH [of "need + (ai_floor c - v)" slack] Cons.prems d(2) p by auto
  next
    case False
    then have d: "unat (v - ai_floor c) = above_floor p" "below_floor p = 0"
      by (simp_all add: unat_minus_exact word_less_nat_alt word_le_nat_alt below_floor_def
          above_floor_def p)
    then have "unat (slack + (v - ai_floor c)) = unat slack + above_floor p"
      and "checked_add slack (v - ai_floor c) = Some (slack + (v - ai_floor c))"
      using Cons.prems(2) by (simp_all add: unat_plus_exact checked_add_exact)
    then show ?thesis
      using False Cons.IH [of need "slack + (v - ai_floor c)"] Cons.prems d(2) p by auto
  qed
qed simp

lemma total_loop_eq:
  "unat acc + nsum vs < 2 ^ 64 \<Longrightarrow>
   \<exists>t. total_loop vs acc = Inr t \<and> unat t = unat acc + nsum vs"
proof (induction vs arbitrary: acc)
  case (Cons v vs)
  then have "checked_add acc v = Some (acc + v)" "unat (acc + v) = unat acc + unat v"
    by (simp_all add: checked_add_exact unat_plus_exact)
  with Cons.prems Cons.IH [of "acc + v"] show ?case by auto
qed simp

lemma shortfall_loop_ok:
  "unat acc + sum_list (map below_floor ps) < 2 ^ 64 \<Longrightarrow>
   \<exists>s. shortfall_loop ps acc = Inr s \<and> unat s = unat acc + sum_list (map below_floor ps)"
proof (induction ps arbitrary: acc)
  case (Cons p ps)
  obtain c v where p: "p = (c, v)" by (cases p)
  show ?case
  proof (cases "v < ai_floor c")
    case True
    then have "unat (ai_floor c - v) = below_floor p"
      by (simp add: unat_minus_exact word_less_nat_alt word_le_nat_alt below_floor_def p)
    then have "unat (acc + (ai_floor c - v)) = unat acc + below_floor p"
      and "checked_add acc (ai_floor c - v) = Some (acc + (ai_floor c - v))"
      using Cons.prems by (simp_all add: unat_plus_exact checked_add_exact)
    then show ?thesis
      using True Cons.IH [of "acc + (ai_floor c - v)"] Cons.prems p by auto
  next
    case False
    then have "below_floor p = 0" by (simp add: below_floor_def p word_less_nat_alt)
    then show ?thesis using False Cons.IH [of acc] Cons.prems p by simp
  qed
qed simp

lemma sum_list_zip_nth:
  "length cs = length vs \<Longrightarrow>
   sum_list (map f (zip cs vs)) = (\<Sum>i<length cs. f (cs ! i, vs ! i))" for f :: "_ \<Rightarrow> nat"
  by (simp add: sum_list_sum_nth atLeast0LessThan)

section \<open>The branches\<close>

lemma hand_out_length [simp]: "length (hand_out order units a) = length a"
proof -
  have "length (fold (\<lambda>i a. a[i := a ! i + 1]) js a) = length a" for js
    by (induction js arbitrary: a) simp_all
  then show ?thesis by (simp add: hand_out_def)
qed

lemma bump_all:
  "\<lbrakk>set js \<subseteq> {..<length a}; nsum a + length js < 2 ^ 64\<rbrakk> \<Longrightarrow>
   nsum (fold (\<lambda>i a. a[i := a ! i + 1]) js a) = nsum a + length js \<and>
   (\<forall>j<length a. unat (a ! j) \<le> unat (fold (\<lambda>i a. a[i := a ! i + 1]) js (a :: u64 list) ! j))"
proof (induction js arbitrary: a)
  case (Cons i js)
  let ?a = "a[i := a ! i + 1]"
  have i: "i < length a" using Cons.prems by simp
  have "unat (a ! i) \<le> nsum a" using i by (simp add: nsum_member)
  then have up: "unat (a ! i + 1) = unat (a ! i) + 1"
    using Cons.prems(2) by (subst unat_plus_exact) simp_all
  then have s: "nsum ?a = nsum a + 1" using nsum_update [OF i, of "a ! i + 1"] by simp
  have mono: "unat (a ! j) \<le> unat (?a ! j)" for j
    using up i by (cases "j = i") auto
  have "nsum (fold (\<lambda>i a. a[i := a ! i + 1]) js ?a) = nsum ?a + length js \<and>
    (\<forall>j<length ?a. unat (?a ! j) \<le> unat (fold (\<lambda>i a. a[i := a ! i + 1]) js ?a ! j))"
    using Cons.prems s by (intro Cons.IH) simp_all
  with s mono show ?case by (fastforce intro: order_trans)
qed simp

lemma hand_out_sum:
  assumes "set order \<subseteq> {..<length a}" and "unat units \<le> length order"
    and "nsum a + unat units < 2 ^ 64"
  shows "nsum (hand_out order units a) = nsum a + unat units"
    and "\<And>j. j < length a \<Longrightarrow> unat (a ! j) \<le> unat (hand_out order units a ! j)"
proof -
  have "length (take (unat units) order) = unat units" "set (take (unat units) order) \<subseteq> {..<length a}"
    using assms set_take_subset [of "unat units" order] by auto
  then show "nsum (hand_out order units a) = nsum a + unat units"
    and "\<And>j. j < length a \<Longrightarrow> unat (a ! j) \<le> unat (hand_out order units a ! j)"
    using bump_all [of "take (unat units) order" a] assms(3) unfolding hand_out_def by auto
qed

lemma reallocate_floors_ok:
  assumes len: "length share = length cs"
    and need: "unat need = (\<Sum>i<length cs. f_of cs i - unat (share ! i))"
    and slack: "(\<Sum>i<length cs. f_of cs i - unat (share ! i))
        \<le> (\<Sum>i<length cs. unat (share ! i) - f_of cs i)"
  shows "\<exists>a b. reallocate_floors cs share need = Inr (a, b) \<and> length a = length cs \<and>
     length b = length cs \<and> nsum a = nsum share \<and> (\<forall>i<length cs. f_of cs i \<le> unat (a ! i))"
proof -
  let ?n = "length cs"
  define D where "D = std_sort (donor_less cs share) (filter (\<lambda>i. ai_floor (cs ! i) < share ! i) [0..<?n])"
  define room where "room = (\<lambda>i. share ! i - ai_floor (cs ! i))"
  define g where "g = grant_of (\<lambda>i. unat (room i)) D (unat need)"
  define L where "L = grant_loop room (\<lambda>i t a. a[i := a ! i - t]) D need share"
  define A where "A = map (\<lambda>i. if share ! i < ai_floor (cs ! i) then ai_floor (cs ! i)
      else fst L ! i) [0..<?n]"
  have dist: "distinct D" and setD: "set D = {i. i < ?n \<and> f_of cs i < unat (share ! i)}"
    by (auto simp: D_def word_less_nat_alt)
  have room: "unat (room i) = unat (share ! i) - f_of cs i" if "i \<in> set D" for i
    using that by (simp add: room_def setD unat_minus_exact word_le_nat_alt)
  have "(\<Sum>i\<in>set D. unat (room i)) = (\<Sum>i\<in>set D. unat (share ! i) - f_of cs i)"
    by (intro sum.cong refl room)
  also have "\<dots> = (\<Sum>i<?n. unat (share ! i) - f_of cs i)"
    by (rule sum.mono_neutral_left) (auto simp: setD)
  finally have rooms: "(\<Sum>i\<in>set D. unat (room i)) = (\<Sum>i<?n. unat (share ! i) - f_of cs i)" .
  have rem: "snd L = 0"
    using rooms slack need unfolding L_def u64_zero_iff grant_loop_remaining [OF dist] by simp
  have nth: "fst L ! i = (if i \<in> set D then share ! i - of_nat (g i) else share ! i)" for i
    unfolding L_def g_def
    by (rule grant_loop_nth [where P = "\<lambda>t. length t = ?n" and upd = "(-)" and get = "(!)"])
       (auto simp: dist len setD)
  have gle: "g i \<le> unat (share ! i) - f_of cs i" if "i < ?n" for i
    using grant_of_le_cap [of "\<lambda>i. unat (room i)" D "unat need" i]
      grant_of_not_in [of i D] room [of i] that by (cases "i \<in> set D") (auto simp: g_def)
  have Ai: "unat (A ! i) + g i = unat (share ! i) + (f_of cs i - unat (share ! i))"
    "f_of cs i \<le> unat (A ! i)" if "i < ?n" for i
  proof -
    have gi: "unat (of_nat (g i) :: u64) = g i"
      using gle [OF that] unat_u64_bounded [of "share ! i"] by (intro unat_of_nat_exact) simp
    have "i \<in> set D \<Longrightarrow> unat (share ! i - of_nat (g i)) = unat (share ! i) - g i"
      using gle [OF that] gi by (simp add: unat_minus_exact word_le_nat_alt)
    moreover have "i \<notin> set D \<Longrightarrow> g i = 0" by (simp add: g_def grant_of_not_in)
    ultimately show "unat (A ! i) + g i = unat (share ! i) + (f_of cs i - unat (share ! i))"
      "f_of cs i \<le> unat (A ! i)"
      using gle [OF that] that by (auto simp: A_def nth setD word_less_nat_alt)
  qed
  have "(\<Sum>i<?n. g i) = (\<Sum>i\<in>set D. g i)"
    by (rule sum.mono_neutral_right) (auto simp: setD g_def grant_of_not_in)
  also have "\<dots> = unat need"
    using sum_grants [OF dist, of "\<lambda>i. unat (room i)" "unat need"] rooms slack need by (simp add: g_def)
  finally have sg: "(\<Sum>i<?n. g i) = unat need" .
  have "(\<Sum>i<?n. unat (A ! i)) + (\<Sum>i<?n. g i) = (\<Sum>i<?n. unat (share ! i)) + unat need"
    unfolding need sum.distrib [symmetric] by (intro sum.cong refl) (simp add: Ai)
  then have "nsum A = nsum share" using sg len by (simp add: nsum_nth A_def)
  moreover have "reallocate_floors cs share need
    = Inr (A, map (\<lambda>i. if share ! i < ai_floor (cs ! i) then 1 else 0) [0..<?n])"
    using rem by (simp add: reallocate_floors_def Let_def A_def L_def D_def room_def split_beta)
  ultimately show ?thesis using Ai(2) by (auto simp: A_def)
qed


text \<open>The grants of the overcommit branch, and what the branch leaves at each index.\<close>

definition rank_order :: "AllocationInput list \<Rightarrow> nat list" where
  "rank_order cs = std_sort (overcommit_less cs) [0..<length cs]"

definition floor_grant :: "AllocationInput list \<Rightarrow> nat \<Rightarrow> nat \<Rightarrow> nat" where
  "floor_grant cs whole = grant_of (f_of cs) (rank_order cs) whole"

lemma rank_order_simps [simp]:
  "distinct (rank_order cs)" "set (rank_order cs) = {..<length cs}" "length (rank_order cs) = length cs"
  by (auto simp: rank_order_def)

lemma floor_grant_le: "floor_grant cs whole i \<le> f_of cs i"
  unfolding floor_grant_def by (rule grant_of_le_cap)

lemma sum_floor_grant: "(\<Sum>i<length cs. floor_grant cs whole i) = min whole (floor_total cs)"
  using sum_grants [of "rank_order cs" "f_of cs" whole] by (simp add: floor_grant_def floor_total_def)

lemma floor_grant_full:
  "\<lbrakk>floor_total cs \<le> whole; i < length cs\<rbrakk> \<Longrightarrow> floor_grant cs whole i = f_of cs i"
  unfolding floor_grant_def by (rule grant_of_full) (simp_all add: floor_total_def)

lemma overcommit_allocate_ok:
  assumes W: "unat weight_sum = weight_total cs" "weight_total cs \<noteq> 0"
    and F: "floor_total cs < 2 ^ 64"
  shows "\<exists>a b sf. overcommit_allocate cs share weight_sum whole = Inr (a, b, sf) \<and>
     length a = length cs \<and> length b = length cs \<and> nsum a = unat whole \<and>
     (\<forall>i<length cs. floor_grant cs (unat whole) i \<le> unat (a ! i)) \<and>
     unat sf = (\<Sum>i<length cs. f_of cs i - unat (a ! i))"
proof -
  let ?n = "length cs"
  define L where "L = grant_all_loop (\<lambda>i. ai_floor (cs ! i)) (\<lambda>i g a. a[i := g]) (rank_order cs) whole
              (replicate ?n 0)"
  define av where "av = snd L"
  define g where "g = floor_grant cs (unat whole)"
  have ov: "overcommit_allocate cs share weight_sum whole = overcommit_spread cs share weight_sum (fst L, av)"
    unfolding overcommit_allocate_def rank_order_def [symmetric] L_def [symmetric] av_def by simp
  have av: "unat av = unat whole - floor_total cs"
    unfolding av_def L_def by (subst grant_all_loop_remaining) (simp_all add: floor_total_def)
  have nth: "fst L ! i = of_nat (g i)" if "i < ?n" for i
  proof -
    have "fst L ! i = (if i \<in> set (rank_order cs)
        then of_nat (grant_of (\<lambda>i. unat (ai_floor (cs ! i))) (rank_order cs) (unat whole) i)
        else replicate ?n 0 ! i)"
      unfolding L_def
      by (rule grant_all_loop_nth [where P = "\<lambda>t. length t = ?n" and get = "(!)"]) auto
    then show ?thesis using that by (simp add: g_def floor_grant_def)
  qed
  have gle: "g i \<le> f_of cs i" for i unfolding g_def by (rule floor_grant_le)
  have gF: "unat (of_nat (g i) :: u64) = g i" for i
    using gle [of i] unat_u64_bounded [of "ai_floor (cs ! i)"] by (intro unat_of_nat_exact) simp
  define q where "q = (\<lambda>i. unat av * w_of cs i div unat weight_sum)"
  have Wpos: "0 < (\<Sum>i<?n. w_of cs i)" using W(2) unfolding weight_total_def by (simp only: neq0_conv)
  have q: "(\<Sum>i<?n. q i) \<le> unat av" "unat av - (\<Sum>i<?n. q i) < ?n"
    using floor_shares [OF Wpos, of "unat av"] W(1) by (simp_all add: q_def weight_total_def)
  have wle: "\<forall>i<?n. w_of cs i \<le> unat weight_sum"
    unfolding W(1) weight_total_def by (auto intro!: member_le_sum)
  have "weight_sum \<noteq> 0" using W by (simp add: u64_zero_iff)
  then obtain ex t where ex: "share_loop av weight_sum cs 0 = Inr (ex, t)" "length ex = ?n"
    "\<forall>i<?n. unat (fst (ex ! i)) = q i" and t: "unat t = (\<Sum>i<?n. q i)"
    using share_loop_ok [OF _ wle, of 0 av] q(1) unat_u64_bounded [of av] by (auto simp: q_def)
  have left: "unat (av - t) = unat av - (\<Sum>i<?n. q i)"
    using q(1) t by (simp add: unat_minus_exact word_le_nat_alt)
  define A where "A = map (\<lambda>i. fst L ! i + fst (ex ! i)) [0..<?n]"
  have sums: "(\<Sum>i<?n. g i) + (\<Sum>i<?n. q i) \<le> unat whole"
    "(\<Sum>i<?n. g i) + unat av = unat whole"
    using sum_floor_grant [of cs "unat whole"] q(1) av by (simp_all add: g_def)
  have Ai: "unat (A ! i) = g i + q i" if "i < ?n" for i
  proof -
    have "g i + q i \<le> (\<Sum>i<?n. g i) + (\<Sum>i<?n. q i)"
      by (intro add_mono member_le_sum) (simp_all add: that)
    then have "g i + q i < 2 ^ 64" using sums(1) unat_u64_bounded [of whole] by simp
    then show ?thesis
      using that nth gF ex by (simp add: A_def unat_plus_exact)
  qed
  have sA: "nsum A = (\<Sum>i<?n. g i) + (\<Sum>i<?n. q i)"
  proof -
    have "nsum A = (\<Sum>i<?n. unat (A ! i))" by (simp add: nsum_nth A_def)
    also have "\<dots> = (\<Sum>i<?n. g i + q i)" by (intro sum.cong refl) (simp add: Ai)
    finally show ?thesis by (simp add: sum.distrib)
  qed
  define o2 where "o2 = std_sort (residue_less cs (map snd ex)) [0..<?n]"
  define H where "H = hand_out o2 (av - t) A"
  have H: "nsum H = unat whole" "\<And>i. i < ?n \<Longrightarrow> unat (A ! i) \<le> unat (H ! i)" "length H = ?n"
    using hand_out_sum [of o2 A "av - t"] q left sA sums unat_u64_bounded [of whole]
    by (auto simp: H_def o2_def A_def atLeast0LessThan)
  have "sum_list (map below_floor (zip cs H)) = (\<Sum>i<?n. f_of cs i - unat (H ! i))"
    using H(3) by (simp add: sum_list_zip_nth below_floor_def)
  moreover have "(\<Sum>i<?n. f_of cs i - unat (H ! i)) \<le> floor_total cs"
    unfolding floor_total_def by (rule sum_mono) simp
  ultimately obtain sf where sf: "shortfall_loop (zip cs H) 0 = Inr sf"
    "unat sf = (\<Sum>i<?n. f_of cs i - unat (H ! i))"
    using shortfall_loop_ok [of 0 "zip cs H"] F by auto
  have "\<exists>b. overcommit_allocate cs share weight_sum whole = Inr (H, b, sf) \<and> length b = ?n"
    using ex(1) sf(1) left q(2)
    by (simp add: ov overcommit_extra_def overcommit_shortfall_def Let_def
        A_def [symmetric] o2_def [symmetric] H_def [symmetric])
  moreover have "floor_grant cs (unat whole) i \<le> unat (H ! i)" if "i < ?n" for i
    using H(2) [OF that] Ai [OF that] by (simp add: g_def)
  ultimately show ?thesis using H sf(2) by blast
qed


section \<open>The whole function\<close>

text \<open>What \<open>allocate_whole\<close> computes on every admissible input, by its three branches.\<close>

definition share_of :: "AllocationInput list \<Rightarrow> u64 \<Rightarrow> nat \<Rightarrow> nat" where
  "share_of cs whole i = unat whole * w_of cs i div weight_total cs"

text \<open>What rounding the share down leaves, in units of one over the sum of the weights.\<close>

definition residue_of :: "AllocationInput list \<Rightarrow> u64 \<Rightarrow> nat \<Rightarrow> nat" where
  "residue_of cs whole i = unat whole * w_of cs i mod weight_total cs"

definition admissible :: "AllocationInput list \<Rightarrow> bool" where
  "admissible cs \<longleftrightarrow> cs \<noteq> [] \<and> length cs \<le> unat kMaxSubjects + unat kMaxGroups \<and>
     (\<forall>c\<in>set cs. ai_weight c \<noteq> 0) \<and> weight_total cs < 2 ^ 64 \<and> floor_total cs < 2 ^ 64"

lemma weight_total_pos: "\<lbrakk>cs \<noteq> []; \<forall>c\<in>set cs. ai_weight c \<noteq> 0\<rbrakk> \<Longrightarrow> 0 < weight_total cs"
  by (cases cs) (auto simp: unat_gt_0)

lemma share_of_sum:
  assumes "admissible cs"
  shows "(\<Sum>i<length cs. share_of cs whole i) \<le> unat whole"
    and "unat whole - (\<Sum>i<length cs. share_of cs whole i) < length cs"
proof -
  have "0 < (\<Sum>i<length cs. w_of cs i)"
    using weight_total_pos [of cs] assms by (simp add: admissible_def weight_total_def)
  from floor_shares [OF this, of "unat whole"]
  show "(\<Sum>i<length cs. share_of cs whole i) \<le> unat whole"
    "unat whole - (\<Sum>i<length cs. share_of cs whole i) < length cs"
    by (simp_all add: share_of_def weight_total_def)
qed

lemma share_phase:
  assumes "admissible cs"
  obtains W shares assigned where "weight_sum_loop cs 0 = Inr W" "unat W = weight_total cs"
    "share_loop whole W cs 0 = Inr (shares, assigned)" "length shares = length cs"
    "\<forall>i<length cs. unat (fst (shares ! i)) = share_of cs whole i"
    "unat assigned = (\<Sum>i<length cs. share_of cs whole i)"
    "\<forall>i<length cs. unat (snd (shares ! i)) = residue_of cs whole i"
proof -
  obtain W where W: "weight_sum_loop cs 0 = Inr W" "unat W = weight_total cs"
    using weight_sum_loop_ok [of cs 0] assms by (auto simp: admissible_def)
  then have "W \<noteq> 0" using weight_total_pos [of cs] assms by (auto simp: admissible_def)
  moreover have "\<forall>i<length cs. w_of cs i \<le> unat W"
    unfolding W(2) weight_total_def by (auto intro!: member_le_sum)
  ultimately obtain shares assigned where "share_loop whole W cs 0 = Inr (shares, assigned)"
    "length shares = length cs" "\<forall>i<length cs. unat (fst (shares ! i)) = share_of cs whole i"
    "unat assigned = (\<Sum>i<length cs. share_of cs whole i)"
    "\<forall>i<length cs. unat (snd (shares ! i)) = residue_of cs whole i"
    using share_loop_ok [of W cs 0 whole] share_of_sum(1) [OF assms, of whole] unat_u64_bounded [of whole]
    by (auto simp: share_of_def residue_of_def W(2))
  with W that show thesis by blast
qed

lemma floor_phase:
  assumes "admissible cs" "length share = length cs"
    and "\<And>i. i < length cs \<Longrightarrow> unat (share ! i) = share_of cs whole i"
  obtains need slack where "floor_loop (zip cs share) 0 0 = Inr (need, slack)"
    "unat need = (\<Sum>i<length cs. f_of cs i - share_of cs whole i)"
    "unat slack = (\<Sum>i<length cs. share_of cs whole i - f_of cs i)"
proof -
  have b: "sum_list (map below_floor (zip cs share)) = (\<Sum>i<length cs. f_of cs i - share_of cs whole i)"
    "sum_list (map above_floor (zip cs share)) = (\<Sum>i<length cs. share_of cs whole i - f_of cs i)"
    using assms(2,3) by (simp_all add: sum_list_zip_nth below_floor_def above_floor_def)
  have "(\<Sum>i<length cs. f_of cs i - share_of cs whole i) \<le> floor_total cs"
    unfolding floor_total_def by (rule sum_mono) simp
  moreover have "(\<Sum>i<length cs. share_of cs whole i - f_of cs i)
      \<le> (\<Sum>i<length cs. share_of cs whole i)" by (rule sum_mono) simp
  moreover have "floor_total cs < 2 ^ 64" using assms(1) by (simp add: admissible_def)
  ultimately show thesis
    using floor_loop_ok [of 0 "zip cs share" 0] share_of_sum(1) [OF assms(1), of whole]
      unat_u64_bounded [of whole] b that by auto
qed

lemma close_allocation_ok:
  assumes "length (ar_allocations r) = length cs"
    and "\<not> ar_overcommit r \<Longrightarrow> unat leftover < length cs \<and> nsum (ar_allocations r) + unat leftover = unat whole"
    and "ar_overcommit r \<Longrightarrow> nsum (ar_allocations r) = unat whole"
  shows "\<exists>a. close_allocation cs residue leftover whole r = Inr (r\<lparr>ar_allocations := a\<rparr>) \<and>
     length a = length cs \<and> nsum a = unat whole \<and>
     (\<forall>i<length cs. unat (ar_allocations r ! i) \<le> unat (a ! i)) \<and>
     (ar_overcommit r \<longrightarrow> a = ar_allocations r)"
proof -
  let ?o = "std_sort (residue_less cs residue) [0..<length cs]"
  define a where "a = (if \<not> ar_overcommit r \<and> 0 < leftover
     then hand_out ?o leftover (ar_allocations r) else ar_allocations r)"
  have facts: "length a = length cs \<and> nsum a = unat whole \<and>
     (\<forall>i<length cs. unat (ar_allocations r ! i) \<le> unat (a ! i))"
  proof (cases "\<not> ar_overcommit r \<and> 0 < leftover")
    case True
    then show ?thesis
      using hand_out_sum [of ?o "ar_allocations r" leftover] assms(1,2) unat_u64_bounded [of whole]
      by (simp add: a_def atLeast0LessThan)
  next
    case False
    then show ?thesis using assms by (cases "ar_overcommit r") (auto simp: a_def word_less_nat_alt)
  qed
  obtain t where "total_loop a 0 = Inr t" "unat t = unat whole"
    using total_loop_eq [of 0 a] facts unat_u64_bounded [of whole] by auto
  moreover have "\<not> (\<not> ar_overcommit r \<and> 0 < leftover \<and> length cs + 1 \<le> unat leftover)"
    using assms(2) by linarith
  moreover have "close_allocation cs residue leftover whole r =
    (if \<not> ar_overcommit r \<and> 0 < leftover \<and> length cs + 1 \<le> unat leftover then Inl Internal
     else case total_loop a 0 of Inl e \<Rightarrow> Inl e
       | Inr tot \<Rightarrow> if tot \<noteq> whole then Inl Internal else Inr (r\<lparr>ar_allocations := a\<rparr>))"
    unfolding close_allocation_def Let_def a_def by (rule refl)
  ultimately have "close_allocation cs residue leftover whole r = Inr (r\<lparr>ar_allocations := a\<rparr>)"
    by (simp only: if_False sum.case word_unat_eq_iff) simp
  with facts show ?thesis by (intro exI [of _ a]) (auto simp: a_def)
qed


text \<open>The contract of the allocation: which result a whole and its competitors admit. \<open>tot\<close> is
  what the entries add up to where the floors fit; before the residue is handed out this is the sum
  of the weighted shares, at the end it is the whole.\<close>

definition allocation_spec :: "AllocationInput list \<Rightarrow> u64 \<Rightarrow> nat \<Rightarrow> AllocationResult \<Rightarrow> bool" where
  "allocation_spec cs whole tot r \<longleftrightarrow>
     length (ar_allocations r) = length cs \<and> length (ar_floor_binding r) = length cs \<and>
     (ar_overcommit r \<longleftrightarrow> (\<Sum>i<length cs. share_of cs whole i) < floor_total cs) \<and>
     (if ar_overcommit r
      then nsum (ar_allocations r) = unat whole \<and>
           (\<forall>i<length cs. floor_grant cs (unat whole) i \<le> unat (ar_allocations r ! i)) \<and>
           unat (ar_overcommit_shortfall r) = (\<Sum>i<length cs. f_of cs i - unat (ar_allocations r ! i))
      else nsum (ar_allocations r) = tot \<and>
           (\<forall>i<length cs. f_of cs i \<le> unat (ar_allocations r ! i)) \<and> ar_overcommit_shortfall r = 0)"

lemma apply_floors_ok:
  assumes adm: "admissible cs" and W: "unat W = weight_total cs"
    and share: "length share = length cs" "\<And>i. i < length cs \<Longrightarrow> unat (share ! i) = share_of cs whole i"
    and need: "unat need = (\<Sum>i<length cs. f_of cs i - share_of cs whole i)"
    and slack: "unat slack = (\<Sum>i<length cs. share_of cs whole i - f_of cs i)"
  shows "\<exists>r. apply_floors cs share W whole need slack = Inr r \<and> allocation_spec cs whole (nsum share) r"
proof -
  let ?n = "length cs" and ?S = "share_of cs whole"
  have "unat need + (\<Sum>i<?n. ?S i) = unat slack + floor_total cs"
    unfolding need slack floor_total_def sum.distrib [symmetric] by (rule sum.cong) auto
  then have over: "(\<Sum>i<?n. ?S i) < floor_total cs \<longleftrightarrow> slack < need"
    unfolding word_less_nat_alt by linarith
  consider "need = 0" | "need \<noteq> 0" "need \<le> slack" | "need \<noteq> 0" "slack < need" by fastforce
  then show ?thesis
  proof cases
    case 1
    then have "\<forall>i<?n. f_of cs i \<le> ?S i" using need by auto
    then show ?thesis using 1 share over by (simp add: apply_floors_def allocation_spec_def)
  next
    case 2
    have "unat need = (\<Sum>i<?n. f_of cs i - unat (share ! i))"
      "(\<Sum>i<?n. f_of cs i - unat (share ! i)) \<le> (\<Sum>i<?n. unat (share ! i) - f_of cs i)"
      using 2(2) need slack share(2) by (simp_all add: word_le_nat_alt)
    from reallocate_floors_ok [OF share(1) this] 2 over show ?thesis
      by (auto simp: apply_floors_def allocation_spec_def)
  next
    case 3
    have "weight_total cs \<noteq> 0" "floor_total cs < 2 ^ 64"
      using weight_total_pos [of cs] adm by (auto simp: admissible_def)
    from overcommit_allocate_ok [OF W this, of share whole] 3 over show ?thesis
      by (auto simp: apply_floors_def allocation_spec_def)
  qed
qed

lemma close_allocation_spec:
  assumes "allocation_spec cs whole tot r" and "unat leftover < length cs" and "tot + unat leftover = unat whole"
  shows "\<exists>r'. close_allocation cs residue leftover whole r = Inr r' \<and> allocation_spec cs whole (unat whole) r'"
proof -
  obtain a where a: "close_allocation cs residue leftover whole r = Inr (r\<lparr>ar_allocations := a\<rparr>)"
    "length a = length cs" "nsum a = unat whole"
    "\<forall>i<length cs. unat (ar_allocations r ! i) \<le> unat (a ! i)" "ar_overcommit r \<longrightarrow> a = ar_allocations r"
    using close_allocation_ok [of r cs leftover whole residue] assms
    by (auto simp: allocation_spec_def split: if_splits)
  have "allocation_spec cs whole (unat whole) (r\<lparr>ar_allocations := a\<rparr>)"
    using assms(1) a(2-) by (auto simp: allocation_spec_def intro: order_trans split: if_splits)
  with a(1) show ?thesis by blast
qed

lemma allocate_whole_meets_spec:
  assumes "admissible cs"
  shows "\<exists>r. allocate_whole cs whole = Inr r \<and> allocation_spec cs whole (unat whole) r"
proof -
  let ?n = "length cs" and ?S = "share_of cs whole"
  obtain W shares assigned where W: "weight_sum_loop cs 0 = Inr W" "unat W = weight_total cs"
    and sh: "share_loop whole W cs 0 = Inr (shares, assigned)" "length shares = ?n"
    and si: "\<forall>i<?n. unat (fst (shares ! i)) = ?S i"
    and as: "unat assigned = (\<Sum>i<?n. ?S i)" 
    by (rule share_phase [OF assms, of whole])
  define share where "share = map fst shares"
  have share: "length share = ?n" "\<And>i. i < ?n \<Longrightarrow> unat (share ! i) = ?S i"
    using sh(2) si by (simp_all add: share_def)
  obtain need slack where fl: "floor_loop (zip cs share) 0 0 = Inr (need, slack)"
    and need: "unat need = (\<Sum>i<?n. f_of cs i - ?S i)" "unat slack = (\<Sum>i<?n. ?S i - f_of cs i)"
    by (rule floor_phase [OF assms share])
  have le: "assigned \<le> whole" using as share_of_sum(1) [OF assms] by (simp add: word_le_nat_alt)
  have left: "unat (whole - assigned) < ?n" "nsum share + unat (whole - assigned) = unat whole"
    using share_of_sum [OF assms, of whole] as le share
    by (simp_all add: unat_minus_exact nsum_nth)
  obtain r where r: "apply_floors cs share W whole need slack = Inr r"
    "allocation_spec cs whole (nsum share) r"
    using apply_floors_ok [OF assms W(2) share need] by blast
  obtain r' where r': "close_allocation cs (map snd shares) (whole - assigned) whole r = Inr r'"
    "allocation_spec cs whole (unat whole) r'"
    using close_allocation_spec [OF r(2) left] by blast
  have "allocate_whole cs whole = Inr r'"
    using assms W(1) sh(1) fl r(1) r'(1) le
    by (simp add: allocate_whole_def admissible_def Let_def share_def not_less)
  with r'(2) show ?thesis by blast
qed

section \<open>The orderings, and rounding\<close>

lemma total_loop_InrD: "total_loop vs acc = Inr t \<Longrightarrow> unat t = unat acc + nsum vs"
  by (induction vs arbitrary: acc) (fastforce split: option.splits dest: checked_add_SomeD)+

text \<open>Each comparator is the lexicographic order of a key, hence a strict weak ordering; the last
  component separates competitors with different keys.\<close>

lemmas lex_key = less_prod_def word_less_def word_le_def word_uint_eq_iff

lemma overcommit_less_key:
  "overcommit_less cs a b \<longleftrightarrow>
   (- uint (ai_obligation_rank (cs ! a)), - uint (ai_floor (cs ! a)), ai_key (cs ! a))
   < (- uint (ai_obligation_rank (cs ! b)), - uint (ai_floor (cs ! b)), ai_key (cs ! b))"
  unfolding overcommit_less_def by (auto simp: lex_key)

lemma residue_less_key:
  "residue_less cs residue a b \<longleftrightarrow>
   (- uint (residue ! a), ai_key (cs ! a)) < (- uint (residue ! b), ai_key (cs ! b))"
  unfolding residue_less_def by (auto simp: lex_key)

lemma donor_less_key:
  "donor_less cs share a b \<longleftrightarrow>
   (- uint (share ! a - ai_floor (cs ! a)), ai_obligation_rank (cs ! a), ai_key (cs ! a))
   < (- uint (share ! b - ai_floor (cs ! b)), ai_obligation_rank (cs ! b), ai_key (cs ! b))"
  unfolding donor_less_def Let_def by (auto simp: lex_key)

lemma overcommit_less_weak: "strict_weak (overcommit_less cs) A"
  by (rule strict_weak_key, rule overcommit_less_key)

lemma residue_less_weak: "strict_weak (residue_less cs residue) A"
  by (rule strict_weak_key, rule residue_less_key)

lemma donor_less_weak: "strict_weak (donor_less cs share) A"
  by (rule strict_weak_key, rule donor_less_key)

lemma comparators_total:
  assumes "distinct (map ai_key cs)" and "A \<subseteq> {..<length cs}"
  shows "total_on_elements (overcommit_less cs) A" "total_on_elements (residue_less cs residue) A"
    "total_on_elements (donor_less cs share) A"
proof -
  have "inj_on (\<lambda>i. ai_key (cs ! i)) A"
    using assms by (auto simp: inj_on_def distinct_conv_nth)
  then show "total_on_elements (overcommit_less cs) A" "total_on_elements (residue_less cs residue) A"
    "total_on_elements (donor_less cs share) A"
    by (auto intro!: total_on_elements_key [OF overcommit_less_key]
        total_on_elements_key [OF residue_less_key] total_on_elements_key [OF donor_less_key]
        simp: inj_on_def)
qed

lemma floor_grant_rank:
  assumes "i < length cs" "j < length cs" "ai_obligation_rank (cs ! i) < ai_obligation_rank (cs ! j)"
    and "0 < floor_grant cs whole i"
  shows "floor_grant cs whole j = f_of cs j"
proof -
  obtain us vs where o: "rank_order cs = us @ i # vs"
    using assms(1) rank_order_simps(2) [of cs] by (metis lessThan_iff split_list)
  have "j \<in> set us"
  proof (rule ccontr)
    assume "j \<notin> set us"
    moreover have "j \<in> set (us @ i # vs)" using assms(2) o rank_order_simps(2) [of cs] by auto
    moreover have "j \<noteq> i" using assms(3) by auto
    ultimately have "j \<in> set vs" by auto
    then have "\<not> overcommit_less cs j i"
      using sorting.sorter_before [OF overcommit_less_weak] o unfolding rank_order_def by blast
    then show False using assms(3) by (auto simp: overcommit_less_def split: if_splits)
  qed
  then obtain us' us'' where us: "rank_order cs = us' @ j # (us'' @ i # vs)"
    using o by (metis append_Cons append_assoc split_list)
  have "distinct (us' @ j # (us'' @ i # vs))" using rank_order_simps(1) [of cs] us by simp
  then show ?thesis
    using grant_of_priority [of "f_of cs" us' j "us'' @ i # vs" whole i] assms(4) us
    by (simp add: floor_grant_def)
qed


lemma hand_out_nth:
  assumes "distinct order" and "set order \<subseteq> {..<length a}" and "j < length a"
  shows "hand_out order units a ! j = (if j \<in> set (take (unat units) order) then a ! j + 1 else a ! j)"
proof -
  have nth: "\<lbrakk>distinct js; set js \<subseteq> {..<length a}; j < length a\<rbrakk> \<Longrightarrow>
     fold (\<lambda>i a. a[i := a ! i + 1]) js a ! j = (if j \<in> set js then a ! j + 1 else a ! j)"
    for js and a :: "u64 list"
    by (induction js arbitrary: a) (auto simp: nth_list_update)
  have "set (take (unat units) order) \<subseteq> {..<length a}"
    using assms(2) set_take_subset [of "unat units" order] by blast
  then show ?thesis
    unfolding hand_out_def using assms by (intro nth) simp_all
qed

text \<open>The residues add up to the units that the rounded-down shares leave, so at least as many competitors
  have one as there are such units, and the hand-out by the largest residue reaches only these.\<close>

lemma residue_sum:
  assumes "admissible cs"
  shows "(\<Sum>i<length cs. residue_of cs whole i)
    = (unat whole - (\<Sum>i<length cs. share_of cs whole i)) * weight_total cs"
proof -
  let ?S = "\<Sum>i<length cs. share_of cs whole i"
  have "?S * weight_total cs + (\<Sum>i<length cs. residue_of cs whole i) = (\<Sum>i<length cs. unat whole * w_of cs i)"
    unfolding share_of_def residue_of_def sum_distrib_right sum.distrib [symmetric]
    by (intro sum.cong refl div_mult_mod_eq)
  also have "\<dots> = unat whole * weight_total cs" by (simp add: weight_total_def sum_distrib_left)
  finally show ?thesis by (simp add: diff_mult_distrib)
qed

lemma largest_residues:
  fixes res :: "nat \<Rightarrow> nat"
  assumes "set order = {..<n}" "distinct order" "k \<le> n"
    and "\<And>a b. \<lbrakk>a \<in> set (take k order); b \<in> set (drop k order)\<rbrakk> \<Longrightarrow> res b \<le> res a"
    and "\<And>i. i < n \<Longrightarrow> res i < W" "(\<Sum>i<n. res i) = k * W" "i \<in> set (take k order)"
  shows "res i \<noteq> 0"
proof
  assume z: "res i = 0"
  let ?T = "set (take k order)" and ?D = "set (drop k order)"
  have un: "{..<n} = ?T \<union> ?D" by (metis append_take_drop_id assms(1) set_append)
  have dis: "?T \<inter> ?D = {}" using assms(2) by (rule set_take_disj_set_drop_if_distinct) simp
  have "length order = n" using assms(1,2) by (metis card_lessThan distinct_card)
  then have card: "card ?T = k" using assms(2,3) by (simp add: distinct_card)
  have T: "res a < W" if "a \<in> ?T" for a using assms(5) that un by blast
  have D: "(\<Sum>i\<in>?D. res i) = 0" using assms(4) [OF assms(7)] z by (intro sum.neutral) auto
  have "(\<Sum>i<n. res i) = (\<Sum>i\<in>?T. res i) + (\<Sum>i\<in>?D. res i)"
    by (subst un) (rule sum.union_disjoint [OF finite_set finite_set dis])
  then have "(\<Sum>i\<in>?T. res i) = k * W" using assms(6) D by simp
  moreover have "(\<Sum>i\<in>?T. res i) < (\<Sum>i\<in>?T. W)"
  proof (rule sum_strict_mono)
    show "?T \<noteq> {}" using assms(7) by (metis empty_iff)
  qed (simp_all add: T)
  ultimately show False by (simp add: card)
qed

lemma hand_out_priority:
  assumes "length residue = n" "i \<in> set (take k (std_sort (residue_less cs residue) [0..<n]))"
    and "j < n" "j \<notin> set (take k (std_sort (residue_less cs residue) [0..<n]))"
  shows "\<not> residue_less cs residue j i"
proof -
  let ?o = "std_sort (residue_less cs residue) [0..<n]"
  have "j \<in> set ?o" using assms(3) by simp
  then have "j \<in> set (drop k ?o)" using assms(4) by (metis Un_iff append_take_drop_id set_append)
  moreover have "sorted_wrt (\<lambda>a b. \<not> residue_less cs residue b a) (take k ?o @ drop k ?o)"
    using sorting.sorter_ordered [OF residue_less_weak] by simp
  ultimately show ?thesis using assms(2) by (simp only: sorted_wrt_append) blast
qed

text \<open>Where the weighted shares already cover the floors, the result is the share rounded down or
  up, up only where it is no integer, and the units go to the largest residues.\<close>

lemma allocate_whole_unfloored:
  assumes adm: "admissible cs" and fl: "\<forall>i<length cs. f_of cs i \<le> share_of cs whole i"
    and r: "allocate_whole cs whole = Inr r"
  obtains up where "\<And>i. i < length cs \<Longrightarrow> unat (ar_allocations r ! i) = share_of cs whole i + (if i \<in> up then 1 else 0)"
    "\<And>i. i \<in> up \<Longrightarrow> residue_of cs whole i \<noteq> 0"
    "\<And>i j. \<lbrakk>i \<in> up; i < length cs; j < length cs; j \<notin> up\<rbrakk> \<Longrightarrow> residue_of cs whole j < residue_of cs whole i \<or>
       residue_of cs whole j = residue_of cs whole i \<and> ai_key (cs ! i) \<le> ai_key (cs ! j)"
proof -
  let ?n = "length cs" and ?S = "share_of cs whole"
  obtain W shares assigned where W: "weight_sum_loop cs 0 = Inr W"
    and sh: "share_loop whole W cs 0 = Inr (shares, assigned)" "length shares = ?n"
    and si: "\<forall>i<?n. unat (fst (shares ! i)) = ?S i"
    and as: "unat assigned = (\<Sum>i<?n. ?S i)"
    and re: "\<forall>i<?n. unat (snd (shares ! i)) = residue_of cs whole i"
    by (rule share_phase [OF adm, of whole])
  define share where "share = map fst shares"
  define residue where "residue = map snd shares"
  have share: "length share = ?n" "\<And>i. i < ?n \<Longrightarrow> unat (share ! i) = ?S i"
    using sh(2) si by (simp_all add: share_def)
  have residue: "length residue = ?n" "\<And>i. i < ?n \<Longrightarrow> unat (residue ! i) = residue_of cs whole i"
    using sh(2) re by (simp_all add: residue_def)
  obtain need slack where need: "floor_loop (zip cs share) 0 0 = Inr (need, slack)"
    "unat need = (\<Sum>i<?n. f_of cs i - ?S i)" by (rule floor_phase [OF adm share])
  then have "need = 0" using fl by (simp add: u64_zero_iff)
  moreover define ord where "ord = std_sort (residue_less cs residue) [0..<?n]"
  moreover define left where "left = unat (whole - assigned)"
  moreover define up where "up = set (take left ord)"
  ultimately have cases: "ar_allocations r = hand_out ord (whole - assigned) share"
    using r W sh(1) need(1)
    by (auto simp: allocate_whole_def apply_floors_def close_allocation_def Let_def hand_out_def
        share_def [symmetric] residue_def [symmetric] word_gt_0 split: if_splits sum.splits)
  have ord: "set ord = {..<?n}" "distinct ord" by (simp_all add: ord_def atLeast0LessThan)
  have "assigned \<le> whole" using as share_of_sum(1) [OF adm, of whole] by (simp add: word_le_nat_alt)
  then have lf: "left < ?n" "nsum share + left = unat whole" "left = unat whole - (\<Sum>i<?n. ?S i)"
    using share_of_sum [OF adm, of whole] as share by (simp_all add: left_def unat_minus_exact nsum_nth)
  have key: "residue_of cs whole j < residue_of cs whole i \<or>
      residue_of cs whole j = residue_of cs whole i \<and> ai_key (cs ! i) \<le> ai_key (cs ! j)"
    if "i \<in> up" "i < ?n" "j < ?n" "j \<notin> up" for i j
    using hand_out_priority [OF residue(1), of i left cs j] that residue(2) [of i] residue(2) [of j]
    by (auto simp: up_def ord_def residue_less_def word_unat_eq_iff word_less_nat_alt word_le_nat_alt split: if_splits)
  have upn: "up \<subseteq> {..<?n}" using set_take_subset [of left ord] ord(1) by (simp add: up_def)
  have pos: "residue_of cs whole i \<noteq> 0" if "i \<in> up" for i
  proof (rule largest_residues [OF ord, where k = left and W = "weight_total cs" and res = "residue_of cs whole" and i = i])
    show "left \<le> ?n" using lf(1) by simp
    show "i \<in> set (take left ord)" using that by (simp add: up_def)
    show "(\<Sum>i<?n. residue_of cs whole i) = left * weight_total cs" unfolding lf(3) by (rule residue_sum [OF adm])
    have "0 < weight_total cs" using weight_total_pos [of cs] adm by (simp add: admissible_def)
    then show "residue_of cs whole j < weight_total cs" for j by (simp add: residue_of_def)
    fix a b assume ab: "a \<in> set (take left ord)" "b \<in> set (drop left ord)"
    then have "b \<in> set ord" using set_drop_subset by fastforce
    moreover have "b \<notin> set (take left ord)"
      using ab(2) set_take_disj_set_drop_if_distinct [OF ord(2) order_refl, of left] by auto
    ultimately show "residue_of cs whole b \<le> residue_of cs whole a"
      using key [of a b] ab(1) upn ord(1) unfolding up_def by force
  qed
  have val: "unat (ar_allocations r ! i) = ?S i + (if i \<in> up then 1 else 0)" if i: "i < ?n" for i
  proof -
    have h: "hand_out ord (whole - assigned) share ! i = (if i \<in> up then share ! i + 1 else share ! i)"
      using hand_out_nth [OF ord(2), of share i "whole - assigned"] ord(1) share(1) i by (simp add: up_def left_def)
    have "share ! i \<le> hand_out ord (whole - assigned) share ! i"
      using hand_out_sum(2) [of ord share "whole - assigned" i] lf(1,2) i share(1) unat_u64_bounded [of whole]
      by (auto simp: ord_def atLeast0LessThan word_le_nat_alt left_def)
    then have "unat (share ! i + 1) = unat (share ! i) + 1" if "i \<in> up"
      using h that by (simp add: unat_plus_simple)
    then show ?thesis using cases h share(2) [OF i] by simp
  qed
  show ?thesis by (rule that [OF val pos key])
qed

lemma sum_pointwise_eq:
  fixes f g :: "nat \<Rightarrow> nat"
  assumes "(\<Sum>i<n. f i) = (\<Sum>i<n. g i)" "\<And>i. i < n \<Longrightarrow> g i \<le> f i" "i < n"
  shows "f i = g i"
proof (rule ccontr)
  assume "f i \<noteq> g i"
  then have "(\<Sum>i<n. g i) < (\<Sum>i<n. f i)"
    using assms(2,3) by (intro sum_strict_mono_ex1) (force simp: le_neq_implies_less)+
  with assms(1) show False by simp
qed

lemma allocation_spec_floors:
  assumes "allocation_spec cs whole (unat whole) r" "floor_total cs \<le> unat whole" "i < length cs"
  shows "f_of cs i \<le> unat (ar_allocations r ! i)"
  using assms floor_grant_full [of cs "unat whole" i] by (auto simp: allocation_spec_def split: if_splits)

lemma allocation_spec_exhausted:
  assumes adm: "admissible cs" and spec: "allocation_spec cs whole (unat whole) r"
    and fl: "unat whole < floor_total cs" and i: "i < length cs"
  shows "unat (ar_allocations r ! i) = floor_grant cs (unat whole) i"
proof -
  have "ar_overcommit r" using spec share_of_sum(1) [OF adm, of whole] fl by (auto simp: allocation_spec_def)
  then have s: "length (ar_allocations r) = length cs" "nsum (ar_allocations r) = unat whole"
    "\<And>i. i < length cs \<Longrightarrow> floor_grant cs (unat whole) i \<le> unat (ar_allocations r ! i)"
    using spec by (auto simp: allocation_spec_def)
  then have "(\<Sum>i<length cs. unat (ar_allocations r ! i)) = (\<Sum>i<length cs. floor_grant cs (unat whole) i)"
    using fl by (simp add: sum_floor_grant nsum_nth)
  then show ?thesis using s(3) i by (rule sum_pointwise_eq)
qed

text \<open>The contract of the primitive: the whole is distributed exactly; floors that fit are all met and
  nothing is short; floors that do not fit are an overcommit, are granted in the order of the obligation
  ranks until the whole is used up, and exactly what they exceed it by is short. Whether the flag is
  set where the floors fit is left open here.\<close>

definition allocation_contract :: "AllocationInput list \<Rightarrow> u64 \<Rightarrow> AllocationResult \<Rightarrow> bool" where
  "allocation_contract cs whole r \<longleftrightarrow>
     length (ar_allocations r) = length cs \<and> nsum (ar_allocations r) = unat whole \<and>
     (if floor_total cs \<le> unat whole
      then (\<forall>i<length cs. f_of cs i \<le> unat (ar_allocations r ! i)) \<and> ar_overcommit_shortfall r = 0
      else ar_overcommit r \<and>
           (\<forall>i<length cs. unat (ar_allocations r ! i) = floor_grant cs (unat whole) i) \<and>
           unat (ar_overcommit_shortfall r) = floor_total cs - unat whole)"

lemma allocation_spec_contract:
  assumes adm: "admissible cs" and spec: "allocation_spec cs whole (unat whole) r"
  shows "allocation_contract cs whole r"
proof (cases "floor_total cs \<le> unat whole")
  case True
  have f: "f_of cs i \<le> unat (ar_allocations r ! i)" if "i < length cs" for i
    using allocation_spec_floors [OF spec True that] .
  then have "ar_overcommit_shortfall r = 0"
    using spec by (auto simp: allocation_spec_def u64_zero_iff split: if_splits)
  then show ?thesis using spec True f by (auto simp: allocation_contract_def allocation_spec_def split: if_splits)
next
  case False
  have o: "ar_overcommit r" using spec share_of_sum(1) [OF adm, of whole] False by (auto simp: allocation_spec_def)
  have g: "unat (ar_allocations r ! i) = floor_grant cs (unat whole) i" if "i < length cs" for i
    using allocation_spec_exhausted [OF adm spec _ that] False by simp
  have "unat (ar_overcommit_shortfall r) = (\<Sum>i<length cs. f_of cs i - floor_grant cs (unat whole) i)"
    using spec o g by (simp add: allocation_spec_def)
  also have "\<dots> = floor_total cs - (\<Sum>i<length cs. floor_grant cs (unat whole) i)"
    unfolding floor_total_def by (rule sum_subtractf_nat) (simp add: floor_grant_le)
  also have "\<dots> = floor_total cs - unat whole" using False by (simp add: sum_floor_grant)
  finally show ?thesis using spec o g False by (simp add: allocation_contract_def allocation_spec_def)
qed

section \<open>Properties\<close>

text \<open>C1: On every admissible input (a non-empty set of at most 4352 competitors with non-zero weights
  whose weights and floors each add up below \<open>2 ^ 64\<close>), \<open>allocate_whole\<close> returns a result and the
  result meets the contract: the entries add up to the whole exactly; floors whose sum fits inside the whole are
  all met, with a shortfall of zero; floors that do not fit are reported as an overcommit, every competitor
  then has exactly its rank-ordered floor grant, and the reported shortfall is what the floors exceed the whole
  by. No error branch of the function, and none of its three \<open>Internal\<close> checks, is taken.\<close>

theorem allocate_whole_refines_contract:
  assumes "admissible cs"
  shows "\<exists>r. allocate_whole cs whole = Inr r \<and> allocation_contract cs whole r"
  using allocate_whole_meets_spec [OF assms, of whole] allocation_spec_contract [OF assms] by blast

definition sample_children :: "AllocationInput list" where
  "sample_children =
     [\<lparr>ai_key = 7, ai_weight = 3, ai_floor = 2, ai_obligation_rank = 1\<rparr>,
      \<lparr>ai_key = 5, ai_weight = 1, ai_floor = 6, ai_obligation_rank = 2\<rparr>,
      \<lparr>ai_key = 9, ai_weight = 4, ai_floor = 0, ai_obligation_rank = 0\<rparr>]"

lemma sample_admissible: "admissible sample_children"
  by (simp add: admissible_def sample_children_def floor_total_def)

lemma sample_10:
  "allocate_whole sample_children 10 = Inr \<lparr>ar_allocations = [4, 6, 0], ar_floor_binding = [0, 1, 0],
     ar_overcommit = False, ar_overcommit_shortfall = 0\<rparr>"
  by code_simp

lemma sample_6:
  "allocate_whole sample_children 6 = Inr \<lparr>ar_allocations = [0, 6, 0], ar_floor_binding = [0, 1, 0],
     ar_overcommit = True, ar_overcommit_shortfall = 2\<rparr>"
  by code_simp

theorem allocate_whole_refines_contract_witness:
  "\<exists>r. allocate_whole sample_children 10 = Inr r \<and> allocation_contract sample_children 10 r"
  using allocate_whole_refines_contract [OF sample_admissible, of 10] by simp

text \<open>Whatever \<open>allocate_whole\<close> is called with, a result it returns distributes the whole exactly:
  the allocations add up to it as natural numbers, with no wrap-around.\<close>

theorem allocate_whole_conserves:
  assumes "allocate_whole cs whole = Inr r"
  shows "nsum (ar_allocations r) = unat whole"
  using assms
  by (auto simp: allocate_whole_def close_allocation_def Let_def dest!: total_loop_InrD
      split: if_splits sum.splits prod.splits)

theorem allocate_whole_conserves_witness: "nsum [4, 6, 0 :: u64] = unat (10 :: u64)"
  using allocate_whole_conserves [OF sample_10] by simp

text \<open>Floors that fit inside the whole are all met, whichever branch is taken: also where the
  function reports an overcommit because the rounded-down shares do not cover them.\<close>

theorem allocate_whole_meets_floors:
  assumes "admissible cs" and "floor_total cs \<le> unat whole" and "allocate_whole cs whole = Inr r"
    and "i < length cs"
  shows "unat (ai_floor (cs ! i)) \<le> unat (ar_allocations r ! i)"
  using allocate_whole_meets_spec [OF assms(1), of whole] assms allocation_spec_floors by fastforce

theorem allocate_whole_meets_floors_witness:
  "unat (ai_floor (sample_children ! 1)) \<le> unat ([4, 6, 0 :: u64] ! 1)"
  using allocate_whole_meets_floors [OF sample_admissible _ sample_10, of 1]
  by (simp add: sample_children_def floor_total_def)

text \<open>C2: Under a real overcommit the obligation rank decides: where a competitor is left below its
  floor, every competitor of a strictly lower rank receives nothing at all.\<close>

theorem allocate_whole_rank_priority:
  assumes "admissible cs" and "allocate_whole cs whole = Inr r"
    and "i < length cs" and "j < length cs"
    and "ai_obligation_rank (cs ! i) < ai_obligation_rank (cs ! j)"
    and "ar_allocations r ! j < ai_floor (cs ! j)"
  shows "ar_allocations r ! i = 0"
proof -
  have spec: "allocation_spec cs whole (unat whole) r"
    using allocate_whole_meets_spec [OF assms(1), of whole] assms(2) by auto
  then have "unat whole < floor_total cs"
    using allocation_spec_floors [OF spec _ assms(4)] assms(6) by (force simp: word_less_nat_alt)
  from allocation_spec_exhausted [OF assms(1) spec this] floor_grant_rank [OF assms(3,4,5), of "unat whole"]
  show ?thesis using assms(3,4,6) by (auto simp: word_less_nat_alt u64_zero_iff)
qed

definition scarce_children :: "AllocationInput list" where
  "scarce_children =
     [\<lparr>ai_key = 1, ai_weight = 1, ai_floor = 9, ai_obligation_rank = 3\<rparr>,
      \<lparr>ai_key = 2, ai_weight = 1, ai_floor = 5, ai_obligation_rank = 2\<rparr>,
      \<lparr>ai_key = 3, ai_weight = 8, ai_floor = 0, ai_obligation_rank = 0\<rparr>]"

definition scarce_result :: AllocationResult where
  "scarce_result = \<lparr>ar_allocations = [4, 0, 0], ar_floor_binding = [0, 0, 0], ar_overcommit = True,
     ar_overcommit_shortfall = 10\<rparr>"

theorem allocate_whole_rank_priority_witness: "ar_allocations scarce_result ! 1 = 0"
proof (rule allocate_whole_rank_priority [of scarce_children 4 _ 1 0])
  show "admissible scarce_children"
    by (simp add: admissible_def scarce_children_def floor_total_def)
  show "allocate_whole scarce_children 4 = Inr scarce_result" by code_simp
qed (simp_all add: scarce_children_def scarce_result_def)

text \<open>C3: Largest remainders. Where no floor exceeds the weighted share, every competitor receives its exact
  proportional share rounded down, or up where it is not an integer: no allocation is off by a full unit, and an
  exact share is given exactly. The shares that are rounded up are those with the largest remainders, and of
  equal remainders those with the smaller key.\<close>

theorem allocate_whole_within_one_unit:
  assumes "admissible cs" and "\<forall>i<length cs. unat (ai_floor (cs ! i)) \<le> share_of cs whole i"
    and "allocate_whole cs whole = Inr r" and "i < length cs" "j < length cs"
  shows "(unat (ar_allocations r ! i) = share_of cs whole i \<or>
      unat (ar_allocations r ! i) = share_of cs whole i + 1 \<and> residue_of cs whole i \<noteq> 0) \<and>
    (unat (ar_allocations r ! i) = share_of cs whole i + 1 \<and> unat (ar_allocations r ! j) = share_of cs whole j \<longrightarrow>
      residue_of cs whole j < residue_of cs whole i \<or>
      residue_of cs whole j = residue_of cs whole i \<and> ai_key (cs ! i) \<le> ai_key (cs ! j))"
proof -
  obtain up where up: "\<And>i. i < length cs \<Longrightarrow> unat (ar_allocations r ! i) = share_of cs whole i + (if i \<in> up then 1 else 0)"
    "\<And>i. i \<in> up \<Longrightarrow> residue_of cs whole i \<noteq> 0"
    "\<And>i j. \<lbrakk>i \<in> up; i < length cs; j < length cs; j \<notin> up\<rbrakk> \<Longrightarrow> residue_of cs whole j < residue_of cs whole i \<or>
       residue_of cs whole j = residue_of cs whole i \<and> ai_key (cs ! i) \<le> ai_key (cs ! j)"
    by (rule allocate_whole_unfloored [OF assms(1-3)]) blast
  have "i \<in> up" if "unat (ar_allocations r ! i) = share_of cs whole i + 1"
    using up(1) [OF assms(4)] that by (cases "i \<in> up") simp_all
  moreover have "j \<notin> up" if "unat (ar_allocations r ! j) = share_of cs whole j"
    using up(1) [OF assms(5)] that by (cases "j \<in> up") simp_all
  ultimately show ?thesis using up(1) [OF assms(4)] up(2,3) assms(4,5) by auto
qed

theorem allocate_whole_within_one_unit_witness:
  "unat ([38, 13, 50 :: u64] ! 0) = share_of sample_children 101 0 + 1 \<and> residue_of sample_children 101 0 \<noteq> 0"
proof -
  have "allocate_whole sample_children 101 = Inr \<lparr>ar_allocations = [38, 13, 50],
     ar_floor_binding = [0, 0, 0], ar_overcommit = False, ar_overcommit_shortfall = 0\<rparr>"
    by code_simp
  moreover have "\<forall>i<length sample_children. f_of sample_children i \<le> share_of sample_children 101 i"
    by code_simp
  moreover have "share_of sample_children 101 0 = 37" by code_simp
  ultimately show ?thesis
    using allocate_whole_within_one_unit [OF sample_admissible, of 101 _ 0 2]
    by (fastforce simp: sample_children_def)
qed

text \<open>The three orderings of the function (donors, overcommit, rounding residue) are strict weak
  orderings that separate competitors with distinct keys, so every correct sort of the indices is the
  one the model computes: the allocation does not depend on the sort routine.\<close>

theorem allocate_whole_orders_determined:
  assumes "distinct (map ai_key cs)" and "set xs \<subseteq> {..<length cs}" and "mset ys = mset xs"
    and "lt \<in> {overcommit_less cs, residue_less cs residue, donor_less cs share}"
    and "sorted_wrt (\<lambda>a b. \<not> lt b a) ys"
  shows "ys = std_sort lt xs"
  using assms(4,5) sorting.sorter_unique [OF _ _ assms(3)] comparators_total [OF assms(1,2)]
    overcommit_less_weak residue_less_weak donor_less_weak
  by (auto simp: insert_iff)

theorem allocate_whole_orders_determined_witness:
  "[1, 0, 2] = std_sort (overcommit_less sample_children) [0, 1, 2]"
  using allocate_whole_orders_determined [of sample_children "[0, 1, 2]" "[1, 0, 2]"
      "overcommit_less sample_children" "[]" "[]"]
  by (simp add: sample_children_def overcommit_less_def)

text \<open>The overcommit flag is not the statement that the floors do not fit: rounding the shares down
  can leave the slack below the need although the floors fit inside the whole, and then the function
  reports an overcommit with a shortfall of zero.\<close>

theorem allocate_whole_spurious_overcommit:
  "\<exists>cs whole r. allocate_whole cs whole = Inr r \<and> floor_total cs \<le> unat whole \<and>
     ar_overcommit r \<and> ar_overcommit_shortfall r = 0"
proof -
  let ?cs = "[\<lparr>ai_key = 1, ai_weight = 1, ai_floor = 1, ai_obligation_rank = 0\<rparr>,
      \<lparr>ai_key = 2, ai_weight = 1, ai_floor = 0, ai_obligation_rank = 0\<rparr>]"
  have "allocate_whole ?cs 1 = Inr \<lparr>ar_allocations = [1, 0], ar_floor_binding = [1, 0],
      ar_overcommit = True, ar_overcommit_shortfall = 0\<rparr>" by code_simp
  moreover have "floor_total ?cs \<le> unat (1 :: u64)" by (simp add: floor_total_def)
  ultimately show ?thesis by fastforce
qed

lemma scale_value:
  assumes "0 < 10000 + sint (m :: i32)"
  shows "\<not> (kBasisPointScale + scast m \<le>s (0 :: i64))"
    and "unat (kBasisPointScale + scast m :: i64) = nat (10000 + sint m)"
    and "nat (10000 + sint m) < 2 ^ 32"
proof -
  have r: "- (2 ^ 31) \<le> sint m" "sint m < 2 ^ 31" using sint_range_size [of m] by (simp_all add: word_size)
  have c: "sint (scast m :: i64) = sint m"
    using r by (simp add: signed_scast_eq signed_take_bit_int_eq_self)
  have s: "sint (kBasisPointScale + scast m :: i64) = 10000 + sint m"
    using r c by (subst sint_plus_exact) (simp_all add: kBasisPointScale_def)
  then show "\<not> (kBasisPointScale + scast m \<le>s (0 :: i64))" using assms by (simp add: word_sle_eq)
  show "unat (kBasisPointScale + scast m :: i64) = nat (10000 + sint m)"
    using s assms uint_eq_sint [of "kBasisPointScale + scast m"] by (simp add: unat_eq_nat_uint)
  show "nat (10000 + sint m) < 2 ^ 32" using r by simp
qed


lemma u128_fits:
  "u128_val p < 2 ^ 64 \<Longrightarrow> fits_u64 p \<and> unat (u128_lo p) = u128_val p"
  by (cases "unat (u128_hi p)") (auto simp: u128_val_def fits_u64_def u64_zero_iff)

lemma effective_share_weight_value:
  assumes "weight \<noteq> 0"
  shows "effective_share_weight weight modifier \<noteq> 0 \<and>
    (0 < 10000 + sint modifier \<longrightarrow>
     unat (effective_share_weight weight modifier) = unat weight * nat (10000 + sint modifier))"
proof (intro conjI impI)
  show "effective_share_weight weight modifier \<noteq> 0"
    by (simp add: effective_share_weight_def Let_def)
  assume pos: "0 < 10000 + sint modifier"
  let ?p = "mul_wide (ucast weight) (kBasisPointScale + scast modifier)"
  have val: "u128_val ?p = unat weight * nat (10000 + sint modifier)"
    by (simp add: mul_wide_val scale_value [OF pos] unat_ucast_up)
  also have "\<dots> < 2 ^ 32 * 2 ^ 32"
    using unat_bounded [of weight] scale_value(3) [OF pos] by (intro mult_strict_mono) simp_all
  finally have "fits_u64 ?p" "unat (u128_lo ?p) = unat weight * nat (10000 + sint modifier)"
    using u128_fits [of ?p] val by simp_all
  moreover have "0 < unat weight * nat (10000 + sint modifier)"
    using assms pos by (simp add: unat_gt_0)
  ultimately show "unat (effective_share_weight weight modifier)
      = unat weight * nat (10000 + sint modifier)"
    using scale_value(1) [OF pos]
    by (auto simp: effective_share_weight_def Let_def)
qed

text \<open>The weight is bounded by the product of the bounds of its factors, also where the scale is not
  positive and the code falls back to the plain weight.\<close>

lemma effective_share_weight_bound:
  assumes "weight \<noteq> 0" "unat weight \<le> b" "\<bar>sint modifier\<bar> \<le> int m"
  shows "unat (effective_share_weight weight modifier) \<le> b * (10000 + m)"
proof (cases "0 < 10000 + sint modifier")
  case True
  have "nat (10000 + sint modifier) \<le> 10000 + m" using assms(3) by linarith
  then show ?thesis
    using effective_share_weight_value [OF assms(1), of modifier] True assms(2) by (simp add: mult_le_mono)
next
  case False
  have r: "- (2 ^ 31) \<le> sint modifier" "sint modifier < 2 ^ 31"
    using sint_range_size [of modifier] by (simp_all add: word_size)
  have "sint (scast modifier :: i64) = sint modifier"
    using r by (simp add: signed_scast_eq signed_take_bit_int_eq_self)
  then have "sint (kBasisPointScale + scast modifier :: i64) = 10000 + sint modifier"
    using r by (subst sint_plus_exact) (simp_all add: kBasisPointScale_def)
  then have le0: "kBasisPointScale + scast modifier \<le>s (0 :: i64)" using False by (simp add: word_sle_eq)
  have "u128_val (mul_wide (ucast weight) 1) = unat weight" by (simp add: mul_wide_val unat_ucast_up)
  moreover have "unat weight < 2 ^ 64" using unat_bounded [of weight] by simp
  ultimately have "unat (effective_share_weight weight modifier) = unat weight"
    using u128_fits [of "mul_wide (ucast weight) 1"] le0 assms(1)
    by (auto simp: effective_share_weight_def Let_def u64_zero_iff)
  then show ?thesis using assms(2) mult_le_mono [OF assms(2), of 1 "10000 + m"] by simp
qed

text \<open>The effective share weight is never zero, and where the modified scale is positive it is
  exactly the product of the weight and the scale: the 64-bit result never loses a bit.\<close>

theorem effective_share_weight_exact:
  assumes "weight \<noteq> 0"
  shows "effective_share_weight weight modifier \<noteq> 0 \<and>
    (0 < 10000 + sint modifier \<longrightarrow>
     unat (effective_share_weight weight modifier) = unat weight * nat (10000 + sint modifier))"
  using assms by (rule effective_share_weight_value)

theorem effective_share_weight_exact_witness:
  "unat (effective_share_weight 5 1000) = unat (5 :: u32) * nat (10000 + sint (1000 :: i32))"
proof -
  have "0 < 10000 + sint (1000 :: i32)" by simp
  then show ?thesis using effective_share_weight_exact [of 5 1000] by simp
qed

end
