(* ===== verification/FG_Distributor.thy ===== *)
theory FG_Distributor
  imports FG_Outcome FG_Allocate
begin

text \<open>
  The group tree and the top-down distribution of \<open>eval/engine.cpp\<close> (\<open>struct Distributor\<close>): building
  the tree from a policy, and splitting the whole over the roots, each group's part over its child
  groups and subjects, once without and once with the priority modifier.

  \<open>scatter\<close> recurses over the tree; the model bounds the recursion by fuel and returns \<open>None\<close> where the
  fuel runs out. The depth of a built tree is at most \<open>kMaxGroupDepth\<close>, and \<open>scatter_fuel\<close> exceeds it.
\<close>

section \<open>State\<close>

record GroupNode =
  gn_parent_node :: nat
  gn_has_parent :: bool
  gn_depth :: u32
  gn_allocation :: u64
  gn_base_allocation :: u64
  gn_served :: u64
  gn_child_groups :: "nat list"
  gn_child_subjects :: "nat list"

definition default_node :: GroupNode where
  "default_node = \<lparr>gn_parent_node = 0, gn_has_parent = False, gn_depth = 1, gn_allocation = 0,
     gn_base_allocation = 0, gn_served = 0, gn_child_groups = [], gn_child_subjects = []\<rparr>"

record PassState =
  ps_overcommit :: bool
  ps_overcommit_shortfall :: u64

definition default_pass :: PassState where
  "default_pass = \<lparr>ps_overcommit = False, ps_overcommit_shortfall = 0\<rparr>"

record Distributor =
  ds_nodes :: "GroupNode list"
  ds_by_id :: group_index
  ds_subject_base :: "u64 list"
  ds_subject_effective :: "u64 list"
  ds_subject_floor_binding :: "u8 list"
  ds_roots :: "nat list"
  ds_base_pass :: PassState
  ds_effective_pass :: PassState

section \<open>Building the tree\<close>

fun build_index :: "FairnessGroup list \<Rightarrow> nat \<Rightarrow> group_index \<Rightarrow> group_index result" where
  "build_index [] i by_id = Inr by_id"
| "build_index (g # rest) i by_id =
     (if \<not> id_valid (fg_id g) then Inl PolicyInvalid
      else if map_of by_id (fg_id g) \<noteq> None then Inl AlreadyExists
      else build_index rest (Suc i) ((fg_id g, i) # by_id))"

fun link_parents ::
    "group_index \<Rightarrow> FairnessGroup list \<Rightarrow> nat \<Rightarrow> GroupNode list \<Rightarrow> GroupNode list result" where
  "link_parents by_id [] i nodes = Inr nodes"
| "link_parents by_id (g # rest) i nodes =
     (if \<not> id_valid (fg_parent g) then link_parents by_id rest (Suc i) nodes
      else case map_of by_id (fg_parent g) of
             None \<Rightarrow> Inl NotFound
           | Some p \<Rightarrow>
               (let nodes = nodes[i := (nodes ! i)\<lparr>gn_has_parent := True, gn_parent_node := p\<rparr>];
                    nodes = nodes[p := (nodes ! p)\<lparr>gn_child_groups := gn_child_groups (nodes ! p) @ [i]\<rparr>]
                in link_parents by_id rest (Suc i) nodes))"

text \<open>The loop \<open>while (nodes[cursor].has_parent)\<close>; \<open>None\<close> is the depth error.\<close>

function node_depth :: "GroupNode list \<Rightarrow> nat \<Rightarrow> nat \<Rightarrow> nat option" where
  "node_depth nodes depth cursor =
     (if \<not> gn_has_parent (nodes ! cursor) then Some depth
      else if unat kMaxGroupDepth < Suc depth then None
      else node_depth nodes (Suc depth) (gn_parent_node (nodes ! cursor)))"
  by pat_completeness auto
termination
  by (relation "measure (\<lambda>(nodes, depth, cursor). Suc (unat kMaxGroupDepth) - depth)") auto

declare node_depth.simps [simp del]

fun set_depths :: "nat list \<Rightarrow> GroupNode list \<Rightarrow> GroupNode list result" where
  "set_depths [] nodes = Inr nodes"
| "set_depths (i # is) nodes =
     (case node_depth nodes 1 i of
        None \<Rightarrow> Inl GroupDepthExceeded
      | Some d \<Rightarrow> set_depths is (nodes[i := (nodes ! i)\<lparr>gn_depth := of_nat d\<rparr>]))"

fun link_subjects ::
    "group_index \<Rightarrow> Subject list \<Rightarrow> nat \<Rightarrow> GroupNode list \<Rightarrow> GroupNode list result" where
  "link_subjects by_id [] s nodes = Inr nodes"
| "link_subjects by_id (subject # rest) s nodes =
     (case map_of by_id (sb_group subject) of
        None \<Rightarrow> Inl NotFound
      | Some g \<Rightarrow>
          link_subjects by_id rest (Suc s)
            (nodes[g := (nodes ! g)\<lparr>gn_child_subjects := gn_child_subjects (nodes ! g) @ [s]\<rparr>]))"

definition root_nodes :: "GroupNode list \<Rightarrow> nat list" where
  "root_nodes nodes = filter (\<lambda>i. \<not> gn_has_parent (nodes ! i)) [0..<length nodes]"

text \<open>\<open>max_depth == 0\<close> holds exactly where there is no group, which the check before it refuses.\<close>

definition build :: "FairnessPolicy \<Rightarrow> Distributor result" where
  "build policy =
     (case build_index (fp_groups policy) 0 [] of
        Inl e \<Rightarrow> Inl e
      | Inr by_id \<Rightarrow>
          (case link_parents by_id (fp_groups policy) 0
                  (replicate (length (fp_groups policy)) default_node) of
             Inl e \<Rightarrow> Inl e
           | Inr nodes \<Rightarrow>
               (case set_depths [0..<length nodes] nodes of
                  Inl e \<Rightarrow> Inl e
                | Inr nodes \<Rightarrow>
                    (if fp_groups policy = [] then Inl PolicyInvalid
                     else case link_subjects by_id (fp_subjects policy) 0 nodes of
                            Inl e \<Rightarrow> Inl e
                          | Inr nodes \<Rightarrow>
                              (if root_nodes nodes = [] then Inl PolicyInvalid
                               else Inr \<lparr>ds_nodes = nodes, ds_by_id = by_id,
                                 ds_subject_base = replicate (length (fp_subjects policy)) 0,
                                 ds_subject_effective = replicate (length (fp_subjects policy)) 0,
                                 ds_subject_floor_binding = replicate (length (fp_subjects policy)) 0,
                                 ds_roots = root_nodes nodes,
                                 ds_base_pass = default_pass, ds_effective_pass = default_pass\<rparr>)))))"

section \<open>Distribution\<close>

definition composite_key :: "bool \<Rightarrow> Id \<Rightarrow> u64" where
  "composite_key is_group i = (if is_group then i else i OR push_bit 63 1)"

definition group_input :: "FairnessGroup \<Rightarrow> AllocationInput" where
  "group_input g = \<lparr>ai_key = composite_key True (fg_id g),
     ai_weight = effective_share_weight (fg_share_weight g) 0,
     ai_floor = fg_guarantee_floor g, ai_obligation_rank = fg_obligation_rank g\<rparr>"

definition subject_input :: "bool \<Rightarrow> Subject \<Rightarrow> AllocationInput" where
  "subject_input use_modifier s = \<lparr>ai_key = composite_key False (sb_id s),
     ai_weight = (if use_modifier then effective_share_weight (sb_share_weight s) (sb_priority_modifier_bps s)
                  else effective_share_weight (sb_share_weight s) 0),
     ai_floor = sb_guarantee_floor s, ai_obligation_rank = sb_obligation_rank s\<rparr>"

definition inputs_for :: "FairnessPolicy \<Rightarrow> GroupNode \<Rightarrow> bool \<Rightarrow> AllocationInput list" where
  "inputs_for policy node use_modifier =
     map (\<lambda>c. group_input (fp_groups policy ! c)) (gn_child_groups node) @
     map (\<lambda>c. subject_input use_modifier (fp_subjects policy ! c)) (gn_child_subjects node)"

definition note_overcommit :: "AllocationResult \<Rightarrow> PassState \<Rightarrow> PassState result" where
  "note_overcommit result pass =
     (if ar_overcommit result
      then case checked_add (ps_overcommit_shortfall pass) (ar_overcommit_shortfall result) of
             None \<Rightarrow> Inl ArithmeticOverflow
           | Some shortfall \<Rightarrow>
               Inr (pass\<lparr>ps_overcommit := True, ps_overcommit_shortfall := shortfall\<rparr>)
      else Inr pass)"

definition set_node_allocation :: "bool \<Rightarrow> u64 \<Rightarrow> GroupNode \<Rightarrow> GroupNode" where
  "set_node_allocation use_modifier v node =
     (if use_modifier then node\<lparr>gn_allocation := v\<rparr> else node\<lparr>gn_base_allocation := v\<rparr>)"

definition node_allocation :: "bool \<Rightarrow> GroupNode \<Rightarrow> u64" where
  "node_allocation use_modifier node =
     (if use_modifier then gn_allocation node else gn_base_allocation node)"

text \<open>The loops over the children, each child with its entry of the result.\<close>

fun write_nodes :: "bool \<Rightarrow> (nat \<times> u64) list \<Rightarrow> GroupNode list \<Rightarrow> GroupNode list" where
  "write_nodes use_modifier [] nodes = nodes"
| "write_nodes use_modifier ((c, v) # rest) nodes =
     write_nodes use_modifier rest (nodes[c := set_node_allocation use_modifier v (nodes ! c)])"

fun write_subjects :: "bool \<Rightarrow> (nat \<times> u64 \<times> u8) list \<Rightarrow> Distributor \<Rightarrow> Distributor" where
  "write_subjects use_modifier [] d = d"
| "write_subjects use_modifier ((c, v, b) # rest) d =
     write_subjects use_modifier rest
       (if use_modifier
        then d\<lparr>ds_subject_effective := (ds_subject_effective d)[c := v],
               ds_subject_floor_binding := (ds_subject_floor_binding d)[c := b]\<rparr>
        else d\<lparr>ds_subject_base := (ds_subject_base d)[c := v]\<rparr>)"

definition write_result :: "bool \<Rightarrow> GroupNode \<Rightarrow> AllocationResult \<Rightarrow> Distributor \<Rightarrow> Distributor" where
  "write_result use_modifier node result d =
     (let k = length (gn_child_groups node);
          d = d\<lparr>ds_nodes := write_nodes use_modifier
                  (zip (gn_child_groups node) (take k (ar_allocations result))) (ds_nodes d)\<rparr>
      in write_subjects use_modifier
           (zip (gn_child_subjects node)
             (zip (drop k (ar_allocations result)) (drop k (ar_floor_binding result)))) d)"

function scatter ::
    "nat \<Rightarrow> FairnessPolicy \<Rightarrow> bool \<Rightarrow> nat \<Rightarrow> u64 \<Rightarrow> Distributor \<times> PassState
     \<Rightarrow> (Distributor \<times> PassState) result option"
  and scatter_children ::
    "nat \<Rightarrow> FairnessPolicy \<Rightarrow> bool \<Rightarrow> nat list \<Rightarrow> Distributor \<times> PassState
     \<Rightarrow> (Distributor \<times> PassState) result option" where
  "scatter 0 policy use_modifier node_index whole st = None"
| "scatter (Suc fuel) policy use_modifier node_index whole (d, pass) =
     (let node = ds_nodes d ! node_index;
          inputs = inputs_for policy node use_modifier
      in if inputs = [] then Some (Inr (d, pass))
         else case allocate_whole inputs whole of
                Inl e \<Rightarrow> Some (Inl e)
              | Inr result \<Rightarrow>
                  (case note_overcommit result pass of
                     Inl e \<Rightarrow> Some (Inl e)
                   | Inr pass' \<Rightarrow>
                       scatter_children fuel policy use_modifier (gn_child_groups node)
                         (write_result use_modifier node result d, pass')))"
| "scatter_children fuel policy use_modifier [] st = Some (Inr st)"
| "scatter_children fuel policy use_modifier (c # cs) st =
     (case scatter fuel policy use_modifier c
             (node_allocation use_modifier (ds_nodes (fst st) ! c)) st of
        None \<Rightarrow> None
      | Some (Inl e) \<Rightarrow> Some (Inl e)
      | Some (Inr st') \<Rightarrow> scatter_children fuel policy use_modifier cs st')"
  by pat_completeness auto
termination
  by (relation "measures [\<lambda>x. case x of Inl (f, _) \<Rightarrow> f | Inr (f, _) \<Rightarrow> f,
        \<lambda>x. case x of Inl _ \<Rightarrow> 0 | Inr (_, _, _, cs, _) \<Rightarrow> Suc (length cs)]") auto

definition scatter_fuel :: nat where "scatter_fuel = 9"

text \<open>One pass: the roots, then each root's subtree. The results are written before the recursion.\<close>

definition distribute_pass ::
    "FairnessPolicy \<Rightarrow> bool \<Rightarrow> u64 \<Rightarrow> Distributor \<times> PassState \<Rightarrow> (Distributor \<times> PassState) result option" where
  "distribute_pass policy use_modifier whole st =
     (let roots = ds_roots (fst st)
      in case allocate_whole (map (\<lambda>r. group_input (fp_groups policy ! r)) roots) whole of
           Inl e \<Rightarrow> Some (Inl e)
         | Inr result \<Rightarrow>
             (case note_overcommit result (snd st) of
                Inl e \<Rightarrow> Some (Inl e)
              | Inr pass' \<Rightarrow>
                  scatter_children scatter_fuel policy use_modifier roots
                    ((fst st)\<lparr>ds_nodes := write_nodes use_modifier
                        (zip roots (ar_allocations result)) (ds_nodes (fst st))\<rparr>, pass')))"

definition distribute :: "FairnessPolicy \<Rightarrow> u64 \<Rightarrow> Distributor \<Rightarrow> Distributor result option" where
  "distribute policy whole d =
     (case distribute_pass policy False whole (d, ds_base_pass d) of
        None \<Rightarrow> None
      | Some (Inl e) \<Rightarrow> Some (Inl e)
      | Some (Inr (d, pass)) \<Rightarrow>
          (let d = d\<lparr>ds_base_pass := pass\<rparr>
           in case distribute_pass policy True whole (d, ds_effective_pass d) of
                None \<Rightarrow> None
              | Some (Inl e) \<Rightarrow> Some (Inl e)
              | Some (Inr (d, pass)) \<Rightarrow> Some (Inr (d\<lparr>ds_effective_pass := pass\<rparr>))))"

text \<open>The loop from a node to its root: the nodes it visits.\<close>

fun node_path :: "nat \<Rightarrow> GroupNode list \<Rightarrow> nat \<Rightarrow> nat list option" where
  "node_path 0 nodes cursor = None"
| "node_path (Suc fuel) nodes cursor =
     (if \<not> gn_has_parent (nodes ! cursor) then Some [cursor]
      else map_option (Cons cursor) (node_path fuel nodes (gn_parent_node (nodes ! cursor))))"

section \<open>The tree of a well-formed policy\<close>

abbreviation group_at :: "FairnessPolicy \<Rightarrow> nat \<Rightarrow> FairnessGroup" where
  "group_at p i \<equiv> fp_groups p ! i"

abbreviation subject_at :: "FairnessPolicy \<Rightarrow> nat \<Rightarrow> Subject" where
  "subject_at p i \<equiv> fp_subjects p ! i"

definition group_children :: "FairnessPolicy \<Rightarrow> nat \<Rightarrow> nat list" where
  "group_children p i =
     filter (\<lambda>c. fg_parent (group_at p c) = fg_id (group_at p i)) [0..<length (fp_groups p)]"

definition subject_children :: "FairnessPolicy \<Rightarrow> nat \<Rightarrow> nat list" where
  "subject_children p i =
     filter (\<lambda>c. sb_group (subject_at p c) = fg_id (group_at p i)) [0..<length (fp_subjects p)]"

definition root_groups :: "FairnessPolicy \<Rightarrow> nat list" where
  "root_groups p = filter (\<lambda>i. fg_parent (group_at p i) = 0) [0..<length (fp_groups p)]"

text \<open>A node of the tree after the first \<open>gi\<close> groups and \<open>si\<close> subjects have been linked.\<close>

definition node_ok :: "FairnessPolicy \<Rightarrow> nat \<Rightarrow> nat \<Rightarrow> nat \<Rightarrow> GroupNode \<Rightarrow> bool" where
  "node_ok p gi si j node \<longleftrightarrow>
     gn_has_parent node = (j < gi \<and> fg_parent (group_at p j) \<noteq> 0) \<and>
     (gn_has_parent node \<longrightarrow> gn_parent_node node < length (fp_groups p) \<and>
        fg_id (group_at p (gn_parent_node node)) = fg_parent (group_at p j)) \<and>
     gn_child_groups node = filter (\<lambda>c. fg_parent (group_at p c) = fg_id (group_at p j)) [0..<gi] \<and>
     gn_child_subjects node = filter (\<lambda>c. sb_group (subject_at p c) = fg_id (group_at p j)) [0..<si]"

definition nodes_ok :: "FairnessPolicy \<Rightarrow> nat \<Rightarrow> nat \<Rightarrow> GroupNode list \<Rightarrow> bool" where
  "nodes_ok p gi si nodes \<longleftrightarrow> length nodes = length (fp_groups p) \<and>
     (\<forall>j<length nodes. node_ok p gi si j (nodes ! j))"

lemma nodes_ok_update:
  assumes "nodes_ok p gi si nodes"
    and "gn_has_parent node = gn_has_parent (nodes ! i)" "gn_parent_node node = gn_parent_node (nodes ! i)"
    and "gn_child_groups node = gn_child_groups (nodes ! i)" "gn_child_subjects node = gn_child_subjects (nodes ! i)"
  shows "nodes_ok p gi si (nodes[i := node])"
proof (cases "i < length nodes")
  case True
  then show ?thesis using assms by (auto simp: nodes_ok_def node_ok_def nth_list_update)
qed (simp add: assms(1) list_update_beyond not_less)

lemma index_nth:
  assumes "distinct (map fg_id gs)" and "index = rev (zip (map fg_id gs) [0..<length gs])"
  shows "map_of index k = Some j \<longleftrightarrow> j < length gs \<and> fg_id (gs ! j) = k"
proof -
  have "distinct (map fst index)" using assms by (simp flip: rev_map)
  then have "map_of index k = Some j \<longleftrightarrow> (k, j) \<in> set index"
    by (rule map_of_eq_Some_iff)
  also have "\<dots> \<longleftrightarrow> j < length gs \<and> fg_id (gs ! j) = k"
    unfolding assms(2) set_rev set_zip by (auto intro: exI [of _ j])
  finally show ?thesis .
qed

lemma build_index_ok:
  "\<lbrakk>\<forall>g\<in>set gs. fg_id g \<noteq> 0; distinct (map fg_id gs); \<forall>g\<in>set gs. map_of by_id (fg_id g) = None\<rbrakk>
   \<Longrightarrow> build_index gs i by_id = Inr (rev (zip (map fg_id gs) [i..<i + length gs]) @ by_id)"
proof (induction gs arbitrary: i by_id)
  case (Cons g gs)
  have "\<forall>h\<in>set gs. map_of ((fg_id g, i) # by_id) (fg_id h) = None"
    using Cons.prems(2,3) by (auto simp: image_iff)
  then have "build_index gs (Suc i) ((fg_id g, i) # by_id)
      = Inr (rev (zip (map fg_id gs) [Suc i..<Suc i + length gs]) @ (fg_id g, i) # by_id)"
    using Cons.prems by (intro Cons.IH) auto
  moreover have "[i..<i + length (g # gs)] = i # [Suc i..<Suc i + length gs]"
    using upt_conv_Cons [of i "i + length (g # gs)"] by simp
  ultimately show ?case using Cons.prems by (simp add: id_valid_def)
qed simp

lemma wf_parent:
  assumes "policy_wf p" "i < length (fp_groups p)" "fg_parent (group_at p i) \<noteq> 0"
  obtains j where "j < length (fp_groups p)" "fg_id (group_at p j) = fg_parent (group_at p i)" "j \<noteq> i"
proof -
  let ?g = "group_at p i"
  have g: "?g \<in> set (fp_groups p)" using assms(2) by simp
  have dist: "distinct (map fg_id (fp_groups p))" using assms(1) by (simp add: policy_wf_def)
  obtain d where d: "group_depth p (fg_id ?g) d" using assms(1) g unfolding policy_wf_def by blast
  have self: "find_group p (fg_id ?g) = Some ?g" using find_distinct_key [OF g dist] by (simp add: find_group_def)
  have "id_valid (fg_parent ?g)" using assms(3) by (simp add: id_valid_def)
  note par = group_depth_parent [OF d self this]
  then obtain h where "find_group p (fg_parent ?g) = Some h" by blast
  then have "h \<in> set (fp_groups p)" "fg_id h = fg_parent ?g"
    using find_Some_iff_mem unfolding find_group_def by fastforce+
  then obtain j where "j < length (fp_groups p)" "fg_id (group_at p j) = fg_parent ?g"
    by (metis in_set_conv_nth)
  moreover have "j \<noteq> i" using calculation par(2) by auto
  ultimately show thesis by (rule that)
qed

lemma wf_index:
  assumes "policy_wf p"
  defines "index \<equiv> rev (zip (map fg_id (fp_groups p)) [0..<length (fp_groups p)])"
  shows "map_of index k = Some j \<longleftrightarrow> j < length (fp_groups p) \<and> fg_id (group_at p j) = k"
    and "build_index (fp_groups p) 0 [] = Inr index"
proof -
  have dist: "distinct (map fg_id (fp_groups p))" and ids: "\<forall>g\<in>set (fp_groups p). fg_id g \<noteq> 0"
    using assms(1) by (auto simp: policy_wf_def group_wf_def)
  show "map_of index k = Some j \<longleftrightarrow> j < length (fp_groups p) \<and> fg_id (group_at p j) = k"
    by (rule index_nth [OF dist]) (simp add: index_def)
  show "build_index (fp_groups p) 0 [] = Inr index"
    using build_index_ok [OF ids dist, of "[]" 0] by (simp add: index_def)
qed

lemma wf_ids_inj:
  "\<lbrakk>policy_wf p; i < length (fp_groups p); j < length (fp_groups p);
    fg_id (group_at p i) = fg_id (group_at p j)\<rbrakk> \<Longrightarrow> i = j"
  using wf_index(1) [of p "fg_id (group_at p i)" i] wf_index(1) [of p "fg_id (group_at p i)" j] by simp

lemma link_parents_ok:
  assumes wf: "policy_wf p" and index: "index = rev (zip (map fg_id (fp_groups p)) [0..<length (fp_groups p)])"
  shows "\<lbrakk>gs = drop i (fp_groups p); i \<le> length (fp_groups p); nodes_ok p i 0 nodes\<rbrakk> \<Longrightarrow>
    \<exists>nodes'. link_parents index gs i nodes = Inr nodes' \<and> nodes_ok p (length (fp_groups p)) 0 nodes'"
proof (induction gs arbitrary: i nodes)
  case Nil
  then show ?case by simp
next
  case (Cons g gs)
  let ?n = "length (fp_groups p)"
  have i: "i < ?n" using Cons.prems(1) by (metis drop_all list.distinct(1) not_less)
  with Cons.prems(1) have g: "g = group_at p i" and gs: "gs = drop (Suc i) (fp_groups p)"
    by (metis Cons_nth_drop_Suc list.inject)+
  have id0: "fg_id (group_at p j) \<noteq> 0" if "j < ?n" for j
    using wf nth_mem [OF that] unfolding policy_wf_def group_wf_def by blast
  have len: "length nodes = ?n" and ok: "\<And>j. j < ?n \<Longrightarrow> node_ok p i 0 j (nodes ! j)"
    using Cons.prems(3) by (simp_all add: nodes_ok_def)
  show ?case
  proof (cases "fg_parent g = 0")
    case True
    have "node_ok p (Suc i) 0 j (nodes ! j)" if "j < ?n" for j
      using ok [OF that] True id0 [OF that] by (auto simp: node_ok_def g less_Suc_eq)
    then have "nodes_ok p (Suc i) 0 nodes" using len by (simp add: nodes_ok_def)
    with Cons.IH [OF gs] i True show ?thesis by (simp add: id_valid_def)
  next
    case False
    obtain q where q: "q < ?n" "fg_id (group_at p q) = fg_parent g" "q \<noteq> i"
      using wf_parent [OF wf i] False g by blast
    have look: "map_of index (fg_parent g) = Some q"
      using wf_index(1) [OF wf] q unfolding index by blast
    define nodes' where "nodes' = nodes[i := (nodes ! i)\<lparr>gn_has_parent := True, gn_parent_node := q\<rparr>,
        q := (nodes ! q)\<lparr>gn_child_groups := gn_child_groups (nodes ! q) @ [i]\<rparr>]"
    have "node_ok p (Suc i) 0 j (nodes' ! j)" if "j < ?n" for j
    proof -
      have "fg_parent g = fg_id (group_at p j) \<longleftrightarrow> j = q"
        using wf_ids_inj [OF wf that q(1)] q(2) by auto
      then show ?thesis
        using ok [OF that] q i len False g
        by (auto simp: node_ok_def nodes'_def nth_list_update less_Suc_eq)
    qed
    then have "nodes_ok p (Suc i) 0 nodes'" using len by (simp add: nodes_ok_def nodes'_def)
    then obtain nodes'' where "link_parents index gs (Suc i) nodes' = Inr nodes''"
      "nodes_ok p ?n 0 nodes''" using Cons.IH [OF gs] i by fastforce
    moreover have "link_parents index (g # gs) i nodes = link_parents index gs (Suc i) nodes'"
      using False look q(3) by (simp add: id_valid_def Let_def nodes'_def)
    ultimately show ?thesis by simp
  qed
qed


lemma nodes_okD:
  assumes "nodes_ok p (length (fp_groups p)) si nodes" "j < length (fp_groups p)"
  shows "gn_has_parent (nodes ! j) = (fg_parent (group_at p j) \<noteq> 0)"
    "gn_has_parent (nodes ! j) \<Longrightarrow> gn_parent_node (nodes ! j) < length (fp_groups p) \<and>
       fg_id (group_at p (gn_parent_node (nodes ! j))) = fg_parent (group_at p j)"
    "gn_child_groups (nodes ! j) = group_children p j"
  using assms by (auto simp: nodes_ok_def node_ok_def group_children_def)

lemma wf_find_group:
  assumes "policy_wf p" "j < length (fp_groups p)"
  shows "find_group p (fg_id (group_at p j)) = Some (group_at p j)"
  using find_distinct_key [of "group_at p j" "fp_groups p" fg_id] assms
  by (simp add: policy_wf_def find_group_def)

lemma node_depth_ok:
  assumes wf: "policy_wf p" and nodes: "nodes_ok p (length (fp_groups p)) si nodes"
  shows "\<lbrakk>group_depth p gid d; j < length (fp_groups p); fg_id (group_at p j) = gid; depth + d \<le> 9\<rbrakk>
    \<Longrightarrow> node_depth nodes depth j = Some (depth + d - 1)"
proof (induction arbitrary: depth j rule: group_depth.induct)
  case (root gid g)
  then have "g = group_at p j" using wf_find_group [OF wf, of j] by simp
  with root nodes_okD(1) [OF nodes root.prems(1)] show ?case
    by (simp add: node_depth.simps [of nodes depth j] id_valid_def)
next
  case (child gid g d)
  then have g: "g = group_at p j" using wf_find_group [OF wf, of j] by simp
  have hp: "gn_has_parent (nodes ! j)"
    using child.hyps(2) nodes_okD(1) [OF nodes child.prems(1)] g by (simp add: id_valid_def)
  note par = nodes_okD(2) [OF nodes child.prems(1) hp]
  have "0 < d" using child.hyps(3) by (auto elim: group_depthE)
  then have "node_depth nodes depth j = node_depth nodes (Suc depth) (gn_parent_node (nodes ! j))"
    using hp child.prems(3) by (simp add: node_depth.simps [of nodes depth j])
  also have "\<dots> = Some (Suc depth + d - 1)"
    using par child.prems(3) g by (intro child.IH) simp_all
  finally show ?case by simp
qed

text \<open>Setting the depths changes nothing that the depth walk reads.\<close>

definition depths_ok :: "FairnessPolicy \<Rightarrow> nat set \<Rightarrow> GroupNode list \<Rightarrow> bool" where
  "depths_ok p J nodes \<longleftrightarrow>
     (\<forall>j\<in>J. group_depth p (fg_id (group_at p j)) (unat (gn_depth (nodes ! j))) \<and>
        unat (gn_depth (nodes ! j)) \<le> 8)"

lemma set_depths_ok:
  assumes wf: "policy_wf p"
  shows "\<lbrakk>nodes_ok p (length (fp_groups p)) si nodes; set js \<subseteq> {..<length (fp_groups p)}; distinct js;
     depths_ok p J nodes; J \<inter> set js = {}\<rbrakk> \<Longrightarrow>
     \<exists>nodes'. set_depths js nodes = Inr nodes' \<and> nodes_ok p (length (fp_groups p)) si nodes' \<and>
       depths_ok p (J \<union> set js) nodes'"
proof (induction "js" arbitrary: nodes J)
  case (Cons i js)
  let ?n = "length (fp_groups p)"
  have i: "i < ?n" using Cons.prems(2) by simp
  have len: "length nodes = ?n" using Cons.prems(1) by (simp add: nodes_ok_def)
  obtain d where d: "d \<le> 8" "group_depth p (fg_id (group_at p i)) d"
    using wf nth_mem [OF i] unfolding policy_wf_def by blast
  then have "0 < d" by (auto elim: group_depthE)
  then have nd: "node_depth nodes 1 i = Some d"
    using node_depth_ok [OF wf Cons.prems(1) d(2) i refl, of 1] d(1) by simp
  define nodes' where "nodes' = nodes[i := (nodes ! i)\<lparr>gn_depth := of_nat d\<rparr>]"
  have "nodes_ok p ?n si nodes'"
    unfolding nodes'_def by (rule nodes_ok_update [OF Cons.prems(1)]) simp_all
  moreover have "depths_ok p (insert i J) nodes'"
    using Cons.prems(4,5) d len i by (auto simp: depths_ok_def nodes'_def unat_of_nat_exact nth_list_update)
  ultimately obtain nodes'' where "set_depths js nodes' = Inr nodes''" "nodes_ok p ?n si nodes''"
    "depths_ok p (insert i J \<union> set js) nodes''"
    using Cons.IH [of nodes' "insert i J"] Cons.prems(2,3,5) by auto
  then show ?case using nd by (simp add: nodes'_def)
qed simp

lemma link_subjects_ok:
  assumes wf: "policy_wf p" and index: "index = rev (zip (map fg_id (fp_groups p)) [0..<length (fp_groups p)])"
  shows "\<lbrakk>ss = drop i (fp_subjects p); i \<le> length (fp_subjects p);
     nodes_ok p (length (fp_groups p)) i nodes; depths_ok p {..<length (fp_groups p)} nodes\<rbrakk> \<Longrightarrow>
     \<exists>nodes'. link_subjects index ss i nodes = Inr nodes' \<and>
       nodes_ok p (length (fp_groups p)) (length (fp_subjects p)) nodes' \<and>
       depths_ok p {..<length (fp_groups p)} nodes'"
proof (induction ss arbitrary: i nodes)
  case Nil
  then show ?case by simp
next
  case (Cons s ss)
  let ?n = "length (fp_groups p)"
  have i: "i < length (fp_subjects p)" using Cons.prems(1) by (metis drop_all list.distinct(1) not_less)
  with Cons.prems(1) have s: "s = subject_at p i" and ss: "ss = drop (Suc i) (fp_subjects p)"
    by (metis Cons_nth_drop_Suc list.inject)+
  have len: "length nodes = ?n" and ok: "\<And>j. j < ?n \<Longrightarrow> node_ok p ?n i j (nodes ! j)"
    using Cons.prems(3) by (simp_all add: nodes_ok_def)
  have "find_group p (sb_group s) \<noteq> None" using wf nth_mem [OF i] s unfolding policy_wf_def by blast
  then obtain h where "h \<in> set (fp_groups p)" "fg_id h = sb_group s"
    using find_Some_iff_mem unfolding find_group_def by fastforce
  then obtain q where q: "q < ?n" "fg_id (group_at p q) = sb_group s" by (metis in_set_conv_nth)
  have look: "map_of index (sb_group s) = Some q"
    using wf_index(1) [OF wf] q unfolding index by blast
  define nodes' where "nodes' = nodes[q := (nodes ! q)\<lparr>gn_child_subjects := gn_child_subjects (nodes ! q) @ [i]\<rparr>]"
  have "node_ok p ?n (Suc i) j (nodes' ! j)" if "j < ?n" for j
  proof -
    have "sb_group s = fg_id (group_at p j) \<longleftrightarrow> j = q"
      using wf_ids_inj [OF wf that q(1)] q(2) by auto
    then show ?thesis
      using ok [OF that] q len s by (auto simp: node_ok_def nodes'_def nth_list_update)
  qed
  then have "nodes_ok p ?n (Suc i) nodes'" using len by (simp add: nodes_ok_def nodes'_def)
  moreover have "depths_ok p {..<?n} nodes'"
    using Cons.prems(4) len q(1) by (auto simp: depths_ok_def nodes'_def nth_list_update)
  ultimately show ?case using Cons.IH [OF ss] i look by (auto simp: nodes'_def)
qed

text \<open>What \<open>build\<close> yields on a well-formed policy.\<close>

definition tree_ok :: "FairnessPolicy \<Rightarrow> GroupNode list \<Rightarrow> bool" where
  "tree_ok p nodes \<longleftrightarrow> nodes_ok p (length (fp_groups p)) (length (fp_subjects p)) nodes \<and>
     depths_ok p {..<length (fp_groups p)} nodes"

definition built :: "FairnessPolicy \<Rightarrow> Distributor \<Rightarrow> bool" where
  "built p d \<longleftrightarrow> tree_ok p (ds_nodes d) \<and>
     ds_by_id d = rev (zip (map fg_id (fp_groups p)) [0..<length (fp_groups p)]) \<and>
     ds_roots d = root_groups p \<and> length (ds_subject_base d) = length (fp_subjects p) \<and>
     length (ds_subject_effective d) = length (fp_subjects p) \<and>
     length (ds_subject_floor_binding d) = length (fp_subjects p)"

lemma wf_has_root:
  assumes "policy_wf p"
  shows "root_groups p \<noteq> []"
proof -
  have "\<exists>i<length (fp_groups p). fg_parent (group_at p i) = 0" if "group_depth p gid d" for gid d
    using that
  proof (induction rule: group_depth.induct)
    case (root gid g)
    then have "g \<in> set (fp_groups p)" using find_Some_iff_mem unfolding find_group_def by fastforce
    with root show ?case by (auto simp: in_set_conv_nth id_valid_def)
  qed
  moreover have "\<exists>gid d. group_depth p gid d"
  proof -
    have "fp_subjects p \<noteq> []" using assms by (simp add: policy_wf_def header_wf_def)
    then have "find_group p (sb_group (hd (fp_subjects p))) \<noteq> None"
      using assms hd_in_set unfolding policy_wf_def by blast
    then obtain h where "h \<in> set (fp_groups p)"
      using find_Some_iff_mem unfolding find_group_def by fastforce
    then show ?thesis using assms unfolding policy_wf_def by blast
  qed
  ultimately show ?thesis by (fastforce simp: root_groups_def filter_empty_conv)
qed

lemma build_ok:
  assumes wf: "policy_wf p"
  shows "\<exists>d. build p = Inr d \<and> built p d \<and> ds_base_pass d = default_pass \<and> ds_effective_pass d = default_pass"
proof -
  let ?n = "length (fp_groups p)" and ?index = "rev (zip (map fg_id (fp_groups p)) [0..<length (fp_groups p)])"
  have "nodes_ok p 0 0 (replicate ?n default_node)"
    by (simp add: nodes_ok_def node_ok_def default_node_def)
  then obtain nodes where n: "link_parents ?index (fp_groups p) 0 (replicate ?n default_node) = Inr nodes"
    "nodes_ok p ?n 0 nodes" using link_parents_ok [OF wf refl, of "fp_groups p" 0] by auto
  then have len: "length nodes = ?n" by (simp add: nodes_ok_def)
  obtain nodes' where n': "set_depths [0..<length nodes] nodes = Inr nodes'" "nodes_ok p ?n 0 nodes'"
    "depths_ok p {..<?n} nodes'"
    using set_depths_ok [OF wf n(2), of "[0..<?n]" "{}"] len
    by (auto simp: depths_ok_def atLeast0LessThan)
  obtain nodes'' where n'': "link_subjects ?index (fp_subjects p) 0 nodes' = Inr nodes''"
    "nodes_ok p ?n (length (fp_subjects p)) nodes''" "depths_ok p {..<?n} nodes''"
    using link_subjects_ok [OF wf refl, of "fp_subjects p" 0 nodes'] n'(2,3) by auto
  have roots: "root_nodes nodes'' = root_groups p"
    unfolding root_nodes_def root_groups_def
    using n''(2) nodes_okD(1) [OF n''(2)] by (intro filter_cong) (auto simp: nodes_ok_def)
  then have "root_nodes nodes'' \<noteq> []" using wf_has_root [OF wf] by simp
  moreover have "fp_groups p \<noteq> []" using wf_has_root [OF wf] by (auto simp: root_groups_def)
  ultimately show ?thesis
    using wf_index(2) [OF wf] n(1) n'(1) n'' roots by (simp add: build_def built_def tree_ok_def)
qed

section \<open>Every split of a well-formed policy is admissible\<close>

definition node_inputs :: "FairnessPolicy \<Rightarrow> bool \<Rightarrow> nat \<Rightarrow> AllocationInput list" where
  "node_inputs p um i = map (\<lambda>c. group_input (group_at p c)) (group_children p i) @
     map (\<lambda>c. subject_input um (subject_at p c)) (subject_children p i)"

definition root_inputs :: "FairnessPolicy \<Rightarrow> AllocationInput list" where
  "root_inputs p = map (\<lambda>r. group_input (group_at p r)) (root_groups p)"

lemma weight_total_bound: "(\<And>c. c \<in> set cs \<Longrightarrow> unat (ai_weight c) \<le> b) \<Longrightarrow> weight_total cs \<le> length cs * b"
  by (induction cs) (auto intro: add_mono)

lemma floor_total_Cons [simp]: "floor_total (c # cs) = unat (ai_floor c) + floor_total cs"
  unfolding floor_total_def by (rule sum_Cons_nth)

lemma floor_total_Nil [simp]: "floor_total [] = 0"
  by (simp add: floor_total_def)

lemma floor_total_append: "floor_total (xs @ ys) = floor_total xs + floor_total ys"
  by (induction xs) simp_all

lemma floor_total_bound: "(\<And>c. c \<in> set cs \<Longrightarrow> unat (ai_floor c) \<le> b) \<Longrightarrow> floor_total cs \<le> length cs * b"
  by (induction cs) (auto intro: add_mono)

lemma unat_modifier_magnitude: "unat (modifier_magnitude m) = nat \<bar>sint m\<bar>"
proof -
  have r: "- (2 ^ 31) \<le> sint m" "sint m < 2 ^ 31" using sint_range_size [of m] by (simp_all add: word_size)
  have c: "sint (scast m :: i64) = sint m"
    using r by (simp add: signed_scast_eq signed_take_bit_int_eq_self)
  define a :: i64 where "a = (if m <s 0 then - (scast m :: i64) else scast m :: i64)"
  have "sint a = \<bar>sint m\<bar>"
  proof (cases "m <s 0")
    case True
    then have "sint (- (scast m :: i64)) = - sint m"
      using r c sint_minus_exact [of 0 "scast m :: i64"] by simp
    then show ?thesis using True by (simp add: a_def word_sless_alt)
  qed (simp add: a_def c word_sless_alt)
  moreover from this have "uint a = \<bar>sint m\<bar>" using uint_eq_sint [of a] by simp
  moreover have "\<bar>sint m\<bar> < 2 ^ 32" using r by simp
  ultimately have "uint (ucast a :: u32) = \<bar>sint m\<bar>"
    by (simp add: unsigned_ucast_eq take_bit_int_eq_self)
  then show ?thesis by (simp add: modifier_magnitude_def a_def unat_eq_nat_uint)
qed
lemma effective_weight_bound:
  assumes "weight \<noteq> 0" "weight \<le> kMaxShareWeight" "modifier_magnitude m \<le> kMaxPriorityModifierBps"
  shows "effective_share_weight weight m \<noteq> 0" "unat (effective_share_weight weight m) \<le> 2 ^ 31 * 110000"
proof -
  show "effective_share_weight weight m \<noteq> 0" using effective_share_weight_value [OF assms(1)] by blast
  have "unat weight \<le> 2 ^ 31" using assms(2) by (simp add: word_le_nat_alt)
  moreover have "\<bar>sint m\<bar> \<le> int 100000"
    using assms(3) unat_modifier_magnitude [of m] by (simp add: word_le_nat_alt)
  ultimately show "unat (effective_share_weight weight m) \<le> 2 ^ 31 * 110000"
    using effective_share_weight_bound [OF assms(1)] by fastforce
qed

lemma zero_magnitude: "modifier_magnitude 0 \<le> kMaxPriorityModifierBps"
  by (simp add: modifier_magnitude_def)

lemma child_bounds:
  assumes "policy_wf p"
  shows "c \<in> set (group_children p i) \<Longrightarrow> ai_weight (group_input (group_at p c)) \<noteq> 0 \<and>
      unat (ai_weight (group_input (group_at p c))) \<le> 2 ^ 31 * 110000 \<and>
      unat (ai_floor (group_input (group_at p c))) \<le> 2 ^ 40"
    and "s \<in> set (subject_children p i) \<Longrightarrow> ai_weight (subject_input um (subject_at p s)) \<noteq> 0 \<and>
      unat (ai_weight (subject_input um (subject_at p s))) \<le> 2 ^ 31 * 110000 \<and>
      unat (ai_floor (subject_input um (subject_at p s))) \<le> 2 ^ 40"
    and "c \<in> set (root_groups p) \<Longrightarrow> ai_weight (group_input (group_at p c)) \<noteq> 0 \<and>
      unat (ai_weight (group_input (group_at p c))) \<le> 2 ^ 31 * 110000 \<and>
      unat (ai_floor (group_input (group_at p c))) \<le> 2 ^ 40"
proof -
  have g: "ai_weight (group_input (group_at p c)) \<noteq> 0 \<and>
      unat (ai_weight (group_input (group_at p c))) \<le> 2 ^ 31 * 110000 \<and>
      unat (ai_floor (group_input (group_at p c))) \<le> 2 ^ 40" if "c < length (fp_groups p)" for c
  proof -
    have "group_wf (group_at p c)" using assms nth_mem [OF that] unfolding policy_wf_def by blast
    then show ?thesis
      using effective_weight_bound [OF _ _ zero_magnitude, of "fg_share_weight (group_at p c)"]
      by (simp add: group_input_def group_wf_def word_le_nat_alt)
  qed
  then show "c \<in> set (group_children p i) \<Longrightarrow> ai_weight (group_input (group_at p c)) \<noteq> 0 \<and>
      unat (ai_weight (group_input (group_at p c))) \<le> 2 ^ 31 * 110000 \<and>
      unat (ai_floor (group_input (group_at p c))) \<le> 2 ^ 40"
    "c \<in> set (root_groups p) \<Longrightarrow> ai_weight (group_input (group_at p c)) \<noteq> 0 \<and>
      unat (ai_weight (group_input (group_at p c))) \<le> 2 ^ 31 * 110000 \<and>
      unat (ai_floor (group_input (group_at p c))) \<le> 2 ^ 40"
    by (simp_all add: group_children_def root_groups_def)
  assume "s \<in> set (subject_children p i)"
  then have "s < length (fp_subjects p)" by (simp add: subject_children_def)
  then have "subject_wf p (subject_at p s)" using assms nth_mem unfolding policy_wf_def by blast
  then show "ai_weight (subject_input um (subject_at p s)) \<noteq> 0 \<and>
      unat (ai_weight (subject_input um (subject_at p s))) \<le> 2 ^ 31 * 110000 \<and>
      unat (ai_floor (subject_input um (subject_at p s))) \<le> 2 ^ 40"
    using effective_weight_bound [of "sb_share_weight (subject_at p s)"
        "sb_priority_modifier_bps (subject_at p s)"]
      effective_weight_bound [OF _ _ zero_magnitude, of "sb_share_weight (subject_at p s)"]
    by (cases um) (simp_all add: subject_input_def subject_wf_def word_le_nat_alt)
qed

lemma children_length:
  assumes "policy_wf p"
  shows "length (group_children p i) \<le> 256" "length (subject_children p i) \<le> 4096"
    "length (root_groups p) \<le> 256"
proof -
  have "length (fp_groups p) \<le> 256" "length (fp_subjects p) \<le> 4096"
    using assms by (simp_all add: policy_wf_def header_wf_def)
  moreover have "length (filter P [0..<n]) \<le> n" for P and n :: nat
    using length_filter_le [of P "[0..<n]"] by simp
  ultimately show "length (group_children p i) \<le> 256" "length (subject_children p i) \<le> 4096"
    "length (root_groups p) \<le> 256"
    unfolding group_children_def subject_children_def root_groups_def by (meson le_trans)+
qed

lemma inputs_bounds:
  assumes wf: "policy_wf p" and cs: "cs = node_inputs p um i \<or> cs = root_inputs p"
  shows "\<forall>c\<in>set cs. ai_weight c \<noteq> 0" "weight_total cs < 2 ^ 64" "length cs \<le> 4352"
    "floor_total cs \<le> 4352 * 2 ^ 40"
proof -
  have b: "ai_weight c \<noteq> 0 \<and> unat (ai_weight c) \<le> 2 ^ 31 * 110000 \<and> unat (ai_floor c) \<le> 2 ^ 40"
    if "c \<in> set cs" for c
    using that cs child_bounds [OF wf] by (auto simp: node_inputs_def root_inputs_def)
  then show "\<forall>c\<in>set cs. ai_weight c \<noteq> 0" by blast
  show len: "length cs \<le> 4352"
    using cs children_length [OF wf] add_mono [OF children_length(1,2) [OF wf]]
    by (auto simp: node_inputs_def root_inputs_def intro: order_trans)
  have "weight_total cs \<le> length cs * (2 ^ 31 * 110000)" using b by (intro weight_total_bound) blast
  also have "\<dots> \<le> 4352 * (2 ^ 31 * 110000)" using len by (rule mult_le_mono1)
  finally show "weight_total cs < 2 ^ 64" by simp
  have "floor_total cs \<le> length cs * 2 ^ 40" using b by (intro floor_total_bound) blast
  also have "\<dots> \<le> 4352 * 2 ^ 40" using len by (rule mult_le_mono1)
  finally show "floor_total cs \<le> 4352 * 2 ^ 40" .
qed

lemma admissible_inputs:
  assumes wf: "policy_wf p"
  shows "i < length (fp_groups p) \<Longrightarrow> admissible (node_inputs p um i)" and "admissible (root_inputs p)"
proof -
  have fl: "n \<le> 4352 * 2 ^ 40 \<Longrightarrow> n < 2 ^ 64" for n :: nat by simp
  show "admissible (node_inputs p um i)" if i: "i < length (fp_groups p)"
  proof -
    have "member_subjects p (fg_id (group_at p i)) \<noteq> []"
      using wf nth_mem [OF i] unfolding policy_wf_def by blast
    then obtain s where "s \<in> set (fp_subjects p)" "sb_group s = fg_id (group_at p i)"
      by (auto simp: member_subjects_def filter_empty_conv)
    then have "subject_children p i \<noteq> []"
      by (auto simp: subject_children_def filter_empty_conv in_set_conv_nth)
    then have "node_inputs p um i \<noteq> []" by (simp add: node_inputs_def)
    then show ?thesis
      using inputs_bounds [OF wf disjI1 [OF refl], where um = um and i = i] fl
      by (simp add: admissible_def)
  qed
  have "root_inputs p \<noteq> []" using wf_has_root [OF wf] by (simp add: root_inputs_def)
  then show "admissible (root_inputs p)"
    using inputs_bounds [OF wf disjI2 [OF refl]] fl by (simp add: admissible_def)
qed

end
