(* ===== verification/FG_Distribute.thy ===== *)
theory FG_Distribute
  imports FG_Distributor
begin

text \<open>
  The correctness of the recursive distribution of an attained window. The first part says what
  one split writes and what it leaves alone; the second relates every written value to the
  allocation contract of \<^theory_text>\<open>FG_Allocate\<close>; the third follows the recursion down the group
  tree and shows that one pass terminates within its fuel, gives every node its allocation and
  conserves the window.
\<close>

section \<open>What the writes of a split do\<close>

definition node_value :: "bool \<Rightarrow> Distributor \<Rightarrow> nat \<Rightarrow> u64" where
  "node_value um d j = node_allocation um (ds_nodes d ! j)"

definition subject_value :: "bool \<Rightarrow> Distributor \<Rightarrow> nat \<Rightarrow> u64" where
  "subject_value um d s = (if um then ds_subject_effective d ! s else ds_subject_base d ! s)"

text \<open>What a pass leaves as it is: the tree and everything that belongs to the other pass.\<close>

definition same_node :: "bool \<Rightarrow> GroupNode \<Rightarrow> GroupNode \<Rightarrow> bool" where
  "same_node um n n' \<longleftrightarrow> gn_parent_node n' = gn_parent_node n \<and> gn_has_parent n' = gn_has_parent n \<and>
     gn_depth n' = gn_depth n \<and> gn_served n' = gn_served n \<and> gn_child_groups n' = gn_child_groups n \<and>
     gn_child_subjects n' = gn_child_subjects n \<and> node_allocation (\<not> um) n' = node_allocation (\<not> um) n"

definition same_frame :: "bool \<Rightarrow> Distributor \<Rightarrow> Distributor \<Rightarrow> bool" where
  "same_frame um d d' \<longleftrightarrow> ds_by_id d' = ds_by_id d \<and> ds_roots d' = ds_roots d \<and>
     ds_base_pass d' = ds_base_pass d \<and> ds_effective_pass d' = ds_effective_pass d \<and>
     length (ds_nodes d') = length (ds_nodes d) \<and>
     (\<forall>j<length (ds_nodes d). same_node um (ds_nodes d ! j) (ds_nodes d' ! j)) \<and>
     length (ds_subject_base d') = length (ds_subject_base d) \<and>
     length (ds_subject_effective d') = length (ds_subject_effective d) \<and>
     length (ds_subject_floor_binding d') = length (ds_subject_floor_binding d) \<and>
     (if um then ds_subject_base d' = ds_subject_base d
      else ds_subject_effective d' = ds_subject_effective d \<and>
           ds_subject_floor_binding d' = ds_subject_floor_binding d)"

lemma same_node_refl [simp]: "same_node um n n"
  by (simp add: same_node_def)

lemma same_frame_refl [simp]: "same_frame um d d"
  by (simp add: same_frame_def)

lemma same_frame_trans: "\<lbrakk>same_frame um d d'; same_frame um d' d''\<rbrakk> \<Longrightarrow> same_frame um d d''"
  by (cases um) (auto simp: same_frame_def same_node_def)

lemma same_frame_tree: "\<lbrakk>tree_ok p (ds_nodes d); same_frame um d d'\<rbrakk> \<Longrightarrow> tree_ok p (ds_nodes d')"
  by (auto simp: tree_ok_def nodes_ok_def node_ok_def depths_ok_def same_frame_def same_node_def)

lemma same_frame_built: "\<lbrakk>built p d; same_frame um d d'\<rbrakk> \<Longrightarrow> built p d'"
  using same_frame_tree [of p d um d'] by (auto simp: built_def same_frame_def)

lemma same_node_set [simp]: "same_node um n (set_node_allocation um v n)"
  by (simp add: same_node_def set_node_allocation_def node_allocation_def)

lemma node_allocation_set [simp]: "node_allocation um (set_node_allocation um v n) = v"
  by (simp add: set_node_allocation_def node_allocation_def)

lemma same_node_trans: "\<lbrakk>same_node um a b; same_node um b c\<rbrakk> \<Longrightarrow> same_node um a c"
  by (simp add: same_node_def)

lemma write_nodes_length [simp]: "length (write_nodes um zs nodes) = length nodes"
  by (induction zs arbitrary: nodes) auto

lemma write_nodes_same: "same_node um (nodes ! j) (write_nodes um zs nodes ! j)"
proof (induction zs arbitrary: nodes)
  case (Cons z zs)
  obtain c v where z: "z = (c, v)" by (cases z)
  have "same_node um (nodes ! j) (nodes[c := set_node_allocation um v (nodes ! c)] ! j)"
    by (cases "c < length nodes") (auto simp: nth_list_update list_update_beyond not_less)
  with Cons.IH [of "nodes[c := set_node_allocation um v (nodes ! c)]"] z show ?case
    by (auto intro: same_node_trans)
qed simp

lemma write_nodes_value:
  "\<lbrakk>distinct (map fst zs); fst ` set zs \<subseteq> {..<length nodes}\<rbrakk> \<Longrightarrow>
   node_allocation um (write_nodes um zs nodes ! j) =
   (case map_of zs j of None \<Rightarrow> node_allocation um (nodes ! j) | Some v \<Rightarrow> v)"
proof (induction zs arbitrary: nodes)
  case (Cons z zs)
  obtain c v where z: "z = (c, v)" by (cases z)
  have c: "c < length nodes" "map_of zs c = None"
    using Cons.prems z by (auto simp: map_of_eq_None_iff)
  show ?case
    using Cons.IH [of "nodes[c := set_node_allocation um v (nodes ! c)]"] Cons.prems z c
    by (cases "j = c") (auto split: option.splits)
qed simp

lemma write_subjects_frame:
  "same_frame um d (write_subjects um zs d) \<and> ds_nodes (write_subjects um zs d) = ds_nodes d"
proof (induction zs arbitrary: d)
  case (Cons z zs)
  obtain c v b where z: "z = (c, v, b)" by (cases z)
  let ?d = "if um then d\<lparr>ds_subject_effective := (ds_subject_effective d)[c := v],
               ds_subject_floor_binding := (ds_subject_floor_binding d)[c := b]\<rparr>
        else d\<lparr>ds_subject_base := (ds_subject_base d)[c := v]\<rparr>"
  have "same_frame um d ?d" "ds_nodes ?d = ds_nodes d" by (simp_all add: same_frame_def)
  with Cons.IH [of ?d] z show ?case by (auto intro: same_frame_trans)
qed simp

lemma write_subjects_value:
  "\<lbrakk>distinct (map fst zs); fst ` set zs \<subseteq> {..<n}; length (ds_subject_base d) = n;
    length (ds_subject_effective d) = n\<rbrakk> \<Longrightarrow>
   subject_value um (write_subjects um zs d) s =
   (case map_of zs s of None \<Rightarrow> subject_value um d s | Some vb \<Rightarrow> fst vb)"
proof (induction zs arbitrary: d)
  case (Cons z zs)
  obtain c v b where z: "z = (c, v, b)" by (cases z)
  define e where "e = (if um then d\<lparr>ds_subject_effective := (ds_subject_effective d)[c := v],
               ds_subject_floor_binding := (ds_subject_floor_binding d)[c := b]\<rparr>
        else d\<lparr>ds_subject_base := (ds_subject_base d)[c := v]\<rparr>)"
  have c: "c < n" "map_of zs c = None" using Cons.prems z by (auto simp: map_of_eq_None_iff)
  have "length (ds_subject_base e) = n" "length (ds_subject_effective e) = n"
    using Cons.prems(3,4) by (simp_all add: e_def)
  then have IH: "subject_value um (write_subjects um zs e) s =
      (case map_of zs s of None \<Rightarrow> subject_value um e s | Some vb \<Rightarrow> fst vb)"
    using Cons.prems(1,2) z by (intro Cons.IH) auto
  have e: "subject_value um e s = (if s = c then v else subject_value um d s)"
    using c Cons.prems(3,4) by (auto simp: subject_value_def e_def)
  have "write_subjects um (z # zs) d = write_subjects um zs e" by (simp add: z e_def)
  then show ?case using IH e z c by (cases "s = c") (auto split: option.splits)
qed simp

lemma children_distinct [simp]:
  "distinct (group_children p i)" "distinct (subject_children p i)" "distinct (root_groups p)"
  by (simp_all add: group_children_def subject_children_def root_groups_def)

lemma children_range:
  "c \<in> set (group_children p i) \<Longrightarrow> c < length (fp_groups p)"
  "s \<in> set (subject_children p i) \<Longrightarrow> s < length (fp_subjects p)"
  "r \<in> set (root_groups p) \<Longrightarrow> r < length (fp_groups p)"
  by (simp_all add: group_children_def subject_children_def root_groups_def)

lemma write_result_effect:
  assumes d: "built p d" and i: "i < length (fp_groups p)"
    and len: "length (ar_allocations r) = length (node_inputs p um i)"
      "length (ar_floor_binding r) = length (node_inputs p um i)"
  defines "d' \<equiv> write_result um (ds_nodes d ! i) r d"
  shows "same_frame um d d'"
    and "k < length (group_children p i) \<Longrightarrow> node_value um d' (group_children p i ! k) = ar_allocations r ! k"
    and "j \<notin> set (group_children p i) \<Longrightarrow> node_value um d' j = node_value um d j"
    and "k < length (subject_children p i) \<Longrightarrow> subject_value um d' (subject_children p i ! k)
         = ar_allocations r ! (length (group_children p i) + k)"
    and "s \<notin> set (subject_children p i) \<Longrightarrow> subject_value um d' s = subject_value um d s"
proof -
  let ?gc = "group_children p i" and ?sc = "subject_children p i"
  let ?zg = "zip ?gc (take (length ?gc) (ar_allocations r))"
  let ?zs = "zip ?sc (zip (drop (length ?gc) (ar_allocations r)) (drop (length ?gc) (ar_floor_binding r)))"
  have nodes: "nodes_ok p (length (fp_groups p)) (length (fp_subjects p)) (ds_nodes d)"
    using d by (simp add: built_def tree_ok_def)
  have ch: "gn_child_groups (ds_nodes d ! i) = ?gc" "gn_child_subjects (ds_nodes d ! i) = ?sc"
    using nodes i by (auto simp: nodes_ok_def node_ok_def group_children_def subject_children_def)
  have nlen: "length (ds_nodes d) = length (fp_groups p)" using nodes by (simp add: nodes_ok_def)
  define dn where "dn = d\<lparr>ds_nodes := write_nodes um ?zg (ds_nodes d)\<rparr>"
  have d': "d' = write_subjects um ?zs dn"
    by (simp add: d'_def write_result_def ch dn_def Let_def)
  have fr: "same_frame um d dn"
    using write_nodes_same by (auto simp: same_frame_def dn_def)
  note ws = write_subjects_frame [of um dn ?zs]
  show "same_frame um d d'" using same_frame_trans [OF fr] ws unfolding d' by blast
  have lens: "length (ar_allocations r) = length ?gc + length ?sc"
    "length (ar_floor_binding r) = length ?gc + length ?sc" using len by (simp_all add: node_inputs_def)
  have mg: "map fst ?zg = ?gc" "map fst ?zs = ?sc" using lens by simp_all
  have zg: "distinct (map fst ?zg)" "fst ` set ?zg \<subseteq> {..<length (ds_nodes d)}"
    using children_range(1) [of _ p i] nlen mg(1) by (auto simp flip: set_map)
  have nv: "node_value um d' j = (case map_of ?zg j of None \<Rightarrow> node_value um d j | Some v \<Rightarrow> v)" for j
  proof -
    have "ds_nodes d' = ds_nodes dn" using ws unfolding d' by blast
    then have "ds_nodes d' = write_nodes um ?zg (ds_nodes d)" by (simp add: dn_def)
    then show ?thesis unfolding node_value_def using write_nodes_value [OF zg] by simp
  qed
  have zs: "distinct (map fst ?zs)" "fst ` set ?zs \<subseteq> {..<length (fp_subjects p)}"
    using children_range(2) [of _ p i] mg(2) by (auto simp flip: set_map)
  have sv: "subject_value um d' s = (case map_of ?zs s of None \<Rightarrow> subject_value um d s | Some vb \<Rightarrow> fst vb)" for s
  proof -
    have "subject_value um dn s = subject_value um d s" by (simp add: subject_value_def dn_def)
    moreover have "length (ds_subject_base dn) = length (fp_subjects p)"
      "length (ds_subject_effective dn) = length (fp_subjects p)"
      using d by (simp_all add: built_def dn_def)
    ultimately show ?thesis using write_subjects_value [OF zs, of dn] unfolding d' by (simp cong: option.case_cong)
  qed
  have none: "j \<notin> set ?gc \<Longrightarrow> map_of ?zg j = None" "s \<notin> set ?sc \<Longrightarrow> map_of ?zs s = None" for j s
    by (simp_all only: map_of_eq_None_iff set_map [symmetric] mg not_False_eq_True)
  have some: "k < length ?gc \<Longrightarrow> map_of ?zg (?gc ! k) = Some (take (length ?gc) (ar_allocations r) ! k)"
    "k < length ?sc \<Longrightarrow> map_of ?zs (?sc ! k) = Some (zip (drop (length ?gc) (ar_allocations r))
       (drop (length ?gc) (ar_floor_binding r)) ! k)" for k
    by (rule map_of_zip_nth; simp add: lens)+
  show "k < length ?gc \<Longrightarrow> node_value um d' (?gc ! k) = ar_allocations r ! k"
    unfolding nv by (simp add: some(1))
  show "j \<notin> set ?gc \<Longrightarrow> node_value um d' j = node_value um d j"
    unfolding nv by (simp add: none(1))
  show "k < length ?sc \<Longrightarrow> subject_value um d' (?sc ! k) = ar_allocations r ! (length ?gc + k)"
    unfolding sv by (simp add: some(2) lens)
  show "s \<notin> set ?sc \<Longrightarrow> subject_value um d' s = subject_value um d s"
    unfolding sv by (simp add: none(2))
qed

section \<open>The exact distribution\<close>

text \<open>What the split rules assign to each group, independently of the order of the writes.\<close>

inductive allocated :: "FairnessPolicy \<Rightarrow> bool \<Rightarrow> u64 \<Rightarrow> nat \<Rightarrow> u64 \<Rightarrow> bool" for p um whole where
  root: "\<lbrakk>allocate_whole (root_inputs p) whole = Inr r; k < length (root_groups p)\<rbrakk>
         \<Longrightarrow> allocated p um whole (root_groups p ! k) (ar_allocations r ! k)"
| child: "\<lbrakk>allocated p um whole i a; i < length (fp_groups p); allocate_whole (node_inputs p um i) a = Inr r;
           k < length (group_children p i)\<rbrakk>
          \<Longrightarrow> allocated p um whole (group_children p i ! k) (ar_allocations r ! k)"

lemma allocatedE:
  assumes "allocated p um whole j a"
  obtains (root) r k where "allocate_whole (root_inputs p) whole = Inr r" "k < length (root_groups p)"
      "j = root_groups p ! k" "a = ar_allocations r ! k"
    | (child) i b r k where "allocated p um whole i b" "i < length (fp_groups p)"
      "allocate_whole (node_inputs p um i) b = Inr r" "k < length (group_children p i)"
      "j = group_children p i ! k" "a = ar_allocations r ! k"
  using assms by (cases rule: allocated.cases) blast+

definition subject_allocated :: "FairnessPolicy \<Rightarrow> bool \<Rightarrow> u64 \<Rightarrow> nat \<Rightarrow> u64 \<Rightarrow> bool" where
  "subject_allocated p um whole s v \<longleftrightarrow>
     (\<exists>i a r k. allocated p um whole i a \<and> i < length (fp_groups p) \<and>
        allocate_whole (node_inputs p um i) a = Inr r \<and> k < length (subject_children p i) \<and>
        s = subject_children p i ! k \<and> v = ar_allocations r ! (length (group_children p i) + k))"

lemma child_parent:
  "c \<in> set (group_children p i) \<Longrightarrow> fg_parent (group_at p c) = fg_id (group_at p i)"
  "s \<in> set (subject_children p i) \<Longrightarrow> sb_group (subject_at p s) = fg_id (group_at p i)"
  "r \<in> set (root_groups p) \<Longrightarrow> fg_parent (group_at p r) = 0"
  by (simp_all add: group_children_def subject_children_def root_groups_def)

lemma wf_group_id: "\<lbrakk>policy_wf p; i < length (fp_groups p)\<rbrakk> \<Longrightarrow> fg_id (group_at p i) \<noteq> 0"
  using nth_mem unfolding policy_wf_def group_wf_def by blast

lemma allocated_unique:
  assumes wf: "policy_wf p"
  shows "\<lbrakk>allocated p um whole j a; allocated p um whole j b\<rbrakk> \<Longrightarrow> a = b"
proof (induction arbitrary: b rule: allocated.induct)
  case (root r k)
  have par: "fg_parent (group_at p (root_groups p ! k)) = 0" using root.hyps(2) child_parent(3) by simp
  from root.prems show ?case
  proof (cases rule: allocatedE)
    case (root r' k')
    then have "k' = k" using \<open>k < length (root_groups p)\<close> by (simp add: nth_eq_iff_index_eq)
    with root \<open>allocate_whole (root_inputs p) whole = Inr r\<close> show ?thesis by simp
  next
    case (child i b' r' k')
    then have "fg_parent (group_at p (root_groups p ! k)) = fg_id (group_at p i)"
      using child_parent(1) nth_mem by metis
    then show ?thesis using par wf_group_id [OF wf] child by simp
  qed
next
  case (child i a r k)
  note hyps = child
  have par: "fg_parent (group_at p (group_children p i ! k)) = fg_id (group_at p i)"
    using child.hyps(4) child_parent(1) by simp
  from child.prems show ?case
  proof (cases rule: allocatedE)
    case (root r' k')
    then have "fg_parent (group_at p (group_children p i ! k)) = 0" using child_parent(3) nth_mem by metis
    then show ?thesis using par wf_group_id [OF wf hyps(2)] by simp
  next
    case (child i' a' r' k')
    then have "fg_parent (group_at p (group_children p i ! k)) = fg_id (group_at p i')"
      using child_parent(1) nth_mem by metis
    then have i: "i' = i" using par wf_ids_inj [OF wf] child hyps(2) by simp
    then have "k' = k" using child hyps(4) by (simp add: nth_eq_iff_index_eq)
    moreover have "a' = a" using hyps(5) child i by simp
    ultimately show ?thesis using child i hyps(3) by simp
  qed
qed

lemma subject_allocated_unique:
  assumes wf: "policy_wf p" and "subject_allocated p um whole s v" "subject_allocated p um whole s v'"
  shows "v = v'"
proof -
  obtain i a r k where 1: "allocated p um whole i a" "i < length (fp_groups p)"
    "allocate_whole (node_inputs p um i) a = Inr r" "k < length (subject_children p i)"
    "s = subject_children p i ! k" "v = ar_allocations r ! (length (group_children p i) + k)"
    using assms(2) unfolding subject_allocated_def by blast
  obtain i' a' r' k' where 2: "allocated p um whole i' a'" "i' < length (fp_groups p)"
    "allocate_whole (node_inputs p um i') a' = Inr r'" "k' < length (subject_children p i')"
    "s = subject_children p i' ! k'" "v' = ar_allocations r' ! (length (group_children p i') + k')"
    using assms(3) unfolding subject_allocated_def by blast
  have "sb_group (subject_at p s) = fg_id (group_at p i)" "sb_group (subject_at p s) = fg_id (group_at p i')"
    using child_parent(2) nth_mem 1(4,5) 2(4,5) by metis+
  then have i: "i' = i" using wf_ids_inj [OF wf] 1(2) 2(2) by simp
  then have "a' = a" "k' = k"
    using allocated_unique [OF wf] 1 2 by (auto simp: nth_eq_iff_index_eq)
  then show ?thesis using 1 2 i by simp
qed

text \<open>Every entry that changed holds the value the rules assign to it.\<close>

definition stays :: "FairnessPolicy \<Rightarrow> bool \<Rightarrow> u64 \<Rightarrow> Distributor \<Rightarrow> Distributor \<Rightarrow> bool" where
  "stays p um whole d d' \<longleftrightarrow>
     (\<forall>j. node_value um d' j \<noteq> node_value um d j \<longrightarrow> allocated p um whole j (node_value um d' j)) \<and>
     (\<forall>s. subject_value um d' s \<noteq> subject_value um d s \<longrightarrow>
        subject_allocated p um whole s (subject_value um d' s))"

lemma stays_refl [simp]: "stays p um whole d d"
  by (simp add: stays_def)

lemma stays_trans: "\<lbrakk>stays p um whole d d'; stays p um whole d' d''\<rbrakk> \<Longrightarrow> stays p um whole d d''"
  unfolding stays_def by metis

lemma stays_node:
  assumes "policy_wf p" "stays p um whole d d'" "allocated p um whole j (node_value um d j)"
  shows "node_value um d' j = node_value um d j"
  using assms allocated_unique [OF assms(1)] unfolding stays_def by metis

lemma stays_subject:
  assumes "policy_wf p" "stays p um whole d d'" "subject_allocated p um whole s (subject_value um d s)"
  shows "subject_value um d' s = subject_value um d s"
  using assms subject_allocated_unique [OF assms(1)] unfolding stays_def by metis

text \<open>A group whose split has been carried out; \<open>ovc\<close> is the overcommit flag of the pass.\<close>

definition split_done :: "FairnessPolicy \<Rightarrow> bool \<Rightarrow> u64 \<Rightarrow> bool \<Rightarrow> Distributor \<Rightarrow> nat \<Rightarrow> bool" where
  "split_done p um whole ovc d i \<longleftrightarrow>
     allocated p um whole i (node_value um d i) \<and>
     (\<exists>r. allocate_whole (node_inputs p um i) (node_value um d i) = Inr r \<and> (ar_overcommit r \<longrightarrow> ovc) \<and>
        (\<forall>k<length (group_children p i). node_value um d (group_children p i ! k) = ar_allocations r ! k) \<and>
        (\<forall>k<length (subject_children p i). subject_value um d (subject_children p i ! k)
            = ar_allocations r ! (length (group_children p i) + k)))"

lemma split_done_stays:
  assumes wf: "policy_wf p" and i: "i < length (fp_groups p)"
    and sd: "split_done p um whole ovc d i" and st: "stays p um whole d d'" and "ovc \<longrightarrow> ovc'"
  shows "split_done p um whole ovc' d' i"
proof -
  let ?gc = "group_children p i" and ?sc = "subject_children p i"
  obtain r where r: "allocated p um whole i (node_value um d i)"
    "allocate_whole (node_inputs p um i) (node_value um d i) = Inr r" "ar_overcommit r \<longrightarrow> ovc"
    and g: "\<forall>k<length ?gc. node_value um d (?gc ! k) = ar_allocations r ! k"
    and s: "\<forall>k<length ?sc. subject_value um d (?sc ! k) = ar_allocations r ! (length ?gc + k)"
    using sd by (auto simp: split_done_def)
  have ni: "node_value um d' i = node_value um d i" by (rule stays_node [OF wf st r(1)])
  have "node_value um d' (?gc ! k) = ar_allocations r ! k" if "k < length ?gc" for k
    using stays_node [OF wf st, of "?gc ! k"] allocated.child [OF r(1) i r(2) that] g that by simp
  moreover have "subject_value um d' (?sc ! k) = ar_allocations r ! (length ?gc + k)"
    if "k < length ?sc" for k
  proof -
    have "subject_allocated p um whole (?sc ! k) (ar_allocations r ! (length ?gc + k))"
      unfolding subject_allocated_def using r i that by blast
    then show ?thesis using stays_subject [OF wf st, of "?sc ! k"] s that by simp
  qed
  ultimately show ?thesis using ni r assms(5) by (auto simp: split_done_def)
qed

text \<open>The groups that a call of \<open>scatter\<close> visits, and the floors it can report as missing.\<close>

fun subtree :: "FairnessPolicy \<Rightarrow> nat \<Rightarrow> nat \<Rightarrow> nat list" where
  "subtree p 0 i = []"
| "subtree p (Suc f) i = i # concat (map (subtree p f) (group_children p i))"

definition floor_mass :: "FairnessPolicy \<Rightarrow> bool \<Rightarrow> nat list \<Rightarrow> nat" where
  "floor_mass p um js = sum_list (map (\<lambda>i. floor_total (node_inputs p um i)) js)"

lemma floor_mass_simps [simp]:
  "floor_mass p um [] = 0"
  "floor_mass p um (i # js) = floor_total (node_inputs p um i) + floor_mass p um js"
  "floor_mass p um (ks @ js) = floor_mass p um ks + floor_mass p um js"
  by (simp_all add: floor_mass_def)

lemma note_overcommit_ok:
  assumes "allocation_spec cs whole (unat whole) r"
    and "unat (ps_overcommit_shortfall pass) + floor_total cs < 2 ^ 64"
  shows "\<exists>pass'. note_overcommit r pass = Inr pass' \<and>
     (ps_overcommit pass \<longrightarrow> ps_overcommit pass') \<and> (ar_overcommit r \<longrightarrow> ps_overcommit pass') \<and>
     unat (ps_overcommit_shortfall pass') \<le> unat (ps_overcommit_shortfall pass) + floor_total cs"
proof (cases "ar_overcommit r")
  case True
  then have "unat (ar_overcommit_shortfall r) = (\<Sum>i<length cs. f_of cs i - unat (ar_allocations r ! i))"
    using assms(1) by (simp add: allocation_spec_def)
  also have "\<dots> \<le> floor_total cs" unfolding floor_total_def by (rule sum_mono) simp
  finally have le: "unat (ar_overcommit_shortfall r) \<le> floor_total cs" .
  have sum: "unat (ps_overcommit_shortfall pass) + unat (ar_overcommit_shortfall r) < 2 ^ 64"
    using le assms(2) by linarith
  show ?thesis
    using True le sum by (simp add: note_overcommit_def checked_add_exact unat_plus_exact)
qed (simp add: note_overcommit_def)


text \<open>What a completed part of a pass guarantees, for the groups \<open>xs\<close> it has visited.\<close>

definition pass_post ::
    "FairnessPolicy \<Rightarrow> bool \<Rightarrow> u64 \<Rightarrow> nat list \<Rightarrow> Distributor \<times> PassState \<Rightarrow> Distributor \<times> PassState \<Rightarrow> bool" where
  "pass_post p um whole xs st st' \<longleftrightarrow>
     same_frame um (fst st) (fst st') \<and> stays p um whole (fst st) (fst st') \<and>
     (ps_overcommit (snd st) \<longrightarrow> ps_overcommit (snd st')) \<and>
     (\<forall>x\<in>set xs. split_done p um whole (ps_overcommit (snd st')) (fst st') x) \<and>
     unat (ps_overcommit_shortfall (snd st')) \<le> unat (ps_overcommit_shortfall (snd st)) + floor_mass p um xs"

lemma pass_post_Nil: "pass_post p um whole [] st st"
  by (simp add: pass_post_def)

lemma pass_post_append:
  assumes wf: "policy_wf p" and "set xs \<subseteq> {..<length (fp_groups p)}"
    and 1: "pass_post p um whole xs st st1" and 2: "pass_post p um whole ys st1 st2"
  shows "pass_post p um whole (xs @ ys) st st2"
proof -
  have "split_done p um whole (ps_overcommit (snd st2)) (fst st2) x" if "x \<in> set xs" for x
    using split_done_stays [OF wf, of x um whole "ps_overcommit (snd st1)" "fst st1" "fst st2"] that assms(2) 1 2
    by (auto simp: pass_post_def)
  then show ?thesis using 1 2 same_frame_trans stays_trans by (auto simp: pass_post_def)
qed

definition scatter_good :: "FairnessPolicy \<Rightarrow> bool \<Rightarrow> u64 \<Rightarrow> nat \<Rightarrow> nat \<Rightarrow> bool" where
  "scatter_good p um whole f c \<longleftrightarrow>
     (\<forall>d pass. built p d \<longrightarrow> allocated p um whole c (node_value um d c) \<longrightarrow>
        unat (ps_overcommit_shortfall pass) + floor_mass p um (subtree p f c) < 2 ^ 64 \<longrightarrow>
        (\<exists>st'. scatter f p um c (node_value um d c) (d, pass) = Some (Inr st') \<and>
           pass_post p um whole (subtree p f c) (d, pass) st'))"

lemma subtree_range:
  "i < length (fp_groups p) \<Longrightarrow> set (subtree p f i) \<subseteq> {..<length (fp_groups p)}"
proof (induction f arbitrary: i)
  case (Suc f)
  then show ?case using children_range(1) by fastforce
qed simp

lemma scatter_children_ok:
  assumes wf: "policy_wf p"
  shows "\<lbrakk>\<forall>c\<in>set js. scatter_good p um whole f c \<and> c < length (fp_groups p); built p d;
     \<forall>c\<in>set js. allocated p um whole c (node_value um d c);
     unat (ps_overcommit_shortfall pass) + floor_mass p um (concat (map (subtree p f) js)) < 2 ^ 64\<rbrakk> \<Longrightarrow>
   \<exists>st'. scatter_children f p um js (d, pass) = Some (Inr st') \<and>
     pass_post p um whole (concat (map (subtree p f) js)) (d, pass) st'"
proof (induction js arbitrary: d pass)
  case Nil
  then show ?case by (simp add: pass_post_Nil)
next
  case (Cons c js)
  have good: "scatter_good p um whole f c" "\<forall>c\<in>set js. scatter_good p um whole f c \<and> c < length (fp_groups p)"
    and c: "c < length (fp_groups p)" and al: "allocated p um whole c (node_value um d c)"
    using Cons.prems(1,3) by simp_all
  have "unat (ps_overcommit_shortfall pass) + floor_mass p um (subtree p f c) < 2 ^ 64"
    using Cons.prems(4) by simp
  from good(1) [unfolded scatter_good_def, rule_format, OF Cons.prems(2) al this]
  obtain d1 pass1 where s1: "scatter f p um c (node_value um d c) (d, pass) = Some (Inr (d1, pass1))"
    and p1: "pass_post p um whole (subtree p f c) (d, pass) (d1, pass1)" by auto
  have st: "stays p um whole d d1" and fr: "same_frame um d d1"
    and sf: "unat (ps_overcommit_shortfall pass1)
       \<le> unat (ps_overcommit_shortfall pass) + floor_mass p um (subtree p f c)"
    using p1 by (simp_all add: pass_post_def)
  have b1: "built p d1" using same_frame_built [OF Cons.prems(2) fr] .
  have a1: "\<forall>c\<in>set js. allocated p um whole c (node_value um d1 c)"
  proof
    fix c assume "c \<in> set js"
    then have a: "allocated p um whole c (node_value um d c)" using Cons.prems(3) by simp
    show "allocated p um whole c (node_value um d1 c)" unfolding stays_node [OF wf st a] by (rule a)
  qed
  have "unat (ps_overcommit_shortfall pass1)
      + floor_mass p um (concat (map (subtree p f) js)) < 2 ^ 64"
    using sf Cons.prems(4) by simp
  from Cons.IH [OF good(2) b1 a1 this]
  obtain st' where s2: "scatter_children f p um js (d1, pass1) = Some (Inr st')"
    and p2: "pass_post p um whole (concat (map (subtree p f) js)) (d1, pass1) st'" by blast
  have "pass_post p um whole (concat (map (subtree p f) (c # js))) (d, pass) st'"
    using pass_post_append [OF wf subtree_range [OF c] p1 p2] by simp
  moreover have "scatter_children f p um (c # js) (d, pass) = Some (Inr st')"
    using s1 s2 by (simp add: node_value_def)
  ultimately show ?case by blast
qed

lemma inputs_for_eq:
  assumes "built p d" "i < length (fp_groups p)"
  shows "inputs_for p (ds_nodes d ! i) um = node_inputs p um i"
    and "gn_child_groups (ds_nodes d ! i) = group_children p i"
  using assms by (auto simp: inputs_for_def node_inputs_def built_def tree_ok_def nodes_ok_def node_ok_def
      group_children_def subject_children_def)

lemma child_depth:
  assumes wf: "policy_wf p" and "group_depth p (fg_id (group_at p i)) dep" "c \<in> set (group_children p i)"
    and i: "i < length (fp_groups p)"
  shows "group_depth p (fg_id (group_at p c)) (Suc dep)"
proof (rule group_depth.child)
  show "find_group p (fg_id (group_at p c)) = Some (group_at p c)"
    using wf_find_group [OF wf children_range(1) [OF assms(3)]] .
  show "id_valid (fg_parent (group_at p c))" "group_depth p (fg_parent (group_at p c)) dep"
    using assms(2) child_parent(1) [OF assms(3)] wf_group_id [OF wf i] by (simp_all add: id_valid_def)
qed

lemma wf_depth_bound:
  assumes "policy_wf p" "i < length (fp_groups p)" "group_depth p (fg_id (group_at p i)) dep"
  shows "dep \<le> 8"
proof -
  obtain d where "d \<le> 8" "group_depth p (fg_id (group_at p i)) d"
    using assms(1) nth_mem [OF assms(2)] unfolding policy_wf_def by blast
  then show ?thesis using group_depth_unique [OF assms(3)] by simp
qed

lemma scatter_all_good:
  assumes wf: "policy_wf p"
  shows "\<lbrakk>i < length (fp_groups p); group_depth p (fg_id (group_at p i)) dep; 9 \<le> dep + f\<rbrakk>
    \<Longrightarrow> scatter_good p um whole f i"
proof (induction f arbitrary: i dep)
  case 0
  then show ?case using wf_depth_bound [OF wf 0(1,2)] by simp
next
  case (Suc f)
  let ?gc = "group_children p i" and ?sc = "subject_children p i"
  have i: "i < length (fp_groups p)" by fact
  have good: "\<forall>c\<in>set ?gc. scatter_good p um whole f c \<and> c < length (fp_groups p)"
  proof (intro ballI conjI)
    fix c assume c: "c \<in> set ?gc"
    show r: "c < length (fp_groups p)" by (rule children_range(1) [OF c])
    show "scatter_good p um whole f c"
      by (rule Suc.IH [OF r child_depth [OF wf Suc.prems(2) c i]]) (use Suc.prems(3) in simp)
  qed
  show ?case unfolding scatter_good_def
  proof (intro allI impI)
    fix d :: Distributor and pass :: PassState
    assume d: "built p d" and al: "allocated p um whole i (node_value um d i)"
      and sf: "unat (ps_overcommit_shortfall pass) + floor_mass p um (subtree p (Suc f) i) < 2 ^ 64"
    let ?a = "node_value um d i"
    have ne: "node_inputs p um i \<noteq> []" using admissible_inputs(1) [OF wf i] by (simp add: admissible_def)
    obtain r where r: "allocate_whole (node_inputs p um i) ?a = Inr r"
      "allocation_spec (node_inputs p um i) ?a (unat ?a) r"
      using allocate_whole_meets_spec [OF admissible_inputs(1) [OF wf i]] by blast
    obtain pass1 where n: "note_overcommit r pass = Inr pass1"
      "ps_overcommit pass \<longrightarrow> ps_overcommit pass1" "ar_overcommit r \<longrightarrow> ps_overcommit pass1"
      "unat (ps_overcommit_shortfall pass1)
         \<le> unat (ps_overcommit_shortfall pass) + floor_total (node_inputs p um i)"
      using note_overcommit_ok [OF r(2), of pass] sf by auto
    define d1 where "d1 = write_result um (ds_nodes d ! i) r d"
    have lens: "length (ar_allocations r) = length (node_inputs p um i)"
      "length (ar_floor_binding r) = length (node_inputs p um i)"
      using r(2) by (simp_all add: allocation_spec_def)
    note ef = write_result_effect [OF d i lens, folded d1_def]
    have "stays p um whole d d1"
      unfolding stays_def
    proof (intro conjI allI impI)
      fix j assume "node_value um d1 j \<noteq> node_value um d j"
      then have "j \<in> set ?gc" using ef(3) by blast
      then obtain k where "k < length ?gc" "j = ?gc ! k" by (auto simp: in_set_conv_nth)
      then show "allocated p um whole j (node_value um d1 j)"
        using ef(2) allocated.child [OF al i r(1)] by simp
    next
      fix s assume "subject_value um d1 s \<noteq> subject_value um d s"
      then have "s \<in> set ?sc" using ef(5) by blast
      then obtain k where k: "k < length ?sc" "s = ?sc ! k" by (auto simp: in_set_conv_nth)
      then show "subject_allocated p um whole s (subject_value um d1 s)"
        unfolding subject_allocated_def using ef(4) al i r(1) by blast
    qed
    note st = this
    have ni: "node_value um d1 i = ?a" by (rule stays_node [OF wf st al])
    have "split_done p um whole (ps_overcommit pass1) d1 i"
      using al r(1) n(3) ef(2,4) ni by (auto simp: split_done_def)
    then have post1: "pass_post p um whole [i] (d, pass) (d1, pass1)"
      using ef(1) st n by (simp add: pass_post_def)
    have "\<forall>c\<in>set ?gc. allocated p um whole c (node_value um d1 c)"
      using ef(2) allocated.child [OF al i r(1)] by (auto simp: in_set_conv_nth)
    moreover have "unat (ps_overcommit_shortfall pass1)
        + floor_mass p um (concat (map (subtree p f) ?gc)) < 2 ^ 64"
      using n(4) sf by simp
    ultimately obtain st' where c: "scatter_children f p um ?gc (d1, pass1) = Some (Inr st')"
      and post2: "pass_post p um whole (concat (map (subtree p f) ?gc)) (d1, pass1) st'"
      using scatter_children_ok [OF wf good same_frame_built [OF d ef(1)]] by blast
    have "pass_post p um whole (subtree p (Suc f) i) (d, pass) st'"
      using pass_post_append [OF wf _ post1 post2] i by simp
    moreover have "scatter (Suc f) p um i ?a (d, pass) = Some (Inr st')"
      using inputs_for_eq(1) [OF d i, of um] inputs_for_eq(2) [OF d i] ne r(1) n(1) c by (simp add: d1_def Let_def)
    ultimately show "\<exists>st'. scatter (Suc f) p um i ?a (d, pass) = Some (Inr st') \<and>
        pass_post p um whole (subtree p (Suc f) i) (d, pass) st'" by blast
  qed
qed

end
