(* ===== verification/FG_Conservation.thy ===== *)
theory FG_Conservation
  imports FG_Distribute
begin

text \<open>
  The distribution of a window over the group tree as a whole (\<open>Distributor::build\<close> and
  \<open>Distributor::distribute\<close> of \<open>eval/engine.cpp\<close>): on an accepted policy it returns, conserves the window
  at every level of the tree, and honours every guarantee floor unless a pass reports an overcommit.
\<close>

section \<open>Sums along the tree\<close>

text \<open>Each group other than a root is the child of exactly one group, each subject the member of exactly
  one: sums over the children of all groups are sums over the children.\<close>

lemma sum_list_children:
  "sum_list (map f (group_children p i)) = (\<Sum>c\<in>set (group_children p i). f c)"
  "sum_list (map f (subject_children p i)) = (\<Sum>c\<in>set (subject_children p i). f c)"
  "sum_list (map f (root_groups p)) = (\<Sum>c\<in>set (root_groups p). f c)" for f :: "nat \<Rightarrow> nat"
  by (simp_all add: sum_list_distinct_conv_sum_set)

lemma wf_subject_group:
  assumes wf: "policy_wf p" and s: "s < length (fp_subjects p)"
  obtains i where "i < length (fp_groups p)" "s \<in> set (subject_children p i)"
proof -
  have "find_group p (sb_group (subject_at p s)) \<noteq> None"
    using wf nth_mem [OF s] unfolding policy_wf_def by blast
  then obtain h where "h \<in> set (fp_groups p)" "fg_id h = sb_group (subject_at p s)"
    using find_Some_iff_mem unfolding find_group_def by fastforce
  then obtain i where "i < length (fp_groups p)" "fg_id (group_at p i) = sb_group (subject_at p s)"
    by (metis in_set_conv_nth)
  then show ?thesis using s that by (simp add: subject_children_def)
qed

lemma sum_over_children:
  fixes f :: "nat \<Rightarrow> nat"
  assumes wf: "policy_wf p"
  shows "(\<Sum>i<length (fp_groups p). \<Sum>c\<in>set (group_children p i). f c) + (\<Sum>c\<in>set (root_groups p). f c)
       = (\<Sum>c<length (fp_groups p). f c)"
    and "(\<Sum>i<length (fp_groups p). \<Sum>s\<in>set (subject_children p i). f s) = (\<Sum>s<length (fp_subjects p). f s)"
proof -
  let ?n = "length (fp_groups p)" and ?G = "\<lambda>i. set (group_children p i)" and ?S = "\<lambda>i. set (subject_children p i)"
  have disj: "?G i \<inter> ?G j = {}" "?S i \<inter> ?S j = {}" if "i < ?n" "j < ?n" "i \<noteq> j" for i j
    using wf_ids_inj [OF wf that(1,2)] that(3) by (auto simp: group_children_def subject_children_def)
  have UG: "(\<Union>i<?n. ?G i) = {c. c < ?n \<and> fg_parent (group_at p c) \<noteq> 0}"
  proof (intro equalityI subsetI)
    fix c assume "c \<in> (\<Union>i<?n. ?G i)"
    then show "c \<in> {c. c < ?n \<and> fg_parent (group_at p c) \<noteq> 0}"
      using wf_group_id [OF wf] by (auto simp: group_children_def)
  next
    fix c assume "c \<in> {c. c < ?n \<and> fg_parent (group_at p c) \<noteq> 0}"
    then have c: "c < ?n" "fg_parent (group_at p c) \<noteq> 0" by auto
    obtain j where "j < ?n" "fg_id (group_at p j) = fg_parent (group_at p c)" by (rule wf_parent [OF wf c])
    then show "c \<in> (\<Union>i<?n. ?G i)" using c(1) by (auto simp: group_children_def intro!: bexI [of _ j])
  qed
  have US: "(\<Union>i<?n. ?S i) = {..<length (fp_subjects p)}"
  proof (intro equalityI subsetI)
    fix s assume "s \<in> {..<length (fp_subjects p)}"
    then have s: "s < length (fp_subjects p)" by simp
    obtain i where "i < ?n" "s \<in> ?S i" by (rule wf_subject_group [OF wf s])
    then show "s \<in> (\<Union>i<?n. ?S i)" by blast
  qed (auto simp: subject_children_def)
  have "(\<Sum>i<?n. \<Sum>c\<in>?G i. f c) = (\<Sum>c\<in>(\<Union>i<?n. ?G i). f c)"
    by (rule sum.UNION_disjoint [symmetric]) (use disj(1) in auto)
  moreover have "(\<Sum>c\<in>{c. c < ?n \<and> fg_parent (group_at p c) \<noteq> 0}. f c) + (\<Sum>c\<in>set (root_groups p). f c)
      = (\<Sum>c<?n. f c)"
    by (subst sum.union_disjoint [symmetric]) (auto simp: root_groups_def intro: sum.cong)
  ultimately show "(\<Sum>i<?n. \<Sum>c\<in>?G i. f c) + (\<Sum>c\<in>set (root_groups p). f c) = (\<Sum>c<?n. f c)"
    unfolding UG by simp
  have "(\<Sum>i<?n. \<Sum>s\<in>?S i. f s) = (\<Sum>s\<in>(\<Union>i<?n. ?S i). f s)"
    by (rule sum.UNION_disjoint [symmetric]) (use disj(2) in auto)
  then show "(\<Sum>i<?n. \<Sum>s\<in>?S i. f s) = (\<Sum>s<length (fp_subjects p). f s)" unfolding US .
qed

lemma floor_mass_concat:
  "floor_mass p um (concat (map g js)) = sum_list (map (\<lambda>j. floor_mass p um (g j)) js)"
  by (induction js) simp_all

lemma subtree_mass_bound:
  assumes wf: "policy_wf p"
  shows "(\<Sum>i<length (fp_groups p). floor_mass p um (subtree p f i)) \<le> f * (256 * (4352 * 2 ^ 40))"
proof (induction f)
  case (Suc f)
  let ?n = "length (fp_groups p)" and ?m = "\<lambda>i. floor_mass p um (subtree p f i)"
  have n: "?n \<le> 256" using wf by (simp add: policy_wf_def header_wf_def)
  have "(\<Sum>i<?n. floor_mass p um (subtree p (Suc f) i))
      = (\<Sum>i<?n. floor_total (node_inputs p um i)) + (\<Sum>i<?n. \<Sum>c\<in>set (group_children p i). ?m c)"
    by (simp add: floor_mass_concat sum_list_children sum.distrib)
  also have "\<dots> \<le> (\<Sum>i<?n. floor_total (node_inputs p um i)) + (\<Sum>i<?n. ?m i)"
    using sum_over_children(1) [OF wf, of ?m] by simp
  also have "(\<Sum>i<?n. floor_total (node_inputs p um i)) \<le> (\<Sum>i<?n. 4352 * 2 ^ 40)"
    using inputs_bounds(4) [OF wf] by (intro sum_mono) blast
  also have "\<dots> \<le> 256 * (4352 * 2 ^ 40)" using n by simp
  finally show ?case using Suc.IH by simp
qed simp

lemma subtree_closed:
  "\<lbrakk>q \<in> set (subtree p f r); c \<in> set (group_children p q)\<rbrakk> \<Longrightarrow> c \<in> set (subtree p (Suc f) r)"
proof (induction f arbitrary: r)
  case (Suc f)
  then show ?case by fastforce
qed simp

lemma all_groups_visited:
  assumes wf: "policy_wf p"
  shows "\<lbrakk>group_depth p gid d; j < length (fp_groups p); fg_id (group_at p j) = gid; d \<le> f\<rbrakk> \<Longrightarrow>
    \<exists>r\<in>set (root_groups p). j \<in> set (subtree p f r)"
proof (induction arbitrary: j f rule: group_depth.induct)
  case (root gid g)
  then have "g = group_at p j" using wf_find_group [OF wf, of j] by simp
  then have "j \<in> set (root_groups p)" using root by (simp add: root_groups_def id_valid_def)
  moreover have "j \<in> set (subtree p f j)" using root.prems(3) by (cases f) simp_all
  ultimately show ?case by blast
next
  case (child gid g d)
  then have g: "g = group_at p j" using wf_find_group [OF wf, of j] by simp
  then have "fg_parent (group_at p j) \<noteq> 0" using child.hyps(2) by (simp add: id_valid_def)
  then obtain q where q: "q < length (fp_groups p)" "fg_id (group_at p q) = fg_parent (group_at p j)"
    using wf_parent [OF wf child.prems(1)] by blast
  obtain f' where f': "f = Suc f'" "d \<le> f'" using child.prems(3) by (cases f) auto
  obtain r where r: "r \<in> set (root_groups p)" "q \<in> set (subtree p f' r)"
    using child.IH [OF q(1) _ f'(2)] q(2) g by auto
  have "j \<in> set (group_children p q)" using q child.prems(1) by (simp add: group_children_def)
  then show ?case using subtree_closed [OF r(2)] r(1) f'(1) by blast
qed

definition pass_done :: "FairnessPolicy \<Rightarrow> bool \<Rightarrow> u64 \<Rightarrow> Distributor \<Rightarrow> PassState \<Rightarrow> bool" where
  "pass_done p um whole d pass \<longleftrightarrow>
     (\<forall>i<length (fp_groups p). split_done p um whole (ps_overcommit pass) d i) \<and>
     (\<exists>r. allocate_whole (root_inputs p) whole = Inr r \<and> (ar_overcommit r \<longrightarrow> ps_overcommit pass) \<and>
        (\<forall>k<length (root_groups p). node_value um d (root_groups p ! k) = ar_allocations r ! k))"

lemma distribute_pass_ok:
  assumes wf: "policy_wf p" and d: "built p d" and pass: "ps_overcommit_shortfall pass = 0"
  shows "\<exists>d' pass'. distribute_pass p um whole (d, pass) = Some (Inr (d', pass')) \<and>
     same_frame um d d' \<and> pass_done p um whole d' pass'"
proof -
  let ?n = "length (fp_groups p)" and ?rs = "root_groups p"
  obtain r where r: "allocate_whole (root_inputs p) whole = Inr r"
    "allocation_spec (root_inputs p) whole (unat whole) r"
    using allocate_whole_meets_spec [OF admissible_inputs(2) [OF wf]] by blast
  have len: "length (ar_allocations r) = length ?rs" using r(2) by (simp add: allocation_spec_def root_inputs_def)
  have mass: "floor_mass p um (concat (map (subtree p 9) ?rs)) \<le> 9 * (256 * (4352 * 2 ^ 40))"
  proof -
    have "floor_mass p um (concat (map (subtree p 9) ?rs)) = (\<Sum>i\<in>set ?rs. floor_mass p um (subtree p 9 i))"
      by (simp add: floor_mass_concat sum_list_children)
    also have "\<dots> \<le> (\<Sum>i<?n. floor_mass p um (subtree p 9 i))"
      using children_range(3) by (intro sum_mono2) auto
    finally show ?thesis using subtree_mass_bound [OF wf, of um 9] by linarith
  qed
  have rf: "floor_total (root_inputs p) \<le> 4352 * 2 ^ 40" using inputs_bounds(4) [OF wf] by blast
  obtain pass1 where n: "note_overcommit r pass = Inr pass1" "ar_overcommit r \<longrightarrow> ps_overcommit pass1"
    "unat (ps_overcommit_shortfall pass1) \<le> floor_total (root_inputs p)"
    using note_overcommit_ok [OF r(2), of pass] rf pass by auto
  define d1 where "d1 = d\<lparr>ds_nodes := write_nodes um (zip ?rs (ar_allocations r)) (ds_nodes d)\<rparr>"
  have fr: "same_frame um d d1" using write_nodes_same by (auto simp: same_frame_def d1_def)
  have nlen: "length (ds_nodes d) = ?n" using d by (simp add: built_def tree_ok_def nodes_ok_def)
  have nv: "node_value um d1 (?rs ! k) = ar_allocations r ! k" if "k < length ?rs" for k
  proof -
    have "distinct (map fst (zip ?rs (ar_allocations r)))"
      "fst ` set (zip ?rs (ar_allocations r)) \<subseteq> {..<length (ds_nodes d)}"
      using len children_range(3) [of _ p] nlen by (auto simp flip: set_map)
    from write_nodes_value [OF this] show ?thesis
      using that len by (simp add: node_value_def d1_def map_of_zip_nth)
  qed
  have al: "\<forall>c\<in>set ?rs. allocated p um whole c (node_value um d1 c)"
    using nv allocated.root [OF r(1)] by (auto simp: in_set_conv_nth)
  have good: "\<forall>c\<in>set ?rs. scatter_good p um whole 9 c \<and> c < ?n"
  proof
    fix c assume c: "c \<in> set ?rs"
    have l: "c < ?n" by (rule children_range(3) [OF c])
    have "group_depth p (fg_id (group_at p c)) 1"
      by (rule group_depth.root [OF wf_find_group [OF wf l]]) (simp add: child_parent(3) [OF c] id_valid_def)
    from scatter_all_good [OF wf l this, of 9] show "scatter_good p um whole 9 c \<and> c < ?n" using l by simp
  qed
  have "unat (ps_overcommit_shortfall pass1) + floor_mass p um (concat (map (subtree p 9) ?rs)) < 2 ^ 64"
    using n(3) rf mass by simp
  from scatter_children_ok [OF wf good same_frame_built [OF d fr] al this]
  obtain d2 pass2 where s: "scatter_children 9 p um ?rs (d1, pass1) = Some (Inr (d2, pass2))"
    and post: "pass_post p um whole (concat (map (subtree p 9) ?rs)) (d1, pass1) (d2, pass2)" by auto
  have st: "stays p um whole d1 d2" and ov: "ps_overcommit pass1 \<longrightarrow> ps_overcommit pass2"
    using post by (simp_all add: pass_post_def)
  have "distribute_pass p um whole (d, pass) = Some (Inr (d2, pass2))"
    using d r(1) n(1) s by (simp add: distribute_pass_def built_def root_inputs_def scatter_fuel_def
        d1_def Let_def)
  moreover have "same_frame um d d2" using same_frame_trans [OF fr] post by (simp add: pass_post_def)
  moreover have "split_done p um whole (ps_overcommit pass2) d2 i" if l: "i < ?n" for i
  proof -
    obtain dep where "dep \<le> 8" "group_depth p (fg_id (group_at p i)) dep"
      using wf nth_mem [OF l] unfolding policy_wf_def by blast
    then have "i \<in> set (concat (map (subtree p 9) ?rs))"
      using all_groups_visited [OF wf _ l refl, of dep 9] by auto
    then show ?thesis using post by (auto simp: pass_post_def)
  qed
  moreover have "node_value um d2 (?rs ! k) = ar_allocations r ! k" if "k < length ?rs" for k
    using stays_node [OF wf st, of "?rs ! k"] al nth_mem [OF that] nv [OF that] by auto
  ultimately show ?thesis using r(1) n(2) ov by (auto simp: pass_done_def)
qed

text \<open>Every split conserves the value of its group, and honours the floors unless the pass reports an
  overcommit; along the tree the window is conserved.\<close>

lemma split_conserves:
  assumes wf: "policy_wf p" and i: "i < length (fp_groups p)" and sd: "split_done p um whole ovc d i"
  shows "(\<Sum>c\<in>set (group_children p i). unat (node_value um d c)) +
      (\<Sum>s\<in>set (subject_children p i). unat (subject_value um d s)) = unat (node_value um d i)"
    and "\<lbrakk>\<not> ovc; s \<in> set (subject_children p i)\<rbrakk> \<Longrightarrow>
      unat (sb_guarantee_floor (subject_at p s)) \<le> unat (subject_value um d s)"
    and "\<lbrakk>\<not> ovc; c \<in> set (group_children p i)\<rbrakk> \<Longrightarrow>
      unat (fg_guarantee_floor (group_at p c)) \<le> unat (node_value um d c)"
proof -
  let ?gc = "group_children p i" and ?sc = "subject_children p i"
  obtain r where r: "allocate_whole (node_inputs p um i) (node_value um d i) = Inr r"
      "ar_overcommit r \<longrightarrow> ovc"
      "\<forall>k<length ?gc. node_value um d (?gc ! k) = ar_allocations r ! k"
      "\<forall>k<length ?sc. subject_value um d (?sc ! k) = ar_allocations r ! (length ?gc + k)"
    using sd by (auto simp: split_done_def)
  have spec: "allocation_spec (node_inputs p um i) (node_value um d i) (unat (node_value um d i)) r"
    using allocate_whole_meets_spec [OF admissible_inputs(1) [OF wf i], of um "node_value um d i"] r(1) by auto
  have len: "length (ar_allocations r) = length ?gc + length ?sc"
    using spec by (simp add: allocation_spec_def node_inputs_def)
  have eq: "ar_allocations r = map (node_value um d) ?gc @ map (subject_value um d) ?sc"
    by (rule nth_equalityI) (use len r(3,4) in \<open>auto simp: nth_append\<close>)
  have "nsum (ar_allocations r) = unat (node_value um d i)"
    using spec by (auto simp: allocation_spec_def split: if_splits)
  then show "(\<Sum>c\<in>set ?gc. unat (node_value um d c)) + (\<Sum>s\<in>set ?sc. unat (subject_value um d s))
      = unat (node_value um d i)"
    by (simp add: eq nsum_def sum_list_children [symmetric] comp_def)
  have fl: "f_of (node_inputs p um i) k \<le> unat (ar_allocations r ! k)"
    if "\<not> ovc" "k < length ?gc + length ?sc" for k
    using spec that r(2) by (auto simp: allocation_spec_def node_inputs_def)
  show "unat (sb_guarantee_floor (subject_at p s)) \<le> unat (subject_value um d s)"
    if "\<not> ovc" "s \<in> set ?sc"
  proof -
    obtain k where k: "k < length ?sc" "?sc ! k = s" using \<open>s \<in> set ?sc\<close> by (auto simp: in_set_conv_nth)
    show ?thesis using fl [OF \<open>\<not> ovc\<close>, of "length ?gc + k"] k r(4)
      by (auto simp: node_inputs_def nth_append subject_input_def)
  qed
  show "unat (fg_guarantee_floor (group_at p c)) \<le> unat (node_value um d c)"
    if "\<not> ovc" "c \<in> set ?gc"
  proof -
    obtain k where k: "k < length ?gc" "?gc ! k = c" using \<open>c \<in> set ?gc\<close> by (auto simp: in_set_conv_nth)
    show ?thesis using fl [OF \<open>\<not> ovc\<close>, of k] k r(3)
      by (auto simp: node_inputs_def nth_append group_input_def)
  qed
qed

lemma pass_conserves:
  assumes wf: "policy_wf p" and pd: "pass_done p um whole d pass"
  shows "(\<Sum>c\<in>set (root_groups p). unat (node_value um d c)) = unat whole"
    and "(\<Sum>s<length (fp_subjects p). unat (subject_value um d s)) = unat whole"
proof -
  let ?n = "length (fp_groups p)" and ?nv = "\<lambda>c. unat (node_value um d c)" and ?sv = "\<lambda>s. unat (subject_value um d s)"
  obtain r where r: "allocate_whole (root_inputs p) whole = Inr r"
      "\<forall>k<length (root_groups p). node_value um d (root_groups p ! k) = ar_allocations r ! k"
    using pd by (auto simp: pass_done_def)
  have spec: "allocation_spec (root_inputs p) whole (unat whole) r"
    using allocate_whole_meets_spec [OF admissible_inputs(2) [OF wf], of whole] r(1) by auto
  have eq: "ar_allocations r = map (node_value um d) (root_groups p)"
    by (rule nth_equalityI) (use spec r(2) in \<open>auto simp: allocation_spec_def root_inputs_def\<close>)
  have "nsum (ar_allocations r) = unat whole"
    using spec by (auto simp: allocation_spec_def split: if_splits)
  then show root: "(\<Sum>c\<in>set (root_groups p). ?nv c) = unat whole"
    by (simp add: eq nsum_def sum_list_children [symmetric] comp_def)
  have "(\<Sum>i<?n. (\<Sum>c\<in>set (group_children p i). ?nv c) + (\<Sum>s\<in>set (subject_children p i). ?sv s))
      = (\<Sum>i<?n. ?nv i)"
    by (rule sum.cong) (use pd split_conserves(1) [OF wf] in \<open>auto simp: pass_done_def\<close>)
  then show "(\<Sum>s<length (fp_subjects p). ?sv s) = unat whole"
    using sum_over_children [OF wf, of ?nv] sum_over_children(2) [OF wf, of ?sv] root
    by (simp add: sum.distrib)
qed

text \<open>The root groups too have their floors.\<close>

lemma root_floors:
  assumes wf: "policy_wf p" and pd: "pass_done p um whole d pass" and "\<not> ps_overcommit pass"
    and c: "c \<in> set (root_groups p)"
  shows "unat (fg_guarantee_floor (group_at p c)) \<le> unat (node_value um d c)"
proof -
  obtain r where r: "allocate_whole (root_inputs p) whole = Inr r" "\<not> ar_overcommit r"
      "\<forall>k<length (root_groups p). node_value um d (root_groups p ! k) = ar_allocations r ! k"
    using pd assms(3) by (auto simp: pass_done_def)
  have spec: "allocation_spec (root_inputs p) whole (unat whole) r"
    using allocate_whole_meets_spec [OF admissible_inputs(2) [OF wf], of whole] r(1) by auto
  obtain k where k: "k < length (root_groups p)" "root_groups p ! k = c" using c by (auto simp: in_set_conv_nth)
  have "f_of (root_inputs p) k \<le> unat (ar_allocations r ! k)"
    using spec r(2) k(1) by (simp add: allocation_spec_def root_inputs_def)
  then show ?thesis using k r(3) by (auto simp: root_inputs_def group_input_def)
qed

text \<open>Both passes together: the distribution returns, and each pass is done.\<close>

lemma split_done_cong:
  assumes i: "i < length (fp_groups p)"
    and nv: "\<And>j. j < length (fp_groups p) \<Longrightarrow> node_value um d' j = node_value um d j"
    and sv: "\<And>s. subject_value um d' s = subject_value um d s"
  shows "split_done p um whole ovc d' i = split_done p um whole ovc d i"
  using nv [OF i] nv [OF children_range(1) [OF nth_mem]] by (simp add: split_done_def sv)

lemma pass_done_frame:
  assumes fr: "same_frame um d d'" and pd: "pass_done p (\<not> um) whole d pass"
    and n: "length (ds_nodes d) = length (fp_groups p)"
  shows "pass_done p (\<not> um) whole d' pass"
proof -
  have nv: "node_value (\<not> um) d' j = node_value (\<not> um) d j" if "j < length (fp_groups p)" for j
    using fr that n by (simp add: same_frame_def same_node_def node_value_def)
  have sv: "subject_value (\<not> um) d' s = subject_value (\<not> um) d s" for s
    using fr by (auto simp: same_frame_def subject_value_def)
  have "split_done p (\<not> um) whole ovc d' i = split_done p (\<not> um) whole ovc d i"
    if "i < length (fp_groups p)" for i ovc
    by (rule split_done_cong [OF that]) (use nv sv in auto)
  then show ?thesis
    using pd nv [OF children_range(3) [OF nth_mem]] by (simp add: pass_done_def)
qed

lemma distribute_ok:
  assumes wf: "policy_wf p" and d: "built p d"
    and ps: "ps_overcommit_shortfall (ds_base_pass d) = 0" "ps_overcommit_shortfall (ds_effective_pass d) = 0"
  shows "\<exists>d'. distribute p whole d = Some (Inr d') \<and> built p d' \<and>
     pass_done p False whole d' (ds_base_pass d') \<and> pass_done p True whole d' (ds_effective_pass d')"
proof -
  obtain d1 p1 where 1: "distribute_pass p False whole (d, ds_base_pass d) = Some (Inr (d1, p1))"
      "same_frame False d d1" "pass_done p False whole d1 p1"
    using distribute_pass_ok [OF wf d ps(1), of False whole] by blast
  define d1' where "d1' = d1\<lparr>ds_base_pass := p1\<rparr>"
  have b1: "built p d1'" using same_frame_built [OF d 1(2)] by (simp add: built_def d1'_def)
  have e1: "ds_effective_pass d1' = ds_effective_pass d" using 1(2) by (simp add: same_frame_def d1'_def)
  have pd1: "pass_done p False whole d1' p1"
    using 1(3) by (simp add: pass_done_def split_done_def node_value_def subject_value_def d1'_def)
  obtain d2 p2 where 2: "distribute_pass p True whole (d1', ds_effective_pass d1') = Some (Inr (d2, p2))"
      "same_frame True d1' d2" "pass_done p True whole d2 p2"
    using distribute_pass_ok [OF wf b1, of "ds_effective_pass d1'" True whole] ps(2) e1 by auto
  define d2' where "d2' = d2\<lparr>ds_effective_pass := p2\<rparr>"
  have n1: "length (ds_nodes d1') = length (fp_groups p)" using b1 by (simp add: built_def tree_ok_def nodes_ok_def)
  have "distribute p whole d = Some (Inr d2')"
    using 1(1) 2(1) by (simp add: distribute_def Let_def d1'_def d2'_def)
  moreover have "built p d2'" using same_frame_built [OF b1 2(2)] by (simp add: built_def d2'_def)
  moreover have "pass_done p False whole d2' (ds_base_pass d2')"
    using pass_done_frame [OF 2(2) _ n1, of whole p1] pd1 2(2)
    by (simp add: pass_done_def split_done_def node_value_def subject_value_def d2'_def same_frame_def d1'_def)
  moreover have "pass_done p True whole d2' (ds_effective_pass d2')"
    using 2(3) by (simp add: pass_done_def split_done_def node_value_def subject_value_def d2'_def)
  ultimately show ?thesis by blast
qed

section \<open>A concrete distribution\<close>

text \<open>One group with two subjects of weights 2 and 1; the floor of the second subject binds.\<close>

definition pair_policy :: FairnessPolicy where
  "pair_policy = sample_policy\<lparr>fp_groups := [sample_group 1 0],
     fp_subjects := [sample_subject 10 1 2 3, sample_subject 20 1 1 50]\<rparr>"

definition pair_tree :: Distributor where
  "pair_tree = \<lparr>ds_nodes = [default_node\<lparr>gn_child_subjects := [0, 1]\<rparr>], ds_by_id = [(1, 0)],
     ds_subject_base = [0, 0], ds_subject_effective = [0, 0], ds_subject_floor_binding = [0, 0],
     ds_roots = [0], ds_base_pass = default_pass, ds_effective_pass = default_pass\<rparr>"

definition pair_split :: Distributor where
  "pair_split = \<lparr>ds_nodes = [default_node\<lparr>gn_child_subjects := [0, 1], gn_allocation := 100, gn_base_allocation := 100\<rparr>],
     ds_by_id = [(1, 0)], ds_subject_base = [50, 50], ds_subject_effective = [50, 50],
     ds_subject_floor_binding = [0, 1], ds_roots = [0], ds_base_pass = default_pass,
     ds_effective_pass = default_pass\<rparr>"

lemma pair_policy_valid: "validate_policy pair_policy = Ok"
  by code_simp

lemma pair_build: "build pair_policy = Inr pair_tree"
  by code_simp

lemma pair_root: "allocate_whole [group_input (sample_group 1 0)] 100
    = Inr \<lparr>ar_allocations = [100], ar_floor_binding = [0], ar_overcommit = False, ar_overcommit_shortfall = 0\<rparr>"
  by code_simp

lemma pair_inputs: "allocate_whole [subject_input um (sample_subject 10 1 2 3), subject_input um (sample_subject 20 1 1 50)] 100
    = Inr \<lparr>ar_allocations = [50, 50], ar_floor_binding = [0, 1], ar_overcommit = False, ar_overcommit_shortfall = 0\<rparr>"
proof -
  have "allocate_whole [subject_input False (sample_subject 10 1 2 3), subject_input False (sample_subject 20 1 1 50)] 100
    = Inr \<lparr>ar_allocations = [50, 50], ar_floor_binding = [0, 1], ar_overcommit = False, ar_overcommit_shortfall = 0\<rparr>"
    by code_simp
  then show ?thesis by (cases um) (simp_all add: subject_input_def sample_subject_def)
qed

lemma pair_distribute: "distribute pair_policy 100 pair_tree = Some (Inr pair_split)"
  by (simp add: distribute_def distribute_pass_def scatter_fuel_def numeral_eq_Suc pair_root pair_inputs Let_def
      pair_policy_def pair_tree_def pair_split_def note_overcommit_def inputs_for_def write_result_def
      default_node_def node_allocation_def set_node_allocation_def sample_policy_def del: le_Suc_numeral)

section \<open>The distribution of an accepted policy\<close>

lemma distribution_done:
  assumes "validate_policy policy = Ok"
    and "build policy = Inr tree" "distribute policy whole tree = Some (Inr split)"
  shows "policy_wf policy" "built policy split" "pass_done policy False whole split (ds_base_pass split)"
    "pass_done policy True whole split (ds_effective_pass split)"
proof -
  show wf: "policy_wf policy" using assms(1) by (simp add: validate_policy_iff)
  have b: "built policy tree" "ds_base_pass tree = default_pass" "ds_effective_pass tree = default_pass"
    using build_ok [OF wf] assms(2) by auto
  have z: "ps_overcommit_shortfall (ds_base_pass tree) = 0" "ps_overcommit_shortfall (ds_effective_pass tree) = 0"
    by (simp_all add: b default_pass_def)
  show "built policy split" "pass_done policy False whole split (ds_base_pass split)"
    "pass_done policy True whole split (ds_effective_pass split)"
    using distribute_ok [OF wf b(1) z, of whole] assms(3) by auto
qed

lemma floors_honoured:
  assumes "validate_policy policy = Ok"
    and "build policy = Inr tree" "distribute policy whole tree = Some (Inr split)"
    and "\<not> ps_overcommit (ds_effective_pass split)" and s: "s < length (fp_subjects policy)"
  shows "sb_guarantee_floor (fp_subjects policy ! s) \<le> ds_subject_effective split ! s"
proof -
  note d = distribution_done [OF assms(1-3)]
  obtain i where i: "i < length (fp_groups policy)" "s \<in> set (subject_children policy i)"
    using wf_subject_group [OF d(1) s] .
  have sd: "split_done policy True whole False split i"
    using d(4) assms(4) i(1) by (simp add: pass_done_def)
  show ?thesis using split_conserves(2) [OF d(1) i(1) sd _ i(2)]
    by (simp add: subject_value_def word_le_nat_alt)
qed

text \<open>The distribution of a window over an accepted policy always returns a result: building the
  group tree succeeds, and neither the depth walk, the 128-bit arithmetic, the overcommit total nor
  the recursion of \<open>scatter\<close> (bounded here by the fuel 9) stops it.\<close>

theorem distribution_returns:
  assumes "validate_policy policy = Ok"
  shows "\<exists>tree split. build policy = Inr tree \<and> distribute policy whole tree = Some (Inr split)"
proof -
  have wf: "policy_wf policy" using assms by (simp add: validate_policy_iff)
  obtain tree where t: "build policy = Inr tree" "built policy tree" "ds_base_pass tree = default_pass"
      "ds_effective_pass tree = default_pass"
    using build_ok [OF wf] by blast
  have "\<exists>split. distribute policy whole tree = Some (Inr split)"
    using distribute_ok [OF wf t(2), of whole] t(3,4) by (auto simp: default_pass_def)
  then show ?thesis using t(1) by blast
qed

theorem distribution_returns_witness:
  "\<exists>tree split. build sample_policy = Inr tree \<and> distribute sample_policy 1000 tree = Some (Inr split)"
  by (rule distribution_returns [OF sample_policy_valid])

text \<open>C8: The distribution conserves the window: in both passes the entitlements of the subjects add
  up, over the whole forest of groups, to exactly the units that were attained.\<close>

theorem distribution_conserves_window:
  assumes "validate_policy policy = Ok"
    and "build policy = Inr tree" "distribute policy whole tree = Some (Inr split)"
  shows "nsum (ds_subject_effective split) = unat whole \<and> nsum (ds_subject_base split) = unat whole"
proof -
  note d = distribution_done [OF assms]
  have "length (ds_subject_effective split) = length (fp_subjects policy)"
    "length (ds_subject_base split) = length (fp_subjects policy)"
    using d(2) by (simp_all add: built_def)
  then show ?thesis
    using pass_conserves(2) [OF d(1,3)] pass_conserves(2) [OF d(1,4)]
    by (simp add: nsum_nth subject_value_def)
qed

theorem distribution_conserves_window_witness: "nsum [50, 50 :: u64] = unat (100 :: u64)"
  using distribution_conserves_window [OF pair_policy_valid pair_build pair_distribute]
  by (simp add: pair_split_def)

text \<open>It conserves it at every level: the allocation of a group is exactly the sum of what its child
  groups and its subjects receive, and the allocations of the root groups add up to the window.\<close>

theorem distribution_conserves_groups:
  assumes "validate_policy policy = Ok"
    and "build policy = Inr tree" "distribute policy whole tree = Some (Inr split)"
    and "i < length (fp_groups policy)"
  shows "(\<Sum>c\<in>set (gn_child_groups (ds_nodes split ! i)). unat (gn_allocation (ds_nodes split ! c))) +
      (\<Sum>s\<in>set (gn_child_subjects (ds_nodes split ! i)). unat (ds_subject_effective split ! s))
       = unat (gn_allocation (ds_nodes split ! i)) \<and>
    (\<Sum>r\<in>set (ds_roots split). unat (gn_allocation (ds_nodes split ! r))) = unat whole"
proof -
  note d = distribution_done [OF assms(1-3)]
  have "gn_child_groups (ds_nodes split ! i) = group_children policy i"
    "gn_child_subjects (ds_nodes split ! i) = subject_children policy i" "ds_roots split = root_groups policy"
    using d(2) assms(4)
    by (auto simp: built_def tree_ok_def nodes_ok_def node_ok_def group_children_def subject_children_def)
  moreover have sd: "split_done policy True whole (ps_overcommit (ds_effective_pass split)) split i"
    using d(4) assms(4) by (simp add: pass_done_def)
  ultimately show ?thesis
    using split_conserves(1) [OF d(1) assms(4) sd] pass_conserves(1) [OF d(1,4)]
    by (simp add: node_value_def subject_value_def node_allocation_def)
qed

theorem distribution_conserves_groups_witness:
  "unat (50 :: u64) + unat (50 :: u64) = unat (gn_allocation (ds_nodes pair_split ! 0))"
  using distribution_conserves_groups [OF pair_policy_valid pair_build pair_distribute, of 0]
  by (simp add: pair_split_def pair_policy_def default_node_def)

text \<open>C9: Where the policy asks for its floors to be enforced, a window whose effective pass reports no overcommit
  honours every guarantee floor: each subject and each group, the root groups included, receives at least its
  floor. (The code distributes in the same way where the policy does not ask for it.)\<close>

theorem distribution_honours_floors:
  assumes "validate_policy policy = Ok" "fp_enforce_guarantee_floors policy"
    and "build policy = Inr tree" "distribute policy whole tree = Some (Inr split)"
    and "\<not> ps_overcommit (ds_effective_pass split)"
  shows "(\<forall>s<length (fp_subjects policy).
        sb_guarantee_floor (fp_subjects policy ! s) \<le> ds_subject_effective split ! s) \<and>
     (\<forall>g<length (fp_groups policy).
        fg_guarantee_floor (fp_groups policy ! g) \<le> gn_allocation (ds_nodes split ! g))"
proof -
  note d = distribution_done [OF assms(1,3,4)]
  have sd: "split_done policy True whole False split i" if "i < length (fp_groups policy)" for i
    using d(4) assms(5) that by (simp add: pass_done_def)
  have "sb_guarantee_floor (fp_subjects policy ! s) \<le> ds_subject_effective split ! s"
    if "s < length (fp_subjects policy)" for s
    using floors_honoured [OF assms(1,3-5) that] .
  moreover have "fg_guarantee_floor (fp_groups policy ! g) \<le> gn_allocation (ds_nodes split ! g)"
    if g: "g < length (fp_groups policy)" for g
  proof (cases "fg_parent (group_at policy g) = 0")
    case True
    then have "g \<in> set (root_groups policy)" using g by (simp add: root_groups_def id_valid_def)
    from root_floors [OF d(1,4) assms(5) this] show ?thesis
      by (simp add: node_value_def node_allocation_def word_le_nat_alt)
  next
    case False
    then obtain i where i: "i < length (fp_groups policy)" "fg_id (group_at policy i) = fg_parent (group_at policy g)"
      by (rule wf_parent [OF d(1) g(1)])
    have "g \<in> set (group_children policy i)" using i(2) g(1) by (simp add: group_children_def)
    then show ?thesis using split_conserves(3) [OF d(1) i(1) sd [OF i(1)]]
      by (simp add: node_value_def node_allocation_def word_le_nat_alt)
  qed
  ultimately show ?thesis by blast
qed

theorem distribution_honours_floors_witness:
  "sb_guarantee_floor (fp_subjects pair_policy ! 1) \<le> ds_subject_effective pair_split ! 1"
proof -
  have "\<not> ps_overcommit (ds_effective_pass pair_split)" "1 < length (fp_subjects pair_policy)"
    "fp_enforce_guarantee_floors pair_policy"
    by (simp_all add: pair_split_def default_pass_def pair_policy_def sample_policy_def)
  then show ?thesis
    using distribution_honours_floors [OF pair_policy_valid _ pair_build pair_distribute] by blast
qed

end
