(* ===== verification/FG_Codec.thy ===== *)
theory FG_Codec
  imports FG_Outcome "HOL-Library.Monad_Syntax"
begin

text \<open>
  The codecs of the durable records and wire payloads (\<open>persist/codec.cpp\<close>): policies, accounting and
  evidence, and the digest of a decision. An encoder is the byte list it appends; a decoder of a part
  maps the bytes that remain to the part and the rest, or \<open>None\<close> where the buffer ends; the decoders of
  whole records return the status the code returns.
\<close>

section \<open>Definitions\<close>

definition kMaxEncodedStringBytes :: u32 where "kMaxEncodedStringBytes = 256"
definition kMaxEncodedRecords :: u32 where "kMaxEncodedRecords = 65536"
definition kFormatVersion :: u16 where "kFormatVersion = 1"

text \<open>Sequencing of decoding steps: the early returns of the decoders.\<close>

definition need :: "StatusCode \<Rightarrow> 'a option \<Rightarrow> 'a result" where
  "need code r = (case r of None \<Rightarrow> Inl code | Some x \<Rightarrow> Inr x)"

definition and_then :: "'a result \<Rightarrow> ('a \<Rightarrow> 'b result) \<Rightarrow> 'b result" where
  "and_then r f = (case r of Inl e \<Rightarrow> Inl e | Inr x \<Rightarrow> f x)"

definition put_flag :: "bool \<Rightarrow> bytes" where
  "put_flag b = put_u8 (if b then 1 else 0)"

definition get_flag :: "bytes \<Rightarrow> (bool \<times> bytes) option" where
  "get_flag r = do { (v, r) \<leftarrow> get_u8 r; Some (v \<noteq> 0, r) }"

definition get_count :: "u32 \<Rightarrow> bytes \<Rightarrow> (nat \<times> bytes) result" where
  "get_count bound r =
     (case get_u32 r of
        None \<Rightarrow> Inl Truncated
      | Some (n, r) \<Rightarrow> if bound < n then Inl LimitExceeded else Inr (unat n, r))"

definition write_provenance :: "Provenance \<Rightarrow> bytes" where
  "write_provenance p = put_u64 (pv_revision p) @ put_blob (pv_source p) @
     put_u64 (pv_source_digest p) @ put_i64 (pv_captured_at_ns p)"

definition read_provenance :: "bytes \<Rightarrow> (Provenance \<times> bytes) option" where
  "read_provenance r = do {
     (revision, r) \<leftarrow> get_u64 r;
     (source, r) \<leftarrow> get_blob kMaxEncodedStringBytes r;
     (digest, r) \<leftarrow> get_u64 r;
     (captured, r) \<leftarrow> get_i64 r;
     Some (\<lparr>pv_revision = revision, pv_source = source, pv_source_digest = digest,
        pv_captured_at_ns = captured\<rparr>, r) }"

definition write_priority :: "PriorityClassRef \<Rightarrow> bytes" where
  "write_priority x = put_u64 (pr_id x) @ put_u64 (pr_generation x)"

definition read_priority :: "bytes \<Rightarrow> (PriorityClassRef \<times> bytes) option" where
  "read_priority r = do {
     (i, r) \<leftarrow> get_u64 r; (g, r) \<leftarrow> get_u64 r; Some (\<lparr>pr_id = i, pr_generation = g\<rparr>, r) }"

definition write_qos :: "QosClassRef \<Rightarrow> bytes" where
  "write_qos x = put_u64 (qos_id x) @ put_u64 (qos_generation x)"

definition read_qos :: "bytes \<Rightarrow> (QosClassRef \<times> bytes) option" where
  "read_qos r = do {
     (i, r) \<leftarrow> get_u64 r; (g, r) \<leftarrow> get_u64 r; Some (\<lparr>qos_id = i, qos_generation = g\<rparr>, r) }"

definition digest_bytes :: "bytes \<Rightarrow> u64" where
  "digest_bytes bytes = checksum64 bytes"

subsection \<open>Policies\<close>

definition put_policy_fields :: "FairnessPolicy \<Rightarrow> bytes" where
  "put_policy_fields p = put_u64 (fp_id p) @ put_u64 (fp_generation p) @ put_u64 (fp_epoch p) @
     put_u64 (fp_window_units p) @ put_u64 (fp_fair_band_units p) @
     put_u64 (fp_correction_threshold_units p) @ put_u32 (fp_cooldown_windows p) @
     put_u64 (fp_max_correction_units p) @ put_u32 (fp_max_correction_bps p) @
     put_u32 (fp_max_priority_modifier_bps p) @ put_u32 (fp_max_evidence_age_windows p) @
     put_u64 (fp_max_evidence_age_ns p) @ put_u64 (fp_max_carry_units p) @
     put_flag (fp_enforce_guarantee_floors p)"

definition put_group :: "FairnessGroup \<Rightarrow> bytes" where
  "put_group g = put_u64 (fg_id g) @ put_u64 (fg_generation g) @ put_u64 (fg_parent g) @
     put_u32 (fg_share_weight g) @ put_u64 (fg_guarantee_floor g) @ put_u32 (fg_obligation_rank g) @
     put_flag (fg_protected_obligation g) @ put_blob (fg_label g)"

definition put_subject :: "Subject \<Rightarrow> bytes" where
  "put_subject s = put_u64 (sb_id s) @ put_u64 (sb_generation s) @ put_u64 (sb_group s) @
     put_u64 (sb_tenant s) @ put_u32 (sb_share_weight s) @ put_u64 (sb_guarantee_floor s) @
     put_u32 (sb_starvation_windows s) @ put_u32 (sb_guarantee_starvation_windows s) @
     write_priority (sb_priority s) @ write_qos (sb_qos s) @ put_u32 (sb_priority_modifier_bps s) @
     put_u32 (sb_priority_rank s) @ put_u32 (sb_obligation_rank s) @
     put_flag (sb_protected_obligation s) @ put_u64 (sb_max_reduce_units s) @
     put_u64 (sb_max_augment_units s) @ put_blob (sb_label s)"

definition encode_policy :: "FairnessPolicy \<Rightarrow> bytes" where
  "encode_policy p = put_u16 kFormatVersion @ put_policy_fields p @ write_provenance (fp_provenance p) @
     put_u32 (of_nat (length (fp_groups p))) @ concat (map put_group (fp_groups p)) @
     put_u32 (of_nat (length (fp_subjects p))) @ concat (map put_subject (fp_subjects p))"

text \<open>The scalar fields; the lists and the provenance are filled in by later steps.\<close>

definition get_policy_fields :: "bytes \<Rightarrow> (FairnessPolicy \<times> bytes) option" where
  "get_policy_fields r = do {
     (i, r) \<leftarrow> get_u64 r;
     (generation, r) \<leftarrow> get_u64 r;
     (epoch, r) \<leftarrow> get_u64 r;
     (window_units, r) \<leftarrow> get_u64 r;
     (fair_band, r) \<leftarrow> get_u64 r;
     (threshold, r) \<leftarrow> get_u64 r;
     (cooldown, r) \<leftarrow> get_u32 r;
     (max_units, r) \<leftarrow> get_u64 r;
     (max_bps, r) \<leftarrow> get_u32 r;
     (max_modifier, r) \<leftarrow> get_u32 r;
     (max_age, r) \<leftarrow> get_u32 r;
     (max_age_ns, r) \<leftarrow> get_u64 r;
     (max_carry, r) \<leftarrow> get_u64 r;
     (enforce, r) \<leftarrow> get_flag r;
     Some (\<lparr>fp_id = i, fp_generation = generation, fp_epoch = epoch, fp_window_units = window_units,
       fp_fair_band_units = fair_band, fp_correction_threshold_units = threshold,
       fp_cooldown_windows = cooldown, fp_max_correction_units = max_units,
       fp_max_correction_bps = max_bps, fp_max_priority_modifier_bps = max_modifier,
       fp_max_evidence_age_windows = max_age, fp_max_evidence_age_ns = max_age_ns,
       fp_max_carry_units = max_carry, fp_enforce_guarantee_floors = enforce, fp_groups = [],
       fp_subjects = [], fp_provenance = \<lparr>pv_revision = 0, pv_source = [], pv_source_digest = 0,
         pv_captured_at_ns = 0\<rparr>\<rparr>, r) }"

definition get_group :: "bytes \<Rightarrow> (FairnessGroup \<times> bytes) option" where
  "get_group r = do {
     (i, r) \<leftarrow> get_u64 r;
     (generation, r) \<leftarrow> get_u64 r;
     (parent, r) \<leftarrow> get_u64 r;
     (weight, r) \<leftarrow> get_u32 r;
     (floor_units, r) \<leftarrow> get_u64 r;
     (rank, r) \<leftarrow> get_u32 r;
     (protected, r) \<leftarrow> get_flag r;
     (label, r) \<leftarrow> get_blob kMaxEncodedStringBytes r;
     Some (\<lparr>fg_id = i, fg_generation = generation, fg_parent = parent, fg_share_weight = weight,
       fg_guarantee_floor = floor_units, fg_obligation_rank = rank,
       fg_protected_obligation = protected, fg_label = label\<rparr>, r) }"

definition get_subject :: "bytes \<Rightarrow> (Subject \<times> bytes) option" where
  "get_subject r = do {
     (i, r) \<leftarrow> get_u64 r;
     (generation, r) \<leftarrow> get_u64 r;
     (owner, r) \<leftarrow> get_u64 r;
     (tenant, r) \<leftarrow> get_u64 r;
     (weight, r) \<leftarrow> get_u32 r;
     (floor_units, r) \<leftarrow> get_u64 r;
     (starvation, r) \<leftarrow> get_u32 r;
     (floor_starvation, r) \<leftarrow> get_u32 r;
     (priority, r) \<leftarrow> read_priority r;
     (qos, r) \<leftarrow> read_qos r;
     (modifier, r) \<leftarrow> get_u32 r;
     (priority_rank, r) \<leftarrow> get_u32 r;
     (rank, r) \<leftarrow> get_u32 r;
     (protected, r) \<leftarrow> get_flag r;
     (max_reduce, r) \<leftarrow> get_u64 r;
     (max_augment, r) \<leftarrow> get_u64 r;
     (label, r) \<leftarrow> get_blob kMaxEncodedStringBytes r;
     Some (\<lparr>sb_id = i, sb_generation = generation, sb_group = owner, sb_tenant = tenant,
       sb_share_weight = weight, sb_guarantee_floor = floor_units,
       sb_starvation_windows = starvation, sb_guarantee_starvation_windows = floor_starvation,
       sb_priority = priority, sb_qos = qos, sb_priority_modifier_bps = modifier,
       sb_priority_rank = priority_rank, sb_obligation_rank = rank,
       sb_protected_obligation = protected, sb_max_reduce_units = max_reduce,
       sb_max_augment_units = max_augment, sb_label = label\<rparr>, r) }"

text \<open>The end of a record: nothing may follow it, and what was read must be a legal object.\<close>

definition finish_policy :: "FairnessPolicy \<Rightarrow> bytes \<Rightarrow> FairnessPolicy result" where
  "finish_policy p r =
     (if r \<noteq> [] then Inl CorruptRecord
      else if validate_policy p \<noteq> Ok then Inl (validate_policy p) else Inr p)"

definition decode_policy :: "bytes \<Rightarrow> FairnessPolicy result" where
  "decode_policy bytes =
     (if unat kMaxDurablePayloadBytes < length bytes then Inl OversizedPayload
      else and_then (need Truncated (get_u16 bytes)) (\<lambda>(version, r).
        if version \<noteq> kFormatVersion then Inl UnsupportedFormat
        else and_then (need Truncated (get_policy_fields r)) (\<lambda>(policy, r).
          and_then (need Truncated (read_provenance r)) (\<lambda>(provenance, r).
          and_then (get_count kMaxGroups r) (\<lambda>(group_count, r).
          and_then (need Truncated (get_many get_group group_count r)) (\<lambda>(groups, r).
          and_then (get_count kMaxSubjects r) (\<lambda>(subject_count, r).
          and_then (need Truncated (get_many get_subject subject_count r)) (\<lambda>(subjects, r).
            finish_policy (policy\<lparr>fp_provenance := provenance, fp_groups := groups,
              fp_subjects := subjects\<rparr>) r))))))))"

subsection \<open>Accounting\<close>

definition put_accounting_fields :: "FairnessAccounting \<Rightarrow> bytes" where
  "put_accounting_fields a = put_u64 (ac_policy_id a) @ put_u64 (ac_policy_generation a) @
     put_u64 (ac_epoch a) @ put_u64 (ac_generation a) @ put_u64 (ac_intervention_generation a) @
     put_u64 (ac_last_window a) @ put_u64 (ac_last_window_generation a) @ put_u64 (ac_writer_boot a)"

definition put_entry :: "SubjectAccounting \<Rightarrow> bytes" where
  "put_entry e = put_u64 (sa_id e) @ put_u64 (sa_generation e) @ put_u64 (sa_cumulative_deficit e) @
     put_u64 (sa_cumulative_surplus e) @ put_u64 (sa_discarded_deficit e) @
     put_u64 (sa_discarded_surplus e) @ put_u32 (sa_unserved_streak e) @
     put_u32 (sa_below_floor_streak e) @ put_u64 (sa_windows_observed e) @
     put_u64 (sa_total_served_units e) @ put_u64 (sa_last_correction_window e) @
     put_u64 (sa_last_correction_generation e)"

definition encode_accounting :: "FairnessAccounting \<Rightarrow> bytes" where
  "encode_accounting a = put_u16 kFormatVersion @ put_accounting_fields a @
     put_u32 (of_nat (length (ac_subjects a))) @ concat (map put_entry (ac_subjects a))"

definition get_accounting_fields :: "bytes \<Rightarrow> (FairnessAccounting \<times> bytes) option" where
  "get_accounting_fields r = do {
     (policy_id, r) \<leftarrow> get_u64 r;
     (policy_generation, r) \<leftarrow> get_u64 r;
     (epoch, r) \<leftarrow> get_u64 r;
     (generation, r) \<leftarrow> get_u64 r;
     (intervention, r) \<leftarrow> get_u64 r;
     (window, r) \<leftarrow> get_u64 r;
     (window_generation, r) \<leftarrow> get_u64 r;
     (boot, r) \<leftarrow> get_u64 r;
     Some (\<lparr>ac_policy_id = policy_id, ac_policy_generation = policy_generation, ac_epoch = epoch,
       ac_generation = generation, ac_intervention_generation = intervention,
       ac_last_window = window, ac_last_window_generation = window_generation,
       ac_writer_boot = boot, ac_subjects = []\<rparr>, r) }"

definition get_entry :: "bytes \<Rightarrow> (SubjectAccounting \<times> bytes) option" where
  "get_entry r = do {
     (i, r) \<leftarrow> get_u64 r;
     (generation, r) \<leftarrow> get_u64 r;
     (deficit, r) \<leftarrow> get_u64 r;
     (surplus, r) \<leftarrow> get_u64 r;
     (discarded_deficit, r) \<leftarrow> get_u64 r;
     (discarded_surplus, r) \<leftarrow> get_u64 r;
     (unserved, r) \<leftarrow> get_u32 r;
     (below, r) \<leftarrow> get_u32 r;
     (windows, r) \<leftarrow> get_u64 r;
     (served, r) \<leftarrow> get_u64 r;
     (window, r) \<leftarrow> get_u64 r;
     (intervention, r) \<leftarrow> get_u64 r;
     Some (\<lparr>sa_id = i, sa_generation = generation, sa_cumulative_deficit = deficit,
       sa_cumulative_surplus = surplus, sa_discarded_deficit = discarded_deficit,
       sa_discarded_surplus = discarded_surplus, sa_unserved_streak = unserved,
       sa_below_floor_streak = below, sa_windows_observed = windows,
       sa_total_served_units = served, sa_last_correction_window = window,
       sa_last_correction_generation = intervention\<rparr>, r) }"

definition check_entry :: "Id list \<Rightarrow> SubjectAccounting \<Rightarrow> StatusCode" where
  "check_entry seen e =
     (if kMaxCarryUnits < sa_cumulative_deficit e \<or> kMaxCarryUnits < sa_cumulative_surplus e then OutOfRange
      else if 1000000 < sa_unserved_streak e \<or> 1000000 < sa_below_floor_streak e then OutOfRange
      else if sa_id e \<in> set seen then Duplicate
      else Ok)"

fun get_entries :: "nat \<Rightarrow> bytes \<Rightarrow> Id list \<Rightarrow> (SubjectAccounting list \<times> bytes) result" where
  "get_entries 0 r seen = Inr ([], r)"
| "get_entries (Suc n) r seen =
     (case get_entry r of
        None \<Rightarrow> Inl Truncated
      | Some (e, r) \<Rightarrow>
          (if check_entry seen e \<noteq> Ok then Inl (check_entry seen e)
           else case get_entries n r (sa_id e # seen) of
                  Inl code \<Rightarrow> Inl code
                | Inr (es, r) \<Rightarrow> Inr (e # es, r)))"

definition decode_accounting :: "bytes \<Rightarrow> FairnessAccounting result" where
  "decode_accounting bytes =
     (if unat kMaxDurablePayloadBytes < length bytes then Inl OversizedPayload
      else and_then (need Truncated (get_u16 bytes)) (\<lambda>(version, r).
        if version \<noteq> kFormatVersion then Inl UnsupportedFormat
        else and_then (need Truncated (get_accounting_fields r)) (\<lambda>(accounting, r).
          and_then (get_count kMaxEncodedRecords r) (\<lambda>(count, r).
          and_then (get_entries count r []) (\<lambda>(entries, r).
            if r \<noteq> [] then Inl CorruptRecord else Inr (accounting\<lparr>ac_subjects := entries\<rparr>))))))"

subsection \<open>Evidence\<close>

definition put_evidence_fields :: "EvidenceSnapshot \<Rightarrow> bytes" where
  "put_evidence_fields s = put_u64 (ev_id s) @ put_u64 (ev_generation s) @ put_u64 (ev_window s) @
     put_u64 (ev_window_generation s) @ put_u64 (ev_epoch s) @ put_i64 (ev_captured_at_ns s) @
     put_u64 (ev_sequence s) @ put_blob (pd_name (ev_producer s)) @ put_u64 (pd_instance (ev_producer s)) @
     put_u64 (pd_version (ev_producer s)) @ write_provenance (ev_provenance s) @
     put_u64 (ev_declared_digest s)"

definition put_observation :: "SubjectObservation \<Rightarrow> bytes" where
  "put_observation ob = put_u64 (ob_id ob) @ put_u64 (ob_generation ob) @ put_u64 (ob_served_units ob) @
     put_u32 (ob_unserved_streak ob) @ put_u32 (ob_below_floor_streak ob) @
     write_priority (ob_priority ob) @ write_qos (ob_qos ob)"

definition encode_evidence :: "EvidenceSnapshot \<Rightarrow> bytes" where
  "encode_evidence s = put_u16 kFormatVersion @ put_evidence_fields s @
     put_u32 (of_nat (length (ev_observations s))) @ concat (map put_observation (ev_observations s))"

definition get_evidence_fields :: "bytes \<Rightarrow> (EvidenceSnapshot \<times> bytes) option" where
  "get_evidence_fields r = do {
     (i, r) \<leftarrow> get_u64 r;
     (generation, r) \<leftarrow> get_u64 r;
     (window, r) \<leftarrow> get_u64 r;
     (window_generation, r) \<leftarrow> get_u64 r;
     (epoch, r) \<leftarrow> get_u64 r;
     (captured, r) \<leftarrow> get_i64 r;
     (sequence, r) \<leftarrow> get_u64 r;
     (name, r) \<leftarrow> get_blob kMaxEncodedStringBytes r;
     (inst, r) \<leftarrow> get_u64 r;
     (version, r) \<leftarrow> get_u64 r;
     (provenance, r) \<leftarrow> read_provenance r;
     (digest, r) \<leftarrow> get_u64 r;
     Some (\<lparr>ev_id = i, ev_generation = generation, ev_window = window,
       ev_window_generation = window_generation, ev_epoch = epoch, ev_captured_at_ns = captured,
       ev_sequence = sequence,
       ev_producer = \<lparr>pd_name = name, pd_instance = inst, pd_version = version\<rparr>,
       ev_provenance = provenance, ev_declared_digest = digest, ev_observations = []\<rparr>, r) }"

definition get_observation :: "bytes \<Rightarrow> (SubjectObservation \<times> bytes) option" where
  "get_observation r = do {
     (i, r) \<leftarrow> get_u64 r;
     (generation, r) \<leftarrow> get_u64 r;
     (served, r) \<leftarrow> get_u64 r;
     (unserved, r) \<leftarrow> get_u32 r;
     (below, r) \<leftarrow> get_u32 r;
     (priority, r) \<leftarrow> read_priority r;
     (qos, r) \<leftarrow> read_qos r;
     Some (\<lparr>ob_id = i, ob_generation = generation, ob_served_units = served,
       ob_unserved_streak = unserved, ob_below_floor_streak = below, ob_priority = priority,
       ob_qos = qos\<rparr>, r) }"

definition finish_evidence :: "EvidenceSnapshot \<Rightarrow> bytes \<Rightarrow> EvidenceSnapshot result" where
  "finish_evidence s r =
     (if r \<noteq> [] then Inl CorruptRecord
      else if validate_evidence s \<noteq> Ok then Inl (validate_evidence s) else Inr s)"

text \<open>The count is the last field of the same chain of reads: a buffer that ends there is truncated.\<close>

definition decode_evidence :: "bytes \<Rightarrow> EvidenceSnapshot result" where
  "decode_evidence bytes =
     (if unat kMaxDurablePayloadBytes < length bytes then Inl OversizedPayload
      else and_then (need Truncated (get_u16 bytes)) (\<lambda>(version, r).
        if version \<noteq> kFormatVersion then Inl UnsupportedFormat
        else and_then (need Truncated (get_evidence_fields r)) (\<lambda>(snapshot, r).
          and_then (get_count kMaxEvidenceRecords r) (\<lambda>(count, r).
          and_then (need Truncated (get_many get_observation count r)) (\<lambda>(observations, r).
            finish_evidence (snapshot\<lparr>ev_observations := observations\<rparr>) r)))))"

subsection \<open>Digests\<close>

definition policy_digest :: "FairnessPolicy \<Rightarrow> u64" where
  "policy_digest policy = digest_bytes (encode_policy policy)"

definition evidence_digest :: "EvidenceSnapshot \<Rightarrow> u64" where
  "evidence_digest snapshot = digest_bytes (encode_evidence snapshot)"

definition put_authority :: "AuthorityVector \<Rightarrow> bytes" where
  "put_authority a = put_u64 (av_policy_id a) @ put_u64 (av_policy_generation a) @ put_u64 (av_epoch a) @
     put_u64 (av_evidence_id a) @ put_u64 (av_evidence_generation a) @ put_u64 (av_window a) @
     put_u64 (av_window_generation a) @ put_u64 (av_accounting_generation a) @
     put_u64 (av_request_id a) @ put_u32 (av_attempt a)"

definition put_subject_state :: "SubjectFairnessState \<Rightarrow> bytes" where
  "put_subject_state s = put_u64 (ss_id s) @ put_u64 (ss_generation s) @ put_u64 (ss_group s) @
     put_u8 (of_nat (outcome_rank (ss_outcome s))) @ put_u16 (reason_value (ss_reason s)) @
     put_flag (ss_has_authority s) @ put_u64 (ss_entitlement_units s) @
     put_u64 (ss_base_entitlement_units s) @ put_u64 (ss_group_entitlement_units s) @
     put_u64 (ss_served_units s) @ put_i64 (ss_deviation_units s) @ put_u64 (ss_deficit_units s) @
     put_u64 (ss_surplus_units s) @ put_u64 (ss_cumulative_deficit_after s) @
     put_u64 (ss_cumulative_surplus_after s) @ put_u32 (ss_unserved_streak s) @
     put_u32 (ss_below_floor_streak s) @ put_u64 (ss_proposed_augment_units s) @
     put_u64 (ss_proposed_reduce_units s) @ put_u64 (ss_unsatisfied_demand_units s) @
     put_i64 (ss_priority_delta_units s) @ put_u32 (ss_applied_modifier_bps s)"

definition put_group_state :: "GroupFairnessState \<Rightarrow> bytes" where
  "put_group_state s = put_u64 (gs_id s) @ put_u64 (gs_generation s) @ put_u64 (gs_entitlement_units s) @
     put_u64 (gs_served_units s) @ put_i64 (gs_deviation_units s) @ put_flag (gs_withheld_correction s)"

definition put_intent :: "CorrectiveIntent \<Rightarrow> bytes" where
  "put_intent i = put_u64 (ci_id i) @ put_u64 (ci_generation i) @ put_u8 (direction_value (ci_direction i)) @
     put_u64 (ci_subject i) @ put_u64 (ci_units i) @ put_u8 (bound_value (ci_bound i)) @
     put_u16 (reason_value (ci_reason i)) @ put_flag (ci_from_starvation i)"

definition put_correction :: "CorrectionSummary \<Rightarrow> bytes" where
  "put_correction c = put_u64 (cs_reducible_pool_units c) @ put_u64 (cs_demand_units c) @
     put_u64 (cs_authorized_budget_units c) @ put_u64 (cs_augment_units c) @
     put_u64 (cs_reduce_units c) @ put_u64 (cs_withheld_units c) @
     put_u64 (cs_unsatisfied_demand_units c) @ put_flag (cs_protected_obligation_blocked c) @
     put_flag (cs_authority_missing c)"

text \<open>The outcomes are numbered in the order of their rank.\<close>

definition decision_digest :: "FairnessDecision \<Rightarrow> u64" where
  "decision_digest d = digest_bytes
     (put_authority (fd_authority d) @ put_u8 (of_nat (outcome_rank (fd_outcome d))) @
      concat (map put_subject_state (fd_subjects d)) @ concat (map put_group_state (fd_groups d)) @
      concat (map put_intent (fd_intents d)) @ put_correction (fd_correction d))"


section \<open>Each part of a record is a wire format\<close>

lemma and_then_simps [simp]: "and_then (Inl e) f = Inl e" "and_then (Inr x) f = f x"
  by (simp_all add: and_then_def)

lemma need_simps [simp]: "need c None = Inl c" "need c (Some x) = Inr x"
  by (simp_all add: need_def)

lemma get_put_flag [simp]: "get_flag (put_flag b @ r) = Some (b, r)"
  by (simp add: get_flag_def put_flag_def)

lemma put_flag_length [simp]: "length (put_flag b) = 1"
  by (simp add: put_flag_def)

lemma string_limit [simp]: "unat kMaxEncodedStringBytes = 256"
  by (simp add: kMaxEncodedStringBytes_def)

lemma get_count_put: "n \<le> unat bound \<Longrightarrow> get_count bound (put_u32 (of_nat n) @ r) = Inr (n, r)"
proof -
  assume n: "n \<le> unat bound"
  then have "unat (of_nat n :: u32) = n" using unat_bounded [of bound] by (intro unat_of_nat_exact) simp
  then show ?thesis using n by (simp add: get_count_def word_less_nat_alt)
qed

interpretation wire_provenance: wire_format "\<lambda>p. length (pv_source p) \<le> 256" write_provenance read_provenance
  by unfold_locales (simp add: write_provenance_def read_provenance_def)

interpretation wire_priority: wire_format "\<lambda>_. True" write_priority read_priority
  by unfold_locales (simp add: write_priority_def read_priority_def)

interpretation wire_qos: wire_format "\<lambda>_. True" write_qos read_qos
  by unfold_locales (simp add: write_qos_def read_qos_def)

lemmas get_put_refs [simp] = wire_provenance.get_put wire_priority.get_put [OF TrueI] wire_qos.get_put [OF TrueI]

interpretation wire_group: wire_format "\<lambda>g. length (fg_label g) \<le> 256" put_group get_group
  by unfold_locales (simp add: put_group_def get_group_def)

interpretation wire_subject: wire_format "\<lambda>s. length (sb_label s) \<le> 256" put_subject get_subject
  by unfold_locales (simp add: put_subject_def get_subject_def)

interpretation wire_entry: wire_format "\<lambda>_. True" put_entry get_entry
  by unfold_locales (simp add: put_entry_def get_entry_def)

interpretation wire_observation: wire_format "\<lambda>_. True" put_observation get_observation
  by unfold_locales (simp add: put_observation_def get_observation_def)

lemma get_put_policy_fields: "get_policy_fields (put_policy_fields p @ r)
    = Some (p\<lparr>fp_groups := [], fp_subjects := [], fp_provenance := \<lparr>pv_revision = 0, pv_source = [],
        pv_source_digest = 0, pv_captured_at_ns = 0\<rparr>\<rparr>, r)"
  by (simp add: put_policy_fields_def get_policy_fields_def)

lemma get_put_accounting_fields:
  "get_accounting_fields (put_accounting_fields a @ r) = Some (a\<lparr>ac_subjects := []\<rparr>, r)"
  by (simp add: put_accounting_fields_def get_accounting_fields_def)

lemma get_put_evidence_fields:
  "\<lbrakk>length (pd_name (ev_producer s)) \<le> 256; length (pv_source (ev_provenance s)) \<le> 256\<rbrakk> \<Longrightarrow>
   get_evidence_fields (put_evidence_fields s @ r) = Some (s\<lparr>ev_observations := []\<rparr>, r)"
  by (simp add: put_evidence_fields_def get_evidence_fields_def)

section \<open>Sizes\<close>

lemma length_concat_bound:
  "\<forall>x\<in>set xs. length (f x) \<le> b \<Longrightarrow> length (concat (map f xs)) \<le> length xs * b"
  by (induction xs) (simp_all add: add_mono)

lemma length_write_refs [simp]:
  "length (write_provenance p) = 28 + length (pv_source p)"
  "length (write_priority x) = 16" "length (write_qos y) = 16"
  by (simp_all add: write_provenance_def write_priority_def write_qos_def)

lemma length_put_records:
  "length (put_group g) = 45 + length (fg_label g)" "length (put_subject s) = 117 + length (sb_label s)"
  "length (put_entry e) = 88" "length (put_observation ob) = 64"
  by (simp_all add: put_group_def put_subject_def put_entry_def put_observation_def)

lemma wf_string_bounds:
  assumes "policy_wf p"
  shows "length (pv_source (fp_provenance p)) \<le> 128" "\<forall>g\<in>set (fp_groups p). length (fg_label g) \<le> 128"
    "\<forall>s\<in>set (fp_subjects p). length (sb_label s) \<le> 128" "length (fp_groups p) \<le> 256"
    "length (fp_subjects p) \<le> 4096"
  using assms by (auto simp: policy_wf_def header_wf_def group_wf_def subject_wf_def kMaxLabelBytes_def)

lemma encoded_policy_fits:
  assumes wf: "policy_wf p"
  shows "length (encode_policy p) \<le> 4194304"
proof -
  note b = wf_string_bounds [OF wf]
  have "length (concat (map put_group (fp_groups p))) \<le> length (fp_groups p) * 173"
    using b(2) by (intro length_concat_bound) (simp add: length_put_records)
  also have "\<dots> \<le> 256 * 173" using b(4) by simp
  finally have g: "length (concat (map put_group (fp_groups p))) \<le> 256 * 173" .
  have "length (concat (map put_subject (fp_subjects p))) \<le> length (fp_subjects p) * 245"
    using b(3) by (intro length_concat_bound) (simp add: length_put_records)
  also have "\<dots> \<le> 4096 * 245" using b(5) by simp
  finally have s: "length (concat (map put_subject (fp_subjects p))) \<le> 4096 * 245" .
  show ?thesis using g s b(1) by (simp add: encode_policy_def put_policy_fields_def del: length_concat)
qed

lemma encoded_evidence_fits:
  assumes wf: "evidence_wf s"
  shows "length (encode_evidence s) \<le> 4194304"
proof -
  have b: "length (pd_name (ev_producer s)) \<le> 128" "length (pv_source (ev_provenance s)) \<le> 128"
    "length (ev_observations s) \<le> 4096"
    using wf by (auto simp: evidence_wf_def kMaxProducerNameBytes_def kMaxProvenanceSourceBytes_def)
  have "length (concat (map put_observation (ev_observations s))) \<le> length (ev_observations s) * 64"
    by (intro length_concat_bound) (simp add: length_put_records)
  then show ?thesis using b
    by (simp add: encode_evidence_def put_evidence_fields_def del: length_concat)
qed

lemma encoded_accounting_length: "length (encode_accounting a) = 70 + 88 * length (ac_subjects a)"
proof -
  have "length (concat (map put_entry es)) = 88 * length es" for es
    by (induction es) (simp_all add: length_put_records)
  then show ?thesis by (simp add: encode_accounting_def put_accounting_fields_def del: length_concat)
qed

section \<open>Round trips\<close>

text \<open>What the decoder of the accounting accepts: the bounds of the durable domain and distinct subjects.\<close>

definition entry_storable :: "SubjectAccounting \<Rightarrow> bool" where
  "entry_storable e \<longleftrightarrow> sa_cumulative_deficit e \<le> kMaxCarryUnits \<and> sa_cumulative_surplus e \<le> kMaxCarryUnits \<and>
     sa_unserved_streak e \<le> 1000000 \<and> sa_below_floor_streak e \<le> 1000000"

definition accounting_storable :: "FairnessAccounting \<Rightarrow> bool" where
  "accounting_storable a \<longleftrightarrow> (\<forall>e\<in>set (ac_subjects a). entry_storable e) \<and> distinct (map sa_id (ac_subjects a))"

lemma check_entry_iff: "check_entry seen e = Ok \<longleftrightarrow> entry_storable e \<and> sa_id e \<notin> set seen"
  by (auto simp: check_entry_def entry_storable_def not_le)

lemma get_entries_put:
  "\<lbrakk>\<forall>e\<in>set es. entry_storable e; distinct (map sa_id es); set (map sa_id es) \<inter> set seen = {}\<rbrakk> \<Longrightarrow>
   get_entries (length es) (concat (map put_entry es) @ r) seen = Inr (es, r)"
proof (induction es arbitrary: seen)
  case (Cons e es)
  have "check_entry seen e = Ok" using Cons.prems by (simp add: check_entry_iff)
  moreover have "get_entries (length es) (concat (map put_entry es) @ r) (sa_id e # seen) = Inr (es, r)"
    using Cons.prems by (intro Cons.IH) auto
  ultimately show ?case by (simp add: wire_entry.get_put [OF TrueI])
qed simp

lemma get_entries_storable:
  "get_entries n r seen = Inr (es, r') \<Longrightarrow>
   (\<forall>e\<in>set es. entry_storable e) \<and> distinct (map sa_id es) \<and> set (map sa_id es) \<inter> set seen = {}"
proof (induction n arbitrary: r seen es)
  case (Suc n)
  then show ?case
    by (fastforce split: option.splits if_splits sum.splits simp: check_entry_iff)
qed simp

lemma decode_policy_inverse:
  assumes "validate_policy p = Ok"
  shows "decode_policy (encode_policy p) = Inr p"
proof -
  have wf: "policy_wf p" using assms by (simp add: validate_policy_iff)
  note b = wf_string_bounds [OF wf]
  have "\<not> unat kMaxDurablePayloadBytes < length (encode_policy p)"
    using encoded_policy_fits [OF wf] by simp
  moreover have "get_many get_group (length (fp_groups p)) (concat (map put_group (fp_groups p)) @ r)
      = Some (fp_groups p, r)" for r
    using b(2) by (intro wire_group.get_many_put) fastforce
  moreover have "get_many get_subject (length (fp_subjects p)) (concat (map put_subject (fp_subjects p)))
      = Some (fp_subjects p, [])"
    using wire_subject.get_many_put [of "fp_subjects p" "[]"] b(3) by fastforce
  moreover have "get_count kMaxGroups (put_u32 (of_nat (length (fp_groups p))) @ r) = Inr (length (fp_groups p), r)" for r
    using b(4) by (intro get_count_put) simp
  moreover have "get_count kMaxSubjects (put_u32 (of_nat (length (fp_subjects p))) @ r) = Inr (length (fp_subjects p), r)" for r
    using b(5) by (intro get_count_put) simp
  ultimately show ?thesis
    using b(1) assms
    by (simp add: decode_policy_def get_put_policy_fields finish_policy_def encode_policy_def)
qed

lemma decode_accounting_inverse:
  assumes "accounting_storable a" "length (ac_subjects a) \<le> 47661"
  shows "decode_accounting (encode_accounting a) = Inr a"
proof -
  have "\<not> unat kMaxDurablePayloadBytes < length (encode_accounting a)"
    using assms(2) by (simp add: encoded_accounting_length)
  moreover have "get_entries (length (ac_subjects a)) (concat (map put_entry (ac_subjects a))) []
      = Inr (ac_subjects a, [])"
    using get_entries_put [of "ac_subjects a" "[]" "[]"] assms(1) by (simp add: accounting_storable_def)
  moreover have "get_count kMaxEncodedRecords (put_u32 (of_nat (length (ac_subjects a))) @ r)
      = Inr (length (ac_subjects a), r)" for r
    using assms(2) by (intro get_count_put) (simp add: kMaxEncodedRecords_def)
  ultimately show ?thesis
    by (simp add: decode_accounting_def get_put_accounting_fields encode_accounting_def)
qed

lemma decode_evidence_inverse:
  assumes "validate_evidence s = Ok"
  shows "decode_evidence (encode_evidence s) = Inr s"
proof -
  have wf: "evidence_wf s" using assms by (simp add: validate_evidence_iff)
  have b: "length (pd_name (ev_producer s)) \<le> 128" "length (pv_source (ev_provenance s)) \<le> 128"
    "length (ev_observations s) \<le> 4096"
    using wf by (auto simp: evidence_wf_def kMaxProducerNameBytes_def kMaxProvenanceSourceBytes_def)
  have "\<not> unat kMaxDurablePayloadBytes < length (encode_evidence s)"
    using encoded_evidence_fits [OF wf] by simp
  moreover have "get_many get_observation (length (ev_observations s)) (concat (map put_observation (ev_observations s)))
      = Some (ev_observations s, [])"
    using wire_observation.get_many_put [of "ev_observations s" "[]"] by simp
  moreover have "get_count kMaxEvidenceRecords (put_u32 (of_nat (length (ev_observations s))) @ r)
      = Inr (length (ev_observations s), r)" for r
    using b(3) by (intro get_count_put) simp
  ultimately show ?thesis
    using b(1,2) assms
    by (simp add: decode_evidence_def get_put_evidence_fields finish_evidence_def encode_evidence_def)
qed

text \<open>A decoded object is a legal object.\<close>

lemma and_then_Inr: "and_then r f = Inr y \<longleftrightarrow> (\<exists>x. r = Inr x \<and> f x = Inr y)"
  by (cases r) simp_all

lemma decode_policy_legal:
  "decode_policy bytes = Inr p \<Longrightarrow> validate_policy p = Ok"
  by (auto simp: decode_policy_def finish_policy_def and_then_Inr split: if_splits)

lemma decode_accounting_legal:
  "decode_accounting bytes = Inr a \<Longrightarrow> accounting_storable a"
  by (auto simp: decode_accounting_def accounting_storable_def and_then_Inr dest: get_entries_storable
      split: if_splits)

lemma decode_evidence_legal:
  "decode_evidence bytes = Inr s \<Longrightarrow> validate_evidence s = Ok"
  by (auto simp: decode_evidence_def finish_evidence_def and_then_Inr split: if_splits)


section \<open>Properties\<close>

text \<open>C10: A policy that validates survives its durable encoding: the record always fits the payload bound,
  and decoding it yields exactly the policy, every group, subject, label and flag included.\<close>

theorem policy_round_trip:
  assumes "validate_policy policy = Ok"
  shows "decode_policy (encode_policy policy) = Inr policy"
  by (rule decode_policy_inverse [OF assms])

theorem policy_round_trip_witness: "decode_policy (encode_policy sample_policy) = Inr sample_policy"
  by (rule policy_round_trip [OF sample_policy_valid])

text \<open>C11: An evidence snapshot that validates survives its encoding.\<close>

theorem evidence_round_trip:
  assumes "validate_evidence snapshot = Ok"
  shows "decode_evidence (encode_evidence snapshot) = Inr snapshot"
  by (rule decode_evidence_inverse [OF assms])

theorem evidence_round_trip_witness: "decode_evidence (encode_evidence sample_evidence) = Inr sample_evidence"
  by (rule evidence_round_trip [OF sample_evidence_valid])

text \<open>C12: Accounting within the durable domain (carries and streaks inside their bounds, distinct
  subjects) survives its encoding, up to 47661 subjects: more entries exceed the payload bound of
  4 MiB long before the decoder's own bound of 65536 records.\<close>

theorem accounting_round_trip:
  assumes "accounting_storable accounting" "length (ac_subjects accounting) \<le> 47661"
  shows "decode_accounting (encode_accounting accounting) = Inr accounting"
  by (rule decode_accounting_inverse [OF assms])

definition sample_accounting :: FairnessAccounting where
  "sample_accounting = default_accounting\<lparr>ac_policy_id := 1, ac_policy_generation := 1, ac_epoch := 1,
     ac_generation := 7, ac_last_window := 6, ac_last_window_generation := 1, ac_writer_boot := 9,
     ac_subjects := [default_subject_accounting\<lparr>sa_id := 10, sa_generation := 1, sa_cumulative_deficit := 40,
         sa_windows_observed := 7, sa_total_served_units := 300\<rparr>,
       default_subject_accounting\<lparr>sa_id := 20, sa_generation := 1, sa_cumulative_surplus := 40,
         sa_windows_observed := 7, sa_total_served_units := 500\<rparr>]\<rparr>"

lemma sample_accounting_storable: "accounting_storable sample_accounting"
  by (simp add: sample_accounting_def accounting_storable_def entry_storable_def kMaxCarryUnits_def
      default_accounting_def default_subject_accounting_def)

theorem accounting_round_trip_witness: "decode_accounting (encode_accounting sample_accounting) = Inr sample_accounting"
  by (rule accounting_round_trip [OF sample_accounting_storable])
    (simp add: sample_accounting_def default_accounting_def)

text \<open>C13: Whatever bytes a decoder accepts, the object it returns is legal: a policy or a snapshot passes
  its full validation, accounting has distinct subjects with carries and streaks inside the bounds.\<close>

theorem decoded_objects_are_legal:
  shows "(decode_policy bytes = Inr policy \<longrightarrow> validate_policy policy = Ok) \<and>
    (decode_evidence bytes = Inr snapshot \<longrightarrow> validate_evidence snapshot = Ok) \<and>
    (decode_accounting bytes = Inr accounting \<longrightarrow> accounting_storable accounting)"
  using decode_policy_legal decode_evidence_legal decode_accounting_legal by blast

theorem decoded_objects_are_legal_witness:
  "validate_policy sample_policy = Ok \<and> accounting_storable sample_accounting"
proof -
  have "decode_policy (encode_policy sample_policy) = Inr sample_policy"
    by (rule decode_policy_inverse [OF sample_policy_valid])
  moreover have "decode_accounting (encode_accounting sample_accounting) = Inr sample_accounting"
    by (rule decode_accounting_inverse [OF sample_accounting_storable])
      (simp add: sample_accounting_def default_accounting_def)
  ultimately show ?thesis
    using decoded_objects_are_legal [of "encode_policy sample_policy" sample_policy]
      decoded_objects_are_legal [where bytes = "encode_accounting sample_accounting" and accounting = sample_accounting]
    by blast
qed

end
