(* ===== verification/FG_Engine.thy ===== *)
theory FG_Engine
  imports FG_Conservation FG_Codec
begin

text \<open>
  The evaluation of one service window (\<open>evaluate_fairness\<close> of \<open>eval/engine.cpp\<close>), phase by phase in the
  order of the code: eligibility of the evidence, authority per subject, distribution of the attained
  whole, the numbers of each subject, starvation, demand and supply, the bounded corrective plan,
  outcomes, states, group rollups and corrective intents.

  The plans of the subjects are a list indexed like \<open>policy.subjects\<close>. The texts of the notes are
  dropped. The loops over the group tree (\<open>scatter\<close> and the rollup) carry fuel: the evaluation returns
  \<open>None\<close> where the fuel runs out, which \<^theory_text>\<open>FG_Plan\<close> shows never happens on an accepted policy.
\<close>

section \<open>Plans\<close>

record SubjectPlan =
  pl_has_authority :: bool
  pl_outcome :: Outcome
  pl_reason :: ReasonCode
  pl_served :: u64
  pl_entitlement :: u64
  pl_base_entitlement :: u64
  pl_group_entitlement :: u64
  pl_floor_binding :: bool
  pl_this_window_deficit :: u64
  pl_effective_deficit :: u64
  pl_surplus :: u64
  pl_deviation :: i64
  pl_unserved_streak :: u32
  pl_below_floor_streak :: u32
  pl_starving :: bool
  pl_cooling :: bool
  pl_demand :: u64
  pl_reducible :: u64
  pl_withheld :: u64
  pl_augment :: u64
  pl_reduce :: u64
  pl_blocked :: bool
  pl_carry :: CarryOutcome
  pl_observed_priority :: PriorityClassRef
  pl_observed_qos :: QosClassRef

definition default_carry :: CarryOutcome where
  "default_carry = \<lparr>co_cumulative_deficit = 0, co_cumulative_surplus = 0, co_discarded_deficit = 0,
     co_discarded_surplus = 0, co_deficit_units = 0, co_surplus_units = 0, co_credit_applied = 0,
     co_debit_applied = 0, co_saturated = False\<rparr>"

definition default_plan :: SubjectPlan where
  "default_plan = \<lparr>pl_has_authority = False, pl_outcome = Unknown, pl_reason = Reason_EvidenceAbsent,
     pl_served = 0, pl_entitlement = 0, pl_base_entitlement = 0, pl_group_entitlement = 0,
     pl_floor_binding = False, pl_this_window_deficit = 0, pl_effective_deficit = 0, pl_surplus = 0,
     pl_deviation = 0, pl_unserved_streak = 0, pl_below_floor_streak = 0, pl_starving = False,
     pl_cooling = False, pl_demand = 0, pl_reducible = 0, pl_withheld = 0, pl_augment = 0,
     pl_reduce = 0, pl_blocked = False, pl_carry = default_carry,
     pl_observed_priority = \<lparr>pr_id = 0, pr_generation = 0\<rparr>,
     pl_observed_qos = \<lparr>qos_id = 0, qos_generation = 0\<rparr>\<rparr>"

definition kMaxNotes :: nat where "kMaxNotes = 64"
definition kStreakSaturation :: u32 where "kStreakSaturation = 1000000"

definition bump_streak :: "u32 \<Rightarrow> u32" where
  "bump_streak v = (if kStreakSaturation \<le> v then kStreakSaturation else v + 1)"

definition intervention_id :: "u64 \<Rightarrow> u64 \<Rightarrow> u8 \<Rightarrow> u32 \<Rightarrow> u64" where
  "intervention_id window subject direction attempt =
     (let digest = fnv1a64 (store_le 8 window @ store_le 8 subject @ [direction] @
                      store_le 4 (ucast attempt)) kFnvOffsetBasis
      in if digest = 0 then 1 else digest)"

definition add_note :: "StatusCode \<Rightarrow> ReasonCode \<Rightarrow> Id \<Rightarrow> DiagnosticNote list \<Rightarrow> DiagnosticNote list" where
  "add_note code reason subject notes =
     (if kMaxNotes \<le> length notes then notes
      else notes @ [\<lparr>dn_code = code, dn_reason = reason, dn_subject = subject\<rparr>])"

text \<open>A loop whose iterations touch one element each and may stop with an error.\<close>

fun each_result :: "('a \<Rightarrow> 'b result) \<Rightarrow> 'a list \<Rightarrow> 'b list result" where
  "each_result f [] = Inr []"
| "each_result f (x # xs) = and_then (f x) (\<lambda>y. and_then (each_result f xs) (\<lambda>ys. Inr (y # ys)))"

section \<open>Evidence eligibility\<close>

definition decision_authority ::
    "FairnessPolicy \<Rightarrow> FairnessAccounting \<Rightarrow> EvaluationContext \<Rightarrow> AuthorityVector" where
  "decision_authority policy accounting ctx =
     (let request = ec_request ctx
      in \<lparr>av_policy_id = fp_id policy, av_policy_generation = fp_generation policy,
          av_epoch = ec_current_epoch ctx, av_evidence_id = rq_evidence_id request,
          av_evidence_generation = rq_evidence_generation request, av_window = rq_window request,
          av_window_generation = rq_window_generation request,
          av_accounting_generation = ac_generation accounting,
          av_governor = \<lparr>inc_boot = 0, inc_ordinal = 0\<rparr>,
          av_request_id = rq_request_id request, av_attempt = rq_attempt request\<rparr>)"

type_synonym failure = "Outcome \<times> ReasonCode \<times> StatusCode"

definition snapshot_failure :: "FairnessPolicy \<Rightarrow> EvaluationContext \<Rightarrow> EvidenceSnapshot \<Rightarrow> failure option" where
  "snapshot_failure policy ctx evidence =
     (let request = ec_request ctx; window = rq_window request; current = ec_current_window ctx
      in if ev_id evidence \<noteq> rq_evidence_id request \<or>
            ev_generation evidence \<noteq> rq_evidence_generation request
         then Some (Stale, Reason_EvidenceStaleGeneration, StaleEvidence)
         else if ev_epoch evidence \<noteq> ec_current_epoch ctx
         then Some (Stale, Reason_EvidenceStaleEpoch, StaleEpoch)
         else if ev_window evidence \<noteq> window \<or> ev_window_generation evidence \<noteq> rq_window_generation request
         then Some (Stale, Reason_EvidenceStaleWindow, StaleEvidence)
         else if id_valid (ec_last_committed_window ctx) \<and> id_valid window \<and>
                 window \<le> ec_last_committed_window ctx
         then Some (Stale, Reason_EvidenceStaleWindow, StaleEvidence)
         else if id_valid current \<and> id_valid window
         then (if current < window then Some (Stale, Reason_EvidenceStaleWindow, EvidenceMissing)
               else if ucast (fp_max_evidence_age_windows policy) < current - window
               then Some (Stale, Reason_EvidenceStaleAge, StaleEvidence)
               else None)
         else None)"

definition age_failure :: "FairnessPolicy \<Rightarrow> EvaluationRequest \<Rightarrow> EvidenceSnapshot \<Rightarrow> failure option" where
  "age_failure policy request evidence =
     (if 0 < fp_max_evidence_age_ns policy
      then if rq_now_ns request <s ev_captured_at_ns evidence
           then Some (Stale, Reason_EvidenceStaleAge, StaleEvidence)
           else if fp_max_evidence_age_ns policy < rq_now_ns request - ev_captured_at_ns evidence
           then Some (Stale, Reason_EvidenceStaleAge, StaleEvidence)
           else None
      else None)"

text \<open>\<open>None\<close> is \<open>global_ok\<close>.\<close>

definition global_failure :: "FairnessPolicy \<Rightarrow> EvaluationContext \<Rightarrow> failure option" where
  "global_failure policy ctx =
     (let request = ec_request ctx; epoch = ec_current_epoch ctx
      in if rq_policy_id request \<noteq> fp_id policy \<or> rq_policy_generation request \<noteq> fp_generation policy
         then Some (Stale, Reason_PolicyGenerationMismatch, PolicyGenerationMismatch)
         else if \<not> generation_valid epoch \<or> fp_epoch policy \<noteq> epoch \<or> rq_epoch request \<noteq> epoch
         then Some (Stale, Reason_EvidenceStaleEpoch, StaleEpoch)
         else case ec_evidence ctx of
                None \<Rightarrow> Some (Unknown, Reason_EvidenceAbsent, EvidenceMissing)
              | Some evidence \<Rightarrow>
                  (case snapshot_failure policy ctx evidence of
                     Some failure \<Rightarrow> Some failure
                   | None \<Rightarrow> age_failure policy request evidence))"

definition unauthorised_plan :: "bool \<Rightarrow> failure \<Rightarrow> SubjectPlan" where
  "unauthorised_plan treat_missing_as_unknown failure =
     default_plan\<lparr>pl_outcome := (if fst failure = Unknown \<and> treat_missing_as_unknown then Unknown else Stale),
       pl_reason := fst (snd failure)\<rparr>"

definition stale_plan :: "ReasonCode \<Rightarrow> SubjectPlan" where
  "stale_plan reason = default_plan\<lparr>pl_outcome := Stale, pl_reason := reason\<rparr>"

definition same_priority :: "PriorityClassRef \<Rightarrow> PriorityClassRef \<Rightarrow> bool" where
  "same_priority a b \<longleftrightarrow> pr_id a = pr_id b \<and> pr_generation a = pr_generation b"

definition same_qos :: "QosClassRef \<Rightarrow> QosClassRef \<Rightarrow> bool" where
  "same_qos a b \<longleftrightarrow> qos_id a = qos_id b \<and> qos_generation a = qos_generation b"

definition subject_authority ::
    "FairnessAccounting \<Rightarrow> EvaluationRequest \<Rightarrow> EvidenceSnapshot \<Rightarrow> Subject \<Rightarrow> SubjectPlan" where
  "subject_authority accounting request evidence subject =
     (case evidence_find evidence (sb_id subject) of
        None \<Rightarrow> default_plan\<lparr>pl_outcome := (if rq_treat_missing_as_unknown request then Unknown else Stale),
                  pl_reason := Reason_EvidenceAbsent\<rparr>
      | Some observation \<Rightarrow>
          if ob_generation observation \<noteq> sb_generation subject
          then stale_plan Reason_SubjectGenerationMismatch
          else if priority_present (sb_priority subject) \<and>
                  \<not> same_priority (ob_priority observation) (sb_priority subject)
          then stale_plan Reason_PriorityReferenceMismatch
          else if qos_present (sb_qos subject) \<and> \<not> same_qos (ob_qos observation) (sb_qos subject)
          then stale_plan Reason_PriorityReferenceMismatch
          else if (case accounting_find accounting (sb_id subject) of
                     None \<Rightarrow> False
                   | Some entry \<Rightarrow> sa_generation entry \<noteq> sb_generation subject)
          then stale_plan Reason_SubjectGenerationMismatch
          else default_plan\<lparr>pl_has_authority := True, pl_outcome := Fair,
                 pl_reason := Reason_WithinFairBand, pl_served := ob_served_units observation,
                 pl_observed_priority := ob_priority observation, pl_observed_qos := ob_qos observation\<rparr>)"

definition foreign_notes ::
    "FairnessPolicy \<Rightarrow> SubjectObservation list \<Rightarrow> DiagnosticNote list \<Rightarrow> DiagnosticNote list" where
  "foreign_notes policy observations notes =
     fold (\<lambda>ob notes. if ob_id ob \<in> set (map sb_id (fp_subjects policy)) then notes
             else add_note NotFound Reason_None (ob_id ob) notes) observations notes"

text \<open>The plans after the authority phase, and the notes. \<open>global_ok\<close> implies that there is evidence.\<close>

definition initial_plans ::
    "FairnessPolicy \<Rightarrow> FairnessAccounting \<Rightarrow> EvaluationContext \<Rightarrow> SubjectPlan list \<times> DiagnosticNote list" where
  "initial_plans policy accounting ctx =
     (case global_failure policy ctx of
        Some failure \<Rightarrow>
          (map (\<lambda>_. unauthorised_plan (rq_treat_missing_as_unknown (ec_request ctx)) failure) (fp_subjects policy),
           add_note (snd (snd failure)) (fst (snd failure)) 0 [])
      | None \<Rightarrow>
          (case ec_evidence ctx of
             None \<Rightarrow> (map (\<lambda>_. default_plan) (fp_subjects policy), [])
           | Some evidence \<Rightarrow>
               (map (subject_authority accounting (ec_request ctx) evidence) (fp_subjects policy),
                foreign_notes policy (ev_observations evidence) [])))"

definition attained_whole :: "SubjectPlan list \<Rightarrow> u64 option" where
  "attained_whole plans = checked_total (map (\<lambda>p. if pl_has_authority p then pl_served p else 0) plans) 0"

section \<open>The numbers of a subject\<close>

definition subject_numbers ::
    "FairnessPolicy \<Rightarrow> FairnessAccounting \<Rightarrow> Distributor \<Rightarrow> Subject \<Rightarrow> nat \<Rightarrow> SubjectPlan \<Rightarrow> SubjectPlan result" where
  "subject_numbers policy accounting d subject i plan =
     (if \<not> pl_has_authority plan then Inr plan
      else
        let served = pl_served plan;
            entitlement = ds_subject_effective d ! i;
            node = (case map_of (ds_by_id d) (sb_group subject) of None \<Rightarrow> 0 | Some n \<Rightarrow> n);
            entry = accounting_find accounting (sb_id subject);
            carried = (case entry of None \<Rightarrow> 0 | Some e \<Rightarrow> min (sa_cumulative_deficit e) (fp_max_carry_units policy));
            window_deficit = (if served < entitlement then entitlement - served else 0);
            window_surplus = (if entitlement < served then served - entitlement else 0);
            unserved = (case entry of None \<Rightarrow> 0 | Some e \<Rightarrow> sa_unserved_streak e);
            below = (case entry of None \<Rightarrow> 0 | Some e \<Rightarrow> sa_below_floor_streak e)
        in case checked_add window_deficit carried of
             None \<Rightarrow> Inl ArithmeticOverflow
           | Some effective \<Rightarrow>
               (case apply_window_carry (case entry of None \<Rightarrow> default_subject_accounting | Some e \<Rightarrow> e)
                       (entitlement - served) (fp_max_carry_units policy) of
                  None \<Rightarrow> Inl ArithmeticOverflow
                | Some carry \<Rightarrow>
                    Inr (plan\<lparr>pl_entitlement := entitlement,
                      pl_base_entitlement := ds_subject_base d ! i,
                      pl_floor_binding := (ds_subject_floor_binding d ! i \<noteq> 0),
                      pl_group_entitlement := gn_allocation (ds_nodes d ! node),
                      pl_surplus := window_surplus, pl_effective_deficit := effective,
                      pl_this_window_deficit := window_deficit,
                      pl_deviation := served - entitlement,
                      pl_unserved_streak := (if served = 0 then bump_streak unserved else 0),
                      pl_below_floor_streak :=
                        (if 0 < sb_guarantee_floor subject \<and> served < sb_guarantee_floor subject
                         then bump_streak below else 0),
                      pl_carry := carry\<rparr>)))"

text \<open>The larger of the two streaks decides whether a subject starves.\<close>

definition subject_streaks :: "EvidenceSnapshot \<Rightarrow> Subject \<Rightarrow> SubjectPlan \<Rightarrow> SubjectPlan" where
  "subject_streaks evidence subject plan =
     (if \<not> pl_has_authority plan then plan
      else case evidence_find evidence (sb_id subject) of
             None \<Rightarrow> plan
           | Some observation \<Rightarrow>
               (let unserved = max (pl_unserved_streak plan) (ob_unserved_streak observation);
                    below = max (pl_below_floor_streak plan) (ob_below_floor_streak observation);
                    unserved_starving = (0 < sb_starvation_windows subject \<and>
                                         sb_starvation_windows subject \<le> unserved);
                    floor_starving = (0 < sb_guarantee_starvation_windows subject \<and>
                                      0 < sb_guarantee_floor subject \<and>
                                      sb_guarantee_starvation_windows subject \<le> below);
                    starving = (unserved_starving \<or> floor_starving)
                in plan\<lparr>pl_unserved_streak := unserved, pl_below_floor_streak := below,
                     pl_starving := starving,
                     pl_reason := (if starving
                                   then if unserved_starving then Reason_StarvationUnserved
                                        else Reason_StarvationBelowFloor
                                   else pl_reason plan)\<rparr>))"

section \<open>Demand and supply\<close>

definition in_cooldown :: "FairnessPolicy \<Rightarrow> EvaluationRequest \<Rightarrow> SubjectAccounting option \<Rightarrow> bool" where
  "in_cooldown policy request entry =
     (case entry of
        None \<Rightarrow> False
      | Some e \<Rightarrow> 0 < fp_cooldown_windows policy \<and> id_valid (sa_last_correction_window e) \<and>
          id_valid (rq_window request) \<and> sa_last_correction_window e \<le> rq_window request \<and>
          rq_window request - sa_last_correction_window e < ucast (fp_cooldown_windows policy))"

definition subject_demand ::
    "FairnessPolicy \<Rightarrow> FairnessAccounting \<Rightarrow> EvaluationRequest \<Rightarrow> Subject \<Rightarrow> SubjectPlan \<Rightarrow> SubjectPlan" where
  "subject_demand policy accounting request subject plan =
     (if \<not> pl_has_authority plan then plan
      else
        let cooling = (in_cooldown policy request (accounting_find accounting (sb_id subject)) \<and>
                       \<not> pl_starving plan);
            demand = (if fp_fair_band_units policy < pl_effective_deficit plan \<and> \<not> cooling
                      then min (min (pl_effective_deficit plan) (sb_max_augment_units subject)) kMaxServiceUnits
                      else 0);
            cap = min (pl_surplus plan) (sb_max_reduce_units subject);
            headroom = (if sb_guarantee_floor subject < pl_served plan
                        then pl_served plan - sb_guarantee_floor subject else 0);
            allowed = (if sb_protected_obligation subject then min cap headroom else cap)
        in if 0 < pl_surplus plan
           then plan\<lparr>pl_cooling := cooling, pl_demand := demand, pl_reducible := allowed,
                  pl_withheld := cap - allowed\<rparr>
           else plan\<lparr>pl_cooling := cooling, pl_demand := demand\<rparr>)"

definition correction_totals :: "SubjectPlan list \<Rightarrow> (u64 \<times> u64 \<times> u64) result" where
  "correction_totals plans =
     (case (checked_total (map pl_reducible plans) 0, checked_total (map pl_demand plans) 0,
            checked_total (map pl_withheld plans) 0) of
        (Some pool, Some demand, Some withheld) \<Rightarrow> Inr (pool, demand, withheld)
      | _ \<Rightarrow> Inl ArithmeticOverflow)"

definition basis_point_budget :: "FairnessPolicy \<Rightarrow> u64 \<Rightarrow> u64 result" where
  "basis_point_budget policy whole =
     (if fp_max_correction_bps policy < 100000
      then let computed = mul_div whole (ucast (fp_max_correction_bps policy)) kBasisPointScale
           in if mul_div_ok computed then Inr (md_value computed) else Inl ArithmeticOverflow
      else Inr (kMaxServiceUnits * ucast kMaxSubjects))"

section \<open>The bounded corrective plan\<close>

definition demand_less :: "FairnessPolicy \<Rightarrow> SubjectPlan list \<Rightarrow> nat \<Rightarrow> nat \<Rightarrow> bool" where
  "demand_less policy plans a b =
     (if pl_starving (plans ! a) \<noteq> pl_starving (plans ! b) then pl_starving (plans ! a)
      else if pl_demand (plans ! a) \<noteq> pl_demand (plans ! b)
      then pl_demand (plans ! b) < pl_demand (plans ! a)
      else if sb_obligation_rank (fp_subjects policy ! a) \<noteq> sb_obligation_rank (fp_subjects policy ! b)
      then sb_obligation_rank (fp_subjects policy ! b) < sb_obligation_rank (fp_subjects policy ! a)
      else sb_id (fp_subjects policy ! a) < sb_id (fp_subjects policy ! b))"

definition supply_less :: "FairnessPolicy \<Rightarrow> SubjectPlan list \<Rightarrow> nat \<Rightarrow> nat \<Rightarrow> bool" where
  "supply_less policy plans a b =
     (if pl_reducible (plans ! a) \<noteq> pl_reducible (plans ! b)
      then pl_reducible (plans ! b) < pl_reducible (plans ! a)
      else if sb_obligation_rank (fp_subjects policy ! a) \<noteq> sb_obligation_rank (fp_subjects policy ! b)
      then sb_obligation_rank (fp_subjects policy ! a) < sb_obligation_rank (fp_subjects policy ! b)
      else sb_id (fp_subjects policy ! a) < sb_id (fp_subjects policy ! b))"

definition demand_order :: "FairnessPolicy \<Rightarrow> SubjectPlan list \<Rightarrow> nat list" where
  "demand_order policy plans = std_sort (demand_less policy plans)
     (filter (\<lambda>i. pl_has_authority (plans ! i) \<and> 0 < pl_demand (plans ! i)) [0..<length plans])"

definition supply_order :: "FairnessPolicy \<Rightarrow> SubjectPlan list \<Rightarrow> nat list" where
  "supply_order policy plans = std_sort (supply_less policy plans)
     (filter (\<lambda>i. pl_has_authority (plans ! i) \<and> 0 < pl_reducible (plans ! i)) [0..<length plans])"

definition grant_augments :: "nat list \<Rightarrow> u64 \<Rightarrow> SubjectPlan list \<Rightarrow> SubjectPlan list \<times> u64" where
  "grant_augments order authorized plans =
     grant_loop (\<lambda>i. pl_demand (plans ! i)) (\<lambda>i g plans. plans[i := (plans ! i)\<lparr>pl_augment := g\<rparr>])
       order authorized plans"

definition take_reductions :: "nat list \<Rightarrow> u64 \<Rightarrow> SubjectPlan list \<Rightarrow> SubjectPlan list \<times> u64" where
  "take_reductions order authorized plans =
     grant_loop (\<lambda>i. pl_reducible (plans ! i)) (\<lambda>i g plans. plans[i := (plans ! i)\<lparr>pl_reduce := g\<rparr>])
       order authorized plans"

definition unsatisfied_total :: "FairnessPolicy \<Rightarrow> SubjectPlan list \<Rightarrow> u64 option" where
  "unsatisfied_total policy plans =
     checked_total (map (\<lambda>p. pl_effective_deficit p - pl_augment p)
       (filter (\<lambda>p. pl_has_authority p \<and> \<not> pl_cooling p \<and>
                    fp_fair_band_units policy < pl_effective_deficit p) plans)) 0"

definition mark_blocked :: "FairnessPolicy \<Rightarrow> bool \<Rightarrow> nat list \<Rightarrow> SubjectPlan list \<Rightarrow> SubjectPlan list" where
  "mark_blocked policy blocked order plans =
     fold (\<lambda>i plans.
       let plan = plans ! i;
           cap = sb_max_augment_units (fp_subjects policy ! i);
           cap_unmet = (if cap < pl_effective_deficit plan then pl_effective_deficit plan - cap else 0);
           unmet = pl_effective_deficit plan - pl_augment plan
       in plans[i := plan\<lparr>pl_blocked := (blocked \<and> cap_unmet < unmet)\<rparr>]) order plans"

text \<open>The budgets of the plan: the pool, the demand, what is withheld and what the policy allows.\<close>

definition authorized_budget :: "FairnessPolicy \<Rightarrow> u64 \<Rightarrow> u64 \<Rightarrow> u64 \<Rightarrow> u64" where
  "authorized_budget policy pool demand_total budget_bps =
     min (min (min pool demand_total) (fp_max_correction_units policy)) budget_bps"

definition close_plan ::
    "FairnessPolicy \<Rightarrow> bool \<Rightarrow> nat list \<Rightarrow> u64 \<times> u64 \<times> u64 \<Rightarrow> u64 \<Rightarrow> SubjectPlan list
     \<Rightarrow> (SubjectPlan list \<times> CorrectionSummary) result" where
  "close_plan policy global_ok order totals budget_bps plans =
     (case totals of (pool, demand_total, withheld_total) \<Rightarrow>
        let authorized = authorized_budget policy pool demand_total budget_bps;
            most = min pool demand_total
        in case unsatisfied_total policy plans of
             None \<Rightarrow> Inl ArithmeticOverflow
           | Some unsatisfied \<Rightarrow>
               (let blocked = (0 < unsatisfied \<and> 0 < withheld_total \<and> authorized < demand_total)
                in Inr (mark_blocked policy blocked order plans,
                     \<lparr>cs_reducible_pool_units = pool, cs_demand_units = demand_total,
                      cs_authorized_budget_units = authorized, cs_augment_units = authorized,
                      cs_reduce_units = authorized, cs_withheld_units = withheld_total,
                      cs_unsatisfied_demand_units = unsatisfied, cs_cooldown_suppressed = 0,
                      cs_bounded_by_policy_total = (fp_max_correction_units policy < most \<and>
                        fp_max_correction_units policy \<le> budget_bps),
                      cs_bounded_by_policy_bps = (budget_bps < most \<and>
                        budget_bps < fp_max_correction_units policy),
                      cs_protected_obligation_blocked = blocked,
                      cs_authority_missing = (\<not> global_ok)\<rparr>)))"

text \<open>The plans of the corrective phase, with the two orders in which the intents are issued.\<close>

definition plan_corrections ::
    "FairnessPolicy \<Rightarrow> bool \<Rightarrow> u64 \<Rightarrow> SubjectPlan list
     \<Rightarrow> (SubjectPlan list \<times> CorrectionSummary \<times> nat list \<times> nat list) result" where
  "plan_corrections policy global_ok whole plans =
     and_then (correction_totals plans) (\<lambda>(pool, demand_total, withheld_total).
     and_then (basis_point_budget policy whole) (\<lambda>budget_bps.
       let authorized = authorized_budget policy pool demand_total budget_bps;
           d_order = demand_order policy plans;
           (augmented, remaining) = grant_augments d_order authorized plans
       in if authorized - remaining \<noteq> authorized then Inl Internal
          else
            let s_order = supply_order policy augmented;
                (reduced, reduce_remaining) = take_reductions s_order authorized augmented
            in if reduce_remaining \<noteq> 0 then Inl Internal
               else and_then (close_plan policy global_ok d_order (pool, demand_total, withheld_total)
                      budget_bps reduced) (\<lambda>(plans, summary). Inr (plans, summary, d_order, s_order))))"

section \<open>Outcomes\<close>

definition assign_outcome :: "FairnessPolicy \<Rightarrow> Subject \<Rightarrow> SubjectPlan \<Rightarrow> SubjectPlan" where
  "assign_outcome policy subject plan =
     (if \<not> pl_has_authority plan then plan
      else if pl_starving plan
      then if pl_blocked plan
           then plan\<lparr>pl_outcome := BlockedByStrongerObligation, pl_reason := Reason_ProtectedObligationHeld\<rparr>
           else plan\<lparr>pl_outcome := StarvationRisk\<rparr>
      else if fp_fair_band_units policy < pl_effective_deficit plan
      then if pl_blocked plan
           then plan\<lparr>pl_outcome := BlockedByStrongerObligation, pl_reason := Reason_ProtectedObligationHeld\<rparr>
           else if 0 < pl_augment plan
           then plan\<lparr>pl_outcome := (if fp_correction_threshold_units policy \<le> pl_effective_deficit plan
                                    then CorrectionRequired else UnderServed),
                  pl_reason := (if pl_floor_binding plan then Reason_GuaranteeFloorDeficit
                                else Reason_WeightedShareDeficit)\<rparr>
           else plan\<lparr>pl_outcome := UnderServed,
                  pl_reason := (if pl_cooling plan then Reason_CorrectiveCooldown
                                else if sb_max_augment_units subject = 0 then Reason_PolicyBoundReached
                                else if pl_demand plan < pl_effective_deficit plan then Reason_SubjectCapReached
                                else Reason_CorrectiveBudgetExhausted)\<rparr>
      else if fp_fair_band_units policy < pl_surplus plan
      then plan\<lparr>pl_outcome := OverServed,
             pl_reason := (if pl_floor_binding plan then Reason_GuaranteeFloorSurplus
                           else Reason_WeightedShareSurplus)\<rparr>
      else plan\<lparr>pl_outcome := Fair, pl_reason := Reason_WithinFairBand\<rparr>)"

section \<open>The decision\<close>

text \<open>The modifier is clipped to the signed bound of the policy.\<close>

definition clip_modifier :: "u32 \<Rightarrow> i32 \<Rightarrow> i32 \<times> bool" where
  "clip_modifier bound modifier =
     (if bound <s modifier then (bound, True)
      else if modifier <s - bound then (- bound, True)
      else (modifier, False))"

definition subject_state :: "FairnessPolicy \<Rightarrow> Subject \<Rightarrow> SubjectPlan \<Rightarrow> SubjectFairnessState" where
  "subject_state policy subject plan =
     (let clipped = clip_modifier (fp_max_priority_modifier_bps policy) (sb_priority_modifier_bps subject)
      in \<lparr>ss_id = sb_id subject, ss_generation = sb_generation subject, ss_group = sb_group subject,
        ss_outcome = pl_outcome plan, ss_reason = pl_reason plan,
        ss_has_authority = pl_has_authority plan,
        ss_is_protected_obligation = sb_protected_obligation subject,
        ss_obligation_rank = sb_obligation_rank subject,
        ss_group_entitlement_units = pl_group_entitlement plan,
        ss_entitlement_units = pl_entitlement plan,
        ss_base_entitlement_units = pl_base_entitlement plan,
        ss_guarantee_floor_units = sb_guarantee_floor subject,
        ss_priority_delta_units = pl_entitlement plan - pl_base_entitlement plan,
        ss_applied_modifier_bps = fst clipped, ss_modifier_clipped = snd clipped,
        ss_served_units = pl_served plan, ss_deviation_units = pl_deviation plan,
        ss_deficit_units = pl_this_window_deficit plan, ss_surplus_units = pl_surplus plan,
        ss_cumulative_deficit_after = co_cumulative_deficit (pl_carry plan),
        ss_cumulative_surplus_after = co_cumulative_surplus (pl_carry plan),
        ss_unserved_streak = pl_unserved_streak plan,
        ss_below_floor_streak = pl_below_floor_streak plan,
        ss_starvation_limit_windows = sb_starvation_windows subject,
        ss_guarantee_starvation_limit_windows = sb_guarantee_starvation_windows subject,
        ss_proposed_augment_units = pl_augment plan, ss_proposed_reduce_units = pl_reduce plan,
        ss_unsatisfied_demand_units =
          (if fp_fair_band_units policy < pl_effective_deficit plan
           then pl_effective_deficit plan - pl_augment plan else 0),
        ss_expected_priority = sb_priority subject,
        ss_observed_priority = pl_observed_priority plan, ss_label = sb_label subject\<rparr>)"

text \<open>The rollup of one subject walks from its group to the root.\<close>

definition rollup_node :: "SubjectPlan \<Rightarrow> nat \<Rightarrow> GroupNode list \<times> u64 list \<Rightarrow> GroupNode list \<times> u64 list" where
  "rollup_node plan j st =
     (case st of (nodes, withheld) \<Rightarrow>
       (if pl_has_authority plan
        then nodes[j := (nodes ! j)\<lparr>gn_served := gn_served (nodes ! j) + pl_served plan\<rparr>] else nodes,
        if 0 < pl_withheld plan then withheld[j := withheld ! j + pl_withheld plan] else withheld))"

fun rollup :: "group_index \<Rightarrow> (Subject \<times> SubjectPlan) list \<Rightarrow> GroupNode list \<times> u64 list
    \<Rightarrow> (GroupNode list \<times> u64 list) option" where
  "rollup by_id [] st = Some st"
| "rollup by_id ((subject, plan) # rest) st =
     (case map_of by_id (sb_group subject) of
        None \<Rightarrow> rollup by_id rest st
      | Some n \<Rightarrow>
          (case node_path scatter_fuel (fst st) n of
             None \<Rightarrow> None
           | Some path \<Rightarrow> rollup by_id rest (fold (rollup_node plan) path st)))"

definition group_state :: "FairnessGroup \<Rightarrow> GroupNode \<Rightarrow> u64 \<Rightarrow> GroupFairnessState" where
  "group_state g node withheld =
     \<lparr>gs_id = fg_id g, gs_generation = fg_generation g, gs_parent = fg_parent g, gs_depth = gn_depth node,
      gs_entitlement_units = gn_allocation node, gs_served_units = gn_served node,
      gs_deviation_units = gn_served node - gn_allocation node,
      gs_is_protected_obligation = fg_protected_obligation g, gs_obligation_rank = fg_obligation_rank g,
      gs_guarantee_floor_units = fg_guarantee_floor g, gs_withheld_correction = (0 < withheld),
      gs_label = fg_label g\<rparr>"

definition group_states ::
    "FairnessPolicy \<Rightarrow> Distributor \<Rightarrow> SubjectPlan list \<Rightarrow> GroupFairnessState list option" where
  "group_states policy d plans =
     (case rollup (ds_by_id d) (zip (fp_subjects policy) plans)
             (ds_nodes d, replicate (length (ds_nodes d)) 0) of
        None \<Rightarrow> None
      | Some (nodes, withheld) \<Rightarrow>
          Some (map (\<lambda>g. group_state (fp_groups policy ! g) (nodes ! g) (withheld ! g)) [0..<length nodes]))"

definition make_intent ::
    "EvaluationRequest \<Rightarrow> CorrectionDirection \<Rightarrow> Generation \<Rightarrow> Subject \<Rightarrow> u64 \<Rightarrow> CorrectionBound
     \<Rightarrow> ReasonCode \<Rightarrow> bool \<Rightarrow> CorrectiveIntent" where
  "make_intent request direction generation subject units bound reason starving =
     \<lparr>ci_id = intervention_id (rq_window request) (sb_id subject) (direction_value direction) (rq_attempt request),
      ci_generation = generation, ci_direction = direction, ci_subject = sb_id subject,
      ci_subject_generation = sb_generation subject, ci_group = sb_group subject, ci_units = units,
      ci_bound = bound, ci_reason = reason, ci_from_starvation = starving,
      ci_from_protected_obligation = sb_protected_obligation subject,
      ci_obligation_rank = sb_obligation_rank subject\<rparr>"

definition augment_intent ::
    "FairnessPolicy \<Rightarrow> EvaluationRequest \<Rightarrow> SubjectPlan list \<Rightarrow> nat \<Rightarrow> Generation \<Rightarrow> CorrectiveIntent option" where
  "augment_intent policy request plans i generation =
     (let plan = plans ! i
      in if pl_augment plan = 0 then None
         else Some (make_intent request Augment generation (fp_subjects policy ! i) (pl_augment plan)
                (if pl_augment plan < pl_demand plan then Bound_BudgetExhausted else Bound_DemandSatisfied)
                (pl_reason plan) (pl_starving plan)))"

definition reduce_intent ::
    "FairnessPolicy \<Rightarrow> EvaluationRequest \<Rightarrow> SubjectPlan list \<Rightarrow> nat \<Rightarrow> Generation \<Rightarrow> CorrectiveIntent option" where
  "reduce_intent policy request plans i generation =
     (let plan = plans ! i
      in if pl_reduce plan = 0 then None
         else Some (make_intent request Reduce generation (fp_subjects policy ! i) (pl_reduce plan)
                (if pl_reduce plan = pl_reducible plan
                 then if 0 < pl_withheld plan then Bound_ProtectedObligation else Bound_DemandSatisfied
                 else if pl_reduce plan < pl_reducible plan then Bound_BudgetExhausted
                 else Bound_PolicyTotalBudget)
                Reason_WeightedShareSurplus False))"

text \<open>The two loops that issue intents; the generation is advanced for every intent.\<close>

fun issue_intents ::
    "(nat \<Rightarrow> Generation \<Rightarrow> CorrectiveIntent option) \<Rightarrow> nat list \<Rightarrow> Generation \<times> CorrectiveIntent list
     \<Rightarrow> (Generation \<times> CorrectiveIntent list) result" where
  "issue_intents mk [] st = Inr st"
| "issue_intents mk (i # order) (generation, intents) =
     (case mk i (generation_next generation) of
        None \<Rightarrow> issue_intents mk order (generation, intents)
      | Some intent \<Rightarrow>
          (if unat kMaxCorrectiveIntents \<le> length intents then Inl LimitExceeded
           else issue_intents mk order (generation_next generation, intents @ [intent])))"

definition all_intents ::
    "FairnessPolicy \<Rightarrow> FairnessAccounting \<Rightarrow> EvaluationRequest \<Rightarrow> SubjectPlan list \<Rightarrow> nat list \<Rightarrow> nat list
     \<Rightarrow> CorrectiveIntent list result" where
  "all_intents policy accounting request plans d_order s_order =
     and_then (issue_intents (augment_intent policy request plans) d_order
        (ac_intervention_generation accounting, [])) (\<lambda>st.
     and_then (issue_intents (reduce_intent policy request plans) s_order st) (\<lambda>st. Inr (snd st)))"

definition count_outcome :: "SubjectPlan \<Rightarrow> OutcomeCounts \<Rightarrow> OutcomeCounts" where
  "count_outcome plan c =
     (case pl_outcome plan of
        Fair \<Rightarrow> c\<lparr>oc_fair := oc_fair c + 1\<rparr>
      | OverServed \<Rightarrow> c\<lparr>oc_over_served := oc_over_served c + 1\<rparr>
      | UnderServed \<Rightarrow> c\<lparr>oc_under_served := oc_under_served c + 1\<rparr>
      | StarvationRisk \<Rightarrow> c\<lparr>oc_starvation_risk := oc_starvation_risk c + 1\<rparr>
      | CorrectionRequired \<Rightarrow> c\<lparr>oc_correction_required := oc_correction_required c + 1\<rparr>
      | BlockedByStrongerObligation \<Rightarrow>
          c\<lparr>oc_blocked_by_stronger_obligation := oc_blocked_by_stronger_obligation c + 1\<rparr>
      | Unknown \<Rightarrow> c\<lparr>oc_unknown := oc_unknown c + 1\<rparr>
      | Stale \<Rightarrow> c\<lparr>oc_stale := oc_stale c + 1\<rparr>)"

definition zero_counts :: OutcomeCounts where
  "zero_counts = \<lparr>oc_fair = 0, oc_over_served = 0, oc_under_served = 0, oc_starvation_risk = 0,
     oc_correction_required = 0, oc_blocked_by_stronger_obligation = 0, oc_unknown = 0, oc_stale = 0\<rparr>"

definition outcome_counts :: "SubjectPlan list \<Rightarrow> OutcomeCounts" where
  "outcome_counts plans = fold count_outcome plans zero_counts"

definition aggregate_outcome :: "SubjectPlan list \<Rightarrow> Outcome" where
  "aggregate_outcome plans =
     fold (\<lambda>p agg. if outcome_rank agg < outcome_rank (pl_outcome p) then pl_outcome p else agg) plans Fair"

section \<open>The evaluation\<close>

text \<open>From the distribution to the plans before the corrective phase.\<close>

definition number_plans ::
    "FairnessPolicy \<Rightarrow> FairnessAccounting \<Rightarrow> EvaluationContext \<Rightarrow> Distributor \<Rightarrow> SubjectPlan list
     \<Rightarrow> SubjectPlan list result" where
  "number_plans policy accounting ctx d plans =
     and_then (each_result (\<lambda>i. subject_numbers policy accounting d (fp_subjects policy ! i) i (plans ! i))
        [0..<length plans]) (\<lambda>plans.
       Inr (map2 (subject_demand policy accounting (ec_request ctx)) (fp_subjects policy)
         (case (global_failure policy ctx, ec_evidence ctx) of
            (None, Some evidence) \<Rightarrow> map2 (subject_streaks evidence) (fp_subjects policy) plans
          | _ \<Rightarrow> plans)))"

definition overcommit_notes :: "Distributor \<Rightarrow> DiagnosticNote list \<Rightarrow> DiagnosticNote list" where
  "overcommit_notes d notes =
     (if ps_overcommit (ds_effective_pass d) then add_note PolicyOvercommit Reason_OvercommitDetected 0 notes
      else notes)"

definition assemble ::
    "FairnessPolicy \<Rightarrow> FairnessAccounting \<Rightarrow> EvaluationContext \<Rightarrow> DiagnosticNote list
     \<Rightarrow> SubjectPlan list \<Rightarrow> CorrectionSummary \<Rightarrow> GroupFairnessState list \<Rightarrow> CorrectiveIntent list \<Rightarrow> FairnessDecision" where
  "assemble policy accounting ctx notes plans summary groups intents =
     (let decision = \<lparr>fd_authority = decision_authority policy accounting ctx,
            fd_outcome = aggregate_outcome plans, fd_counts = outcome_counts plans,
            fd_subjects = map2 (subject_state policy) (fp_subjects policy) plans,
            fd_groups = groups, fd_intents = intents, fd_correction = summary, fd_notes = notes,
            fd_content_digest = 0\<rparr>
      in decision\<lparr>fd_content_digest := decision_digest decision\<rparr>)"

text \<open>The last phases: outcomes, groups, intents.\<close>

definition conclude ::
    "FairnessPolicy \<Rightarrow> FairnessAccounting \<Rightarrow> EvaluationContext \<Rightarrow> Distributor \<Rightarrow> DiagnosticNote list
     \<Rightarrow> SubjectPlan list \<times> CorrectionSummary \<times> nat list \<times> nat list \<Rightarrow> FairnessDecision result option" where
  "conclude policy accounting ctx d notes corrected =
     (case corrected of (plans, summary, d_order, s_order) \<Rightarrow>
        let plans = map2 (assign_outcome policy) (fp_subjects policy) plans
        in case group_states policy d plans of
             None \<Rightarrow> None
           | Some groups \<Rightarrow>
               Some (and_then (all_intents policy accounting (ec_request ctx) plans d_order s_order)
                 (\<lambda>intents. Inr (assemble policy accounting ctx notes plans summary groups intents))))"

definition evaluate_distributed ::
    "FairnessPolicy \<Rightarrow> FairnessAccounting \<Rightarrow> EvaluationContext \<Rightarrow> u64 \<Rightarrow> Distributor
     \<Rightarrow> SubjectPlan list \<times> DiagnosticNote list \<Rightarrow> FairnessDecision result option" where
  "evaluate_distributed policy accounting ctx whole d init =
     (case and_then (number_plans policy accounting ctx d (fst init))
             (plan_corrections policy (global_failure policy ctx = None) whole) of
        Inl e \<Rightarrow> Some (Inl e)
      | Inr corrected \<Rightarrow> conclude policy accounting ctx d (overcommit_notes d (snd init)) corrected)"

definition evaluate_on ::
    "FairnessPolicy \<Rightarrow> FairnessAccounting \<Rightarrow> EvaluationContext \<Rightarrow> Distributor \<Rightarrow> FairnessDecision result option" where
  "evaluate_on policy accounting ctx tree =
     (let init = initial_plans policy accounting ctx
      in case attained_whole (fst init) of
           None \<Rightarrow> Some (Inl ArithmeticOverflow)
         | Some whole \<Rightarrow>
             (case distribute policy whole tree of
                None \<Rightarrow> None
              | Some (Inl e) \<Rightarrow> Some (Inl e)
              | Some (Inr d) \<Rightarrow> evaluate_distributed policy accounting ctx whole d init))"

definition evaluate_fairness :: "EvaluationContext \<Rightarrow> FairnessDecision result option" where
  "evaluate_fairness ctx =
     (case (ec_policy ctx, ec_accounting ctx) of
        (Some policy, Some accounting) \<Rightarrow>
          (case build policy of
             Inl e \<Rightarrow> Some (Inl e)
           | Inr tree \<Rightarrow> evaluate_on policy accounting ctx tree)
      | _ \<Rightarrow> Some (Inl InvalidArgument))"

end
