(* ===== verification/FG_Plan.thy ===== *)
theory FG_Plan
  imports FG_Engine
begin

text \<open>
  The plans of an evaluation before its corrective phase: what the loops of the engine compute, what a
  plan without authority looks like, and the numbers, the starvation flag, the demand and the supply of
  an authorised one.
\<close>

section \<open>Loops\<close>

lemma each_result_all2: "each_result f xs = Inr ys \<longleftrightarrow> list_all2 (\<lambda>x y. f x = Inr y) xs ys"
proof (induction xs arbitrary: ys)
  case (Cons x xs)
  have "each_result f (x # xs) = Inr ys \<longleftrightarrow> (\<exists>y zs. ys = y # zs \<and> f x = Inr y \<and> each_result f xs = Inr zs)"
    by (cases "f x"; cases "each_result f xs") auto
  then show ?case unfolding list_all2_Cons1 Cons.IH .
qed auto

lemma each_result_Inr:
  "each_result f xs = Inr ys \<longleftrightarrow> length ys = length xs \<and> (\<forall>i<length xs. f (xs ! i) = Inr (ys ! i))"
  unfolding each_result_all2 list_all2_conv_all_nth by auto

lemma each_result_ok:
  "(\<And>x. x \<in> set xs \<Longrightarrow> \<exists>y. f x = Inr y) \<Longrightarrow> \<exists>ys. each_result f xs = Inr ys"
proof (induction xs)
  case (Cons x xs)
  obtain y where "f x = Inr y" using Cons.prems [of x] by auto
  moreover obtain ys where "each_result f xs = Inr ys" using Cons.IH Cons.prems by auto
  ultimately show ?case by simp
qed simp

lemma checked_total_Some:
  "checked_total vs tot = Some s \<longleftrightarrow> unat tot + nsum vs < 2 ^ 64 \<and> unat s = unat tot + nsum vs"
proof (induction vs arbitrary: tot)
  case Nil
  have "unat tot < 2 ^ 64" using unat_u64_bounded [of tot] by simp
  then show ?case by (auto simp: word_unat_eq_iff)
next
  case (Cons v vs)
  show ?case
  proof (cases "unat tot + unat v < 2 ^ 64")
    case True
    then have "unat (tot + v) = unat tot + unat v" by (intro unat_plus_exact) simp
    then show ?thesis using True by (auto simp: checked_add_eq Cons.IH add.assoc)
  next
    case False
    then show ?thesis by (auto simp: checked_add_eq)
  qed
qed

text \<open>The grant loop over a list of records: a slot of each granted element is written.\<close>

lemma grant_loop_list:
  fixes cap :: "nat \<Rightarrow> u64" and remaining :: u64 and w :: "'a \<Rightarrow> u64 \<Rightarrow> 'a"
  assumes "distinct order" "\<forall>j\<in>set order. j < length s \<and> w (s ! j) 0 = s ! j"
  defines "r \<equiv> fst (grant_loop cap (\<lambda>i g t. t[i := w (t ! i) g]) order remaining s)"
  shows "length r = length s"
    and "j \<in> set order \<Longrightarrow> r ! j = w (s ! j) (of_nat (grant_of (\<lambda>i. unat (cap i)) order (unat remaining) j))"
    and "j \<notin> set order \<Longrightarrow> r ! j = s ! j"
proof -
  have "length r = length s \<and> (\<forall>j. r ! j = (if j \<in> set order
      then w (s ! j) (of_nat (grant_of (\<lambda>i. unat (cap i)) order (unat remaining) j)) else s ! j))"
    using assms(1,2) unfolding r_def
  proof (induction order arbitrary: remaining s)
    case (Cons i rest)
    show ?case
    proof (cases "remaining = 0")
      case True
      then show ?thesis using Cons.prems(2) by auto
    next
      case False
      define g where "g = min (cap i) remaining"
      have rem: "unat (remaining - g) = unat remaining - min (unat (cap i)) (unat remaining)"
        unfolding g_def by (rule unat_minus_min)
      have g: "of_nat (min (unat (cap i)) (unat remaining)) = g"
        unfolding g_def by (simp flip: unat_min)
      have prems: "distinct rest"
        "\<forall>j\<in>set rest. j < length (s[i := w (s ! i) g]) \<and> w (s[i := w (s ! i) g] ! j) 0 = s[i := w (s ! i) g] ! j"
        using Cons.prems by (auto simp: nth_list_update)
      show ?thesis using Cons.IH [OF prems, of "remaining - g"] Cons.prems False
        by (auto simp: Let_def rem g g_def [symmetric] grant_of_not_in)
    qed
  qed simp
  then show "length r = length s"
    "j \<in> set order \<Longrightarrow> r ! j = w (s ! j) (of_nat (grant_of (\<lambda>i. unat (cap i)) order (unat remaining) j))"
    "j \<notin> set order \<Longrightarrow> r ! j = s ! j" by simp_all
qed

section \<open>The plans before the corrective phase\<close>

text \<open>The streak phase of one subject.\<close>

definition streak_phase :: "FairnessPolicy \<Rightarrow> EvaluationContext \<Rightarrow> Subject \<Rightarrow> SubjectPlan \<Rightarrow> SubjectPlan" where
  "streak_phase policy ctx subject plan =
     (case (global_failure policy ctx, ec_evidence ctx) of
        (None, Some evidence) \<Rightarrow> subject_streaks evidence subject plan
      | _ \<Rightarrow> plan)"

lemma number_plans_nth:
  assumes np: "number_plans policy accounting ctx d plans = Inr ready" and len: "length plans = length (fp_subjects policy)"
  shows "length ready = length (fp_subjects policy)"
    and "i < length (fp_subjects policy) \<Longrightarrow>
      \<exists>p. subject_numbers policy accounting d (fp_subjects policy ! i) i (plans ! i) = Inr p \<and>
        ready ! i = subject_demand policy accounting (ec_request ctx) (fp_subjects policy ! i)
          (streak_phase policy ctx (fp_subjects policy ! i) p)"
proof -
  let ?n = "length (fp_subjects policy)"
  let ?f = "\<lambda>i. subject_numbers policy accounting d (fp_subjects policy ! i) i (plans ! i)"
  obtain ps where ps: "each_result ?f [0..<?n] = Inr ps"
      "ready = map2 (subject_demand policy accounting (ec_request ctx)) (fp_subjects policy)
         (case (global_failure policy ctx, ec_evidence ctx) of
            (None, Some evidence) \<Rightarrow> map2 (subject_streaks evidence) (fp_subjects policy) ps | _ \<Rightarrow> ps)"
    using np len by (auto simp: number_plans_def and_then_Inr)
  have l: "length ps = ?n" "\<And>i. i < ?n \<Longrightarrow> ?f i = Inr (ps ! i)"
    using ps(1) by (auto simp: each_result_Inr)
  show "length ready = ?n" using ps(2) l(1) by (auto split: option.splits)
  show "\<exists>p. ?f i = Inr p \<and> ready ! i = subject_demand policy accounting (ec_request ctx) (fp_subjects policy ! i)
          (streak_phase policy ctx (fp_subjects policy ! i) p)" if "i < ?n"
    using ps(2) l that by (auto simp: streak_phase_def split: option.splits)
qed

text \<open>What a plan without authority is throughout the evaluation, and what every plan is before the
  corrective phase.\<close>

definition bare_plan :: "SubjectPlan \<Rightarrow> bool" where
  "bare_plan p \<longleftrightarrow> (\<exists>oc reason. oc \<in> {Unknown, Stale} \<and> p = default_plan\<lparr>pl_outcome := oc, pl_reason := reason\<rparr>)"

definition fresh_plan :: "SubjectPlan \<Rightarrow> bool" where
  "fresh_plan p \<longleftrightarrow> pl_augment p = 0 \<and> pl_reduce p = 0 \<and> \<not> pl_blocked p \<and>
     (\<not> pl_has_authority p \<longrightarrow> bare_plan p)"

lemma bare_plan_simps:
  assumes "bare_plan p"
  shows "\<not> pl_has_authority p" "pl_demand p = 0" "pl_reducible p = 0" "pl_withheld p = 0" "pl_augment p = 0"
    "pl_reduce p = 0" "\<not> pl_starving p" "\<not> pl_blocked p" "pl_served p = 0" "pl_entitlement p = 0"
    "pl_effective_deficit p = 0" "pl_surplus p = 0" "pl_outcome p \<in> {Unknown, Stale}" "pl_deviation p = 0"
  using assms by (auto simp: bare_plan_def default_plan_def)

lemma bare_default [simp]: "bare_plan default_plan"
  unfolding bare_plan_def by (intro exI [of _ Unknown] exI [of _ Reason_EvidenceAbsent]) (simp add: default_plan_def)

lemma bare_intros [simp]:
  "oc \<in> {Unknown, Stale} \<Longrightarrow> bare_plan (default_plan\<lparr>pl_outcome := oc, pl_reason := reason\<rparr>)"
  "bare_plan (stale_plan reason)" "bare_plan (unauthorised_plan treat failure)"
  by (auto simp: bare_plan_def stale_plan_def unauthorised_plan_def)

definition authorised_plan :: "SubjectObservation \<Rightarrow> SubjectPlan" where
  "authorised_plan ob = default_plan\<lparr>pl_has_authority := True, pl_outcome := Fair,
     pl_reason := Reason_WithinFairBand, pl_served := ob_served_units ob,
     pl_observed_priority := ob_priority ob, pl_observed_qos := ob_qos ob\<rparr>"

lemma subject_authority_cases:
  "bare_plan (subject_authority accounting request evidence subject) \<or>
   (\<exists>ob. evidence_find evidence (sb_id subject) = Some ob \<and>
      subject_authority accounting request evidence subject = authorised_plan ob \<and>
      (\<forall>e. accounting_find accounting (sb_id subject) = Some e \<longrightarrow> sa_generation e = sb_generation subject))"
  by (cases "evidence_find evidence (sb_id subject)"; cases "accounting_find accounting (sb_id subject)")
    (simp_all add: subject_authority_def authorised_plan_def)

lemma initial_plans_length [simp]:
  "length (fst (initial_plans policy accounting ctx)) = length (fp_subjects policy)"
  by (simp add: initial_plans_def split: option.splits)

text \<open>An initial plan is bare or the plan of a matching observation of eligible evidence.\<close>

lemma initial_plan_cases:
  assumes "i < length (fp_subjects policy)"
  obtains "bare_plan (fst (initial_plans policy accounting ctx) ! i)"
  | evidence ob where "global_failure policy ctx = None" "ec_evidence ctx = Some evidence"
      "evidence_find evidence (sb_id (fp_subjects policy ! i)) = Some ob"
      "fst (initial_plans policy accounting ctx) ! i = authorised_plan ob"
      "\<And>e. accounting_find accounting (sb_id (fp_subjects policy ! i)) = Some e \<Longrightarrow>
         sa_generation e = sb_generation (fp_subjects policy ! i)"
proof (cases "global_failure policy ctx = None \<and> ec_evidence ctx \<noteq> None")
  case True
  then obtain evidence where ev: "global_failure policy ctx = None" "ec_evidence ctx = Some evidence" by blast
  have init: "fst (initial_plans policy accounting ctx) ! i
      = subject_authority accounting (ec_request ctx) evidence (fp_subjects policy ! i)"
    using ev assms by (simp add: initial_plans_def)
  show ?thesis
    using subject_authority_cases [of accounting "ec_request ctx" evidence "fp_subjects policy ! i"]
      that(1) that(2) [OF ev] unfolding init by blast
next
  case False
  then have "bare_plan (fst (initial_plans policy accounting ctx) ! i)"
    using assms by (auto simp: initial_plans_def split: option.splits)
  then show ?thesis by (rule that(1))
qed

section \<open>The plan of an authorised subject before the corrective phase\<close>

abbreviation carried_deficit :: "FairnessPolicy \<Rightarrow> FairnessAccounting \<Rightarrow> Subject \<Rightarrow> u64" where
  "carried_deficit policy accounting subject \<equiv>
     (case accounting_find accounting (sb_id subject) of
        None \<Rightarrow> 0 | Some e \<Rightarrow> min (sa_cumulative_deficit e) (fp_max_carry_units policy))"

abbreviation entry_of :: "FairnessAccounting \<Rightarrow> Subject \<Rightarrow> SubjectAccounting" where
  "entry_of accounting subject \<equiv>
     (case accounting_find accounting (sb_id subject) of None \<Rightarrow> default_subject_accounting | Some e \<Rightarrow> e)"

definition numbered ::
    "FairnessPolicy \<Rightarrow> FairnessAccounting \<Rightarrow> Distributor \<Rightarrow> Subject \<Rightarrow> nat \<Rightarrow> SubjectPlan \<Rightarrow> bool" where
  "numbered policy accounting d subject i p \<longleftrightarrow>
     pl_entitlement p = ds_subject_effective d ! i \<and> pl_base_entitlement p = ds_subject_base d ! i \<and>
     pl_surplus p = (if pl_entitlement p < pl_served p then pl_served p - pl_entitlement p else 0) \<and>
     pl_this_window_deficit p = (if pl_served p < pl_entitlement p then pl_entitlement p - pl_served p else 0) \<and>
     unat (pl_effective_deficit p) = unat (pl_this_window_deficit p) + unat (carried_deficit policy accounting subject) \<and>
     pl_deviation p = pl_served p - pl_entitlement p \<and>
     apply_window_carry (entry_of accounting subject) (pl_entitlement p - pl_served p) (fp_max_carry_units policy)
       = Some (pl_carry p)"

lemma bump_streak_bound: "bump_streak v \<le> kStreakSaturation"
  by (auto simp: bump_streak_def kStreakSaturation_def not_le inc_le)

lemma subject_numbers_form:
  assumes "subject_numbers policy accounting d subject i plan = Inr p" "pl_has_authority plan"
  obtains ent base binding grp eff twd sur dev us bs carry where
    "p = plan\<lparr>pl_entitlement := ent, pl_base_entitlement := base, pl_floor_binding := binding,
       pl_group_entitlement := grp, pl_surplus := sur, pl_effective_deficit := eff,
       pl_this_window_deficit := twd, pl_deviation := dev, pl_unserved_streak := us,
       pl_below_floor_streak := bs, pl_carry := carry\<rparr>"
    "numbered policy accounting d subject i p" "us \<le> kStreakSaturation" "bs \<le> kStreakSaturation"
  using assms bump_streak_bound
  by (auto simp: subject_numbers_def Let_def numbered_def checked_add_SomeD split: option.splits dest!: checked_add_SomeD)

definition starves :: "Subject \<Rightarrow> SubjectPlan \<Rightarrow> bool" where
  "starves subject p \<longleftrightarrow>
     (0 < sb_starvation_windows subject \<and> sb_starvation_windows subject \<le> pl_unserved_streak p) \<or>
     (0 < sb_guarantee_starvation_windows subject \<and> 0 < sb_guarantee_floor subject \<and>
      sb_guarantee_starvation_windows subject \<le> pl_below_floor_streak p)"

lemma streak_phase_form:
  assumes "global_failure policy ctx = None" "ec_evidence ctx = Some evidence"
    "evidence_find evidence (sb_id subject) = Some ob" "pl_has_authority p"
  obtains us bs starving reason where
    "streak_phase policy ctx subject p = p\<lparr>pl_unserved_streak := us, pl_below_floor_streak := bs,
       pl_starving := starving, pl_reason := reason\<rparr>"
    "starving = starves subject (streak_phase policy ctx subject p)"
    "ob_unserved_streak ob \<le> us" "pl_unserved_streak p \<le> us"
    "ob_below_floor_streak ob \<le> bs" "pl_below_floor_streak p \<le> bs"
    "us \<le> max (pl_unserved_streak p) (ob_unserved_streak ob)" "bs \<le> max (pl_below_floor_streak p) (ob_below_floor_streak ob)"
  using assms by (auto simp: streak_phase_def subject_streaks_def Let_def starves_def)

definition demanding :: "FairnessPolicy \<Rightarrow> Subject \<Rightarrow> SubjectPlan \<Rightarrow> bool" where
  "demanding policy subject p \<longleftrightarrow>
     pl_demand p \<le> pl_effective_deficit p \<and> pl_demand p \<le> sb_max_augment_units subject \<and>
     pl_demand p \<le> kMaxServiceUnits \<and>
     (0 < pl_demand p \<longrightarrow> fp_fair_band_units policy < pl_effective_deficit p \<and> \<not> pl_cooling p) \<and>
     pl_reducible p \<le> pl_surplus p \<and> pl_reducible p \<le> sb_max_reduce_units subject \<and>
     pl_withheld p \<le> sb_max_reduce_units subject \<and>
     (sb_protected_obligation subject \<and> 0 < pl_reducible p \<longrightarrow>
        unat (sb_guarantee_floor subject) + unat (pl_reducible p) \<le> unat (pl_served p)) \<and>
     (pl_surplus p = 0 \<or> unat (sb_guarantee_floor subject) + unat (pl_surplus p) \<le> unat (pl_served p) \<longrightarrow>
        pl_withheld p = 0)"

lemma subject_demand_form:
  obtains cooling demand reducible withheld where
    "subject_demand policy accounting request subject p = p\<lparr>pl_cooling := cooling, pl_demand := demand,
       pl_reducible := reducible, pl_withheld := withheld\<rparr>"
proof -
  have "\<exists>c dm r w. subject_demand policy accounting request subject p = p\<lparr>pl_cooling := c, pl_demand := dm,
       pl_reducible := r, pl_withheld := w\<rparr>"
  proof (cases "pl_has_authority p")
    case False
    then show ?thesis
      by (intro exI [of _ "pl_cooling p"] exI [of _ "pl_demand p"] exI [of _ "pl_reducible p"]
          exI [of _ "pl_withheld p"]) (simp add: subject_demand_def)
  next
    case auth: True
    show ?thesis
    proof (cases "0 < pl_surplus p")
      case True
      then show ?thesis using auth unfolding subject_demand_def Let_def by auto
    next
      case False
      then have "subject_demand policy accounting request subject p
          = p\<lparr>pl_cooling := pl_cooling (subject_demand policy accounting request subject p),
              pl_demand := pl_demand (subject_demand policy accounting request subject p),
              pl_reducible := pl_reducible p, pl_withheld := pl_withheld p\<rparr>"
        using auth by (simp add: subject_demand_def Let_def)
      then show ?thesis by blast
    qed
  qed
  then show ?thesis using that by blast
qed

lemma reducible_bounds:
  fixes surplus cap served floor_units :: u64
  defines "c \<equiv> min surplus cap"
    and "h \<equiv> (if floor_units < served then served - floor_units else 0)"
  shows "min c h \<le> surplus" "min c h \<le> cap" "c - min c h \<le> cap"
    "0 < min c h \<Longrightarrow> unat floor_units + unat (min c h) \<le> unat served"
    "surplus = 0 \<or> unat floor_units + unat surplus \<le> unat served \<Longrightarrow> c - min c h = 0"
proof -
  show "c - min c h = 0" if "surplus = 0 \<or> unat floor_units + unat surplus \<le> unat served"
  proof (cases "surplus = 0")
    case False
    then have "0 < unat surplus" by (simp add: unat_gt_0)
    then have less: "floor_units < served" using that False by (simp add: word_less_nat_alt)
    have "unat c \<le> unat surplus" by (simp add: c_def unat_min)
    then have "c \<le> h" using that False less
      by (simp add: h_def word_le_nat_alt unat_minus_exact [OF less_imp_le [OF less]])
    then show ?thesis by (simp add: min_def)
  qed (simp add: c_def)
  show "min c h \<le> surplus" "min c h \<le> cap" by (simp_all add: c_def min_le_iff_disj)
  have "unat (c - min c h) \<le> unat c" by (simp add: unat_minus_exact word_le_nat_alt unat_min)
  then show "c - min c h \<le> cap" unfolding c_def word_le_nat_alt by (simp add: unat_min)
  show "unat floor_units + unat (min c h) \<le> unat served" if "0 < min c h"
  proof -
    have less: "floor_units < served" using that by (auto simp: h_def split: if_splits)
    then have "unat h = unat served - unat floor_units"
      using unat_minus_exact [OF less_imp_le [OF less]] by (simp add: h_def)
    moreover have "unat floor_units < unat served" using less by (simp add: word_less_nat_alt)
    ultimately show ?thesis by (simp add: unat_min)
  qed
qed

lemma subject_demand_demanding:
  assumes "pl_has_authority p" "pl_reducible p = 0" "pl_withheld p = 0"
  shows "demanding policy subject (subject_demand policy accounting request subject p)"
proof -
  note rb = reducible_bounds [where surplus = "pl_surplus p" and cap = "sb_max_reduce_units subject"
      and floor_units = "sb_guarantee_floor subject" and served = "pl_served p"]
  show ?thesis
    using assms rb
    by (auto simp: subject_demand_def demanding_def Let_def min_le_iff_disj)
qed

end
