(* ===== verification/FG_Corrections.thy ===== *)
theory FG_Corrections
  imports FG_Plan
begin

text \<open>
  The corrective phase of an evaluation: the authorized budget is handed out in full on both sides, the
  internal checks of the engine cannot fail, and the phase changes grants and blocked flags only. The
  last section takes a returned decision apart into the stages that produced it.
\<close>

section \<open>Plans that reach the phase\<close>

text \<open>A plan that reaches the corrective phase with authority.\<close>

definition ready_plan ::
    "FairnessPolicy \<Rightarrow> FairnessAccounting \<Rightarrow> EvaluationContext \<Rightarrow> Distributor \<Rightarrow> nat \<Rightarrow> SubjectPlan \<Rightarrow> bool" where
  "ready_plan policy accounting ctx d i p \<longleftrightarrow>
     (\<exists>evidence ob. global_failure policy ctx = None \<and> ec_evidence ctx = Some evidence \<and>
        evidence_find evidence (sb_id (fp_subjects policy ! i)) = Some ob \<and> pl_served p = ob_served_units ob \<and>
        ob_unserved_streak ob \<le> pl_unserved_streak p \<and> ob_below_floor_streak ob \<le> pl_below_floor_streak p \<and>
        pl_unserved_streak p \<le> max kStreakSaturation (ob_unserved_streak ob) \<and>
        pl_below_floor_streak p \<le> max kStreakSaturation (ob_below_floor_streak ob)) \<and>
     (\<forall>e. accounting_find accounting (sb_id (fp_subjects policy ! i)) = Some e \<longrightarrow>
        sa_generation e = sb_generation (fp_subjects policy ! i)) \<and>
     pl_has_authority p \<and> pl_augment p = 0 \<and> pl_reduce p = 0 \<and> \<not> pl_blocked p \<and>
     numbered policy accounting d (fp_subjects policy ! i) i p \<and> demanding policy (fp_subjects policy ! i) p \<and>
     pl_starving p = starves (fp_subjects policy ! i) p"

lemma phases_without_authority:
  assumes "\<not> pl_has_authority p"
  shows "streak_phase policy ctx subject p = p" "subject_demand policy accounting request subject p = p"
  using assms by (auto simp: streak_phase_def subject_streaks_def subject_demand_def split: option.splits)

lemma numbered_frame:
  "numbered policy accounting d subject i (p\<lparr>pl_unserved_streak := us, pl_below_floor_streak := bs,
      pl_starving := starving, pl_reason := reason\<rparr>) = numbered policy accounting d subject i p"
  "numbered policy accounting d subject i (p\<lparr>pl_cooling := cooling, pl_demand := demand,
      pl_reducible := reducible, pl_withheld := withheld\<rparr>) = numbered policy accounting d subject i p"
  by (simp_all add: numbered_def)

lemma ready_cases:
  assumes np: "number_plans policy accounting ctx d (fst (initial_plans policy accounting ctx)) = Inr ready"
    and i: "i < length (fp_subjects policy)"
  shows "bare_plan (ready ! i) \<and> ready ! i = fst (initial_plans policy accounting ctx) ! i \<or>
    ready_plan policy accounting ctx d i (ready ! i) \<and>
      pl_has_authority (fst (initial_plans policy accounting ctx) ! i) \<and>
      pl_served (fst (initial_plans policy accounting ctx) ! i) = pl_served (ready ! i)"
proof -
  let ?s = "fp_subjects policy ! i" and ?p0 = "fst (initial_plans policy accounting ctx) ! i"
  obtain p where p: "subject_numbers policy accounting d ?s i ?p0 = Inr p"
      "ready ! i = subject_demand policy accounting (ec_request ctx) ?s (streak_phase policy ctx ?s p)"
    using number_plans_nth(2) [OF np _ i] by auto
  show ?thesis
  proof (rule initial_plan_cases [OF i, of accounting ctx])
    assume bare: "bare_plan ?p0"
    then have "p = ?p0" using p(1) bare_plan_simps(1) [OF bare] by (simp add: subject_numbers_def)
    then have "ready ! i = ?p0" using p(2) phases_without_authority [OF bare_plan_simps(1) [OF bare]] by simp
    then show ?thesis using bare by simp
  next
    fix evidence ob
    assume ev: "global_failure policy ctx = None" "ec_evidence ctx = Some evidence"
        "evidence_find evidence (sb_id ?s) = Some ob"
      and init: "?p0 = authorised_plan ob"
      and gen: "\<And>e. accounting_find accounting (sb_id ?s) = Some e \<Longrightarrow> sa_generation e = sb_generation ?s"
    have a0: "pl_has_authority ?p0" "pl_served ?p0 = ob_served_units ob" "pl_augment ?p0 = 0" "pl_reduce ?p0 = 0"
      "\<not> pl_blocked ?p0" "pl_reducible ?p0 = 0" "pl_withheld ?p0 = 0"
      unfolding init by (simp_all add: authorised_plan_def default_plan_def)
    obtain ent base binding grp eff twd sur dev us bs carry where
      f1: "p = ?p0\<lparr>pl_entitlement := ent, pl_base_entitlement := base, pl_floor_binding := binding,
       pl_group_entitlement := grp, pl_surplus := sur, pl_effective_deficit := eff,
       pl_this_window_deficit := twd, pl_deviation := dev, pl_unserved_streak := us,
       pl_below_floor_streak := bs, pl_carry := carry\<rparr>" and nb: "numbered policy accounting d ?s i p"
      and le0: "us \<le> kStreakSaturation" "bs \<le> kStreakSaturation"
      by (rule subject_numbers_form [OF p(1) a0(1)])
    have a1: "pl_has_authority p" "pl_served p = ob_served_units ob" "pl_augment p = 0" "pl_reduce p = 0"
      "\<not> pl_blocked p" "pl_reducible p = 0" "pl_withheld p = 0"
      using a0 by (simp_all add: f1)
    define q where "q = streak_phase policy ctx ?s p"
    obtain us' bs' starving reason where
      f2: "q = p\<lparr>pl_unserved_streak := us', pl_below_floor_streak := bs',
       pl_starving := starving, pl_reason := reason\<rparr>"
      and st: "starving = starves ?s q"
      and le: "ob_unserved_streak ob \<le> us'" "ob_below_floor_streak ob \<le> bs'"
      and ge: "us' \<le> max (pl_unserved_streak p) (ob_unserved_streak ob)" "bs' \<le> max (pl_below_floor_streak p) (ob_below_floor_streak ob)"
      unfolding q_def by (rule streak_phase_form [OF ev a1(1)])
    have a2: "pl_has_authority q" "pl_served q = ob_served_units ob" "pl_augment q = 0" "pl_reduce q = 0"
      "\<not> pl_blocked q" "pl_reducible q = 0" "pl_withheld q = 0" "pl_unserved_streak q = us'"
      "pl_below_floor_streak q = bs'" "pl_starving q = starving"
      using a1 by (simp_all add: f2)
    have nbq: "numbered policy accounting d ?s i q" using nb unfolding f2 numbered_frame .
    have r: "ready ! i = subject_demand policy accounting (ec_request ctx) ?s q" using p(2) by (simp only: q_def)
    obtain cooling demand reducible withheld where
      f3': "subject_demand policy accounting (ec_request ctx) ?s q = q\<lparr>pl_cooling := cooling,
       pl_demand := demand, pl_reducible := reducible, pl_withheld := withheld\<rparr>"
      by (rule subject_demand_form)
    note f3 = r [unfolded f3']
    have served: "pl_served (ready ! i) = ob_served_units ob" using a2 by (simp add: f3)
    have flags: "pl_has_authority (ready ! i)" "pl_augment (ready ! i) = 0" "pl_reduce (ready ! i) = 0"
        "\<not> pl_blocked (ready ! i)" using a2 by (simp_all add: f3)
    have streaks: "ob_unserved_streak ob \<le> pl_unserved_streak (ready ! i)"
        "ob_below_floor_streak ob \<le> pl_below_floor_streak (ready ! i)"
      using le a2 by (simp_all add: f3)
    have "us' \<le> max us (ob_unserved_streak ob)" "bs' \<le> max bs (ob_below_floor_streak ob)"
      using ge by (simp_all add: f1)
    then have upper: "us' \<le> max kStreakSaturation (ob_unserved_streak ob)" "bs' \<le> max kStreakSaturation (ob_below_floor_streak ob)"
      using le0 by (meson max.mono order_refl order_trans)+
    have capped: "pl_unserved_streak (ready ! i) \<le> max kStreakSaturation (ob_unserved_streak ob)"
        "pl_below_floor_streak (ready ! i) \<le> max kStreakSaturation (ob_below_floor_streak ob)"
      using upper a2 by (simp_all add: f3)
    have nbr: "numbered policy accounting d ?s i (ready ! i)"
      using nbq unfolding f3 numbered_frame .
    have dem: "demanding policy ?s (ready ! i)"
      unfolding r by (rule subject_demand_demanding [OF a2(1,6,7)])
    have stv: "pl_starving (ready ! i) = starves ?s (ready ! i)"
      using st a2 by (simp add: f3 starves_def)
    have "ready_plan policy accounting ctx d i (ready ! i)"
      unfolding ready_plan_def
      by (intro conjI exI [of _ evidence] exI [of _ ob] allI impI; fact ev gen flags streaks capped served nbr dem stv)
    then show ?thesis using a0(1,2) served by simp
  qed
qed

section \<open>The corrective phase\<close>

text \<open>The orders list exactly the authorised subjects with something to receive or to give.\<close>

lemma demand_order_props:
  "distinct (demand_order policy plans)"
  "set (demand_order policy plans) = {i. i < length plans \<and> pl_has_authority (plans ! i) \<and> 0 < pl_demand (plans ! i)}"
  by (auto simp: demand_order_def)

lemma supply_order_props:
  "distinct (supply_order policy plans)"
  "set (supply_order policy plans) = {i. i < length plans \<and> pl_has_authority (plans ! i) \<and> 0 < pl_reducible (plans ! i)}"
  by (auto simp: supply_order_def)


definition fresh_plans :: "SubjectPlan list \<Rightarrow> bool" where
  "fresh_plans ready \<longleftrightarrow> (\<forall>i<length ready. pl_augment (ready ! i) = 0 \<and> pl_reduce (ready ! i) = 0 \<and>
     \<not> pl_blocked (ready ! i) \<and>
     (\<not> pl_has_authority (ready ! i) \<longrightarrow> pl_demand (ready ! i) = 0 \<and> pl_reducible (ready ! i) = 0))"

lemma nsum_map_nth: "nsum (map f xs) = (\<Sum>i<length xs. unat (f (xs ! i)))"
  by (simp add: nsum_nth)

lemma order_total:
  assumes "\<And>i. \<lbrakk>i < length xs; i \<notin> A\<rbrakk> \<Longrightarrow> f (xs ! i) = (0 :: u64)" "A \<subseteq> {..<length xs}"
  shows "(\<Sum>i\<in>A. unat (f (xs ! i))) = nsum (map f xs)"
  unfolding nsum_map_nth using assms by (intro sum.mono_neutral_left) auto

text \<open>What each subject is granted and what is taken from it.\<close>

definition augment_grant :: "FairnessPolicy \<Rightarrow> SubjectPlan list \<Rightarrow> u64 \<Rightarrow> nat \<Rightarrow> nat" where
  "augment_grant policy ready authorized =
     grant_of (\<lambda>i. unat (pl_demand (ready ! i))) (demand_order policy ready) (unat authorized)"

definition reduce_grant :: "FairnessPolicy \<Rightarrow> SubjectPlan list \<Rightarrow> u64 \<Rightarrow> nat \<Rightarrow> nat" where
  "reduce_grant policy ready authorized =
     grant_of (\<lambda>i. unat (pl_reducible (ready ! i))) (supply_order policy ready) (unat authorized)"

lemma granted_word: "unat (of_nat (grant_of (\<lambda>i. unat (cap i :: u64)) order b j) :: u64)
    = grant_of (\<lambda>i. unat (cap i)) order b j"
  using grant_of_le_cap [of "\<lambda>i. unat (cap i)" order b j] unat_u64_bounded [of "cap j"]
  by (intro unat_of_nat_exact) simp

text \<open>Both loops hand the whole budget out, each to the subjects of its order.\<close>

lemma budget_granted:
  fixes cap :: "SubjectPlan \<Rightarrow> u64" and w :: "SubjectPlan \<Rightarrow> u64 \<Rightarrow> SubjectPlan" and authorized tot :: u64
  assumes order: "distinct order" "set order = {i. i < length ready \<and> pl_has_authority (ready ! i) \<and> 0 < cap (ready ! i)}"
    and zero: "\<And>i. \<lbrakk>i < length ready; \<not> pl_has_authority (ready ! i)\<rbrakk> \<Longrightarrow> cap (ready ! i) = 0"
    and noop: "\<And>i. i < length ready \<Longrightarrow> w (ready ! i) 0 = ready ! i"
    and le: "authorized \<le> tot" and tot: "unat tot = nsum (map cap ready)"
  defines "r \<equiv> grant_loop (\<lambda>i. cap (ready ! i)) (\<lambda>i g t. t[i := w (t ! i) g]) order authorized ready"
    and "grant \<equiv> grant_of (\<lambda>i. unat (cap (ready ! i))) order (unat authorized)"
  shows "snd r = 0" and "length (fst r) = length ready"
    and "i < length ready \<Longrightarrow> fst r ! i = w (ready ! i) (of_nat (grant i))"
    and "(\<Sum>i\<in>set order. grant i) = unat authorized"
proof -
  have sub: "set order \<subseteq> {..<length ready}" using order(2) by auto
  have out: "cap (ready ! i) = 0" if "i < length ready" "i \<notin> set order" for i
    using that zero order(2) by (auto simp: word_neq_0_conv)
  have s: "(\<Sum>i\<in>set order. unat (cap (ready ! i))) = unat tot"
    using order_total [where f = cap and xs = ready, OF out sub] tot by simp
  have "unat (snd r) = 0"
    unfolding r_def grant_loop_remaining [OF order(1)] s using le by (simp add: word_le_nat_alt)
  then show "snd r = 0" by (simp add: u64_zero_iff)
  have noop': "\<forall>j\<in>set order. j < length ready \<and> w (ready ! j) 0 = ready ! j" using noop sub by auto
  note gl = grant_loop_list [where w = w and cap = "\<lambda>i. cap (ready ! i)" and remaining = authorized,
      OF order(1) noop', folded r_def, folded grant_def]
  show "length (fst r) = length ready" by (rule gl(1))
  show "fst r ! i = w (ready ! i) (of_nat (grant i))" if "i < length ready"
  proof (cases "i \<in> set order")
    case False
    then have "grant i = 0" by (simp add: grant_def grant_of_not_in)
    then show ?thesis using gl(3) [OF False] noop [OF that] by simp
  qed (rule gl(2))
  show "(\<Sum>i\<in>set order. grant i) = unat authorized"
    unfolding grant_def using sum_grants [OF order(1)] s le by (simp add: word_le_nat_alt min_def)
qed

lemma augments_granted:
  fixes policy :: FairnessPolicy
  assumes fresh: "fresh_plans ready" and le: "authorized \<le> tot" and tot: "unat tot = nsum (map pl_demand ready)"
  defines "r \<equiv> grant_augments (demand_order policy ready) authorized ready"
  shows "snd r = 0" and "length (fst r) = length ready"
    and "i < length ready \<Longrightarrow> fst r ! i = (ready ! i)\<lparr>pl_augment := of_nat (augment_grant policy ready authorized i)\<rparr>"
    and "(\<Sum>i\<in>set (demand_order policy ready). augment_grant policy ready authorized i) = unat authorized"
  unfolding r_def grant_augments_def augment_grant_def
  using budget_granted [where cap = pl_demand and w = "\<lambda>p g. p\<lparr>pl_augment := g\<rparr>", OF demand_order_props _ _ le tot] fresh
  by (simp_all add: fresh_plans_def)

lemma reductions_taken:
  fixes policy :: FairnessPolicy
  assumes zero: "\<And>i. i < length ready \<Longrightarrow> pl_reduce (ready ! i) = 0"
      "\<And>i. \<lbrakk>i < length ready; \<not> pl_has_authority (ready ! i)\<rbrakk> \<Longrightarrow> pl_reducible (ready ! i) = 0"
    and le: "authorized \<le> tot" and tot: "unat tot = nsum (map pl_reducible ready)"
  defines "r \<equiv> take_reductions (supply_order policy ready) authorized ready"
  shows "snd r = 0" and "length (fst r) = length ready"
    and "i < length ready \<Longrightarrow> fst r ! i = (ready ! i)\<lparr>pl_reduce := of_nat (reduce_grant policy ready authorized i)\<rparr>"
    and "(\<Sum>i\<in>set (supply_order policy ready). reduce_grant policy ready authorized i) = unat authorized"
  unfolding r_def take_reductions_def reduce_grant_def
  using budget_granted [where cap = pl_reducible and w = "\<lambda>p g. p\<lparr>pl_reduce := g\<rparr>", OF supply_order_props _ _ le tot] zero
  by simp_all

lemma mark_blocked_nth:
  "length (mark_blocked policy blocked order plans) = length plans \<and>
   (i < length plans \<longrightarrow> (\<exists>b. mark_blocked policy blocked order plans ! i = (plans ! i)\<lparr>pl_blocked := b\<rparr> \<and>
      (b \<longrightarrow> blocked \<and> i \<in> set order \<or> pl_blocked (plans ! i))))"
proof (induction order arbitrary: plans)
  case Nil
  then show ?case by (auto simp: mark_blocked_def intro!: exI [of _ "pl_blocked (plans ! i)"])
next
  case (Cons k order)
  define plans' where "plans' = mark_blocked policy blocked [k] plans"
  have split: "mark_blocked policy blocked (k # order) plans = mark_blocked policy blocked order plans'"
    by (simp add: mark_blocked_def plans'_def)
  have len: "length plans' = length plans" by (simp add: plans'_def mark_blocked_def Let_def)
  have one: "\<exists>b. plans' ! i = (plans ! i)\<lparr>pl_blocked := b\<rparr> \<and> (b \<longrightarrow> blocked \<and> i = k \<or> pl_blocked (plans ! i))"
    if "i < length plans"
  proof (cases "i = k")
    case True
    then show ?thesis using that by (auto simp: plans'_def mark_blocked_def Let_def)
  next
    case False
    then have "plans' ! i = plans ! i" by (simp add: plans'_def mark_blocked_def Let_def)
    then show ?thesis by (intro exI [of _ "pl_blocked (plans ! i)"]) simp
  qed
  show ?case
  proof (intro conjI impI)
    show "length (mark_blocked policy blocked (k # order) plans) = length plans" using Cons.IH len split by simp
    assume i: "i < length plans"
    obtain b where b: "plans' ! i = (plans ! i)\<lparr>pl_blocked := b\<rparr>" "b \<longrightarrow> blocked \<and> i = k \<or> pl_blocked (plans ! i)"
      using one [OF i] by blast
    obtain c where c: "mark_blocked policy blocked order plans' ! i = (plans' ! i)\<lparr>pl_blocked := c\<rparr>"
        "c \<longrightarrow> blocked \<and> i \<in> set order \<or> pl_blocked (plans' ! i)"
      using Cons.IH [of plans'] i len by auto
    show "\<exists>b. mark_blocked policy blocked (k # order) plans ! i = (plans ! i)\<lparr>pl_blocked := b\<rparr> \<and>
        (b \<longrightarrow> blocked \<and> i \<in> set (k # order) \<or> pl_blocked (plans ! i))"
      using b c by (intro exI [of _ c]) (auto simp: split)
  qed
qed

text \<open>The corrective phase as a whole: with totals and budgets that exist it runs to its end, no internal
  check fails, and it changes the grants and the blocked flags only.\<close>

definition authorized_of :: "FairnessPolicy \<Rightarrow> u64 \<Rightarrow> SubjectPlan list \<Rightarrow> u64" where
  "authorized_of policy budget ready =
     authorized_budget policy (of_nat (nsum (map pl_reducible ready))) (of_nat (nsum (map pl_demand ready))) budget"

definition augmented_plans :: "FairnessPolicy \<Rightarrow> u64 \<Rightarrow> SubjectPlan list \<Rightarrow> SubjectPlan list" where
  "augmented_plans policy authorized ready = fst (grant_augments (demand_order policy ready) authorized ready)"

definition granted_plans :: "FairnessPolicy \<Rightarrow> u64 \<Rightarrow> SubjectPlan list \<Rightarrow> SubjectPlan list" where
  "granted_plans policy authorized ready =
     (let augmented = augmented_plans policy authorized ready
      in fst (take_reductions (supply_order policy augmented) authorized augmented))"

lemma authorized_le:
  assumes "nsum (map pl_reducible ready) < 2 ^ 64" "nsum (map pl_demand ready) < 2 ^ 64"
  shows "unat (authorized_of policy budget ready) \<le> nsum (map pl_reducible ready)"
    "unat (authorized_of policy budget ready) \<le> nsum (map pl_demand ready)"
    "authorized_of policy budget ready \<le> fp_max_correction_units policy"
    "authorized_of policy budget ready \<le> budget"
  using assms by (auto simp: authorized_of_def authorized_budget_def unat_min unat_of_nat_exact min_le_iff_disj)

lemma granted_plans_props:
  fixes policy :: FairnessPolicy and authorized :: u64
  assumes fresh: "fresh_plans ready" and le: "unat authorized \<le> nsum (map pl_reducible ready)"
      "unat authorized \<le> nsum (map pl_demand ready)"
    and fits: "nsum (map pl_reducible ready) < 2 ^ 64" "nsum (map pl_demand ready) < 2 ^ 64"
  defines "augmented \<equiv> augmented_plans policy authorized ready" and "granted \<equiv> granted_plans policy authorized ready"
  shows "snd (grant_augments (demand_order policy ready) authorized ready) = 0"
    and "snd (take_reductions (supply_order policy augmented) authorized augmented) = 0"
    and "length augmented = length ready" and "length granted = length ready"
    and "i < length ready \<Longrightarrow> granted ! i = (ready ! i)\<lparr>pl_augment := of_nat (augment_grant policy ready authorized i),
          pl_reduce := of_nat (reduce_grant policy augmented authorized i)\<rparr>"
    and "(\<Sum>i\<in>set (demand_order policy ready). augment_grant policy ready authorized i) = unat authorized"
    and "(\<Sum>i\<in>set (supply_order policy augmented). reduce_grant policy augmented authorized i) = unat authorized"
    and "set (supply_order policy augmented) = {i. i < length ready \<and> pl_has_authority (ready ! i) \<and> 0 < pl_reducible (ready ! i)}"
    and "reduce_grant policy augmented authorized i = grant_of (\<lambda>i. unat (pl_reducible (augmented ! i))) (supply_order policy augmented) (unat authorized) i"
proof -
  have tot: "unat (of_nat (nsum (map pl_demand ready)) :: u64) = nsum (map pl_demand ready)"
      "unat (of_nat (nsum (map pl_reducible ready)) :: u64) = nsum (map pl_reducible ready)"
    using fits by (simp_all add: unat_of_nat_exact)
  have le': "authorized \<le> of_nat (nsum (map pl_demand ready))" "authorized \<le> of_nat (nsum (map pl_reducible ready))"
    using le tot by (simp_all add: word_le_nat_alt)
  note ag = augments_granted [OF fresh le'(1) tot(1), folded augmented_plans_def, folded augmented_def]
  show "snd (grant_augments (demand_order policy ready) authorized ready) = 0" by (rule ag(1))
  show la: "length augmented = length ready" unfolding augmented_def augmented_plans_def
    using ag(2) by (simp add: augmented_plans_def)
  have au: "augmented ! i = (ready ! i)\<lparr>pl_augment := of_nat (augment_grant policy ready authorized i)\<rparr>"
    if "i < length ready" for i unfolding augmented_def augmented_plans_def
    using ag(3) [OF that] by (simp add: augmented_plans_def)
  have red: "map pl_reducible augmented = map pl_reducible ready"
    by (rule nth_equalityI) (simp_all add: la au)
  have tot': "unat (of_nat (nsum (map pl_reducible ready)) :: u64) = nsum (map pl_reducible augmented)"
    using tot(2) red by simp
  have zero: "pl_reduce (augmented ! i) = 0" "\<not> pl_has_authority (augmented ! i) \<Longrightarrow> pl_reducible (augmented ! i) = 0"
    if "i < length augmented" for i
    using that la au fresh by (simp_all add: fresh_plans_def)
  note rt = reductions_taken [OF zero le'(2) tot', where policy = policy]
  show "snd (take_reductions (supply_order policy augmented) authorized augmented) = 0" by (rule rt(1))
  show "length granted = length ready"
    unfolding granted_def granted_plans_def Let_def augmented_def [symmetric] using rt(2) la by simp
  show "granted ! i = (ready ! i)\<lparr>pl_augment := of_nat (augment_grant policy ready authorized i),
          pl_reduce := of_nat (reduce_grant policy augmented authorized i)\<rparr>" if "i < length ready"
    unfolding granted_def granted_plans_def Let_def augmented_def [symmetric]
    using rt(3) [of i] la au [OF that] that by simp
  show "(\<Sum>i\<in>set (demand_order policy ready). augment_grant policy ready authorized i) = unat authorized" by (rule ag(4))
  show "(\<Sum>i\<in>set (supply_order policy augmented). reduce_grant policy augmented authorized i) = unat authorized"
    by (rule rt(4))
  show "set (supply_order policy augmented) = {i. i < length ready \<and> pl_has_authority (ready ! i) \<and> 0 < pl_reducible (ready ! i)}"
    unfolding supply_order_props by (auto simp: la au)
  show "reduce_grant policy augmented authorized i = grant_of (\<lambda>i. unat (pl_reducible (augmented ! i))) (supply_order policy augmented) (unat authorized) i"
    by (simp add: reduce_grant_def)
qed


lemma correction_totals_Inr:
  "correction_totals ready = Inr (pool, dem, wit) \<longleftrightarrow>
     checked_total (map pl_reducible ready) 0 = Some pool \<and> checked_total (map pl_demand ready) 0 = Some dem \<and>
     checked_total (map pl_withheld ready) 0 = Some wit"
  by (auto simp: correction_totals_def split: option.splits)

lemma plan_corrections_eq:
  assumes fresh: "fresh_plans ready" and totals: "correction_totals ready = Inr (pool, dem, wit)"
    and budget: "basis_point_budget policy whole = Inr budget"
  defines "authorized \<equiv> authorized_of policy budget ready"
  shows "plan_corrections policy ok whole ready =
     and_then (close_plan policy ok (demand_order policy ready) (pool, dem, wit) budget
        (granted_plans policy authorized ready)) (\<lambda>(plans, summary).
          Inr (plans, summary, demand_order policy ready, supply_order policy (augmented_plans policy authorized ready)))"
    and "authorized_budget policy pool dem budget = authorized"
    and "nsum (map pl_reducible ready) < 2 ^ 64" "nsum (map pl_demand ready) < 2 ^ 64"
    and "unat pool = nsum (map pl_reducible ready)" "unat dem = nsum (map pl_demand ready)"
proof -
  have p: "nsum (map pl_reducible ready) < 2 ^ 64" "unat pool = nsum (map pl_reducible ready)"
    and dm: "nsum (map pl_demand ready) < 2 ^ 64" "unat dem = nsum (map pl_demand ready)"
    using totals by (simp_all add: correction_totals_Inr checked_total_Some)
  show "nsum (map pl_reducible ready) < 2 ^ 64" "nsum (map pl_demand ready) < 2 ^ 64"
    "unat pool = nsum (map pl_reducible ready)" "unat dem = nsum (map pl_demand ready)"
    by (fact p dm)+
  have words: "pool = of_nat (nsum (map pl_reducible ready))" "dem = of_nat (nsum (map pl_demand ready))"
    by (simp_all flip: p(2) dm(2))
  show auth: "authorized_budget policy pool dem budget = authorized"
    by (simp add: authorized_def authorized_of_def words)
  note le = authorized_le [OF p(1) dm(1), where policy = policy and budget = budget, folded authorized_def]
  note gp = granted_plans_props [OF fresh le(1,2) p(1) dm(1), where policy = policy]
  have 1: "grant_augments (demand_order policy ready) authorized ready = (augmented_plans policy authorized ready, 0)"
    using gp(1) by (simp add: augmented_plans_def prod_eq_iff)
  have 2: "take_reductions (supply_order policy (augmented_plans policy authorized ready)) authorized
      (augmented_plans policy authorized ready) = (granted_plans policy authorized ready, 0)"
    using gp(2) by (simp add: granted_plans_def prod_eq_iff Let_def)
  show "plan_corrections policy ok whole ready =
     and_then (close_plan policy ok (demand_order policy ready) (pool, dem, wit) budget
        (granted_plans policy authorized ready)) (\<lambda>(plans, summary).
          Inr (plans, summary, demand_order policy ready, supply_order policy (augmented_plans policy authorized ready)))"
    unfolding plan_corrections_def totals budget and_then_simps prod.case Let_def auth 1 2 by simp
qed

lemma close_plan_Inr:
  assumes "close_plan policy ok order (pool, dem, wit) budget granted = Inr (plans, summary)"
  shows "plans = mark_blocked policy (cs_protected_obligation_blocked summary) order granted"
    and "cs_authorized_budget_units summary = authorized_budget policy pool dem budget"
    and "cs_augment_units summary = authorized_budget policy pool dem budget"
    and "cs_reduce_units summary = authorized_budget policy pool dem budget"
    and "cs_reducible_pool_units summary = pool" "cs_demand_units summary = dem" "cs_withheld_units summary = wit"
    and "cs_authority_missing summary = (\<not> ok)"
    and "unsatisfied_total policy granted = Some (cs_unsatisfied_demand_units summary)"
    and "cs_protected_obligation_blocked summary \<longleftrightarrow>
      0 < cs_unsatisfied_demand_units summary \<and> 0 < wit \<and> authorized_budget policy pool dem budget < dem"
  using assms by (auto simp: close_plan_def Let_def split: option.splits)

lemma plan_corrections_spec:
  assumes pc: "plan_corrections policy ok whole ready = Inr (plans, summary, d_order, s_order)"
    and fresh: "fresh_plans ready"
  obtains budget authorized augmented where
    "basis_point_budget policy whole = Inr budget" "authorized = authorized_of policy budget ready"
    "augmented = augmented_plans policy authorized ready"
    "d_order = demand_order policy ready" "s_order = supply_order policy augmented"
    "nsum (map pl_reducible ready) < 2 ^ 64" "nsum (map pl_demand ready) < 2 ^ 64"
    "unat (cs_reducible_pool_units summary) = nsum (map pl_reducible ready)"
    "unat (cs_demand_units summary) = nsum (map pl_demand ready)"
    "cs_authorized_budget_units summary = authorized" "cs_augment_units summary = authorized"
    "cs_reduce_units summary = authorized" "cs_authority_missing summary = (\<not> ok)"
    "length plans = length ready"
    "\<And>i. i < length ready \<Longrightarrow> \<exists>b. plans ! i = (ready ! i)\<lparr>pl_augment := of_nat (augment_grant policy ready authorized i),
          pl_reduce := of_nat (reduce_grant policy augmented authorized i), pl_blocked := b\<rparr> \<and>
        (b \<longrightarrow> cs_protected_obligation_blocked summary \<and> i \<in> set d_order)"
    "cs_protected_obligation_blocked summary \<Longrightarrow> 0 < cs_withheld_units summary \<and> authorized < cs_demand_units summary"
proof -
  obtain pool dem wit budget where t: "correction_totals ready = Inr (pool, dem, wit)"
      "basis_point_budget policy whole = Inr budget"
    using pc by (auto simp: plan_corrections_def and_then_Inr)
  define authorized where "authorized = authorized_of policy budget ready"
  define augmented where "augmented = augmented_plans policy authorized ready"
  note eq = plan_corrections_eq [OF fresh t, folded authorized_def]
  have cp: "close_plan policy ok (demand_order policy ready) (pool, dem, wit) budget (granted_plans policy authorized ready)
      = Inr (plans, summary)" and orders: "d_order = demand_order policy ready" "s_order = supply_order policy augmented"
    using pc unfolding eq(1) by (auto simp: and_then_Inr augmented_def)
  note le = authorized_le [OF eq(3,4), where policy = policy and budget = budget, folded authorized_def]
  note gp = granted_plans_props [OF fresh le(1,2) eq(3,4), where policy = policy, folded augmented_def]
  note cl = close_plan_Inr [OF cp, unfolded eq(2)]
  have mb: "length plans = length ready \<and> (i < length ready \<longrightarrow>
      (\<exists>b. plans ! i = (granted_plans policy authorized ready ! i)\<lparr>pl_blocked := b\<rparr> \<and>
        (b \<longrightarrow> cs_protected_obligation_blocked summary \<and> i \<in> set (demand_order policy ready) \<or> pl_blocked (granted_plans policy authorized ready ! i))))" for i
    using mark_blocked_nth [of policy "cs_protected_obligation_blocked summary" "demand_order policy ready"
      "granted_plans policy authorized ready" i] unfolding cl(1) [symmetric] gp(4) .
  have nth: "\<exists>b. plans ! i = (ready ! i)\<lparr>pl_augment := of_nat (augment_grant policy ready authorized i),
          pl_reduce := of_nat (reduce_grant policy augmented authorized i), pl_blocked := b\<rparr> \<and>
        (b \<longrightarrow> cs_protected_obligation_blocked summary \<and> i \<in> set d_order)" if l: "i < length ready" for i
  proof -
    obtain b where b: "plans ! i = (granted_plans policy authorized ready ! i)\<lparr>pl_blocked := b\<rparr>"
        "b \<longrightarrow> cs_protected_obligation_blocked summary \<and> i \<in> set (demand_order policy ready) \<or> pl_blocked (granted_plans policy authorized ready ! i)"
      using mb [of i] l by blast
    have "\<not> pl_blocked (granted_plans policy authorized ready ! i)"
      using fresh l by (simp add: gp(5) fresh_plans_def)
    then show ?thesis using b gp(5) [OF l] orders(1) by (intro exI [of _ b]) simp
  qed
  show thesis
  proof (rule that [OF t(2) authorized_def augmented_def orders eq(3,4)])
    show "unat (cs_reducible_pool_units summary) = nsum (map pl_reducible ready)" using cl(5) eq(5) by simp
    show "unat (cs_demand_units summary) = nsum (map pl_demand ready)" using cl(6) eq(6) by simp
    show "cs_authorized_budget_units summary = authorized" "cs_augment_units summary = authorized"
      "cs_reduce_units summary = authorized" "cs_authority_missing summary = (\<not> ok)" by (fact cl)+
    show "length plans = length ready" using mb gp(4) by simp
    show "0 < cs_withheld_units summary \<and> authorized < cs_demand_units summary"
      if "cs_protected_obligation_blocked summary" using that cl(6,7,10) by simp
  qed (rule nth)
qed

section \<open>The stages of an evaluation\<close>

lemma map2_nth: "\<lbrakk>i < length xs; length ys = length xs\<rbrakk> \<Longrightarrow> map2 f xs ys ! i = f (xs ! i) (ys ! i)"
  by simp

lemma evaluationE:
  assumes "evaluate_fairness ctx = Some (Inr decision)"
  obtains policy accounting tree whole d ready plans summary d_order s_order groups intents where
    "ec_policy ctx = Some policy" "ec_accounting ctx = Some accounting" "build policy = Inr tree"
    "attained_whole (fst (initial_plans policy accounting ctx)) = Some whole"
    "distribute policy whole tree = Some (Inr d)"
    "number_plans policy accounting ctx d (fst (initial_plans policy accounting ctx)) = Inr ready"
    "plan_corrections policy (global_failure policy ctx = None) whole ready = Inr (plans, summary, d_order, s_order)"
    "group_states policy d (map2 (assign_outcome policy) (fp_subjects policy) plans) = Some groups"
    "all_intents policy accounting (ec_request ctx) (map2 (assign_outcome policy) (fp_subjects policy) plans)
       d_order s_order = Inr intents"
    "decision = assemble policy accounting ctx (overcommit_notes d (snd (initial_plans policy accounting ctx)))
       (map2 (assign_outcome policy) (fp_subjects policy) plans) summary groups intents"
proof -
  obtain policy accounting tree where 1: "ec_policy ctx = Some policy" "ec_accounting ctx = Some accounting"
      "build policy = Inr tree" "evaluate_on policy accounting ctx tree = Some (Inr decision)"
    using assms by (auto simp: evaluate_fairness_def split: option.splits sum.splits)
  obtain whole d where 2: "attained_whole (fst (initial_plans policy accounting ctx)) = Some whole"
      "distribute policy whole tree = Some (Inr d)"
      "evaluate_distributed policy accounting ctx whole d (initial_plans policy accounting ctx) = Some (Inr decision)"
    using 1(4) by (auto simp: evaluate_on_def Let_def split: option.splits sum.splits)
  obtain corrected where 3: "and_then (number_plans policy accounting ctx d (fst (initial_plans policy accounting ctx)))
             (plan_corrections policy (global_failure policy ctx = None) whole) = Inr corrected"
      "conclude policy accounting ctx d (overcommit_notes d (snd (initial_plans policy accounting ctx))) corrected
        = Some (Inr decision)"
    using 2(3) by (auto simp: evaluate_distributed_def split: sum.splits)
  obtain ready where 4: "number_plans policy accounting ctx d (fst (initial_plans policy accounting ctx)) = Inr ready"
      "plan_corrections policy (global_failure policy ctx = None) whole ready = Inr corrected"
    using 3(1) unfolding and_then_Inr by blast
  obtain plans summary d_order s_order where c: "corrected = (plans, summary, d_order, s_order)" by (cases corrected) auto
  obtain groups where 5: "group_states policy d (map2 (assign_outcome policy) (fp_subjects policy) plans) = Some groups"
    using 3(2) unfolding c by (auto simp: conclude_def Let_def split: option.splits)
  obtain intents where 6: "all_intents policy accounting (ec_request ctx)
       (map2 (assign_outcome policy) (fp_subjects policy) plans) d_order s_order = Inr intents"
      "decision = assemble policy accounting ctx (overcommit_notes d (snd (initial_plans policy accounting ctx)))
       (map2 (assign_outcome policy) (fp_subjects policy) plans) summary groups intents"
    using 3(2) unfolding c conclude_def prod.case Let_def 5 option.case by (auto simp: and_then_Inr)
  show thesis by (rule that [OF 1(1-3) 2(1,2) 4(1) 4(2) [unfolded c] 5 6])
qed

end
