(* ===== verification/FG_Evaluation.thy ===== *)
theory FG_Evaluation
  imports FG_Corrections
begin

text \<open>
  Returned decisions (\<open>evaluate_fairness\<close>): the stages every decision went through, in one statement
  over the subjects, the corrective summary and the intents.
\<close>

section \<open>The subjects of a decision\<close>

lemma fresh_ready:
  assumes "number_plans policy accounting ctx d (fst (initial_plans policy accounting ctx)) = Inr ready"
  shows "fresh_plans ready" "length ready = length (fp_subjects policy)"
proof -
  show len: "length ready = length (fp_subjects policy)" by (rule number_plans_nth(1) [OF assms]) simp
  show "fresh_plans ready"
    unfolding fresh_plans_def len
  proof (intro allI impI)
    fix i assume i: "i < length (fp_subjects policy)"
    show "pl_augment (ready ! i) = 0 \<and> pl_reduce (ready ! i) = 0 \<and> \<not> pl_blocked (ready ! i) \<and>
        (\<not> pl_has_authority (ready ! i) \<longrightarrow> pl_demand (ready ! i) = 0 \<and> pl_reducible (ready ! i) = 0)"
      using ready_cases [OF assms i] by (auto simp: ready_plan_def dest: bare_plan_simps)
  qed
qed

text \<open>A plan at the end of the evaluation, next to the plan that entered the corrective phase.\<close>

definition settled ::
    "FairnessPolicy \<Rightarrow> FairnessAccounting \<Rightarrow> EvaluationContext \<Rightarrow> Distributor \<Rightarrow> bool \<Rightarrow> nat \<Rightarrow> SubjectPlan \<Rightarrow> bool" where
  "settled policy accounting ctx d blocked i p \<longleftrightarrow>
     (\<exists>r g h b. ready_plan policy accounting ctx d i r \<and> p = r\<lparr>pl_augment := g, pl_reduce := h, pl_blocked := b\<rparr> \<and>
        g \<le> pl_demand r \<and> h \<le> pl_reducible r \<and> (b \<longrightarrow> blocked))"

text \<open>Everything later proofs need about a returned decision.\<close>

lemma decision_stages:
  assumes "evaluate_fairness ctx = Some (Inr decision)"
  obtains policy accounting tree whole d ready plans summary d_order s_order groups intents budget authorized
  where
    "ec_policy ctx = Some policy" "ec_accounting ctx = Some accounting" "build policy = Inr tree"
    "attained_whole (fst (initial_plans policy accounting ctx)) = Some whole"
    "distribute policy whole tree = Some (Inr d)"
    "number_plans policy accounting ctx d (fst (initial_plans policy accounting ctx)) = Inr ready"
    "plan_corrections policy (global_failure policy ctx = None) whole ready = Inr (plans, summary, d_order, s_order)"
    "length plans = length (fp_subjects policy)"
    "\<And>i. i < length (fp_subjects policy) \<Longrightarrow> bare_plan (plans ! i) \<or>
       settled policy accounting ctx d (cs_protected_obligation_blocked summary) i (plans ! i)"
    "basis_point_budget policy whole = Inr budget" "authorized = authorized_of policy budget ready"
    "fd_correction decision = summary"
    "fd_subjects decision = map2 (subject_state policy) (fp_subjects policy)
       (map2 (assign_outcome policy) (fp_subjects policy) plans)"
    "fd_outcome decision = aggregate_outcome (map2 (assign_outcome policy) (fp_subjects policy) plans)"
    "fd_counts decision = outcome_counts (map2 (assign_outcome policy) (fp_subjects policy) plans)"
    "fd_intents decision = intents" "fd_groups decision = groups"
    "all_intents policy accounting (ec_request ctx) (map2 (assign_outcome policy) (fp_subjects policy) plans)
       d_order s_order = Inr intents"
    "group_states policy d (map2 (assign_outcome policy) (fp_subjects policy) plans) = Some groups"
    "distinct d_order" "set d_order = {i. i < length plans \<and> pl_has_authority (ready ! i) \<and> 0 < pl_demand (ready ! i)}"
    "distinct s_order" "set s_order = {i. i < length plans \<and> pl_has_authority (ready ! i) \<and> 0 < pl_reducible (ready ! i)}"
    "(\<Sum>i\<in>set d_order. unat (pl_augment (plans ! i))) = unat authorized"
    "(\<Sum>i\<in>set s_order. unat (pl_reduce (plans ! i))) = unat authorized"
    "cs_authorized_budget_units summary = authorized" "cs_augment_units summary = authorized"
    "cs_reduce_units summary = authorized" "authorized \<le> budget" "authorized \<le> fp_max_correction_units policy"
    "authorized \<le> cs_reducible_pool_units summary" "authorized \<le> cs_demand_units summary"
    "cs_authority_missing summary \<longleftrightarrow> global_failure policy ctx \<noteq> None"
    "cs_protected_obligation_blocked summary \<Longrightarrow> 0 < cs_withheld_units summary \<and> authorized < cs_demand_units summary"
proof -
  obtain policy accounting tree whole d ready plans summary d_order s_order groups intents where st:
    "ec_policy ctx = Some policy" "ec_accounting ctx = Some accounting" "build policy = Inr tree"
    "attained_whole (fst (initial_plans policy accounting ctx)) = Some whole"
    "distribute policy whole tree = Some (Inr d)"
    "number_plans policy accounting ctx d (fst (initial_plans policy accounting ctx)) = Inr ready"
    "plan_corrections policy (global_failure policy ctx = None) whole ready = Inr (plans, summary, d_order, s_order)"
    "group_states policy d (map2 (assign_outcome policy) (fp_subjects policy) plans) = Some groups"
    "all_intents policy accounting (ec_request ctx) (map2 (assign_outcome policy) (fp_subjects policy) plans)
       d_order s_order = Inr intents"
    "decision = assemble policy accounting ctx (overcommit_notes d (snd (initial_plans policy accounting ctx)))
       (map2 (assign_outcome policy) (fp_subjects policy) plans) summary groups intents"
    by (rule evaluationE [OF assms])
  note fr = fresh_ready [OF st(6)]
  obtain budget authorized augmented where pc:
    "basis_point_budget policy whole = Inr budget" "authorized = authorized_of policy budget ready"
    "augmented = augmented_plans policy authorized ready"
    "d_order = demand_order policy ready" "s_order = supply_order policy augmented"
    "nsum (map pl_reducible ready) < 2 ^ 64" "nsum (map pl_demand ready) < 2 ^ 64"
    "unat (cs_reducible_pool_units summary) = nsum (map pl_reducible ready)"
    "unat (cs_demand_units summary) = nsum (map pl_demand ready)"
    "cs_authorized_budget_units summary = authorized" "cs_augment_units summary = authorized"
    "cs_reduce_units summary = authorized" "cs_authority_missing summary = (\<not> global_failure policy ctx = None)"
    "length plans = length ready"
    "\<And>i. i < length ready \<Longrightarrow> \<exists>b. plans ! i = (ready ! i)\<lparr>pl_augment := of_nat (augment_grant policy ready authorized i),
          pl_reduce := of_nat (reduce_grant policy augmented authorized i), pl_blocked := b\<rparr> \<and>
        (b \<longrightarrow> cs_protected_obligation_blocked summary \<and> i \<in> set d_order)"
    "cs_protected_obligation_blocked summary \<Longrightarrow> 0 < cs_withheld_units summary \<and> authorized < cs_demand_units summary"
    by (rule plan_corrections_spec [OF st(7) fr(1)]) blast
  note le = authorized_le [OF pc(6,7), where policy = policy and budget = budget, folded pc(2)]
  note gp = granted_plans_props [OF fr(1) le(1,2) pc(6,7), where policy = policy, folded pc(3), folded pc(4,5)]
  have red: "pl_reducible (augmented ! i) = pl_reducible (ready ! i)" if "i < length ready" for i
    unfolding pc(3) augmented_plans_def
    using augments_granted(3) [OF fr(1), of authorized "cs_demand_units summary" i policy] le(2) pc(9) that
    by (simp add: word_le_nat_alt)
  have g: "unat (of_nat (augment_grant policy ready authorized i) :: u64) = augment_grant policy ready authorized i"
    "augment_grant policy ready authorized i \<le> unat (pl_demand (ready ! i))"
    "i \<notin> set d_order \<Longrightarrow> augment_grant policy ready authorized i = 0" for i
    unfolding augment_grant_def pc(4) by (rule granted_word, rule grant_of_le_cap, rule grant_of_not_in)
  have h: "unat (of_nat (reduce_grant policy augmented authorized i) :: u64) = reduce_grant policy augmented authorized i"
    "reduce_grant policy augmented authorized i \<le> unat (pl_reducible (augmented ! i))"
    "i \<notin> set s_order \<Longrightarrow> reduce_grant policy augmented authorized i = 0" for i
    unfolding reduce_grant_def pc(5) by (rule granted_word, rule grant_of_le_cap, rule grant_of_not_in)
  have d_set: "set d_order = {i. i < length plans \<and> pl_has_authority (ready ! i) \<and> 0 < pl_demand (ready ! i)}"
    unfolding pc(4) demand_order_props pc(14) ..
  have s_set: "set s_order = {i. i < length plans \<and> pl_has_authority (ready ! i) \<and> 0 < pl_reducible (ready ! i)}"
    unfolding gp(8) pc(14) ..
  have each: "bare_plan (plans ! i) \<or> settled policy accounting ctx d (cs_protected_obligation_blocked summary) i (plans ! i)"
    if i: "i < length (fp_subjects policy)" for i
  proof -
    have ir: "i < length ready" using i fr(2) by simp
    obtain b where b: "plans ! i = (ready ! i)\<lparr>pl_augment := of_nat (augment_grant policy ready authorized i),
          pl_reduce := of_nat (reduce_grant policy augmented authorized i), pl_blocked := b\<rparr>"
        "b \<longrightarrow> cs_protected_obligation_blocked summary \<and> i \<in> set d_order"
      using pc(15) [OF ir] by blast
    from ready_cases [OF st(6) i] show ?thesis
    proof (elim disjE conjE)
      assume bare: "bare_plan (ready ! i)"
      note bs = bare_plan_simps [OF bare]
      have "i \<notin> set d_order" "i \<notin> set s_order" using bs(1) by (simp_all add: d_set s_set)
      then have "plans ! i = ready ! i" using b g(3) h(3) bs(5,6,8) by simp
      then show ?thesis using bare by simp
    next
      assume r: "ready_plan policy accounting ctx d i (ready ! i)"
      have "of_nat (augment_grant policy ready authorized i) \<le> pl_demand (ready ! i)"
        using g(1,2) [of i] by (simp add: word_le_nat_alt)
      moreover have "of_nat (reduce_grant policy augmented authorized i) \<le> pl_reducible (ready ! i)"
        using h(1,2) [of i] red [OF ir] by (simp add: word_le_nat_alt)
      ultimately show ?thesis unfolding settled_def using r b by blast
    qed
  qed
  have ag: "unat (pl_augment (plans ! i)) = augment_grant policy ready authorized i"
      "unat (pl_reduce (plans ! i)) = reduce_grant policy augmented authorized i" if "i < length plans" for i
    using pc(15) [of i] that pc(14) g(1) h(1) by auto
  have "(\<Sum>i\<in>set d_order. unat (pl_augment (plans ! i))) = (\<Sum>i\<in>set d_order. augment_grant policy ready authorized i)"
    by (rule sum.cong) (use ag(1) d_set in simp_all)
  moreover have "(\<Sum>i\<in>set s_order. unat (pl_reduce (plans ! i))) = (\<Sum>i\<in>set s_order. reduce_grant policy augmented authorized i)"
    by (rule sum.cong) (use ag(2) s_set in simp_all)
  ultimately have sums: "(\<Sum>i\<in>set d_order. unat (pl_augment (plans ! i))) = unat authorized"
      "(\<Sum>i\<in>set s_order. unat (pl_reduce (plans ! i))) = unat authorized"
    using gp(6,7) by simp_all
  have dec: "fd_correction decision = summary"
    "fd_subjects decision = map2 (subject_state policy) (fp_subjects policy)
       (map2 (assign_outcome policy) (fp_subjects policy) plans)"
    "fd_outcome decision = aggregate_outcome (map2 (assign_outcome policy) (fp_subjects policy) plans)"
    "fd_counts decision = outcome_counts (map2 (assign_outcome policy) (fp_subjects policy) plans)"
    "fd_intents decision = intents" "fd_groups decision = groups"
    by (simp_all add: st(10) assemble_def Let_def)
  have len: "length plans = length (fp_subjects policy)" using pc(14) fr(2) by simp
  have les: "authorized \<le> cs_reducible_pool_units summary" "authorized \<le> cs_demand_units summary"
    using le(1,2) pc(8,9) by (simp_all add: word_le_nat_alt)
  have dist: "distinct d_order" "distinct s_order"
    unfolding pc(4,5) by (simp_all add: demand_order_props supply_order_props)
  show thesis
    by (rule that [OF st(1-7) len each pc(1,2) dec st(9,8) dist(1) d_set dist(2) s_set sums pc(10-12) le(4,3) les _ pc(16)])
      (use pc(13) in auto)
qed

end
