(* ===== verification/FG_Returns.thy ===== *)
theory FG_Returns
  imports FG_Evaluation
begin

text \<open>
  The evaluation is total on what the governor feeds it: with an accepted policy, accounting inside the
  durable bounds and evidence that passed its validation, no arithmetic check, no internal check of the
  corrective phase, no limit on intents and no fuel of the group walks stops it.
\<close>

section \<open>Bounds on what enters the evaluation\<close>

definition accounting_bounded :: "FairnessAccounting \<Rightarrow> bool" where
  "accounting_bounded a \<longleftrightarrow> (\<forall>e\<in>set (ac_subjects a).
     sa_cumulative_deficit e \<le> kMaxCarryUnits \<and> sa_cumulative_surplus e \<le> kMaxCarryUnits \<and>
     unat (sa_discarded_deficit e) < 2 ^ 62 \<and> unat (sa_discarded_surplus e) < 2 ^ 62)"

lemma entry_of_bounded:
  assumes "accounting_bounded accounting"
  shows "unat (sa_cumulative_deficit (entry_of accounting subject)) < 2 ^ 62"
    "unat (sa_cumulative_surplus (entry_of accounting subject)) < 2 ^ 62"
    "unat (sa_discarded_deficit (entry_of accounting subject)) < 2 ^ 62"
    "unat (sa_discarded_surplus (entry_of accounting subject)) < 2 ^ 62"
proof -
  have *: "unat (sa_cumulative_deficit e) < 2 ^ 62 \<and> unat (sa_cumulative_surplus e) < 2 ^ 62 \<and>
      unat (sa_discarded_deficit e) < 2 ^ 62 \<and> unat (sa_discarded_surplus e) < 2 ^ 62"
    if "e \<in> set (ac_subjects accounting)" for e
    using assms that by (force simp: accounting_bounded_def word_le_nat_alt kMaxCarryUnits_def)
  show "unat (sa_cumulative_deficit (entry_of accounting subject)) < 2 ^ 62"
    "unat (sa_cumulative_surplus (entry_of accounting subject)) < 2 ^ 62"
    "unat (sa_discarded_deficit (entry_of accounting subject)) < 2 ^ 62"
    "unat (sa_discarded_surplus (entry_of accounting subject)) < 2 ^ 62"
    by (auto simp: accounting_find_def default_subject_accounting_def dest!: find_Some_iff_mem * split: option.split)
qed

lemma served_bounded:
  assumes ev: "\<And>evidence. ec_evidence ctx = Some evidence \<Longrightarrow> validate_evidence evidence = Ok"
    and i: "i < length (fp_subjects policy)"
  shows "unat (pl_served (fst (initial_plans policy accounting ctx) ! i)) \<le> 2 ^ 40"
proof (rule initial_plan_cases [OF i, of accounting ctx])
  assume "bare_plan (fst (initial_plans policy accounting ctx) ! i)"
  then show ?thesis by (simp add: bare_plan_simps)
next
  fix evidence ob
  assume e: "ec_evidence ctx = Some evidence" "evidence_find evidence (sb_id (fp_subjects policy ! i)) = Some ob"
    and p: "fst (initial_plans policy accounting ctx) ! i = authorised_plan ob"
  have "ob \<in> set (ev_observations evidence)" using e(2) unfolding evidence_find_def by (blast dest: find_Some_iff_mem)
  moreover have "evidence_wf evidence" using ev [OF e(1)] by (simp add: validate_evidence_iff)
  ultimately have "ob_served_units ob \<le> kMaxServiceUnits" by (simp add: evidence_wf_def observation_wf_def)
  then show ?thesis by (simp add: p authorised_plan_def word_le_nat_alt kMaxServiceUnits_def)
qed

lemma nsum_map_bound:
  assumes "\<And>x. x \<in> set xs \<Longrightarrow> unat (f x) \<le> b"
  shows "nsum (map f xs) \<le> length xs * b"
  using sum_list_bound [of xs "\<lambda>x. unat (f x)" b] assms by (simp add: nsum_def comp_def)

lemma attained_whole_ok:
  assumes wf: "policy_wf policy"
    and ev: "\<And>evidence. ec_evidence ctx = Some evidence \<Longrightarrow> validate_evidence evidence = Ok"
  shows "\<exists>whole. attained_whole (fst (initial_plans policy accounting ctx)) = Some whole \<and> unat whole \<le> 4096 * 2 ^ 40"
proof -
  let ?ps = "fst (initial_plans policy accounting ctx)"
  let ?v = "\<lambda>p. if pl_has_authority p then pl_served p else 0"
  have "nsum (map ?v ?ps) \<le> length ?ps * 2 ^ 40"
    using served_bounded [OF ev] by (intro nsum_map_bound) (auto simp: in_set_conv_nth)
  also have "\<dots> \<le> 4096 * 2 ^ 40" using wf by (simp add: policy_wf_def header_wf_def)
  finally have b: "nsum (map ?v ?ps) \<le> 4096 * 2 ^ 40" .
  then show ?thesis unfolding attained_whole_def checked_total_Some
    by (intro exI [of _ "of_nat (nsum (map ?v ?ps))"]) (simp add: unat_of_nat_exact)
qed

lemma signed_difference_exact:
  fixes a b :: u64
  assumes "unat a < 2 ^ 61" "unat b < 2 ^ 61"
  shows "sint (a - b) = int (unat a) - int (unat b)" "\<bar>sint (a - b)\<bar> < 2 ^ 62"
proof -
  have *: "sint a = int (unat a)" "sint b = int (unat b)"
    using assms by (simp_all add: small_signed int64_max_def word_less_nat_alt)
  have "int (unat a) < int (2 ^ 61)" "int (unat b) < int (2 ^ 61)" using assms by (simp_all only: of_nat_less_iff)
  then have lt: "int (unat a) < 2 ^ 61" "int (unat b) < 2 ^ 61" "0 \<le> int (unat a)" "0 \<le> int (unat b)" by simp_all
  show eq: "sint (a - b) = int (unat a) - int (unat b)"
    by (rule sint_minus_exact [of a b, unfolded *]) (use lt in \<open>simp_all del: of_nat_unat\<close>)
  show "\<bar>sint (a - b)\<bar> < 2 ^ 62" using lt unfolding eq by (simp del: of_nat_unat)
qed

section \<open>Numbers\<close>

lemma numbers_ok:
  assumes wf: "policy_wf policy" and acc: "accounting_bounded accounting"
    and served: "unat (pl_served plan) \<le> 2 ^ 40" and ent: "unat (ds_subject_effective d ! i) \<le> 2 ^ 52"
  shows "\<exists>p. subject_numbers policy accounting d subject i plan = Inr p"
proof -
  have carry: "unat (carried_deficit policy accounting subject) \<le> 2 ^ 48"
  proof -
    have "fp_max_carry_units policy \<le> kMaxCarryUnits" using wf by (simp add: policy_wf_def header_wf_def)
    then show ?thesis by (auto simp: word_nat kMaxCarryUnits_def split: option.split)
  qed
  define ent' where "ent' = ds_subject_effective d ! i"
  define wd where "wd = (if pl_served plan < ent' then ent' - pl_served plan else 0)"
  have wd: "unat wd \<le> 2 ^ 52"
    using ent by (auto simp: wd_def ent'_def [symmetric] unat_minus_exact)
  have 1: "checked_add wd (carried_deficit policy accounting subject) \<noteq> None"
    using wd carry by (simp add: checked_add_exact)
  have "\<bar>sint (ent' - pl_served plan)\<bar> < 2 ^ 62"
    using served ent by (intro signed_difference_exact(2)) (simp_all add: ent'_def)
  then have 2: "apply_window_carry (entry_of accounting subject) (ent' - pl_served plan) (fp_max_carry_units policy) \<noteq> None"
    using apply_window_carry_total [OF entry_of_bounded [OF acc, of subject]] by blast
  show ?thesis
  proof (cases "pl_has_authority plan")
    case False
    then show ?thesis by (simp add: subject_numbers_def)
  next
    case True
    obtain eff where e: "checked_add wd (carried_deficit policy accounting subject) = Some eff" using 1 by auto
    obtain carry where c: "apply_window_carry (entry_of accounting subject) (ent' - pl_served plan) (fp_max_carry_units policy) = Some carry"
      using 2 by auto
    show ?thesis
      unfolding subject_numbers_def Let_def ent'_def [symmetric] wd_def [symmetric] e c option.case using True by simp
  qed
qed

lemma number_plans_ok:
  assumes "\<And>i. i < length (fp_subjects policy) \<Longrightarrow>
      \<exists>p. subject_numbers policy accounting d (fp_subjects policy ! i) i (plans ! i) = Inr p"
    and "length plans = length (fp_subjects policy)"
  shows "\<exists>ready. number_plans policy accounting ctx d plans = Inr ready"
proof -
  obtain ps where "each_result (\<lambda>i. subject_numbers policy accounting d (fp_subjects policy ! i) i (plans ! i))
        [0..<length plans] = Inr ps"
    using each_result_ok [of "[0..<length plans]"
        "\<lambda>i. subject_numbers policy accounting d (fp_subjects policy ! i) i (plans ! i)"] assms by auto
  then show ?thesis by (simp add: number_plans_def)
qed

text \<open>The plans with numbers: their demand, supply and deficits are bounded.\<close>

lemma ready_bounds:
  assumes wf: "policy_wf policy"
    and np: "number_plans policy accounting ctx d (fst (initial_plans policy accounting ctx)) = Inr ready"
    and i: "i < length (fp_subjects policy)"
  shows "unat (pl_demand (ready ! i)) \<le> 2 ^ 40" "unat (pl_reducible (ready ! i)) \<le> 2 ^ 40"
    "unat (pl_withheld (ready ! i)) \<le> 2 ^ 40" "pl_demand (ready ! i) \<le> pl_effective_deficit (ready ! i)"
    "unat (pl_effective_deficit (ready ! i)) \<le> unat (ds_subject_effective d ! i) + 2 ^ 48"
proof -
  let ?s = "fp_subjects policy ! i"
  have sub: "sb_max_reduce_units ?s \<le> kMaxServiceUnits" using wf i by (simp add: policy_wf_def subject_wf_def)
  have carry: "unat (carried_deficit policy accounting ?s) \<le> 2 ^ 48"
  proof -
    have "fp_max_carry_units policy \<le> kMaxCarryUnits" using wf by (simp add: policy_wf_def header_wf_def)
    then show ?thesis by (auto simp: word_nat kMaxCarryUnits_def split: option.split)
  qed
  have "unat (pl_demand (ready ! i)) \<le> 2 ^ 40 \<and> unat (pl_reducible (ready ! i)) \<le> 2 ^ 40 \<and>
    unat (pl_withheld (ready ! i)) \<le> 2 ^ 40 \<and> pl_demand (ready ! i) \<le> pl_effective_deficit (ready ! i) \<and>
    unat (pl_effective_deficit (ready ! i)) \<le> unat (ds_subject_effective d ! i) + 2 ^ 48"
    using ready_cases [OF np i]
  proof (elim disjE conjE)
    assume "bare_plan (ready ! i)"
    then show ?thesis by (simp add: bare_plan_simps)
  next
    assume r: "ready_plan policy accounting ctx d i (ready ! i)"
    have nb: "numbered policy accounting d ?s i (ready ! i)" and dm: "demanding policy ?s (ready ! i)"
      using r by (simp_all add: ready_plan_def)
    have "unat (pl_this_window_deficit (ready ! i)) \<le> unat (ds_subject_effective d ! i)"
      using nb by (auto simp: numbered_def unat_minus_exact)
    moreover have "unat (pl_effective_deficit (ready ! i))
        = unat (pl_this_window_deficit (ready ! i)) + unat (carried_deficit policy accounting ?s)"
      using nb unfolding numbered_def by blast
    moreover have "pl_withheld (ready ! i) \<le> kMaxServiceUnits" "pl_reducible (ready ! i) \<le> kMaxServiceUnits"
      using dm sub by (auto simp: demanding_def)
    ultimately show ?thesis using dm carry by (auto simp: demanding_def word_le_nat_alt kMaxServiceUnits_def)
  qed
  then show "unat (pl_demand (ready ! i)) \<le> 2 ^ 40" "unat (pl_reducible (ready ! i)) \<le> 2 ^ 40"
    "unat (pl_withheld (ready ! i)) \<le> 2 ^ 40" "pl_demand (ready ! i) \<le> pl_effective_deficit (ready ! i)"
    "unat (pl_effective_deficit (ready ! i)) \<le> unat (ds_subject_effective d ! i) + 2 ^ 48" by blast+
qed

section \<open>The corrective phase\<close>

lemma correction_totals_ok:
  assumes "\<And>p. p \<in> set ready \<Longrightarrow> unat (pl_demand p) \<le> 2 ^ 40 \<and> unat (pl_reducible p) \<le> 2 ^ 40 \<and>
      unat (pl_withheld p) \<le> 2 ^ 40"
    and "length ready \<le> 4096"
  shows "\<exists>pool dem wit. correction_totals ready = Inr (pool, dem, wit)"
proof -
  have *: "\<exists>t. checked_total (map f ready) 0 = Some t" if "\<And>p. p \<in> set ready \<Longrightarrow> unat (f p) \<le> 2 ^ 40" for f
  proof -
    have "nsum (map f ready) \<le> length ready * 2 ^ 40" by (rule nsum_map_bound [OF that])
    also have "\<dots> \<le> 4096 * 2 ^ 40" using assms(2) by simp
    finally have "nsum (map f ready) < 2 ^ 64" by simp
    then show ?thesis unfolding checked_total_Some
      by (intro exI [of _ "of_nat (nsum (map f ready))"]) (simp add: unat_of_nat_exact)
  qed
  show ?thesis unfolding correction_totals_Inr
    using * [of pl_reducible] * [of pl_demand] * [of pl_withheld] assms(1) by blast
qed

lemma basis_point_budget_ok:
  assumes "unat whole \<le> 4096 * 2 ^ 40"
  shows "\<exists>budget. basis_point_budget policy whole = Inr budget"
proof (cases "fp_max_correction_bps policy < 100000")
  case True
  then have "unat (ucast (fp_max_correction_bps policy) :: u64) < 100000"
    by (simp add: unat_ucast_up word_less_nat_alt)
  then have "unat whole * unat (ucast (fp_max_correction_bps policy) :: u64) \<le> (4096 * 2 ^ 40) * 100000"
    using assms by (intro mult_mono) simp_all
  from div_le_mono [OF this, of "unat kBasisPointScale"]
  have "unat whole * unat (ucast (fp_max_correction_bps policy) :: u64) div unat kBasisPointScale < 2 ^ 64"
    by (simp add: kBasisPointScale_def)
  then show ?thesis using mul_div_cases(1) [of kBasisPointScale] by (simp add: basis_point_budget_def Let_def kBasisPointScale_def)
next
  case False
  then show ?thesis by (simp add: basis_point_budget_def)
qed

lemma nsum_filter_le: "nsum (map f (filter P xs)) \<le> nsum (map f xs)"
  by (induction xs) auto

lemma unsatisfied_total_ok:
  assumes "\<And>i. i < length plans \<Longrightarrow> pl_augment (plans ! i) \<le> pl_effective_deficit (plans ! i)"
    and "nsum (map pl_effective_deficit plans) < 2 ^ 64"
  shows "\<exists>t. unsatisfied_total policy plans = Some t"
proof -
  let ?f = "\<lambda>p. pl_effective_deficit p - pl_augment p"
  let ?P = "\<lambda>p. pl_has_authority p \<and> \<not> pl_cooling p \<and> fp_fair_band_units policy < pl_effective_deficit p"
  have "nsum (map ?f plans) \<le> nsum (map pl_effective_deficit plans)"
    using assms(1) by (intro nsum_le_nsum) (simp add: list_all2_conv_all_nth unat_minus_exact)
  then have "nsum (map ?f (filter ?P plans)) < 2 ^ 64"
    using nsum_filter_le [of ?f ?P plans] assms(2) by simp
  then show ?thesis unfolding unsatisfied_total_def checked_total_Some
    by (intro exI [of _ "of_nat (nsum (map ?f (filter ?P plans)))"]) (simp add: unat_of_nat_exact)
qed

lemma plan_corrections_ok:
  assumes fresh: "fresh_plans ready" and len: "length ready \<le> 4096" and whole: "unat whole \<le> 4096 * 2 ^ 40"
    and b: "\<And>i. i < length ready \<Longrightarrow> unat (pl_demand (ready ! i)) \<le> 2 ^ 40 \<and> unat (pl_reducible (ready ! i)) \<le> 2 ^ 40 \<and>
      unat (pl_withheld (ready ! i)) \<le> 2 ^ 40 \<and> pl_demand (ready ! i) \<le> pl_effective_deficit (ready ! i)"
    and eff: "nsum (map pl_effective_deficit ready) < 2 ^ 64"
  shows "\<exists>r. plan_corrections policy ok whole ready = Inr r"
proof -
  obtain pool dem wit where t: "correction_totals ready = Inr (pool, dem, wit)"
    using correction_totals_ok [of ready] b len by (auto simp: in_set_conv_nth)
  obtain budget where bud: "basis_point_budget policy whole = Inr budget"
    using basis_point_budget_ok [OF whole] by blast
  define authorized where "authorized = authorized_of policy budget ready"
  note eq = plan_corrections_eq [OF fresh t bud, folded authorized_def]
  note le = authorized_le [OF eq(3,4), where policy = policy and budget = budget, folded authorized_def]
  note gp = granted_plans_props [OF fresh le(1,2) eq(3,4), where policy = policy]
  let ?g = "granted_plans policy authorized ready"
  have ag: "pl_augment (?g ! i) \<le> pl_effective_deficit (?g ! i)" if "i < length ?g" for i
  proof -
    have i: "i < length ready" using that by (simp add: gp(4))
    have "unat (of_nat (augment_grant policy ready authorized i) :: u64) \<le> unat (pl_demand (ready ! i))"
      unfolding augment_grant_def granted_word by (rule grant_of_le_cap)
    then have "of_nat (augment_grant policy ready authorized i) \<le> pl_effective_deficit (ready ! i)"
      using b [OF i] by (simp add: word_le_nat_alt)
    then show ?thesis by (simp add: gp(5) [OF i])
  qed
  have "map pl_effective_deficit ?g = map pl_effective_deficit ready"
    by (rule nth_equalityI) (simp_all add: gp(4,5))
  then obtain u where u: "unsatisfied_total policy ?g = Some u"
    using unsatisfied_total_ok [OF ag, of policy] eff by auto
  have "\<exists>r. close_plan policy ok (demand_order policy ready) (pool, dem, wit) budget ?g = Inr r"
    by (simp add: close_plan_def Let_def u)
  then show ?thesis unfolding eq(1) by auto
qed

section \<open>The rollup\<close>

text \<open>The walks of the rollup read the parents, which it does not change.\<close>

definition same_parents :: "GroupNode list \<Rightarrow> GroupNode list \<Rightarrow> bool" where
  "same_parents ns ms \<longleftrightarrow> list_all2 (\<lambda>n m. gn_has_parent n = gn_has_parent m \<and>
     (gn_has_parent n \<longrightarrow> gn_parent_node n = gn_parent_node m)) ns ms"

lemma same_parents_refl [simp]: "same_parents ns ns"
  by (simp add: same_parents_def list.rel_refl)

lemma same_parents_update:
  "\<lbrakk>same_parents ns ms; gn_has_parent m = gn_has_parent (ms ! j); gn_parent_node m = gn_parent_node (ms ! j)\<rbrakk>
    \<Longrightarrow> same_parents ns (ms[j := m])"
  by (cases "j < length ms") (auto simp: same_parents_def list_all2_conv_all_nth nth_list_update list_update_beyond)

lemma rollup_fold_parents:
  "same_parents ns (fst st) \<Longrightarrow> same_parents ns (fst (fold (rollup_node plan) path st))"
proof (induction path arbitrary: st)
  case (Cons j path)
  have "same_parents ns (fst (rollup_node plan j st))"
    using Cons.prems by (cases st) (simp add: rollup_node_def same_parents_update)
  then show ?case using Cons.IH by simp
qed simp

lemma node_path_ok:
  assumes wf: "policy_wf p" and nodes: "nodes_ok p (length (fp_groups p)) si nodes" and same: "same_parents nodes ms"
  shows "\<lbrakk>group_depth p gid d; j < length (fp_groups p); fg_id (group_at p j) = gid; d \<le> fuel\<rbrakk>
    \<Longrightarrow> node_path fuel ms j \<noteq> None"
proof (induction arbitrary: fuel j rule: group_depth.induct)
  case (root gid g)
  have "gn_has_parent (ms ! j) = gn_has_parent (nodes ! j)"
    using same nodes root.prems(1) by (simp add: same_parents_def list_all2_conv_all_nth nodes_ok_def)
  moreover have "g = group_at p j" using root wf_find_group [OF wf, of j] by simp
  ultimately show ?case using root nodes_okD(1) [OF nodes root.prems(1)] by (cases fuel) (auto simp: id_valid_def)
next
  case (child gid g d)
  have g: "g = group_at p j" using child wf_find_group [OF wf, of j] by simp
  have hp: "gn_has_parent (nodes ! j)"
    using child.hyps(2) nodes_okD(1) [OF nodes child.prems(1)] g by (simp add: id_valid_def)
  have sm: "gn_has_parent (ms ! j)" "gn_parent_node (ms ! j) = gn_parent_node (nodes ! j)"
    using same nodes child.prems(1) hp by (auto simp: same_parents_def list_all2_conv_all_nth nodes_ok_def)
  note par = nodes_okD(2) [OF nodes child.prems(1) hp]
  obtain f where f: "fuel = Suc f" "d \<le> f" using child.prems(3) by (cases fuel) auto
  have "node_path f ms (gn_parent_node (nodes ! j)) \<noteq> None"
    using par g f(2) by (intro child.IH) simp_all
  then show ?case by (simp add: f(1) sm)
qed

lemma rollup_ok:
  assumes wf: "policy_wf p" and nodes: "nodes_ok p (length (fp_groups p)) si nodes"
    and index: "by_id = rev (zip (map fg_id (fp_groups p)) [0..<length (fp_groups p)])"
  shows "same_parents nodes (fst st) \<Longrightarrow> rollup by_id zs st \<noteq> None"
proof (induction zs arbitrary: st)
  case (Cons z zs)
  obtain subject plan where z: "z = (subject, plan)" by force
  show ?case
  proof (cases "map_of by_id (sb_group subject)")
    case None
    then show ?thesis using Cons by (simp add: z)
  next
    case (Some n)
    then have "(sb_group subject, n) \<in> set by_id" by (rule map_of_SomeD)
    then have n: "n < length (fp_groups p)" unfolding index set_rev set_zip by auto
    obtain dep where dep: "dep \<le> 8" "group_depth p (fg_id (group_at p n)) dep"
      using wf nth_mem [OF n] unfolding policy_wf_def by blast
    have "node_path scatter_fuel (fst st) n \<noteq> None"
      by (rule node_path_ok [OF wf nodes Cons.prems dep(2) n refl]) (use dep(1) in \<open>simp add: scatter_fuel_def\<close>)
    then obtain path where "node_path scatter_fuel (fst st) n = Some path" by auto
    then show ?thesis using Some Cons.IH [OF rollup_fold_parents [OF Cons.prems]] by (simp add: z)
  qed
qed simp

lemma group_states_ok:
  assumes "policy_wf policy" "built policy d"
  shows "\<exists>groups. group_states policy d plans = Some groups"
proof -
  have "rollup (ds_by_id d) (zip (fp_subjects policy) plans) (ds_nodes d, replicate (length (ds_nodes d)) 0) \<noteq> None"
    using assms by (intro rollup_ok [where nodes = "ds_nodes d"]) (auto simp: built_def tree_ok_def)
  then show ?thesis by (auto simp: group_states_def)
qed

section \<open>The intents\<close>

definition issued :: "(nat \<Rightarrow> Generation \<Rightarrow> CorrectiveIntent option) \<Rightarrow> nat list \<Rightarrow> CorrectiveIntent list \<Rightarrow> bool" where
  "issued mk order intents \<longleftrightarrow> list_all2 (\<lambda>i intent. \<exists>g. mk i g = Some intent) order intents"

lemma issue_intents_Inr:
  assumes "issue_intents mk order (g, acc) = Inr (g', intents)"
    and "\<And>i g h. mk i g = None \<longleftrightarrow> mk i h = None"
  shows "\<exists>new. intents = acc @ new \<and> issued mk (filter (\<lambda>i. mk i 0 \<noteq> None) order) new"
  using assms(1)
proof (induction order arbitrary: g acc)
  case Nil
  then show ?case by (simp add: issued_def)
next
  case (Cons i order)
  show ?case
  proof (cases "mk i (generation_next g)")
    case None
    then have "mk i 0 = None" using assms(2) by blast
    then show ?thesis using Cons None by simp
  next
    case (Some intent)
    then have m: "mk i 0 \<noteq> None" using assms(2) [of i 0 "generation_next g"] by simp
    have "issue_intents mk order (generation_next g, acc @ [intent]) = Inr (g', intents)"
      using Cons.prems Some by (simp split: if_splits)
    then obtain new where "intents = (acc @ [intent]) @ new" "issued mk (filter (\<lambda>i. mk i 0 \<noteq> None) order) new"
      using Cons.IH by blast
    then show ?thesis using m Some by (intro exI [of _ "intent # new"]) (auto simp: issued_def)
  qed
qed

lemma issue_intents_ok:
  "length acc + length order \<le> 8192 \<Longrightarrow>
    \<exists>g' intents. issue_intents mk order (g, acc) = Inr (g', intents) \<and> length intents \<le> length acc + length order"
proof (induction order arbitrary: g acc)
  case (Cons i order)
  show ?case
  proof (cases "mk i (generation_next g)")
    case None
    then show ?thesis using Cons.IH [of acc "generation_next g"] Cons.IH [of acc g] Cons.prems
      by (auto intro: le_SucI)
  next
    case (Some intent)
    then show ?thesis using Cons.IH [of "acc @ [intent]" "generation_next g"] Cons.prems
      by (auto simp: kMaxCorrectiveIntents_def)
  qed
qed simp

lemma all_intents_ok:
  assumes "length d_order \<le> 4096" "length s_order \<le> 4096"
  shows "\<exists>intents. all_intents policy accounting request plans d_order s_order = Inr intents"
proof -
  obtain g acc where 1: "issue_intents (augment_intent policy request plans) d_order
      (ac_intervention_generation accounting, []) = Inr (g, acc)" "length acc \<le> length d_order"
    using issue_intents_ok [of "[]" d_order] assms(1) by fastforce
  obtain g' intents where "issue_intents (reduce_intent policy request plans) s_order (g, acc) = Inr (g', intents)"
    using issue_intents_ok [of acc s_order] 1(2) assms by fastforce
  then show ?thesis using 1(1) by (simp add: all_intents_def)
qed


section \<open>Every evaluation returns a decision\<close>

lemma entitlement_total:
  assumes "policy_wf policy" "built policy split" "pass_done policy True whole split pass"
  shows "nsum (ds_subject_effective split) = unat whole"
  using pass_conserves(2) [OF assms(1,3)] assms(2) by (simp add: nsum_nth subject_value_def built_def)

lemma subject_order_length:
  assumes "distinct order" "set order \<subseteq> {..<n}"
  shows "length order \<le> n"
  using card_mono [OF _ assms(2)] distinct_card [OF assms(1)] by simp

lemma augmented_plans_length [simp]: "length (augmented_plans policy authorized ready) = length ready"
proof -
  have "length (fst (grant_loop cap (\<lambda>i g t. t[i := w (t ! i) g]) order remaining s)) = length s"
    for cap :: "nat \<Rightarrow> u64" and w :: "'a \<Rightarrow> u64 \<Rightarrow> 'a" and order remaining s
    by (induction order arbitrary: remaining s) (auto simp: Let_def)
  then show ?thesis by (simp add: augmented_plans_def grant_augments_def)
qed

lemma evaluation_total:
  assumes valid: "validate_policy policy = Ok" and ctx: "ec_policy ctx = Some policy" "ec_accounting ctx = Some accounting"
    and acc: "accounting_bounded accounting"
    and ev: "\<And>evidence. ec_evidence ctx = Some evidence \<Longrightarrow> validate_evidence evidence = Ok"
  shows "\<exists>decision. evaluate_fairness ctx = Some (Inr decision)"
proof -
  have wf: "policy_wf policy" using valid by (simp add: validate_policy_iff)
  have n: "length (fp_subjects policy) \<le> 4096" using wf by (simp add: policy_wf_def header_wf_def)
  let ?init = "initial_plans policy accounting ctx" and ?ok = "global_failure policy ctx = None"
  obtain tree where t: "build policy = Inr tree" "built policy tree" "ds_base_pass tree = default_pass"
      "ds_effective_pass tree = default_pass"
    using build_ok [OF wf] by blast
  obtain whole where w: "attained_whole (fst ?init) = Some whole" "unat whole \<le> 4096 * 2 ^ 40"
    using attained_whole_ok [OF wf ev, where accounting = accounting] by blast
  obtain d where d: "distribute policy whole tree = Some (Inr d)" "built policy d"
      "pass_done policy True whole d (ds_effective_pass d)"
    using distribute_ok [OF wf t(2), of whole] t(3,4) by (auto simp: default_pass_def)
  note total = entitlement_total [OF wf d(2,3)]
  have ent: "unat (ds_subject_effective d ! i) \<le> unat whole" if "i < length (fp_subjects policy)" for i
  proof -
    have "ds_subject_effective d ! i \<in> set (ds_subject_effective d)" using that d(2) by (simp add: built_def)
    then show ?thesis using nsum_member total by fastforce
  qed
  have "\<exists>p. subject_numbers policy accounting d (fp_subjects policy ! i) i (fst ?init ! i) = Inr p"
    if i: "i < length (fp_subjects policy)" for i
  proof (rule numbers_ok [OF wf acc])
    show "unat (pl_served (fst ?init ! i)) \<le> 2 ^ 40" by (rule served_bounded [OF ev i])
    show "unat (ds_subject_effective d ! i) \<le> 2 ^ 52" using ent [OF i] w(2) by simp
  qed
  then obtain ready where r: "number_plans policy accounting ctx d (fst ?init) = Inr ready"
    using number_plans_ok [of policy accounting d "fst ?init" ctx] by auto
  note fr = fresh_ready [OF r]
  note rb = ready_bounds [OF wf r]
  have "nsum (map pl_effective_deficit ready) \<le> (\<Sum>i<length ready. unat (ds_subject_effective d ! i) + 2 ^ 48)"
    unfolding nsum_map_nth using rb(5) fr(2) by (intro sum_mono) simp
  also have "\<dots> = unat whole + length ready * 2 ^ 48"
    using total d(2) fr(2) by (simp add: sum.distrib nsum_nth built_def)
  also have "\<dots> \<le> 4096 * 2 ^ 40 + 4096 * 2 ^ 48"
    using w(2) n fr(2) by (intro add_mono) simp_all
  finally have eff: "nsum (map pl_effective_deficit ready) < 2 ^ 64" by simp
  have "\<exists>r. plan_corrections policy ?ok whole ready = Inr r"
    by (rule plan_corrections_ok [OF fr(1) _ w(2) _ eff]) (use rb(1-4) fr(2) n in simp_all)
  then obtain plans summary d_order s_order where c:
      "plan_corrections policy ?ok whole ready = Inr (plans, summary, d_order, s_order)" by (metis prod_cases4)
  obtain budget authorized augmented where o:
    "d_order = demand_order policy ready" "s_order = supply_order policy augmented" "length augmented = length ready"
  proof (rule plan_corrections_spec [OF c fr(1)])
    fix budget authorized augmented
    assume "augmented = augmented_plans policy authorized ready" "d_order = demand_order policy ready"
      "s_order = supply_order policy augmented"
    then show thesis using that [of augmented] by simp
  qed
  obtain groups where g: "group_states policy d (map2 (assign_outcome policy) (fp_subjects policy) plans) = Some groups"
    using group_states_ok [OF wf d(2)] by blast
  have "distinct d_order" "set d_order \<subseteq> {..<length ready}" "distinct s_order" "set s_order \<subseteq> {..<length ready}"
    unfolding o(1,2) using o(3) by (auto simp: demand_order_props supply_order_props)
  then have "length d_order \<le> 4096" "length s_order \<le> 4096"
    using subject_order_length fr(2) n by (metis order_trans)+
  then obtain intents where "all_intents policy accounting (ec_request ctx)
      (map2 (assign_outcome policy) (fp_subjects policy) plans) d_order s_order = Inr intents"
    using all_intents_ok by blast
  then have "evaluate_distributed policy accounting ctx whole d ?init = Some (Inr (assemble policy accounting ctx
      (overcommit_notes d (snd ?init)) (map2 (assign_outcome policy) (fp_subjects policy) plans) summary groups intents))"
    by (simp add: evaluate_distributed_def r c conclude_def Let_def g)
  then show ?thesis by (simp add: evaluate_fairness_def ctx t(1) evaluate_on_def Let_def w(1) d(1))
qed

section \<open>A concrete evaluation\<close>

definition sample_request :: EvaluationRequest where
  "sample_request = \<lparr>rq_policy_id = 1, rq_policy_generation = 1, rq_epoch = 1, rq_evidence_id = 1,
     rq_evidence_generation = 1, rq_window = 1, rq_window_generation = 1, rq_now_ns = 0, rq_request_id = 1,
     rq_attempt = 1, rq_treat_missing_as_unknown = True, rq_allow_stale_result = False\<rparr>"

definition sample_context :: EvaluationContext where
  "sample_context = \<lparr>ec_policy = Some sample_policy, ec_accounting = Some sample_accounting,
     ec_evidence = Some sample_evidence, ec_request = sample_request, ec_current_epoch = 1,
     ec_current_window = 1, ec_last_committed_window = 0\<rparr>"

lemma sample_context_fields [simp]:
  "ec_policy sample_context = Some sample_policy" "ec_accounting sample_context = Some sample_accounting"
  "ec_evidence sample_context = Some sample_evidence" "ec_request sample_context = sample_request"
  by (simp_all add: sample_context_def)

lemma sample_accounting_bounded: "accounting_bounded sample_accounting"
  by (simp add: accounting_bounded_def sample_accounting_def kMaxCarryUnits_def default_accounting_def
      default_subject_accounting_def)

lemma sample_evaluation: "\<exists>decision. evaluate_fairness sample_context = Some (Inr decision)"
  by (rule evaluation_total [OF sample_policy_valid _ _ sample_accounting_bounded])
    (use sample_evidence_valid in auto)

section \<open>Properties\<close>

text \<open>C14: Evaluating a window returns a decision whenever the policy is accepted, the accounting is inside
  the bounds of the durable domain and the evidence, if there is any, passed its validation: no sum
  overflows, none of the engine's internal checks fails, the limit on corrective intents is not reached,
  and the walks over the group tree (fuel 9, depth at most 8) end.\<close>

theorem evaluation_returns:
  assumes "validate_policy policy = Ok" "accounting_bounded accounting"
    and "ec_policy ctx = Some policy" "ec_accounting ctx = Some accounting"
    and "\<forall>evidence. ec_evidence ctx = Some evidence \<longrightarrow> validate_evidence evidence = Ok"
  shows "\<exists>decision. evaluate_fairness ctx = Some (Inr decision)"
  by (rule evaluation_total [OF assms(1,3,4,2)]) (use assms(5) in simp)

theorem evaluation_returns_witness: "\<exists>decision. evaluate_fairness sample_context = Some (Inr decision)"
  by (rule evaluation_returns [OF sample_policy_valid sample_accounting_bounded])
    (use sample_evidence_valid in simp_all)

end
