(* ===== verification/FG_Decision.thy ===== *)
theory FG_Decision
  imports FG_Returns
begin

text \<open>
  What a returned decision says about its subjects, its intents and its totals, derived from the stages
  of \<^theory_text>\<open>FG_Evaluation\<close>, and one decision computed in full.
\<close>

section \<open>Outcomes\<close>

lemma assign_outcome_frame [simp]:
  "pl_augment (assign_outcome policy subject plan) = pl_augment plan"
  "pl_reduce (assign_outcome policy subject plan) = pl_reduce plan"
  "pl_has_authority (assign_outcome policy subject plan) = pl_has_authority plan"
  "pl_served (assign_outcome policy subject plan) = pl_served plan"
  "pl_entitlement (assign_outcome policy subject plan) = pl_entitlement plan"
  "pl_surplus (assign_outcome policy subject plan) = pl_surplus plan"
  "pl_deviation (assign_outcome policy subject plan) = pl_deviation plan"
  "pl_unserved_streak (assign_outcome policy subject plan) = pl_unserved_streak plan"
  "pl_below_floor_streak (assign_outcome policy subject plan) = pl_below_floor_streak plan"
  "pl_carry (assign_outcome policy subject plan) = pl_carry plan"
  "pl_withheld (assign_outcome policy subject plan) = pl_withheld plan"
  by (simp_all add: assign_outcome_def)

lemma assign_outcome_bare: "bare_plan plan \<Longrightarrow> assign_outcome policy subject plan = plan"
  by (simp add: assign_outcome_def bare_plan_simps)

lemma assign_outcome_starving:
  "\<lbrakk>pl_has_authority plan; pl_starving plan\<rbrakk> \<Longrightarrow>
    pl_outcome (assign_outcome policy subject plan) = (if pl_blocked plan then BlockedByStrongerObligation else StarvationRisk)"
  by (simp add: assign_outcome_def)

lemma assign_outcome_blocked:
  "\<lbrakk>pl_has_authority plan; pl_outcome (assign_outcome policy subject plan) = BlockedByStrongerObligation\<rbrakk> \<Longrightarrow> pl_blocked plan"
  by (auto simp: assign_outcome_def split: if_splits)

lemma assign_outcome_authority:
  "pl_has_authority plan \<Longrightarrow> pl_outcome (assign_outcome policy subject plan) \<notin> {Unknown, Stale}"
  by (simp add: assign_outcome_def)

section \<open>Intents\<close>

lemma augment_intent_Some:
  "augment_intent policy request plans i g = Some c \<Longrightarrow>
    ci_direction c = Augment \<and> ci_subject c = sb_id (fp_subjects policy ! i) \<and> ci_units c = pl_augment (plans ! i) \<and>
    ci_units c \<noteq> 0"
  by (auto simp: augment_intent_def Let_def make_intent_def split: if_splits)

lemma reduce_intent_Some:
  "reduce_intent policy request plans i g = Some c \<Longrightarrow>
    ci_direction c = Reduce \<and> ci_subject c = sb_id (fp_subjects policy ! i) \<and> ci_units c = pl_reduce (plans ! i) \<and>
    ci_units c \<noteq> 0"
  by (auto simp: reduce_intent_def Let_def make_intent_def split: if_splits)

lemma intent_None:
  "augment_intent policy request plans i g = None \<longleftrightarrow> pl_augment (plans ! i) = 0"
  "reduce_intent policy request plans i g = None \<longleftrightarrow> pl_reduce (plans ! i) = 0"
  by (simp_all add: augment_intent_def reduce_intent_def Let_def)

lemma issued_units:
  assumes "issued mk order intents" "\<And>i g c. mk i g = Some c \<Longrightarrow> ci_direction c = dir \<and> ci_units c = f i"
  shows "map ci_units intents = map f order" "\<forall>c\<in>set intents. ci_direction c = dir"
  using assms unfolding issued_def by (induction order intents rule: list_all2_induct) auto

lemma issued_member:
  "\<lbrakk>issued mk order intents; c \<in> set intents\<rbrakk> \<Longrightarrow> \<exists>i g. i \<in> set order \<and> mk i g = Some c"
  unfolding issued_def by (induction order intents rule: list_all2_induct) auto

lemma nsum_filter_nonzero: "nsum (map f (filter (\<lambda>i. f i \<noteq> 0) xs)) = nsum (map f xs)"
  by (induction xs) auto

lemma nsum_order: "distinct order \<Longrightarrow> nsum (map f order) = (\<Sum>i\<in>set order. unat (f i))"
  by (simp add: nsum_def comp_def sum_list_distinct_conv_sum_set)

lemma all_intents_Inr:
  assumes "all_intents policy accounting request plans d_order s_order = Inr intents"
  obtains augments reductions where "intents = augments @ reductions"
    "issued (augment_intent policy request plans) (filter (\<lambda>i. pl_augment (plans ! i) \<noteq> 0) d_order) augments"
    "issued (reduce_intent policy request plans) (filter (\<lambda>i. pl_reduce (plans ! i) \<noteq> 0) s_order) reductions"
proof -
  obtain g acc g' where 1: "issue_intents (augment_intent policy request plans) d_order
       (ac_intervention_generation accounting, []) = Inr (g, acc)"
    and 2: "issue_intents (reduce_intent policy request plans) s_order (g, acc) = Inr (g', intents)"
    using assms by (auto simp: all_intents_def and_then_Inr)
  obtain augments where a: "acc = [] @ augments"
      "issued (augment_intent policy request plans) (filter (\<lambda>i. augment_intent policy request plans i 0 \<noteq> None) d_order) augments"
    using issue_intents_Inr [OF 1] intent_None(1) by blast
  obtain reductions where r: "intents = acc @ reductions"
      "issued (reduce_intent policy request plans) (filter (\<lambda>i. reduce_intent policy request plans i 0 \<noteq> None) s_order) reductions"
    using issue_intents_Inr [OF 2] intent_None(2) by blast
  show thesis by (rule that [of augments reductions]) (use a r in \<open>simp_all add: intent_None\<close>)
qed

text \<open>The units of the intents of one direction add up to what the plans grant.\<close>

abbreviation units_of :: "CorrectionDirection \<Rightarrow> CorrectiveIntent list \<Rightarrow> nat" where
  "units_of direction intents \<equiv> nsum (map ci_units (filter (\<lambda>c. ci_direction c = direction) intents))"

lemma units_of_intents:
  assumes "all_intents policy accounting request plans d_order s_order = Inr intents"
    and "distinct d_order" "distinct s_order"
  shows "units_of Augment intents = (\<Sum>i\<in>set d_order. unat (pl_augment (plans ! i)))"
    and "units_of Reduce intents = (\<Sum>i\<in>set s_order. unat (pl_reduce (plans ! i)))"
proof -
  obtain augments reductions where i: "intents = augments @ reductions"
    "issued (augment_intent policy request plans) (filter (\<lambda>i. pl_augment (plans ! i) \<noteq> 0) d_order) augments"
    "issued (reduce_intent policy request plans) (filter (\<lambda>i. pl_reduce (plans ! i) \<noteq> 0) s_order) reductions"
    by (rule all_intents_Inr [OF assms(1)])
  note a = issued_units [where dir = Augment and f = "\<lambda>i. pl_augment (plans ! i)", OF i(2)]
  note r = issued_units [where dir = Reduce and f = "\<lambda>i. pl_reduce (plans ! i)", OF i(3)]
  have dirs: "\<forall>c\<in>set augments. ci_direction c = Augment" "\<forall>c\<in>set reductions. ci_direction c = Reduce"
    using a(2) r(2) augment_intent_Some reduce_intent_Some by blast+
  then have f: "filter (\<lambda>c. ci_direction c = Augment) intents = augments"
    "filter (\<lambda>c. ci_direction c = Reduce) intents = reductions"
    unfolding i(1) filter_append by (simp_all add: filter_id_conv filter_empty_conv)
  have "map ci_units augments = map (\<lambda>i. pl_augment (plans ! i)) (filter (\<lambda>i. pl_augment (plans ! i) \<noteq> 0) d_order)"
    by (rule a(1)) (use augment_intent_Some in blast)
  then show "units_of Augment intents = (\<Sum>i\<in>set d_order. unat (pl_augment (plans ! i)))"
    by (simp add: f nsum_filter_nonzero nsum_order [OF assms(2)])
  have "map ci_units reductions = map (\<lambda>i. pl_reduce (plans ! i)) (filter (\<lambda>i. pl_reduce (plans ! i) \<noteq> 0) s_order)"
    by (rule r(1)) (use reduce_intent_Some in blast)
  then show "units_of Reduce intents = (\<Sum>i\<in>set s_order. unat (pl_reduce (plans ! i)))"
    by (simp add: f nsum_filter_nonzero nsum_order [OF assms(3)])
qed


section \<open>The states and intents of a decision\<close>

lemma decision_subject:
  assumes "evaluate_fairness ctx = Some (Inr decision)" "ec_policy ctx = Some policy" "i < length (fp_subjects policy)"
  obtains accounting d p where "ec_accounting ctx = Some accounting"
    "fd_subjects decision ! i = subject_state policy (fp_subjects policy ! i) (assign_outcome policy (fp_subjects policy ! i) p)"
    "bare_plan p \<or> settled policy accounting ctx d (cs_protected_obligation_blocked (fd_correction decision)) i p"
proof (rule decision_stages [OF assms(1)])
  fix policy' accounting tree whole d ready plans summary d_order s_order groups intents budget authorized
  assume pol: "ec_policy ctx = Some policy'" and acc: "ec_accounting ctx = Some accounting"
    and len: "length plans = length (fp_subjects policy')"
    and each: "\<And>i. i < length (fp_subjects policy') \<Longrightarrow> bare_plan (plans ! i) \<or>
       settled policy' accounting ctx d (cs_protected_obligation_blocked summary) i (plans ! i)"
    and dec: "fd_correction decision = summary"
      "fd_subjects decision = map2 (subject_state policy') (fp_subjects policy') (map2 (assign_outcome policy') (fp_subjects policy') plans)"
  have p: "policy' = policy" using pol assms(2) by simp
  show thesis
    by (rule that [OF acc, of "plans ! i" d]) (use each [of i] len assms(3) dec p in simp_all)
qed

lemma decision_lengths:
  assumes "evaluate_fairness ctx = Some (Inr decision)" "ec_policy ctx = Some policy"
  shows "length (fd_subjects decision) = length (fp_subjects policy)"
  by (rule decision_stages [OF assms(1)]) (use assms(2) in simp)

text \<open>What a settled plan inherits from the plan it comes from.\<close>

lemma settledD:
  assumes "settled policy accounting ctx d blocked i p"
  shows "pl_has_authority p" "pl_starving p = starves (fp_subjects policy ! i) p" "pl_blocked p \<Longrightarrow> blocked"
    "pl_augment p \<le> sb_max_augment_units (fp_subjects policy ! i)"
    "pl_reduce p \<le> sb_max_reduce_units (fp_subjects policy ! i)" "pl_reduce p \<le> pl_surplus p"
    "sb_protected_obligation (fp_subjects policy ! i) \<Longrightarrow> pl_reduce p \<noteq> 0 \<Longrightarrow>
      unat (sb_guarantee_floor (fp_subjects policy ! i)) + unat (pl_reduce p) \<le> unat (pl_served p)"
    "numbered policy accounting d (fp_subjects policy ! i) i p"
    "global_failure policy ctx = None"
proof -
  obtain r g h b where r: "ready_plan policy accounting ctx d i r" "p = r\<lparr>pl_augment := g, pl_reduce := h, pl_blocked := b\<rparr>"
      "g \<le> pl_demand r" "h \<le> pl_reducible r" "b \<longrightarrow> blocked"
    using assms by (auto simp: settled_def)
  have dm: "demanding policy (fp_subjects policy ! i) r" "pl_has_authority r" "global_failure policy ctx = None"
    "pl_starving r = starves (fp_subjects policy ! i) r" "numbered policy accounting d (fp_subjects policy ! i) i r"
    using r(1) by (auto simp: ready_plan_def)
  show "pl_has_authority p" "global_failure policy ctx = None" using dm by (simp_all add: r(2))
  show "pl_starving p = starves (fp_subjects policy ! i) p" using dm(4) by (simp add: r(2) starves_def)
  show "pl_blocked p \<Longrightarrow> blocked" using r(5) by (simp add: r(2))
  have "numbered policy accounting d (fp_subjects policy ! i) i p = numbered policy accounting d (fp_subjects policy ! i) i r"
    by (simp add: r(2) numbered_def)
  then show "numbered policy accounting d (fp_subjects policy ! i) i p" using dm(5) by simp
  show "pl_augment p \<le> sb_max_augment_units (fp_subjects policy ! i)"
    using r(3) dm(1) by (auto simp: r(2) demanding_def)
  show "pl_reduce p \<le> sb_max_reduce_units (fp_subjects policy ! i)" "pl_reduce p \<le> pl_surplus p"
    using r(4) dm(1) by (auto simp: r(2) demanding_def)
  show "unat (sb_guarantee_floor (fp_subjects policy ! i)) + unat (pl_reduce p) \<le> unat (pl_served p)"
    if "sb_protected_obligation (fp_subjects policy ! i)" "pl_reduce p \<noteq> 0"
  proof -
    have h: "h \<noteq> 0" "unat h \<le> unat (pl_reducible r)" using that(2) r(4) by (simp_all add: r(2) word_le_nat_alt)
    then have "0 < pl_reducible r" by (simp add: word_less_nat_alt u64_zero_iff)
    then show ?thesis using dm(1) that(1) h(2) by (simp add: r(2) demanding_def)
  qed
qed

lemma decision_intent:
  assumes "evaluate_fairness ctx = Some (Inr decision)" "ec_policy ctx = Some policy" "c \<in> set (fd_intents decision)"
  obtains i accounting d p where "i < length (fp_subjects policy)" "ci_subject c = sb_id (fp_subjects policy ! i)"
    "settled policy accounting ctx d (cs_protected_obligation_blocked (fd_correction decision)) i p"
    "fd_subjects decision ! i = subject_state policy (fp_subjects policy ! i) (assign_outcome policy (fp_subjects policy ! i) p)"
    "ci_units c \<noteq> 0" "ci_direction c = Augment \<and> ci_units c = pl_augment p \<or> ci_direction c = Reduce \<and> ci_units c = pl_reduce p"
proof (rule decision_stages [OF assms(1)])
  fix policy' accounting tree whole d ready plans summary d_order s_order groups intents budget authorized
  assume pol: "ec_policy ctx = Some policy'"
    and len: "length plans = length (fp_subjects policy')"
    and each: "\<And>i. i < length (fp_subjects policy') \<Longrightarrow> bare_plan (plans ! i) \<or>
       settled policy' accounting ctx d (cs_protected_obligation_blocked summary) i (plans ! i)"
    and dec: "fd_correction decision = summary"
      "fd_subjects decision = map2 (subject_state policy') (fp_subjects policy') (map2 (assign_outcome policy') (fp_subjects policy') plans)"
      "fd_intents decision = intents"
    and ai: "all_intents policy' accounting (ec_request ctx) (map2 (assign_outcome policy') (fp_subjects policy') plans)
       d_order s_order = Inr intents"
    and orders: "set d_order = {i. i < length plans \<and> pl_has_authority (ready ! i) \<and> 0 < pl_demand (ready ! i)}"
      "set s_order = {i. i < length plans \<and> pl_has_authority (ready ! i) \<and> 0 < pl_reducible (ready ! i)}"
  have p: "policy' = policy" using pol assms(2) by simp
  let ?plans = "map2 (assign_outcome policy) (fp_subjects policy) plans"
  obtain augments reductions where a: "intents = augments @ reductions"
    "issued (augment_intent policy (ec_request ctx) ?plans) (filter (\<lambda>i. pl_augment (?plans ! i) \<noteq> 0) d_order) augments"
    "issued (reduce_intent policy (ec_request ctx) ?plans) (filter (\<lambda>i. pl_reduce (?plans ! i) \<noteq> 0) s_order) reductions"
    by (rule all_intents_Inr [OF ai [unfolded p]])
  have "\<exists>i<length plans. ci_subject c = sb_id (fp_subjects policy ! i) \<and> ci_units c \<noteq> 0 \<and>
      (ci_direction c = Augment \<and> ci_units c = pl_augment (?plans ! i) \<or> ci_direction c = Reduce \<and> ci_units c = pl_reduce (?plans ! i))"
  proof (cases "c \<in> set augments")
    case True
    then obtain i g where i: "i \<in> set d_order" "augment_intent policy (ec_request ctx) ?plans i g = Some c"
      using issued_member [OF a(2) True] unfolding set_filter by blast
    then show ?thesis using augment_intent_Some [OF i(2)] orders(1) by blast
  next
    case False
    then obtain i g where i: "i \<in> set s_order" "reduce_intent policy (ec_request ctx) ?plans i g = Some c"
      using issued_member [OF a(3)] assms(3) unfolding set_filter dec(3) a(1) set_append by blast
    then show ?thesis using reduce_intent_Some [OF i(2)] orders(2) by blast
  qed
  then obtain i where i: "i < length plans" "ci_subject c = sb_id (fp_subjects policy ! i)" "ci_units c \<noteq> 0"
      "ci_direction c = Augment \<and> ci_units c = pl_augment (?plans ! i) \<or> ci_direction c = Reduce \<and> ci_units c = pl_reduce (?plans ! i)"
    by blast
  have i': "i < length (fp_subjects policy)" "?plans ! i = assign_outcome policy (fp_subjects policy ! i) (plans ! i)"
    using i(1) len p by simp_all
  have "\<not> bare_plan (plans ! i)" using i(3,4) by (auto simp: i'(2) bare_plan_simps)
  then have s: "settled policy accounting ctx d (cs_protected_obligation_blocked (fd_correction decision)) i (plans ! i)"
    using each [of i] i'(1) p dec(1) by simp
  show thesis
    by (rule that [OF i'(1) i(2) s]) (use i(3,4) i' dec(2) p len in simp_all)
qed



section \<open>Aggregates\<close>

lemma aggregate_outcome_fold:
  "outcome_rank agg \<le> outcome_rank (fold (\<lambda>p agg. if outcome_rank agg < outcome_rank (pl_outcome p) then pl_outcome p else agg) plans agg) \<and>
   (\<forall>p\<in>set plans. outcome_rank (pl_outcome p) \<le>
      outcome_rank (fold (\<lambda>p agg. if outcome_rank agg < outcome_rank (pl_outcome p) then pl_outcome p else agg) plans agg)) \<and>
   fold (\<lambda>p agg. if outcome_rank agg < outcome_rank (pl_outcome p) then pl_outcome p else agg) plans agg \<in> insert agg (pl_outcome ` set plans)"
proof (induction plans arbitrary: agg)
  case (Cons p plans)
  show ?case
    using Cons.IH [of agg] Cons.IH [of "pl_outcome p"] by (cases "outcome_rank agg < outcome_rank (pl_outcome p)") auto
qed simp

lemma aggregate_outcome_worst:
  "p \<in> set plans \<Longrightarrow> outcome_rank (pl_outcome p) \<le> outcome_rank (aggregate_outcome plans)"
  "plans \<noteq> [] \<Longrightarrow> aggregate_outcome plans \<in> pl_outcome ` set plans"
proof -
  note f = aggregate_outcome_fold [of Fair plans, folded aggregate_outcome_def]
  show "p \<in> set plans \<Longrightarrow> outcome_rank (pl_outcome p) \<le> outcome_rank (aggregate_outcome plans)" using f by blast
  assume "plans \<noteq> []"
  then obtain q where q: "q \<in> set plans" by (cases plans) auto
  have "outcome_rank (aggregate_outcome plans) = 0 \<Longrightarrow> pl_outcome q = Fair"
    using f q by (intro outcome_rank_inj) (auto simp: outcome_rank_def)
  then show "aggregate_outcome plans \<in> pl_outcome ` set plans"
    using f imageI [OF q, of pl_outcome] by (cases "aggregate_outcome plans = Fair") (auto simp: outcome_rank_def)
qed

lemma decision_outcomes:
  assumes "evaluate_fairness ctx = Some (Inr decision)"
  obtains plans where "map ss_outcome (fd_subjects decision) = map pl_outcome plans"
    "fd_outcome decision = aggregate_outcome plans" "fd_counts decision = outcome_counts plans"
proof (rule decision_stages [OF assms])
  fix policy accounting tree whole d ready plans summary d_order s_order groups intents budget authorized
  assume dec: "fd_subjects decision = map2 (subject_state policy) (fp_subjects policy) (map2 (assign_outcome policy) (fp_subjects policy) plans)"
    "fd_outcome decision = aggregate_outcome (map2 (assign_outcome policy) (fp_subjects policy) plans)"
    "fd_counts decision = outcome_counts (map2 (assign_outcome policy) (fp_subjects policy) plans)"
    and len: "length plans = length (fp_subjects policy)"
  have "map ss_outcome (fd_subjects decision) = map pl_outcome (map2 (assign_outcome policy) (fp_subjects policy) plans)"
    by (rule nth_equalityI) (simp_all add: dec(1) len subject_state_def Let_def)
  then show thesis using that dec(2,3) by blast
qed

lemma decision_aggregate:
  assumes "evaluate_fairness ctx = Some (Inr decision)"
  shows "s \<in> set (fd_subjects decision) \<Longrightarrow> outcome_rank (ss_outcome s) \<le> outcome_rank (fd_outcome decision)"
    and "fd_subjects decision \<noteq> [] \<Longrightarrow> fd_outcome decision \<in> ss_outcome ` set (fd_subjects decision)"
proof -
  obtain plans where p: "map ss_outcome (fd_subjects decision) = map pl_outcome plans"
      "fd_outcome decision = aggregate_outcome plans" by (rule decision_outcomes [OF assms])
  have img: "ss_outcome ` set (fd_subjects decision) = pl_outcome ` set plans" using p(1) by (metis list.set_map)
  show "outcome_rank (ss_outcome s) \<le> outcome_rank (fd_outcome decision)" if s: "s \<in> set (fd_subjects decision)"
  proof -
    obtain q where "q \<in> set plans" "ss_outcome s = pl_outcome q" using img imageI [OF s, of ss_outcome] by auto
    then show ?thesis using aggregate_outcome_worst(1) p(2) by simp
  qed
  show "fd_outcome decision \<in> ss_outcome ` set (fd_subjects decision)" if "fd_subjects decision \<noteq> []"
  proof -
    have "plans \<noteq> []" using p(1) that by auto
    then show ?thesis using aggregate_outcome_worst(2) p(2) img by simp
  qed
qed

lemma decision_authority_missing:
  assumes "evaluate_fairness ctx = Some (Inr decision)" "ec_policy ctx = Some policy"
  shows "cs_authority_missing (fd_correction decision) \<longleftrightarrow> global_failure policy ctx \<noteq> None"
proof (rule decision_stages [OF assms(1)])
  fix policy' accounting tree whole d ready plans summary d_order s_order groups intents budget authorized
  assume "ec_policy ctx = Some policy'" "fd_correction decision = summary"
    "cs_authority_missing summary \<longleftrightarrow> global_failure policy' ctx \<noteq> None"
  then show ?thesis using assms(2) by simp
qed

section \<open>A concrete decision\<close>

text \<open>Subject 10 took the whole window of 100 units; subject 20, entitled to one half, has been unserved for
  five windows, past its limit of three.\<close>

definition pair_evidence :: EvidenceSnapshot where
  "pair_evidence = sample_evidence\<lparr>ev_observations := [sample_observation 10 100,
     (sample_observation 20 0)\<lparr>ob_unserved_streak := 5\<rparr>]\<rparr>"

definition pair_context :: EvaluationContext where
  "pair_context = sample_context\<lparr>ec_policy := Some pair_policy, ec_accounting := Some default_accounting,
     ec_evidence := Some pair_evidence\<rparr>"

definition pair_initial :: "SubjectPlan list \<times> DiagnosticNote list" where
  "pair_initial = initial_plans pair_policy default_accounting pair_context"

definition pair_corrected :: "SubjectPlan list \<times> CorrectionSummary \<times> nat list \<times> nat list" where
  "pair_corrected = (case and_then (number_plans pair_policy default_accounting pair_context pair_split (fst pair_initial))
       (plan_corrections pair_policy True 100) of Inr r \<Rightarrow> r | Inl _ \<Rightarrow> undefined)"

definition pair_plans :: "SubjectPlan list" where
  "pair_plans = map2 (assign_outcome pair_policy) (fp_subjects pair_policy) (fst pair_corrected)"

definition pair_intents :: "CorrectiveIntent list" where
  "pair_intents = (case all_intents pair_policy default_accounting sample_request pair_plans [1] [0] of
     Inr intents \<Rightarrow> intents | Inl _ \<Rightarrow> [])"

definition pair_groups :: "GroupFairnessState list" where
  "pair_groups = (case group_states pair_policy pair_split pair_plans of Some groups \<Rightarrow> groups | None \<Rightarrow> [])"

definition pair_decision :: FairnessDecision where
  "pair_decision = assemble pair_policy default_accounting pair_context (overcommit_notes pair_split (snd pair_initial))
     pair_plans (fst (snd pair_corrected)) pair_groups pair_intents"

lemma pair_eligible: "global_failure pair_policy pair_context = None"
  by code_simp

lemma pair_whole: "attained_whole (fst pair_initial) = Some 100"
  by code_simp

lemma pair_orders: "snd (snd pair_corrected) = ([1], [0])"
  by code_simp

lemma pair_corrected_eq:
  "and_then (number_plans pair_policy default_accounting pair_context pair_split (fst pair_initial))
       (plan_corrections pair_policy True 100) = Inr pair_corrected"
proof -
  have "case and_then (number_plans pair_policy default_accounting pair_context pair_split (fst pair_initial))
       (plan_corrections pair_policy True 100) of Inr _ \<Rightarrow> True | Inl _ \<Rightarrow> False"
    by code_simp
  then show ?thesis by (auto simp: pair_corrected_def split: sum.splits)
qed

lemma pair_groups_eq: "group_states pair_policy pair_split pair_plans = Some pair_groups"
proof -
  have "built pair_policy pair_split"
    using distribution_done(2) [OF pair_policy_valid pair_build pair_distribute] .
  then show ?thesis
    using group_states_ok [of pair_policy pair_split pair_plans] pair_policy_valid
    by (auto simp: pair_groups_def validate_policy_iff)
qed

lemma pair_intents_eq: "all_intents pair_policy default_accounting sample_request pair_plans [1] [0] = Inr pair_intents"
  using all_intents_ok [of "[1]" "[0]" pair_policy default_accounting sample_request pair_plans]
  by (auto simp: pair_intents_def)

lemma pair_evaluation: "evaluate_fairness pair_context = Some (Inr pair_decision)"
proof -
  have ctx: "ec_policy pair_context = Some pair_policy" "ec_accounting pair_context = Some default_accounting"
    "ec_request pair_context = sample_request"
    by (simp_all add: pair_context_def)
  obtain plans summary where c: "pair_corrected = (plans, summary, [1], [0])"
    using pair_orders by (metis prod.collapse)
  have "conclude pair_policy default_accounting pair_context pair_split
      (overcommit_notes pair_split (snd pair_initial)) pair_corrected = Some (Inr pair_decision)"
    using pair_groups_eq pair_intents_eq
    by (simp add: conclude_def c ctx pair_decision_def pair_plans_def Let_def)
  then show ?thesis
    using pair_corrected_eq pair_whole
    by (simp add: evaluate_fairness_def ctx pair_build evaluate_on_def pair_distribute pair_initial_def [symmetric]
        evaluate_distributed_def pair_eligible Let_def)
qed

lemma pair_outcomes: "map (\<lambda>s. (ss_outcome s, ss_has_authority s)) (fd_subjects pair_decision)
    = [(OverServed, True), (StarvationRisk, True)]"
proof -
  have "map (\<lambda>s. (ss_outcome s, ss_has_authority s)) (map2 (subject_state pair_policy) (fp_subjects pair_policy) pair_plans)
    = [(OverServed, True), (StarvationRisk, True)]"
    by code_simp
  then show ?thesis by (simp add: pair_decision_def assemble_def Let_def)
qed

lemma pair_streaks: "map (\<lambda>s. (ss_starvation_limit_windows s, ss_unserved_streak s, ss_deviation_units s)) (fd_subjects pair_decision)
    = [(3, 0, 50), (3, 5, - 50)]"
proof -
  have "map (\<lambda>s. (ss_starvation_limit_windows s, ss_unserved_streak s, ss_deviation_units s))
      (map2 (subject_state pair_policy) (fp_subjects pair_policy) pair_plans) = [(3, 0, 50), (3, 5, - 50)]"
    by code_simp
  then show ?thesis by (simp add: pair_decision_def assemble_def Let_def)
qed

lemma pair_corrections: "map (\<lambda>c. (ci_direction c, ci_subject c, ci_units c)) (fd_intents pair_decision)
    = [(Augment, 20, 50), (Reduce, 10, 50)]"
proof -
  have "map (\<lambda>c. (ci_direction c, ci_subject c, ci_units c)) pair_intents = [(Augment, 20, 50), (Reduce, 10, 50)]"
    by code_simp
  then show ?thesis by (simp add: pair_decision_def assemble_def Let_def)
qed

lemma pair_context_policy [simp]: "ec_policy pair_context = Some pair_policy"
  by (simp add: pair_context_def)

section \<open>Served units against entitlements\<close>

lemma corrected_frame:
  assumes "plan_corrections policy ok whole ready = Inr (plans, summary, d_order, s_order)" "fresh_plans ready"
    and i: "i < length ready"
  shows "pl_served (plans ! i) = pl_served (ready ! i)" "pl_has_authority (plans ! i) = pl_has_authority (ready ! i)"
    "pl_entitlement (plans ! i) = pl_entitlement (ready ! i)"
  by (rule plan_corrections_spec [OF assms(1,2)], use i in fastforce)+

lemma served_total:
  assumes valid: "validate_policy policy = Ok" and "build policy = Inr tree" and dist: "distribute policy whole tree = Some (Inr d)"
    and w: "attained_whole (fst (initial_plans policy accounting ctx)) = Some whole"
    and np: "number_plans policy accounting ctx d (fst (initial_plans policy accounting ctx)) = Inr ready"
    and auth: "\<And>i. i < length (fp_subjects policy) \<Longrightarrow> pl_has_authority (ready ! i)"
  shows "nsum (map pl_served ready) = nsum (map pl_entitlement ready)"
proof -
  let ?init = "fst (initial_plans policy accounting ctx)"
  note d = distribution_done [OF assms(1-3)]
  note fr = fresh_ready [OF np]
  have each: "pl_has_authority (?init ! i) \<and> pl_served (?init ! i) = pl_served (ready ! i) \<and>
      pl_entitlement (ready ! i) = ds_subject_effective d ! i" if i: "i < length (fp_subjects policy)" for i
    using ready_cases [OF np i]
  proof (elim disjE conjE)
    assume "bare_plan (ready ! i)"
    then show ?thesis using auth [OF i] bare_plan_simps(1) by blast
  next
    assume "ready_plan policy accounting ctx d i (ready ! i)" "pl_has_authority (?init ! i)"
      "pl_served (?init ! i) = pl_served (ready ! i)"
    then show ?thesis by (simp add: ready_plan_def numbered_def)
  qed
  have "nsum (map pl_served ready) = nsum (map (\<lambda>p. if pl_has_authority p then pl_served p else 0) ?init)"
    unfolding nsum_map_nth using each fr(2) by (intro sum.cong) simp_all
  also have "\<dots> = unat whole" using w by (simp add: attained_whole_def checked_total_Some)
  also have "\<dots> = nsum (ds_subject_effective d)" using entitlement_total [OF d(1,2,4)] by simp
  also have "\<dots> = nsum (map pl_entitlement ready)"
    unfolding nsum_map_nth nsum_nth using each fr(2) d(2) by (intro sum.cong) (simp_all add: built_def)
  finally show ?thesis .
qed

lemma decision_totals:
  assumes "evaluate_fairness ctx = Some (Inr decision)" "ec_policy ctx = Some policy" "validate_policy policy = Ok"
    and auth: "\<forall>s\<in>set (fd_subjects decision). ss_has_authority s"
  shows "nsum (map ss_served_units (fd_subjects decision)) = nsum (map ss_entitlement_units (fd_subjects decision))"
proof (rule decision_stages [OF assms(1)])
  fix policy' accounting tree whole d ready plans summary d_order s_order groups intents budget authorized
  assume pol: "ec_policy ctx = Some policy'" and len: "length plans = length (fp_subjects policy')"
    and dec: "fd_subjects decision = map2 (subject_state policy') (fp_subjects policy') (map2 (assign_outcome policy') (fp_subjects policy') plans)"
    and st: "build policy' = Inr tree" "distribute policy' whole tree = Some (Inr d)"
      "attained_whole (fst (initial_plans policy' accounting ctx)) = Some whole"
      "number_plans policy' accounting ctx d (fst (initial_plans policy' accounting ctx)) = Inr ready"
    and pc: "plan_corrections policy' (global_failure policy' ctx = None) whole ready = Inr (plans, summary, d_order, s_order)"
  have p: "policy' = policy" using pol assms(2) by simp
  note fr = fresh_ready [OF st(4)]
  note cf = corrected_frame [OF pc fr(1), unfolded fr(2)]
  have state: "ss_has_authority (fd_subjects decision ! i) = pl_has_authority (ready ! i)"
    "ss_served_units (fd_subjects decision ! i) = pl_served (ready ! i)"
    "ss_entitlement_units (fd_subjects decision ! i) = pl_entitlement (ready ! i)"
    if "i < length (fp_subjects policy')" for i
    using cf [OF that] that len by (simp_all add: dec subject_state_def Let_def)
  have l: "length (fd_subjects decision) = length (fp_subjects policy')" by (simp add: dec len)
  have "nsum (map pl_served ready) = nsum (map pl_entitlement ready)"
  proof (rule served_total [OF _ st])
    show "validate_policy policy' = Ok" using assms(3) p by simp
    show "pl_has_authority (ready ! i)" if "i < length (fp_subjects policy')" for i
      using auth state(1) [OF that] that l by simp
  qed
  moreover have "map ss_served_units (fd_subjects decision) = map pl_served ready"
    "map ss_entitlement_units (fd_subjects decision) = map pl_entitlement ready"
    by (rule nth_equalityI; simp add: state fr(2) l)+
  ultimately show ?thesis by simp
qed

text \<open>The units of a reported state are far from the word size.\<close>

lemma decision_units:
  assumes "evaluate_fairness ctx = Some (Inr decision)" "ec_policy ctx = Some policy" "validate_policy policy = Ok"
    and ev: "\<forall>evidence. ec_evidence ctx = Some evidence \<longrightarrow> validate_evidence evidence = Ok"
    and i: "i < length (fp_subjects policy)"
  shows "unat (ss_served_units (fd_subjects decision ! i)) \<le> 2 ^ 40"
    "unat (ss_entitlement_units (fd_subjects decision ! i)) \<le> 2 ^ 52"
    "ss_deviation_units (fd_subjects decision ! i)
      = ss_served_units (fd_subjects decision ! i) - ss_entitlement_units (fd_subjects decision ! i)"
proof -
  let ?s = "fd_subjects decision ! i"
  have "unat (ss_served_units ?s) \<le> 2 ^ 40 \<and> unat (ss_entitlement_units ?s) \<le> 2 ^ 52 \<and>
      ss_deviation_units ?s = ss_served_units ?s - ss_entitlement_units ?s"
  proof (rule decision_stages [OF assms(1)])
    fix policy' accounting tree whole d ready plans summary d_order s_order groups intents budget authorized
    assume pol: "ec_policy ctx = Some policy'" and len: "length plans = length (fp_subjects policy')"
      and dec: "fd_subjects decision = map2 (subject_state policy') (fp_subjects policy') (map2 (assign_outcome policy') (fp_subjects policy') plans)"
      and each: "\<And>i. i < length (fp_subjects policy') \<Longrightarrow> bare_plan (plans ! i) \<or>
         settled policy' accounting ctx d (cs_protected_obligation_blocked summary) i (plans ! i)"
      and st: "build policy' = Inr tree" "distribute policy' whole tree = Some (Inr d)"
        "attained_whole (fst (initial_plans policy' accounting ctx)) = Some whole"
        "number_plans policy' accounting ctx d (fst (initial_plans policy' accounting ctx)) = Inr ready"
      and pc: "plan_corrections policy' (global_failure policy' ctx = None) whole ready = Inr (plans, summary, d_order, s_order)"
    have p: "policy' = policy" using pol assms(2) by simp
    note dd = distribution_done [OF assms(3) st(1,2) [unfolded p]]
    have i': "i < length (fp_subjects policy')" using i p by simp
    let ?p = "plans ! i"
    have state: "fd_subjects decision ! i = subject_state policy (fp_subjects policy ! i) (assign_outcome policy (fp_subjects policy ! i) ?p)"
      using i' len p by (simp add: dec)
    have "unat (pl_served ?p) \<le> 2 ^ 40 \<and> unat (pl_entitlement ?p) \<le> 2 ^ 52 \<and> pl_deviation ?p = pl_served ?p - pl_entitlement ?p"
      using each [OF i']
    proof
      assume "bare_plan ?p"
      then show ?thesis by (simp add: bare_plan_simps)
    next
      assume s: "settled policy' accounting ctx d (cs_protected_obligation_blocked summary) i ?p"
      have nb: "pl_deviation ?p = pl_served ?p - pl_entitlement ?p" "pl_entitlement ?p = ds_subject_effective d ! i"
        using settledD(8) [OF s] by (simp_all add: numbered_def)
      note fr = fresh_ready [OF st(4)]
      have "unat (pl_served (fst (initial_plans policy' accounting ctx) ! i)) \<le> 2 ^ 40"
        by (rule served_bounded [OF _ i']) (use ev in simp)
      moreover have "pl_served (fst (initial_plans policy' accounting ctx) ! i) = pl_served ?p"
        using ready_cases [OF st(4) i'] corrected_frame(1) [OF pc fr(1)] i' fr(2) by auto
      ultimately have served: "unat (pl_served ?p) \<le> 2 ^ 40" by simp
      have "ds_subject_effective d ! i \<in> set (ds_subject_effective d)" using dd(2) i by (simp add: built_def)
      then have "unat (pl_entitlement ?p) \<le> unat whole"
        using nsum_member [of "ds_subject_effective d ! i"] entitlement_total [OF dd(1,2,4)] nb(2) by fastforce
      moreover have "unat whole \<le> 4096 * 2 ^ 40"
        using attained_whole_ok [OF dd(1), of ctx, where accounting = accounting] ev st(3) p by auto
      ultimately show ?thesis using served nb(1) by simp
    qed
    then show ?thesis by (simp add: state subject_state_def Let_def)
  qed
  then show "unat (ss_served_units ?s) \<le> 2 ^ 40" "unat (ss_entitlement_units ?s) \<le> 2 ^ 52"
    "ss_deviation_units ?s = ss_served_units ?s - ss_entitlement_units ?s" by blast+
qed

lemma decision_deviation:
  assumes "evaluate_fairness ctx = Some (Inr decision)" "ec_policy ctx = Some policy" "validate_policy policy = Ok"
    and ev: "\<forall>evidence. ec_evidence ctx = Some evidence \<longrightarrow> validate_evidence evidence = Ok"
    and i: "i < length (fp_subjects policy)"
  shows "sint (ss_deviation_units (fd_subjects decision ! i))
    = int (unat (ss_served_units (fd_subjects decision ! i))) - int (unat (ss_entitlement_units (fd_subjects decision ! i)))"
proof -
  note u = decision_units [OF assms]
  show ?thesis unfolding u(3) by (rule signed_difference_exact(1)) (use u(1,2) in simp_all)
qed

end
