(* ===== verification/FG_Fairness.thy ===== *)
theory FG_Fairness
  imports FG_Decision
begin

text \<open>
  The properties of a returned decision: its corrections balance and stay inside their bounds, nothing is
  corrected without authority, starvation and blocking are reported, and its totals and aggregates are
  those of its subjects.
\<close>

section \<open>Counts\<close>

definition count_for :: "Outcome \<Rightarrow> OutcomeCounts \<Rightarrow> u32" where
  "count_for outcome c = (case outcome of
     Fair \<Rightarrow> oc_fair c | OverServed \<Rightarrow> oc_over_served c | UnderServed \<Rightarrow> oc_under_served c
   | StarvationRisk \<Rightarrow> oc_starvation_risk c | CorrectionRequired \<Rightarrow> oc_correction_required c
   | BlockedByStrongerObligation \<Rightarrow> oc_blocked_by_stronger_obligation c | Unknown \<Rightarrow> oc_unknown c
   | Stale \<Rightarrow> oc_stale c)"

lemma count_outcome_for:
  "count_for outcome (count_outcome p c) = count_for outcome c + (if pl_outcome p = outcome then 1 else 0)"
  by (cases outcome; cases "pl_outcome p") (simp_all add: count_for_def count_outcome_def)

lemma outcome_counts_for:
  "count_for outcome (outcome_counts plans) = of_nat (length (filter (\<lambda>p. pl_outcome p = outcome) plans))"
proof -
  have "count_for outcome (fold count_outcome plans c)
      = count_for outcome c + of_nat (length (filter (\<lambda>p. pl_outcome p = outcome) plans))" for c
    by (induction plans arbitrary: c) (simp_all add: count_outcome_for)
  moreover have "count_for outcome zero_counts = 0"
    by (cases outcome) (simp_all add: count_for_def zero_counts_def)
  ultimately show ?thesis by (simp add: outcome_counts_def)
qed

lemma pair_evidence_valid: "validate_evidence pair_evidence = Ok"
  by (simp add: validate_evidence_iff evidence_wf_def pair_evidence_def sample_evidence_def sample_observation_def
      observation_wf_def priority_consistent_def qos_consistent_def id_valid_def generation_valid_def
      word_le_nat_alt)

section \<open>Withheld units\<close>

lemma decision_blocked:
  assumes "evaluate_fairness ctx = Some (Inr decision)" "ec_policy ctx = Some policy"
    and "s \<in> set (fd_subjects decision)" "ss_outcome s = BlockedByStrongerObligation"
  shows "cs_protected_obligation_blocked (fd_correction decision)"
proof -
  obtain i where i: "i < length (fp_subjects policy)" "s = fd_subjects decision ! i"
    using decision_lengths [OF assms(1,2)] assms(3) by (auto simp: in_set_conv_nth)
  obtain accounting d p where p: "fd_subjects decision ! i = subject_state policy (fp_subjects policy ! i) (assign_outcome policy (fp_subjects policy ! i) p)"
    "bare_plan p \<or> settled policy accounting ctx d (cs_protected_obligation_blocked (fd_correction decision)) i p"
    by (rule decision_subject [OF assms(1,2) i(1)])
  have oc: "pl_outcome (assign_outcome policy (fp_subjects policy ! i) p) = BlockedByStrongerObligation"
    using assms(4) by (simp add: i(2) p(1) subject_state_def Let_def)
  have "\<not> bare_plan p" using oc bare_plan_simps(13) [of p] by (auto simp: assign_outcome_bare)
  then have s: "settled policy accounting ctx d (cs_protected_obligation_blocked (fd_correction decision)) i p"
    using p(2) by blast
  show ?thesis using settledD(3) [OF s] assign_outcome_blocked [OF settledD(1) [OF s] oc] by blast
qed

lemma decision_blocked_summary:
  assumes "evaluate_fairness ctx = Some (Inr decision)" "cs_protected_obligation_blocked (fd_correction decision)"
  shows "0 < cs_withheld_units (fd_correction decision)"
    "cs_authorized_budget_units (fd_correction decision) < cs_demand_units (fd_correction decision)"
proof -
  have "0 < cs_withheld_units (fd_correction decision) \<and>
    cs_authorized_budget_units (fd_correction decision) < cs_demand_units (fd_correction decision)"
  proof (rule decision_stages [OF assms(1)])
    fix policy accounting tree whole d ready plans summary d_order s_order groups intents budget authorized
    assume "fd_correction decision = summary" "cs_authorized_budget_units summary = authorized"
      "cs_protected_obligation_blocked summary \<Longrightarrow> 0 < cs_withheld_units summary \<and> authorized < cs_demand_units summary"
    then show ?thesis using assms(2) by simp
  qed
  then show "0 < cs_withheld_units (fd_correction decision)"
    "cs_authorized_budget_units (fd_correction decision) < cs_demand_units (fd_correction decision)" by blast+
qed

lemma corrections_withheld:
  assumes "plan_corrections policy ok whole ready = Inr (plans, summary, d_order, s_order)" "fresh_plans ready"
  shows "unat (cs_withheld_units summary) = nsum (map pl_withheld ready)"
proof -
  obtain pool dem wit budget where t: "correction_totals ready = Inr (pool, dem, wit)"
      "basis_point_budget policy whole = Inr budget"
    using assms(1) by (auto simp: plan_corrections_def and_then_Inr)
  have "\<exists>granted order. close_plan policy ok order (pool, dem, wit) budget granted = Inr (plans, summary)"
    using assms(1) unfolding plan_corrections_eq(1) [OF assms(2) t] by (auto simp: and_then_Inr)
  then have "cs_withheld_units summary = wit" using close_plan_Inr(7) by blast
  then show ?thesis using t(1) by (simp add: correction_totals_Inr checked_total_Some)
qed

text \<open>A window whose floors all fit withholds nothing: every surplus lies above the floor.\<close>

lemma ready_not_withheld:
  assumes valid: "validate_policy policy = Ok" and "build policy = Inr tree" "distribute policy whole tree = Some (Inr d)"
    and np: "number_plans policy accounting ctx d (fst (initial_plans policy accounting ctx)) = Inr ready"
    and fit: "\<not> ps_overcommit (ds_effective_pass d)" and i: "i < length (fp_subjects policy)"
  shows "pl_withheld (ready ! i) = 0"
  using ready_cases [OF np i]
proof (elim disjE conjE)
  assume "bare_plan (ready ! i)"
  then show ?thesis by (rule bare_plan_simps)
next
  let ?p = "ready ! i" and ?s = "fp_subjects policy ! i"
  assume r: "ready_plan policy accounting ctx d i ?p"
  then have dm: "demanding policy ?s ?p" and nb: "numbered policy accounting d ?s i ?p" by (simp_all add: ready_plan_def)
  have ent: "pl_entitlement ?p = ds_subject_effective d ! i"
    "pl_surplus ?p = (if pl_entitlement ?p < pl_served ?p then pl_served ?p - pl_entitlement ?p else 0)"
    using nb unfolding numbered_def by blast+
  have "sb_guarantee_floor ?s \<le> pl_entitlement ?p"
    unfolding ent(1) by (rule floors_honoured [OF assms(1-3) fit i])
  then have "pl_surplus ?p = 0 \<or> unat (sb_guarantee_floor ?s) + unat (pl_surplus ?p) \<le> unat (pl_served ?p)"
    using ent(2) by (auto simp: word_le_nat_alt word_less_nat_alt unat_minus_exact)
  then show ?thesis using dm unfolding demanding_def by blast
qed

lemma decision_withheld:
  assumes "evaluate_fairness ctx = Some (Inr decision)" "ec_policy ctx = Some policy" "validate_policy policy = Ok"
    and withheld: "0 < cs_withheld_units (fd_correction decision)"
  shows "64 \<le> length (fd_notes decision) \<or> PolicyOvercommit \<in> dn_code ` set (fd_notes decision)"
proof (rule evaluationE [OF assms(1)])
  fix policy' accounting tree whole d ready plans summary d_order s_order groups intents
  assume pol: "ec_policy ctx = Some policy'"
    and st: "build policy' = Inr tree" "distribute policy' whole tree = Some (Inr d)"
      "number_plans policy' accounting ctx d (fst (initial_plans policy' accounting ctx)) = Inr ready"
    and pc: "plan_corrections policy' (global_failure policy' ctx = None) whole ready = Inr (plans, summary, d_order, s_order)"
    and dec: "decision = assemble policy' accounting ctx (overcommit_notes d (snd (initial_plans policy' accounting ctx)))
       (map2 (assign_outcome policy') (fp_subjects policy') plans) summary groups intents"
  have p: "policy' = policy" using pol assms(2) by simp
  have fields: "fd_notes decision = overcommit_notes d (snd (initial_plans policy' accounting ctx))"
    "fd_correction decision = summary" by (simp_all add: dec assemble_def Let_def)
  note fr = fresh_ready [OF st(3)]
  have "ps_overcommit (ds_effective_pass d)"
  proof (rule ccontr)
    assume fit: "\<not> ps_overcommit (ds_effective_pass d)"
    have "nsum (map pl_withheld ready) = 0"
      unfolding nsum_map_nth using ready_not_withheld [OF assms(3) st(1-3) [unfolded p] fit] fr(2) p by simp
    then show False using corrections_withheld [OF pc fr(1)] withheld fields(2) by (simp add: word_less_nat_alt)
  qed
  then show ?thesis by (simp add: fields(1) overcommit_notes_def add_note_def kMaxNotes_def)
qed

section \<open>A decision under overcommit\<close>

text \<open>Two protected subjects with floors of 80 units each in a window of 100; subject 10 has the lower rank
  and took everything.\<close>

definition held_subject :: "u64 \<Rightarrow> u32 \<Rightarrow> Subject" where
  "held_subject sid rank = (sample_subject sid 1 1 80)\<lparr>sb_obligation_rank := rank, sb_protected_obligation := True\<rparr>"

definition held_policy :: FairnessPolicy where
  "held_policy = pair_policy\<lparr>fp_subjects := [held_subject 10 1, held_subject 20 2]\<rparr>"

definition held_context :: EvaluationContext where
  "held_context = pair_context\<lparr>ec_policy := Some held_policy\<rparr>"

definition held_split :: Distributor where
  "held_split = pair_split\<lparr>ds_subject_base := [20, 80], ds_subject_effective := [20, 80],
     ds_base_pass := \<lparr>ps_overcommit = True, ps_overcommit_shortfall = 60\<rparr>,
     ds_effective_pass := \<lparr>ps_overcommit = True, ps_overcommit_shortfall = 60\<rparr>\<rparr>"

definition held_ready :: "SubjectPlan list" where
  "held_ready = (case number_plans held_policy default_accounting held_context held_split
     (fst (initial_plans held_policy default_accounting held_context)) of Inr r \<Rightarrow> r | Inl _ \<Rightarrow> [])"

definition held_plans :: "SubjectPlan list" where
  "held_plans = (case plan_corrections held_policy True 100 held_ready of Inr r \<Rightarrow> fst r | Inl _ \<Rightarrow> [])"

lemma held_policy_valid: "validate_policy held_policy = Ok"
  by code_simp

lemma held_build: "build held_policy = Inr pair_tree"
  by code_simp

lemma held_inputs: "allocate_whole [subject_input um (held_subject 10 1), subject_input um (held_subject 20 2)] 100
    = Inr \<lparr>ar_allocations = [20, 80], ar_floor_binding = [0, 1], ar_overcommit = True, ar_overcommit_shortfall = 60\<rparr>"
proof -
  have "allocate_whole [subject_input False (held_subject 10 1), subject_input False (held_subject 20 2)] 100
    = Inr \<lparr>ar_allocations = [20, 80], ar_floor_binding = [0, 1], ar_overcommit = True, ar_overcommit_shortfall = 60\<rparr>"
    by code_simp
  then show ?thesis by (cases um) (simp_all add: subject_input_def held_subject_def sample_subject_def)
qed

lemma held_distribute: "distribute held_policy 100 pair_tree = Some (Inr held_split)"
  by (simp add: distribute_def distribute_pass_def scatter_fuel_def numeral_eq_Suc pair_root held_inputs Let_def
      held_policy_def pair_policy_def pair_tree_def held_split_def pair_split_def note_overcommit_def inputs_for_def
      write_result_def default_node_def node_allocation_def set_node_allocation_def sample_policy_def
      default_pass_def checked_add_def del: le_Suc_numeral)

lemma held_whole: "attained_whole (fst (initial_plans held_policy default_accounting held_context)) = Some 100"
  by code_simp

lemma held_numbers: "number_plans held_policy default_accounting held_context held_split
     (fst (initial_plans held_policy default_accounting held_context)) = Inr held_ready"
proof -
  have "case number_plans held_policy default_accounting held_context held_split
     (fst (initial_plans held_policy default_accounting held_context)) of Inr _ \<Rightarrow> True | Inl _ \<Rightarrow> False"
    by code_simp
  then show ?thesis by (auto simp: held_ready_def split: sum.splits)
qed

lemma held_eligible: "global_failure held_policy held_context = None"
  by code_simp

lemma held_outcomes: "map pl_outcome (map2 (assign_outcome held_policy) (fp_subjects held_policy) held_plans)
    = [OverServed, BlockedByStrongerObligation]"
  by code_simp

lemma held_length: "length held_plans = 2"
  by code_simp

lemma held_evaluation:
  "\<exists>decision. evaluate_fairness held_context = Some (Inr decision) \<and>
     BlockedByStrongerObligation \<in> ss_outcome ` set (fd_subjects decision)"
proof -
  have ctx: "ec_policy held_context = Some held_policy" "ec_accounting held_context = Some default_accounting"
    by (simp_all add: held_context_def pair_context_def)
  obtain decision where d: "evaluate_fairness held_context = Some (Inr decision)"
    using evaluation_total [OF held_policy_valid ctx] pair_evidence_valid
    by (auto simp: accounting_bounded_def default_accounting_def held_context_def pair_context_def)
  have "map ss_outcome (fd_subjects decision) = map pl_outcome (map2 (assign_outcome held_policy) (fp_subjects held_policy) held_plans)"
  proof (rule evaluationE [OF d])
    fix policy accounting tree whole split ready plans summary d_order s_order groups intents
    assume st: "ec_policy held_context = Some policy" "ec_accounting held_context = Some accounting"
        "build policy = Inr tree"
        "attained_whole (fst (initial_plans policy accounting held_context)) = Some whole"
        "distribute policy whole tree = Some (Inr split)"
        "number_plans policy accounting held_context split (fst (initial_plans policy accounting held_context)) = Inr ready"
        "plan_corrections policy (global_failure policy held_context = None) whole ready = Inr (plans, summary, d_order, s_order)"
      and dec: "decision = assemble policy accounting held_context
       (overcommit_notes split (snd (initial_plans policy accounting held_context)))
       (map2 (assign_outcome policy) (fp_subjects policy) plans) summary groups intents"
    have p: "policy = held_policy" "accounting = default_accounting" using st(1,2) ctx by simp_all
    have w: "tree = pair_tree" "whole = 100" using st(3,4) held_build held_whole p by simp_all
    have sp: "split = held_split" using st(5) held_distribute p w by simp
    have "ready = held_ready" using st(6) held_numbers p sp by simp
    then have plans: "plans = held_plans" using st(7) held_eligible p w by (simp add: held_plans_def)
    have "length plans = length (fp_subjects policy)"
      using held_length plans p by (simp add: held_policy_def)
    then show ?thesis unfolding plans [symmetric] p(1) [symmetric]
      by (intro nth_equalityI) (simp_all add: dec assemble_def Let_def subject_state_def)
  qed
  then have "set (map ss_outcome (fd_subjects decision)) = {OverServed, BlockedByStrongerObligation}"
    unfolding held_outcomes by simp
  then show ?thesis using d by auto
qed

section \<open>Properties\<close>

text \<open>C15: The corrections of a decision balance: the augments and the reductions it proposes add up to the
  same number of units, the authorized budget, which exceeds neither the reducible pool, nor the demand,
  nor the correction limit of the policy.\<close>

theorem corrections_balance:
  assumes "evaluate_fairness ctx = Some (Inr decision)" "ec_policy ctx = Some policy"
  shows "units_of Augment (fd_intents decision) = unat (cs_authorized_budget_units (fd_correction decision)) \<and>
    units_of Reduce (fd_intents decision) = unat (cs_authorized_budget_units (fd_correction decision)) \<and>
    cs_authorized_budget_units (fd_correction decision) \<le> cs_reducible_pool_units (fd_correction decision) \<and>
    cs_authorized_budget_units (fd_correction decision) \<le> cs_demand_units (fd_correction decision) \<and>
    cs_authorized_budget_units (fd_correction decision) \<le> fp_max_correction_units policy"
proof (rule decision_stages [OF assms(1)])
  fix policy' accounting tree whole d ready plans summary d_order s_order groups intents budget authorized
  assume pol: "ec_policy ctx = Some policy'" and len: "length plans = length (fp_subjects policy')"
    and dec: "fd_correction decision = summary" "fd_intents decision = intents"
    and ai: "all_intents policy' accounting (ec_request ctx) (map2 (assign_outcome policy') (fp_subjects policy') plans)
       d_order s_order = Inr intents"
    and dist: "distinct d_order" "distinct s_order"
    and orders: "set d_order = {i. i < length plans \<and> pl_has_authority (ready ! i) \<and> 0 < pl_demand (ready ! i)}"
      "set s_order = {i. i < length plans \<and> pl_has_authority (ready ! i) \<and> 0 < pl_reducible (ready ! i)}"
    and sums: "(\<Sum>i\<in>set d_order. unat (pl_augment (plans ! i))) = unat authorized"
      "(\<Sum>i\<in>set s_order. unat (pl_reduce (plans ! i))) = unat authorized"
    and auth: "cs_authorized_budget_units summary = authorized" "authorized \<le> fp_max_correction_units policy'"
      "authorized \<le> cs_reducible_pool_units summary" "authorized \<le> cs_demand_units summary"
  let ?plans = "map2 (assign_outcome policy') (fp_subjects policy') plans"
  have "(\<Sum>i\<in>set d_order. unat (pl_augment (?plans ! i))) = unat authorized"
    unfolding sums(1) [symmetric] using orders(1) len by (intro sum.cong) simp_all
  moreover have "(\<Sum>i\<in>set s_order. unat (pl_reduce (?plans ! i))) = unat authorized"
    unfolding sums(2) [symmetric] using orders(2) len by (intro sum.cong) simp_all
  ultimately show ?thesis
    using units_of_intents [OF ai dist] auth pol assms(2) by (simp add: dec)
qed

theorem corrections_balance_witness:
  "units_of Augment (fd_intents pair_decision) = units_of Reduce (fd_intents pair_decision) \<and>
    units_of Augment (fd_intents pair_decision) \<le> 100"
  using corrections_balance [OF pair_evaluation pair_context_policy]
  by (simp add: word_le_nat_alt pair_policy_def sample_policy_def)

text \<open>C16: Every intent of a decision names a governed subject that has authority and stays inside its bounds:
  an augment inside the subject's augment limit, a reduction inside its reduction limit and inside its
  surplus, and a subject that carries a protected obligation keeps at least its guarantee floor.\<close>

theorem corrections_respect_caps:
  assumes "evaluate_fairness ctx = Some (Inr decision)" "ec_policy ctx = Some policy" "c \<in> set (fd_intents decision)"
  shows "\<exists>i<length (fp_subjects policy). ci_subject c = sb_id (fp_subjects policy ! i) \<and> ci_units c \<noteq> 0 \<and>
     ss_has_authority (fd_subjects decision ! i) \<and>
     (case ci_direction c of
        Augment \<Rightarrow> ci_units c \<le> sb_max_augment_units (fp_subjects policy ! i)
      | Reduce \<Rightarrow> ci_units c \<le> sb_max_reduce_units (fp_subjects policy ! i) \<and>
          ci_units c \<le> ss_surplus_units (fd_subjects decision ! i) \<and>
          (sb_protected_obligation (fp_subjects policy ! i) \<longrightarrow>
             unat (sb_guarantee_floor (fp_subjects policy ! i)) + unat (ci_units c)
               \<le> unat (ss_served_units (fd_subjects decision ! i))))"
proof (rule decision_intent [OF assms])
  fix i accounting d p
  assume i: "i < length (fp_subjects policy)" "ci_subject c = sb_id (fp_subjects policy ! i)"
    and s: "settled policy accounting ctx d (cs_protected_obligation_blocked (fd_correction decision)) i p"
    and st: "fd_subjects decision ! i = subject_state policy (fp_subjects policy ! i) (assign_outcome policy (fp_subjects policy ! i) p)"
    and u: "ci_units c \<noteq> 0"
      "ci_direction c = Augment \<and> ci_units c = pl_augment p \<or> ci_direction c = Reduce \<and> ci_units c = pl_reduce p"
  have state: "ss_has_authority (fd_subjects decision ! i)" "ss_surplus_units (fd_subjects decision ! i) = pl_surplus p"
    "ss_served_units (fd_subjects decision ! i) = pl_served p"
    using settledD(1) [OF s] by (simp_all add: st subject_state_def Let_def)
  note sd = settledD(4-7) [OF s]
  show ?thesis
  proof (intro exI [of _ i] conjI i u(1) state(1))
    from u(2) show "case ci_direction c of
        Augment \<Rightarrow> ci_units c \<le> sb_max_augment_units (fp_subjects policy ! i)
      | Reduce \<Rightarrow> ci_units c \<le> sb_max_reduce_units (fp_subjects policy ! i) \<and>
          ci_units c \<le> ss_surplus_units (fd_subjects decision ! i) \<and>
          (sb_protected_obligation (fp_subjects policy ! i) \<longrightarrow>
             unat (sb_guarantee_floor (fp_subjects policy ! i)) + unat (ci_units c)
               \<le> unat (ss_served_units (fd_subjects decision ! i)))"
    proof (elim disjE conjE)
      assume "ci_direction c = Augment" "ci_units c = pl_augment p"
      then show ?thesis using sd(1) by simp
    next
      assume "ci_direction c = Reduce" "ci_units c = pl_reduce p"
      then show ?thesis using sd(2-4) u(1) state by simp
    qed
  qed
qed

theorem corrections_respect_caps_witness:
  "\<exists>i<length (fp_subjects pair_policy). ci_subject (fd_intents pair_decision ! 1) = sb_id (fp_subjects pair_policy ! i) \<and>
     ci_units (fd_intents pair_decision ! 1) \<le> ss_surplus_units (fd_subjects pair_decision ! i)"
proof -
  have l: "length (fd_intents pair_decision) = 2" using arg_cong [OF pair_corrections, of length] by simp
  then have "map (\<lambda>c. (ci_direction c, ci_subject c, ci_units c)) (fd_intents pair_decision) ! 1
      = (ci_direction (fd_intents pair_decision ! 1), ci_subject (fd_intents pair_decision ! 1), ci_units (fd_intents pair_decision ! 1))"
    by simp
  then have "ci_direction (fd_intents pair_decision ! 1) = Reduce" unfolding pair_corrections by simp
  moreover have "fd_intents pair_decision ! 1 \<in> set (fd_intents pair_decision)" using l by simp
  ultimately show ?thesis
    using corrections_respect_caps [OF pair_evaluation pair_context_policy, of "fd_intents pair_decision ! 1"]
    by auto
qed

text \<open>C17: Without authority there is no correction: when the evidence of the whole window is not eligible,
  every subject is reported as Unknown or Stale without authority, so is the decision, and it proposes no
  intent.\<close>

theorem no_authority_no_correction:
  assumes "evaluate_fairness ctx = Some (Inr decision)" "ec_policy ctx = Some policy"
    and "fp_subjects policy \<noteq> []" "global_failure policy ctx \<noteq> None"
  shows "fd_intents decision = [] \<and> cs_authority_missing (fd_correction decision) \<and>
    fd_outcome decision \<in> {Unknown, Stale} \<and>
    (\<forall>s\<in>set (fd_subjects decision). \<not> ss_has_authority s \<and> ss_outcome s \<in> {Unknown, Stale})"
proof -
  have no: "\<not> settled policy accounting ctx d blocked i p" for accounting d blocked i p
    using assms(4) by (auto dest: settledD(9))
  have "fd_intents decision = []"
  proof (rule ccontr)
    assume "fd_intents decision \<noteq> []"
    then have "hd (fd_intents decision) \<in> set (fd_intents decision)" by simp
    then show False by (rule decision_intent [OF assms(1,2)]) (simp add: no)
  qed
  moreover have states: "\<not> ss_has_authority s \<and> ss_outcome s \<in> {Unknown, Stale}" if "s \<in> set (fd_subjects decision)" for s
  proof -
    obtain i where i: "i < length (fp_subjects policy)" "s = fd_subjects decision ! i"
      using decision_lengths [OF assms(1,2)] \<open>s \<in> set (fd_subjects decision)\<close> by (auto simp: in_set_conv_nth)
    obtain accounting d p where p: "fd_subjects decision ! i = subject_state policy (fp_subjects policy ! i) (assign_outcome policy (fp_subjects policy ! i) p)"
      "bare_plan p \<or> settled policy accounting ctx d (cs_protected_obligation_blocked (fd_correction decision)) i p"
      by (rule decision_subject [OF assms(1,2) i(1)])
    then have b: "bare_plan p" using no by blast
    show ?thesis
      using bare_plan_simps(1,13) [OF b] unfolding i(2) p(1) assign_outcome_bare [OF b]
      by (simp add: subject_state_def Let_def)
  qed
  moreover have "fd_outcome decision \<in> {Unknown, Stale}"
  proof -
    have "fd_subjects decision \<noteq> []" using decision_lengths [OF assms(1,2)] assms(3) by auto
    then have "outcome_rank (ss_outcome (hd (fd_subjects decision))) \<ge> 6"
      using states [OF hd_in_set] unfolding outcome_rank_authority by blast
    then have "outcome_rank (fd_outcome decision) \<ge> 6"
      using decision_aggregate(1) [OF assms(1), of "hd (fd_subjects decision)"] \<open>fd_subjects decision \<noteq> []\<close> by simp
    then show ?thesis unfolding outcome_rank_authority .
  qed
  ultimately show ?thesis using decision_authority_missing [OF assms(1,2)] assms(4) by blast
qed

theorem no_authority_no_correction_witness:
  "\<exists>decision. evaluate_fairness (sample_context\<lparr>ec_evidence := None\<rparr>) = Some (Inr decision) \<and>
    fd_intents decision = [] \<and> fd_outcome decision \<in> {Unknown, Stale}"
proof -
  let ?ctx = "sample_context\<lparr>ec_evidence := None\<rparr>"
  obtain decision where d: "evaluate_fairness ?ctx = Some (Inr decision)"
    using evaluation_total [OF sample_policy_valid _ _ sample_accounting_bounded, of ?ctx] by auto
  have "fp_subjects sample_policy \<noteq> []" by (simp add: sample_policy_def)
  moreover have "global_failure sample_policy ?ctx \<noteq> None"
    by (simp add: global_failure_def sample_context_def sample_request_def sample_policy_def Let_def)
  ultimately show ?thesis using no_authority_no_correction [OF d, of sample_policy] d by auto
qed

text \<open>C18: Starvation is never hidden by an aggregate: an authorised subject whose reported streak of unserved
  windows reaches its limit, or which has a guarantee floor and whose streak below it reaches the limit
  for guarantees, is reported as StarvationRisk or as BlockedByStrongerObligation.\<close>

theorem starvation_never_hidden:
  assumes "evaluate_fairness ctx = Some (Inr decision)" "ec_policy ctx = Some policy" "i < length (fp_subjects policy)"
    and "ss_has_authority (fd_subjects decision ! i)"
    and "let s = fd_subjects decision ! i
         in (0 < ss_starvation_limit_windows s \<and> ss_starvation_limit_windows s \<le> ss_unserved_streak s) \<or>
            (0 < ss_guarantee_starvation_limit_windows s \<and> 0 < ss_guarantee_floor_units s \<and>
             ss_guarantee_starvation_limit_windows s \<le> ss_below_floor_streak s)"
  shows "ss_outcome (fd_subjects decision ! i) \<in> {StarvationRisk, BlockedByStrongerObligation}"
proof (rule decision_subject [OF assms(1-3)])
  fix accounting d p
  assume p: "fd_subjects decision ! i = subject_state policy (fp_subjects policy ! i) (assign_outcome policy (fp_subjects policy ! i) p)"
    "bare_plan p \<or> settled policy accounting ctx d (cs_protected_obligation_blocked (fd_correction decision)) i p"
  have "pl_has_authority p" using assms(4) by (simp add: p(1) subject_state_def Let_def)
  then have s: "settled policy accounting ctx d (cs_protected_obligation_blocked (fd_correction decision)) i p"
    using p(2) bare_plan_simps(1) by blast
  have "starves (fp_subjects policy ! i) p"
    using assms(5) by (auto simp: p(1) subject_state_def Let_def starves_def)
  then show ?thesis
    using assign_outcome_starving [of p policy "fp_subjects policy ! i"] settledD(1,2) [OF s]
    by (simp add: p(1) subject_state_def Let_def)
qed

theorem starvation_never_hidden_witness:
  "ss_outcome (fd_subjects pair_decision ! 1) \<in> {StarvationRisk, BlockedByStrongerObligation}"
proof (rule starvation_never_hidden [OF pair_evaluation pair_context_policy])
  have l: "length (fd_subjects pair_decision) = 2" using arg_cong [OF pair_outcomes, of length] by simp
  show "1 < length (fp_subjects pair_policy)" by (simp add: pair_policy_def)
  show "ss_has_authority (fd_subjects pair_decision ! 1)"
    using arg_cong [OF pair_outcomes, where f = "\<lambda>xs. snd (xs ! 1)"] l by simp
  have "ss_starvation_limit_windows (fd_subjects pair_decision ! 1) = 3" "ss_unserved_streak (fd_subjects pair_decision ! 1) = 5"
    using arg_cong [OF pair_streaks, where f = "\<lambda>xs. fst (xs ! 1)"]
      arg_cong [OF pair_streaks, where f = "\<lambda>xs. fst (snd (xs ! 1))"] l by simp_all
  then show "let s = fd_subjects pair_decision ! 1
         in (0 < ss_starvation_limit_windows s \<and> ss_starvation_limit_windows s \<le> ss_unserved_streak s) \<or>
            (0 < ss_guarantee_starvation_limit_windows s \<and> 0 < ss_guarantee_floor_units s \<and>
             ss_guarantee_starvation_limit_windows s \<le> ss_below_floor_streak s)" by simp
qed

text \<open>C19: Entitlements redistribute the window and nothing else: when every subject has authority, the served
  units add up to the entitlements, and the signed deviations cancel.\<close>

theorem deviations_cancel:
  assumes "evaluate_fairness ctx = Some (Inr decision)" "ec_policy ctx = Some policy" "validate_policy policy = Ok"
    and "\<forall>evidence. ec_evidence ctx = Some evidence \<longrightarrow> validate_evidence evidence = Ok"
    and "\<forall>s\<in>set (fd_subjects decision). ss_has_authority s"
  shows "nsum (map ss_served_units (fd_subjects decision)) = nsum (map ss_entitlement_units (fd_subjects decision)) \<and>
    (\<Sum>s\<leftarrow>fd_subjects decision. sint (ss_deviation_units s)) = 0"
proof -
  note total = decision_totals [OF assms(1,2,3,5)]
  have len: "length (fd_subjects decision) = length (fp_subjects policy)" by (rule decision_lengths [OF assms(1,2)])
  have "(\<Sum>s\<leftarrow>fd_subjects decision. sint (ss_deviation_units s))
      = (\<Sum>i<length (fd_subjects decision). sint (ss_deviation_units (fd_subjects decision ! i)))"
    by (simp add: sum_list_sum_nth atLeast0LessThan)
  also have "\<dots> = (\<Sum>i<length (fd_subjects decision). int (unat (ss_served_units (fd_subjects decision ! i)))
      - int (unat (ss_entitlement_units (fd_subjects decision ! i))))"
    using decision_deviation [OF assms(1-4)] len by (intro sum.cong) simp_all
  also have "\<dots> = int (nsum (map ss_served_units (fd_subjects decision)))
      - int (nsum (map ss_entitlement_units (fd_subjects decision)))"
    unfolding nsum_map_nth sum_subtractf of_nat_sum by simp
  finally show ?thesis using total by simp
qed

theorem deviations_cancel_witness:
  "(\<Sum>s\<leftarrow>fd_subjects pair_decision. sint (ss_deviation_units s)) = 0"
proof -
  have "list_all ss_has_authority (fd_subjects pair_decision)"
    using arg_cong [OF pair_outcomes, where f = "list_all snd"] by (simp add: list.pred_map comp_def)
  then show ?thesis
    using deviations_cancel [OF pair_evaluation _ pair_policy_valid] pair_evidence_valid
    by (simp add: pair_context_def list_all_iff)
qed

text \<open>The aggregate hides nothing: the outcome of a decision is the outcome of one of its subjects, no
  subject has a more severe one, and the counts are those of the subjects.\<close>

theorem aggregate_is_worst:
  assumes "evaluate_fairness ctx = Some (Inr decision)" "fd_subjects decision \<noteq> []"
  shows "fd_outcome decision \<in> ss_outcome ` set (fd_subjects decision) \<and>
    (\<forall>s\<in>set (fd_subjects decision). outcome_rank (ss_outcome s) \<le> outcome_rank (fd_outcome decision)) \<and>
    (\<forall>outcome. count_for outcome (fd_counts decision)
       = of_nat (length (filter (\<lambda>s. ss_outcome s = outcome) (fd_subjects decision))))"
proof (intro conjI allI ballI)
  show "fd_outcome decision \<in> ss_outcome ` set (fd_subjects decision)"
    by (rule decision_aggregate(2) [OF assms])
  show "outcome_rank (ss_outcome s) \<le> outcome_rank (fd_outcome decision)" if "s \<in> set (fd_subjects decision)" for s
    by (rule decision_aggregate(1) [OF assms(1) that])
  fix outcome
  obtain plans where p: "map ss_outcome (fd_subjects decision) = map pl_outcome plans"
      "fd_counts decision = outcome_counts plans" by (rule decision_outcomes [OF assms(1)])
  have "length (filter (\<lambda>s. ss_outcome s = outcome) (fd_subjects decision))
      = length (filter (\<lambda>p. pl_outcome p = outcome) plans)"
    using arg_cong [OF p(1), where f = "\<lambda>os. length (filter (\<lambda>oc. oc = outcome) os)"]
    by (simp add: filter_map comp_def)
  then show "count_for outcome (fd_counts decision)
       = of_nat (length (filter (\<lambda>s. ss_outcome s = outcome) (fd_subjects decision)))"
    by (simp add: p(2) outcome_counts_for)
qed

theorem aggregate_is_worst_witness: "fd_outcome pair_decision \<in> {OverServed, StarvationRisk}"
proof -
  have os: "map ss_outcome (fd_subjects pair_decision) = [OverServed, StarvationRisk]"
    using arg_cong [OF pair_outcomes, where f = "map fst"] by (simp add: comp_def)
  then have "ss_outcome ` set (fd_subjects pair_decision) = {OverServed, StarvationRisk}" by (metis list.set_map list.simps(15) set_empty)
  moreover have "fd_subjects pair_decision \<noteq> []" using os by auto
  ultimately show ?thesis using aggregate_is_worst [OF pair_evaluation] by blast
qed


text \<open>A protected obligation only holds a correction back while the window is overcommitted: a subject is
  reported as BlockedByStrongerObligation only if units were withheld and the authorized budget stayed
  below the demand, and then the floors of the policy did not fit, which the distribution flags and the
  decision notes (unless its note list is full).\<close>

theorem blocked_only_under_overcommit:
  assumes "evaluate_fairness ctx = Some (Inr decision)" "ec_policy ctx = Some policy" "validate_policy policy = Ok"
    and "s \<in> set (fd_subjects decision)" "ss_outcome s = BlockedByStrongerObligation"
  shows "0 < cs_withheld_units (fd_correction decision) \<and>
    cs_authorized_budget_units (fd_correction decision) < cs_demand_units (fd_correction decision) \<and>
    (64 \<le> length (fd_notes decision) \<or> PolicyOvercommit \<in> dn_code ` set (fd_notes decision))"
proof -
  note b = decision_blocked [OF assms(1,2,4,5)]
  show ?thesis using b decision_withheld [OF assms(1-3)] decision_blocked_summary [OF assms(1) b] by blast
qed


theorem blocked_only_under_overcommit_witness:
  "\<exists>decision. evaluate_fairness held_context = Some (Inr decision) \<and>
     0 < cs_withheld_units (fd_correction decision) \<and>
     cs_authorized_budget_units (fd_correction decision) < cs_demand_units (fd_correction decision)"
proof -
  obtain decision s where d: "evaluate_fairness held_context = Some (Inr decision)" "s \<in> set (fd_subjects decision)"
      "ss_outcome s = BlockedByStrongerObligation"
    using held_evaluation by force
  have "ec_policy held_context = Some held_policy" by (simp add: held_context_def)
  then show ?thesis
    using blocked_only_under_overcommit [OF d(1) _ held_policy_valid d(2,3)] d(1) by blast
qed

end
