(* ===== verification/FG_Record.thy ===== *)
theory FG_Record
  imports FG_Codec
begin

unbundle bit_operations_syntax

text \<open>
  The durable record (\<open>encode_record\<close>, \<open>decode_record\<close> of \<open>persist/store.cpp\<close>): a header of 64 bytes with
  two FNV-1a checksums, then the payload. A record read back is the record written, and the two
  checksums together detect the corruption of any single byte.
\<close>

section \<open>Definitions\<close>

datatype RecordKind = PolicyRecord | AccountingRecord

definition record_kind_value :: "RecordKind \<Rightarrow> u16" where
  "record_kind_value kind = (case kind of PolicyRecord \<Rightarrow> 1 | AccountingRecord \<Rightarrow> 2)"

definition kRecordMagic :: u32 where "kRecordMagic = 0x43524746"
definition kRecordHeaderSize :: nat where "kRecordHeaderSize = 64"
definition kHeaderChecksumOffset :: nat where "kHeaderChecksumOffset = 56"
definition kPayloadChecksumOffset :: nat where "kPayloadChecksumOffset = 48"

text \<open>The stores into the header, in the order of the offsets.\<close>

definition record_header :: "RecordKind \<Rightarrow> u64 \<Rightarrow> Incarnation \<Rightarrow> bytes \<Rightarrow> u64 \<Rightarrow> bytes" where
  "record_header kind generation writer payload header_checksum =
     le_bytes 4 kRecordMagic @ le_bytes 2 kFormatVersion @ le_bytes 2 (record_kind_value kind) @
     le_bytes 4 (0 :: u32) @ le_bytes 4 (0 :: u32) @ le_bytes 8 generation @ le_bytes 8 (inc_boot writer) @
     le_bytes 8 (inc_ordinal writer) @ le_bytes 8 (of_nat (length payload) :: u64) @
     le_bytes 8 (checksum64 payload) @ le_bytes 8 header_checksum"

definition encode_record :: "RecordKind \<Rightarrow> u64 \<Rightarrow> Incarnation \<Rightarrow> bytes \<Rightarrow> bytes" where
  "encode_record kind generation writer payload =
     record_header kind generation writer payload (checksum64 (record_header kind generation writer payload 0)) @
     payload"

text \<open>\<open>load_le<T>(header + offset)\<close>.\<close>

definition load_at :: "nat \<Rightarrow> nat \<Rightarrow> bytes \<Rightarrow> 'a::len word" where
  "load_at width offset bytes = le_or 0 (take width (drop offset bytes)) 0"

text \<open>The header with the field of its own checksum cleared.\<close>

definition cleared_header :: "bytes \<Rightarrow> bytes" where
  "cleared_header bytes = take kHeaderChecksumOffset bytes @ le_bytes 8 (0 :: u64)"

record DecodedRecord =
  dr_generation :: u64
  dr_writer_boot :: Id
  dr_writer_ordinal :: u64
  dr_payload :: bytes

definition decode_record :: "bytes \<Rightarrow> RecordKind \<Rightarrow> DecodedRecord result" where
  "decode_record bytes kind =
     (if length bytes < kRecordHeaderSize then Inl Truncated
      else if kRecordHeaderSize + unat kMaxDurablePayloadBytes < length bytes then Inl OversizedPayload
      else if load_at 4 0 bytes \<noteq> kRecordMagic then Inl CorruptRecord
      else if load_at 2 4 bytes \<noteq> kFormatVersion then Inl UnsupportedFormat
      else if load_at 2 6 bytes \<noteq> record_kind_value kind then Inl CorruptRecord
      else if load_at 4 8 bytes \<noteq> (0 :: u32) \<or> load_at 4 12 bytes \<noteq> (0 :: u32) then Inl CorruptRecord
      else if checksum64 (cleared_header bytes) \<noteq> load_at 8 kHeaderChecksumOffset bytes then Inl ChecksumMismatch
      else
        let payload_length = load_at 8 40 bytes :: u64; payload = drop kRecordHeaderSize bytes
        in if kMaxDurablePayloadBytes < payload_length then Inl OversizedPayload
           else if length bytes \<noteq> kRecordHeaderSize + unat payload_length then Inl Truncated
           else if checksum64 payload \<noteq> load_at 8 kPayloadChecksumOffset bytes then Inl ChecksumMismatch
           else Inr \<lparr>dr_generation = load_at 8 16 bytes, dr_writer_boot = load_at 8 24 bytes,
                  dr_writer_ordinal = load_at 8 32 bytes, dr_payload = payload\<rparr>)"

section \<open>Round trip\<close>

lemma record_header_length [simp]: "length (record_header kind generation writer payload hsum) = 64"
  by (simp add: record_header_def)

lemma load_le_bytes:
  "LENGTH('a) = 8 * n \<Longrightarrow> load_at n 0 (le_bytes n (v :: 'a::len word) @ rest) = v"
  by (simp add: load_at_def le_round_trip)

lemma load_at_skip: "n = length xs \<Longrightarrow> n \<le> offset \<Longrightarrow> load_at w offset (xs @ ys) = load_at w (offset - n) ys"
  by (simp add: load_at_def)

lemma header_fields:
  "load_at 4 0 (record_header kind generation writer payload hsum @ rest) = kRecordMagic"
  "load_at 2 4 (record_header kind generation writer payload hsum @ rest) = kFormatVersion"
  "load_at 2 6 (record_header kind generation writer payload hsum @ rest) = record_kind_value kind"
  "load_at 4 8 (record_header kind generation writer payload hsum @ rest) = (0 :: u32)"
  "load_at 4 12 (record_header kind generation writer payload hsum @ rest) = (0 :: u32)"
  "load_at 8 16 (record_header kind generation writer payload hsum @ rest) = generation"
  "load_at 8 24 (record_header kind generation writer payload hsum @ rest) = inc_boot writer"
  "load_at 8 32 (record_header kind generation writer payload hsum @ rest) = inc_ordinal writer"
  "load_at 8 40 (record_header kind generation writer payload hsum @ rest) = (of_nat (length payload) :: u64)"
  "load_at 8 48 (record_header kind generation writer payload hsum @ rest) = checksum64 payload"
  "load_at 8 56 (record_header kind generation writer payload hsum @ rest) = hsum"
  by (simp_all add: record_header_def load_at_skip load_le_bytes)

lemma cleared_encoded:
  "cleared_header (record_header kind generation writer payload hsum @ rest) = record_header kind generation writer payload 0"
  by (simp add: cleared_header_def record_header_def kHeaderChecksumOffset_def)

lemma decode_encode_record:
  assumes "length payload \<le> 2 ^ 22"
  shows "decode_record (encode_record kind generation writer payload) kind =
    Inr \<lparr>dr_generation = generation, dr_writer_boot = inc_boot writer, dr_writer_ordinal = inc_ordinal writer,
      dr_payload = payload\<rparr>"
proof -
  have n: "unat (of_nat (length payload) :: u64) = length payload"
    using assms by (intro unat_of_nat_exact) simp
  then have "\<not> kMaxDurablePayloadBytes < of_nat (length payload)" using assms by (simp add: word_less_nat_alt)
  then show ?thesis
    using assms n by (simp add: decode_record_def encode_record_def header_fields cleared_encoded kRecordHeaderSize_def
        kHeaderChecksumOffset_def kPayloadChecksumOffset_def Let_def)
qed

section \<open>Corruption of one byte\<close>

text \<open>The step of FNV-1a multiplies by an odd constant, so it is injective.\<close>

lemma fnv_prime_injective: "(a :: u64) * 1099511628211 = b * 1099511628211 \<longleftrightarrow> a = b"
proof
  assume "a * 1099511628211 = b * 1099511628211"
  then have "a * (1099511628211 * 14886173955864302971) = b * (1099511628211 * 14886173955864302971)"
    unfolding mult.assoc [symmetric] by simp
  moreover have "(1099511628211 * 14886173955864302971 :: u64) = 1" by code_simp
  ultimately show "a = b" by (simp only: mult_1_right)
qed simp

lemma xor_injective: "(a :: 'a::len word) XOR c = b XOR c \<longleftrightarrow> a = b"
proof
  assume "a XOR c = b XOR c"
  then have "(a XOR c) XOR c = (b XOR c) XOR c" by simp
  then show "a = b" by (simp add: xor.assoc)
qed simp

lemma fnv_seed_injective: "fnv1a64 data a = fnv1a64 data b \<longleftrightarrow> a = b"
proof (induction data arbitrary: a b)
  case (Cons x data)
  have "fnv1a64 (x # data) s = fnv1a64 data ((s XOR ucast x) * 1099511628211)" for s
    by (simp add: fnv1a64_def)
  then show ?case using Cons.IH by (simp add: fnv_prime_injective xor_injective)
qed (simp add: fnv1a64_def)


lemma ucast_up_ucast_id_u8: "(ucast (ucast (x :: u8) :: u64) :: u8) = x"
  by (rule bit_word_eqI) (auto simp: bit_ucast_iff dest: bit_imp_le_length)

lemma fnv_append: "fnv1a64 (xs @ ys) seed = fnv1a64 ys (fnv1a64 xs seed)"
  by (simp add: fnv1a64_def)

lemma fnv_one_byte:
  assumes "i < length data" "b \<noteq> data ! i"
  shows "fnv1a64 (data[i := b]) seed \<noteq> fnv1a64 data seed"
proof -
  have step: "fnv1a64 (take i data @ x # drop (Suc i) data) seed
      = fnv1a64 (drop (Suc i) data) ((fnv1a64 (take i data) seed XOR ucast x) * 1099511628211)" for x
    unfolding fnv_append by (simp add: fnv1a64_def)
  have split: "data[i := b] = take i data @ b # drop (Suc i) data" "data = take i data @ data ! i # drop (Suc i) data"
    using assms(1) by (simp_all add: upd_conv_take_nth_drop id_take_nth_drop)
  have "fnv1a64 (data[i := b]) seed = fnv1a64 data seed \<longleftrightarrow> (ucast b :: u64) = ucast (data ! i)"
    unfolding split(1) by (subst (2) split(2))
      (simp only: step fnv_seed_injective fnv_prime_injective xor.commute [of "fnv1a64 (take i data) seed"] xor_injective)
  also have "\<dots> \<longleftrightarrow> b = data ! i" by (metis ucast_up_ucast_id_u8)
  finally show ?thesis using assms(2) by simp
qed


lemma le_or_injective:
  fixes xs ys :: bytes
  assumes "le_or 0 xs 0 = (le_or 0 ys 0 :: 'a::len word)" "length xs = n" "length ys = n" "LENGTH('a) = 8 * n"
  shows "xs = ys"
proof (rule nth_equalityI)
  fix k assume k: "k < length xs"
  show "xs ! k = ys ! k"
  proof (rule bit_word_eqI)
    fix m assume m: "m < LENGTH(8)"
    have "bit (le_or 0 zs 0 :: 'a word) (8 * k + m) \<longleftrightarrow> bit (zs ! k) m" if "length zs = n" for zs :: bytes
      using k m assms(2,4) that by (simp add: bit_le_or)
    then show "bit (xs ! k) m \<longleftrightarrow> bit (ys ! k) m" using assms(1-3) by metis
  qed
qed (simp add: assms)

lemma decode_record_checks:
  assumes "decode_record bytes kind = Inr r"
  shows "checksum64 (cleared_header bytes) = load_at 8 56 bytes" "checksum64 (drop 64 bytes) = load_at 8 48 bytes"
  using assms by (auto simp: decode_record_def Let_def kHeaderChecksumOffset_def kPayloadChecksumOffset_def
      kRecordHeaderSize_def split: if_splits)

lemma one_byte_detected:
  assumes i: "i < length (encode_record kind generation writer payload)"
    and b: "b \<noteq> encode_record kind generation writer payload ! i"
  shows "decode_record ((encode_record kind generation writer payload)[i := b]) kind' \<noteq> Inr r"
proof
  let ?H = "\<lambda>hsum. record_header kind generation writer payload hsum"
  define hs where "hs = checksum64 (?H 0)"
  let ?R = "?H hs @ payload"
  have enc: "encode_record kind generation writer payload = ?R" by (simp add: encode_record_def hs_def)
  assume "decode_record ((encode_record kind generation writer payload)[i := b]) kind' = Inr r"
  note c = decode_record_checks [OF this, unfolded enc]
  have load: "load_at 8 56 ?R = hs" "load_at 8 48 ?R = checksum64 payload" by (simp_all add: header_fields)
  have cl: "cleared_header ?R = ?H 0" by (rule cleared_encoded)
  consider "i < 56" | "56 \<le> i" "i < 64" | "64 \<le> i" by linarith
  then show False
  proof cases
    case 1
    have "load_at 8 56 (?R[i := b]) = (load_at 8 56 ?R :: u64)" using 1 by (simp add: load_at_def drop_update_cancel)
    moreover have "cleared_header (?R[i := b]) = (cleared_header ?R)[i := b]"
      using 1 by (simp add: cleared_header_def kHeaderChecksumOffset_def take_update_swap list_update_append)
    moreover have "?R ! i = ?H 0 ! i"
    proof -
      have "take 56 ?R = take 56 (cleared_header ?R)" by (simp add: cleared_header_def kHeaderChecksumOffset_def)
      then have "take 56 ?R = take 56 (?H 0)" unfolding cl .
      then show ?thesis using 1 by (metis nth_take)
    qed
    ultimately show False
      using c(1) load(1) cl fnv_one_byte [of i "?H 0" b kFnvOffsetBasis] 1 b
      by (simp add: enc hs_def checksum64_def)
  next
    case 2
    have "cleared_header (?R[i := b]) = cleared_header ?R"
      using 2 by (simp add: cleared_header_def kHeaderChecksumOffset_def)
    then have "load_at 8 56 (?R[i := b]) = (load_at 8 56 ?R :: u64)"
      using c(1) cl load(1) by (simp add: hs_def)
    then have "take 8 (drop 56 (?R[i := b])) = take 8 (drop 56 ?R)"
      unfolding load_at_def by (rule le_or_injective [where n = 8]) simp_all
    then have "take 8 (drop 56 (?R[i := b])) ! (i - 56) = take 8 (drop 56 ?R) ! (i - 56)" by simp
    then show False using 2 b by (simp add: enc nth_append)
  next
    case 3
    have "load_at 8 48 (?R[i := b]) = (load_at 8 48 ?R :: u64)"
      using 3 by (simp add: load_at_def list_update_append)
    moreover have "drop 64 (?R[i := b]) = payload[i - 64 := b]"
      using 3 by (simp add: list_update_append)
    moreover have "i - 64 < length payload" using 3 i by (simp add: enc)
    ultimately show False
      using c(2) load(2) fnv_one_byte [of "i - 64" payload b kFnvOffsetBasis] 3 i b
      by (simp add: enc checksum64_def nth_append)
  qed
qed

section \<open>Properties\<close>

text \<open>A durable record read back is the record that was written: generation, writer and payload.\<close>

theorem record_round_trip:
  assumes "length payload \<le> 2 ^ 22"
  shows "decode_record (encode_record kind generation writer payload) kind =
    Inr \<lparr>dr_generation = generation, dr_writer_boot = inc_boot writer, dr_writer_ordinal = inc_ordinal writer,
      dr_payload = payload\<rparr>"
  by (rule decode_encode_record [OF assms])

theorem record_round_trip_witness:
  "decode_record (encode_record PolicyRecord 3 \<lparr>inc_boot = 7, inc_ordinal = 1\<rparr> [1, 2, 3]) PolicyRecord =
    Inr \<lparr>dr_generation = 3, dr_writer_boot = 7, dr_writer_ordinal = 1, dr_payload = [1, 2, 3]\<rparr>"
  using record_round_trip [of "[1, 2, 3]" PolicyRecord 3 "\<lparr>inc_boot = 7, inc_ordinal = 1\<rparr>"] by simp

text \<open>C20: Corruption is never accepted silently: a record in which any single byte, of the header, of the
  checksums or of the payload, was replaced by another one is rejected, whatever kind is expected.\<close>

theorem corrupt_byte_rejected:
  assumes "i < length (encode_record kind generation writer payload)"
    and "b \<noteq> encode_record kind generation writer payload ! i"
  shows "\<exists>code. decode_record ((encode_record kind generation writer payload)[i := b]) expected = Inl code"
  using one_byte_detected [OF assms] by (cases "decode_record ((encode_record kind generation writer payload)[i := b]) expected") auto

theorem corrupt_byte_rejected_witness:
  "\<exists>code. decode_record ((encode_record PolicyRecord 3 \<lparr>inc_boot = 7, inc_ordinal = 1\<rparr> [1, 2, 3])[65 := 9]) PolicyRecord = Inl code"
  by (rule corrupt_byte_rejected) (simp_all add: encode_record_def nth_append)


end
