(* ===== verification/FG_Store.thy ===== *)
theory FG_Store
  imports FG_Record
begin

unbundle bit_operations_syntax

text \<open>
  The crash-safe store of one record (\<open>persist/store.cpp\<close> over \<open>persist/fsutil.cpp\<close>): the committed
  file, its temporary file, its journal and its backup. Each file system call succeeds or fails; the
  argument \<open>io\<close> says which calls fail and what a failed write leaves behind, so that every error branch of
  the code is a branch of the model. A commit is a program, a tree of calls that goes on with the status of
  each; it is run to its end by \<open>run_program\<close>, and a crash stops the same program between or inside two calls.
\<close>

section \<open>Files\<close>

text \<open>The paths of one record kind: \<open>.rec\<close>, \<open>.tmp\<close>, \<open>.jnl\<close> and \<open>.prev\<close>.\<close>

datatype Slot = Base | Temp | Journal | Backup

type_synonym files = "Slot \<Rightarrow> bytes option"

text \<open>The calls that may fail: \<open>Some\<close> is a failure and holds the content that a failed write leaves; a read fails
  to open, or comes up short. The reads of one operation are numbered.\<close>

datatype disk_op = Read Slot nat | Write Slot bytes | Replace Slot Slot | Remove Slot

type_synonym io = "disk_op \<Rightarrow> bytes option option"

definition no_failures :: io where "no_failures op = None"

definition fs_exists :: "Slot \<Rightarrow> files \<Rightarrow> bool" where
  "fs_exists slot fs \<longleftrightarrow> fs slot \<noteq> None"

definition read_file :: "io \<Rightarrow> nat \<Rightarrow> Slot \<Rightarrow> nat \<Rightarrow> files \<Rightarrow> bytes result" where
  "read_file io k slot max_bytes fs =
     (case fs slot of
        None \<Rightarrow> Inl IoError
      | Some data \<Rightarrow>
          (if io (Read slot k) = Some None then Inl IoError
           else if max_bytes < length data then Inl OversizedPayload
           else if io (Read slot k) \<noteq> None \<and> data \<noteq> [] then Inl Truncated
           else Inr data))"

definition write_file :: "io \<Rightarrow> Slot \<Rightarrow> bytes \<Rightarrow> files \<Rightarrow> StatusCode \<times> files" where
  "write_file io slot data fs =
     (case io (Write slot data) of
        None \<Rightarrow> (Ok, fs(slot := Some data))
      | Some junk \<Rightarrow> (IoError, fs(slot := junk)))"

definition copy_file :: "io \<Rightarrow> Slot \<Rightarrow> Slot \<Rightarrow> nat \<Rightarrow> files \<Rightarrow> StatusCode \<times> files" where
  "copy_file io from to max_bytes fs =
     (case read_file io 1 from max_bytes fs of
        Inl code \<Rightarrow> (code, fs)
      | Inr data \<Rightarrow> write_file io to data fs)"

text \<open>A rename is atomic; it fails without effect.\<close>

definition replace_file :: "io \<Rightarrow> Slot \<Rightarrow> Slot \<Rightarrow> files \<Rightarrow> StatusCode \<times> files" where
  "replace_file io from to fs =
     (case (io (Replace from to), fs from) of
        (None, Some data) \<Rightarrow> (Ok, fs(to := Some data, from := None))
      | _ \<Rightarrow> (IoError, fs))"

definition remove_file :: "io \<Rightarrow> Slot \<Rightarrow> files \<Rightarrow> files" where
  "remove_file io slot fs = (if io (Remove slot) = None then fs(slot := None) else fs)"

section \<open>Loading\<close>

record LoadedRecord =
  lr_present :: bool
  lr_kind :: RecordKind
  lr_generation :: u64
  lr_writer_boot :: Id
  lr_writer_ordinal :: u64
  lr_payload :: bytes
  lr_code :: StatusCode

definition loaded_failure :: "RecordKind \<Rightarrow> bool \<Rightarrow> StatusCode \<Rightarrow> LoadedRecord" where
  "loaded_failure kind present code = \<lparr>lr_present = present, lr_kind = kind, lr_generation = 0,
     lr_writer_boot = 0, lr_writer_ordinal = 0, lr_payload = [], lr_code = code\<rparr>"

definition loaded_record :: "RecordKind \<Rightarrow> DecodedRecord \<Rightarrow> LoadedRecord" where
  "loaded_record kind r = \<lparr>lr_present = True, lr_kind = kind, lr_generation = dr_generation r,
     lr_writer_boot = dr_writer_boot r, lr_writer_ordinal = dr_writer_ordinal r,
     lr_payload = dr_payload r, lr_code = Ok\<rparr>"

definition loaded_ok :: "LoadedRecord \<Rightarrow> bool" where
  "loaded_ok r \<longleftrightarrow> lr_code r = Ok"

definition kMaxRecordBytes :: nat where
  "kMaxRecordBytes = kRecordHeaderSize + unat kMaxDurablePayloadBytes"

definition store_load :: "io \<Rightarrow> nat \<Rightarrow> RecordKind \<Rightarrow> files \<Rightarrow> LoadedRecord" where
  "store_load io k kind fs =
     (if \<not> fs_exists Base fs then loaded_failure kind False NotFound
      else case read_file io k Base kMaxRecordBytes fs of
             Inl code \<Rightarrow> loaded_failure kind True code
           | Inr data \<Rightarrow>
               (case decode_record data kind of
                  Inl code \<Rightarrow> loaded_failure kind True code
                | Inr r \<Rightarrow> loaded_record kind r))"

text \<open>The record that is stored, as a read without failures finds it.\<close>

abbreviation stored :: "RecordKind \<Rightarrow> files \<Rightarrow> LoadedRecord" where
  "stored \<equiv> store_load no_failures 0"

section \<open>Recovery\<close>

record RecoveryNotes =
  rn_journal_cleared :: bool
  rn_backup_recovered :: bool
  rn_unfinished_attempt_discarded :: bool
  rn_corruption_detected :: bool
  rn_temp_discarded :: bool

definition no_notes :: RecoveryNotes where
  "no_notes = \<lparr>rn_journal_cleared = False, rn_backup_recovered = False,
     rn_unfinished_attempt_discarded = False, rn_corruption_detected = False, rn_temp_discarded = False\<rparr>"

definition recover_backup :: "io \<Rightarrow> RecordKind \<Rightarrow> files \<Rightarrow> RecoveryNotes \<Rightarrow> StatusCode \<times> files \<times> RecoveryNotes" where
  "recover_backup io kind fs notes =
     (let (restored, fs) = replace_file io Backup Base fs;
          fs = remove_file io Temp (remove_file io Journal fs)
      in if restored \<noteq> Ok then (restored, fs, notes\<lparr>rn_corruption_detected := True\<rparr>)
         else
           let notes = notes\<lparr>rn_backup_recovered := True\<rparr>; restored_record = store_load io 1 kind fs
           in if \<not> loaded_ok restored_record
              then (lr_code restored_record, fs, notes\<lparr>rn_corruption_detected := True\<rparr>)
              else (Ok, fs, notes))"

definition store_recover :: "io \<Rightarrow> RecordKind \<Rightarrow> files \<Rightarrow> RecoveryNotes \<Rightarrow> StatusCode \<times> files \<times> RecoveryNotes" where
  "store_recover io kind fs notes =
     (let backup_present = fs_exists Backup fs; temp_present = fs_exists Temp fs
      in if fs_exists Journal fs
         then
           let notes = notes\<lparr>rn_journal_cleared := True\<rparr>; main_record = store_load io 0 kind fs
           in if lr_present main_record \<and> loaded_ok main_record
              then (Ok, remove_file io Temp (remove_file io Backup (remove_file io Journal fs)), notes)
              else if backup_present then recover_backup io kind fs notes
              else (Ok, remove_file io Temp (remove_file io Journal fs),
                    notes\<lparr>rn_unfinished_attempt_discarded := True,
                      rn_corruption_detected := lr_present main_record\<rparr>)
         else
           let (fs, notes) = (if temp_present
                 then (remove_file io Temp fs,
                       notes\<lparr>rn_temp_discarded := True, rn_unfinished_attempt_discarded := True\<rparr>)
                 else (fs, notes))
           in (Ok, if backup_present then remove_file io Backup fs else fs, notes))"

section \<open>Commit\<close>

record StoreFaultInjection =
  fi_fail_before_temp_write :: bool
  fi_fail_after_temp_write :: bool
  fi_fail_after_journal_write :: bool
  fi_torn_replace :: bool
  fi_fail_after_replace :: bool
  fi_corrupt_payload :: bool
  fi_truncate_temp :: bool
  fi_oversize_payload :: bool

definition no_faults :: StoreFaultInjection where
  "no_faults = \<lparr>fi_fail_before_temp_write = False, fi_fail_after_temp_write = False,
     fi_fail_after_journal_write = False, fi_torn_replace = False, fi_fail_after_replace = False,
     fi_corrupt_payload = False, fi_truncate_temp = False, fi_oversize_payload = False\<rparr>"

definition check_commit ::
    "io \<Rightarrow> StoreFaultInjection \<Rightarrow> RecordKind \<Rightarrow> u64 \<Rightarrow> u64 \<Rightarrow> bytes \<Rightarrow> Incarnation \<Rightarrow> files \<Rightarrow> StatusCode" where
  "check_commit io faults kind expected_generation next_generation payload writer fs =
     (if fi_oversize_payload faults then OversizedPayload
      else if unat kMaxDurablePayloadBytes < length payload then OversizedPayload
      else if \<not> id_valid (inc_boot writer) \<or> inc_ordinal writer = 0 then InvalidArgument
      else if next_generation \<le> expected_generation then CommitRejected
      else if fs_exists Base fs
      then (let current = store_load io 0 kind fs
            in if \<not> loaded_ok current then CommitRejected
               else if lr_generation current \<noteq> expected_generation then CommitRejected
               else Ok)
      else if expected_generation \<noteq> 0 then CommitRejected
      else Ok)"

text \<open>What is written to the temporary file, after the media faults.\<close>

definition written_record :: "StoreFaultInjection \<Rightarrow> bytes \<Rightarrow> bytes" where
  "written_record faults encoded =
     (let encoded = (if fi_truncate_temp faults \<and> kRecordHeaderSize < length encoded
                     then take (kRecordHeaderSize + 1) encoded else encoded)
      in if fi_corrupt_payload faults \<and> kRecordHeaderSize < length encoded
         then encoded[kRecordHeaderSize := encoded ! kRecordHeaderSize XOR 0xFF] else encoded)"

definition journal_bytes :: "u64 \<Rightarrow> bytes \<Rightarrow> Incarnation \<Rightarrow> bytes" where
  "journal_bytes next_generation payload writer =
     put_u64 next_generation @ put_u64 (checksum64 payload) @ put_u64 (inc_boot writer) @
     put_u64 (inc_ordinal writer)"

text \<open>The calls on the slots of one record, and programs of them: a program ends with a status or makes a call
  and goes on with the status of it.\<close>

datatype slot_call = Write_slot Slot bytes | Copy_slot Slot Slot nat | Replace_slot Slot Slot | Remove_slot Slot

definition store_call :: "io \<Rightarrow> slot_call \<Rightarrow> files \<Rightarrow> StatusCode \<times> files" where
  "store_call io call fs = (case call of
      Write_slot slot data \<Rightarrow> write_file io slot data fs
    | Copy_slot from to max_bytes \<Rightarrow> copy_file io from to max_bytes fs
    | Replace_slot from to \<Rightarrow> replace_file io from to fs
    | Remove_slot slot \<Rightarrow> (if io (Remove slot) = None then Ok else IoError, remove_file io slot fs))"

datatype disk_program = Finish StatusCode | Call slot_call "StatusCode \<Rightarrow> disk_program"

primrec run_program :: "io \<Rightarrow> disk_program \<Rightarrow> files \<Rightarrow> StatusCode \<times> files" where
  "run_program io (Finish code) = (\<lambda>fs. (code, fs))"
| "run_program io (Call call go_on) = (\<lambda>fs. case store_call io call fs of (code, fs) \<Rightarrow> run_program io (go_on code) fs)"

definition torn_commit :: "bytes \<Rightarrow> disk_program" where
  "torn_commit encoded =
     (let torn = (if kRecordHeaderSize + 1 < length encoded then take (kRecordHeaderSize + 1) encoded else encoded)
      in Call (Write_slot Base torn) (\<lambda>partial.
           if partial \<noteq> Ok then Finish partial else Call (Remove_slot Temp) (\<lambda>_. Finish IoError)))"

definition replace_commit :: "StoreFaultInjection \<Rightarrow> disk_program" where
  "replace_commit faults =
     Call (Replace_slot Temp Base) (\<lambda>replaced.
       if replaced \<noteq> Ok
       then Call (Remove_slot Journal) (\<lambda>_. Call (Remove_slot Temp) (\<lambda>_. Finish replaced))
       else if fi_fail_after_replace faults then Finish IoError
       else Call (Remove_slot Journal) (\<lambda>_. Call (Remove_slot Backup) (\<lambda>_. Finish Ok)))"

definition after_snapshot :: "StoreFaultInjection \<Rightarrow> bytes \<Rightarrow> StatusCode \<Rightarrow> disk_program" where
  "after_snapshot faults encoded snapshotted =
     (if snapshotted \<noteq> Ok
      then Call (Remove_slot Journal) (\<lambda>_. Call (Remove_slot Temp) (\<lambda>_. Finish snapshotted))
      else if fi_torn_replace faults then torn_commit encoded
      else replace_commit faults)"

definition snapshot_commit :: "StoreFaultInjection \<Rightarrow> bool \<Rightarrow> bytes \<Rightarrow> disk_program" where
  "snapshot_commit faults main_present encoded =
     (if main_present then Call (Copy_slot Base Backup kMaxRecordBytes) (after_snapshot faults encoded)
      else after_snapshot faults encoded Ok)"

text \<open>The calls of a whole commit that passed the checks.\<close>

definition write_commit :: "StoreFaultInjection \<Rightarrow> bool \<Rightarrow> bytes \<Rightarrow> bytes \<Rightarrow> disk_program" where
  "write_commit faults main_present encoded journal =
     Call (Write_slot Temp encoded) (\<lambda>written.
       if written \<noteq> Ok then Call (Remove_slot Temp) (\<lambda>_. Finish written)
       else if fi_fail_after_temp_write faults then Finish IoError
       else Call (Write_slot Journal journal) (\<lambda>journalled.
         if journalled \<noteq> Ok then Call (Remove_slot Temp) (\<lambda>_. Finish journalled)
         else if fi_fail_after_journal_write faults then Finish IoError
         else snapshot_commit faults main_present encoded))"

definition commit_program ::
    "io \<Rightarrow> StoreFaultInjection \<Rightarrow> RecordKind \<Rightarrow> u64 \<Rightarrow> u64 \<Rightarrow> bytes \<Rightarrow> Incarnation \<Rightarrow> files \<Rightarrow> disk_program" where
  "commit_program io faults kind expected_generation next_generation payload writer fs =
     (let checked = check_commit io faults kind expected_generation next_generation payload writer fs
      in if checked \<noteq> Ok then Finish checked
         else if fi_fail_before_temp_write faults then Finish IoError
         else write_commit faults (fs_exists Base fs)
                (written_record faults (encode_record kind next_generation writer payload))
                (journal_bytes next_generation payload writer))"

definition store_commit ::
    "io \<Rightarrow> StoreFaultInjection \<Rightarrow> RecordKind \<Rightarrow> u64 \<Rightarrow> u64 \<Rightarrow> bytes \<Rightarrow> Incarnation \<Rightarrow> files
     \<Rightarrow> StatusCode \<times> files" where
  "store_commit io faults kind expected_generation next_generation payload writer fs =
     run_program io (commit_program io faults kind expected_generation next_generation payload writer fs) fs"

end
