(* ===== verification/FG_Durability.thy ===== *)
theory FG_Durability
  imports FG_Store
begin

text \<open>
  What the store promises: a commit that returns success has made the new record durable, a commit that
  returns an error has left the committed record alone, and after a crash anywhere inside a commit the
  recovery finds the old record or the new one and nothing else.
\<close>

section \<open>Loading and committing\<close>

lemma store_load_cong: "fs Base = gs Base \<Longrightarrow> store_load io k kind fs = store_load io k kind gs"
  by (simp add: store_load_def fs_exists_def read_file_def)

text \<open>Reads that do not fail find the stored record.\<close>

lemma load_stored: "io (Read Base k) = None \<Longrightarrow> store_load io k kind fs = stored kind fs"
  by (cases "fs Base") (simp_all add: store_load_def read_file_def no_failures_def)

lemma stored_present: "fs Base \<noteq> None \<Longrightarrow> lr_present (stored kind fs)"
  by (auto simp: store_load_def fs_exists_def loaded_failure_def loaded_record_def split: sum.splits)

lemma stored_absent: "fs Base = None \<Longrightarrow> stored kind fs = loaded_failure kind False NotFound"
  by (simp add: store_load_def fs_exists_def)

lemma loaded_absent: "\<not> loaded_ok (loaded_failure kind False NotFound)" "\<not> lr_present (loaded_failure kind False NotFound)"
  by (simp_all add: loaded_ok_def loaded_failure_def)

text \<open>The record a successful commit leaves.\<close>

definition committed_record :: "RecordKind \<Rightarrow> u64 \<Rightarrow> Incarnation \<Rightarrow> bytes \<Rightarrow> LoadedRecord" where
  "committed_record kind generation writer payload = \<lparr>lr_present = True, lr_kind = kind, lr_generation = generation,
     lr_writer_boot = inc_boot writer, lr_writer_ordinal = inc_ordinal writer, lr_payload = payload, lr_code = Ok\<rparr>"

lemma committed_record_simps [simp]:
  "lr_present (committed_record kind generation writer payload)" "loaded_ok (committed_record kind generation writer payload)"
  "lr_generation (committed_record kind generation writer payload) = generation"
  "lr_payload (committed_record kind generation writer payload) = payload"
  by (simp_all add: committed_record_def loaded_ok_def)

lemma load_committed:
  assumes "fs Base = Some (encode_record kind generation writer payload)" "length payload \<le> 2 ^ 22"
  shows "stored kind fs = committed_record kind generation writer payload"
proof -
  have "length (encode_record kind generation writer payload) \<le> kMaxRecordBytes"
    using assms(2) by (simp add: encode_record_def kMaxRecordBytes_def kRecordHeaderSize_def)
  then show ?thesis
    by (simp add: store_load_def fs_exists_def read_file_def no_failures_def assms(1) decode_encode_record [OF assms(2)]
        loaded_record_def committed_record_def)
qed

lemma file_ops_frame:
  "write_file io slot data fs = (code, fs') \<Longrightarrow> slot \<noteq> Base \<Longrightarrow> fs' Base = fs Base"
  "copy_file io from slot n fs = (code, fs') \<Longrightarrow> slot \<noteq> Base \<Longrightarrow> fs' Base = fs Base"
  "slot \<noteq> Base \<Longrightarrow> remove_file io slot fs Base = fs Base"
  by (auto simp: write_file_def copy_file_def remove_file_def split: option.splits sum.splits)

lemma no_faults_simps [simp]:
  "\<not> fi_fail_before_temp_write no_faults" "\<not> fi_fail_after_temp_write no_faults" "\<not> fi_fail_after_journal_write no_faults"
  "\<not> fi_torn_replace no_faults" "\<not> fi_fail_after_replace no_faults" "\<not> fi_oversize_payload no_faults"
  "written_record no_faults encoded = encoded"
  by (simp_all add: no_faults_def written_record_def Let_def)

lemma check_commit_payload:
  "check_commit io faults kind expected next_generation payload writer fs = Ok \<Longrightarrow> length payload \<le> 2 ^ 22"
  by (auto simp: check_commit_def split: if_splits)

text \<open>A commit that passed the checks found a record without failures in it, or none.\<close>

lemma check_commit_stored:
  assumes "check_commit io faults kind expected next_generation payload writer fs = Ok" "fs Base \<noteq> None"
  shows "loaded_ok (stored kind fs)"
proof -
  obtain data where d: "fs Base = Some data" using assms(2) by auto
  have ok: "loaded_ok (store_load io 0 kind fs)"
    using assms d by (auto simp: check_commit_def fs_exists_def Let_def split: if_splits)
  show ?thesis
  proof (cases "io (Read Base 0) = None")
    case True
    then show ?thesis using ok by (simp add: load_stored)
  next
    case False
    then have "data = []" using ok d
      by (auto simp: store_load_def fs_exists_def read_file_def loaded_failure_def loaded_ok_def split: if_splits)
    then show ?thesis using ok d False
      by (auto simp: store_load_def fs_exists_def read_file_def loaded_failure_def loaded_ok_def no_failures_def
          split: if_splits)
  qed
qed

section \<open>Crashes\<close>

text \<open>A crash stops a program between two calls or inside one: a write leaves anything in its file, and a rename
  that is not atomic leaves something that is no record in its target. The calls before it may fail or not.\<close>

definition torn :: "RecordKind \<Rightarrow> slot_call \<Rightarrow> files \<Rightarrow> files \<Rightarrow> bool" where
  "torn kind call fs fs' = (case call of
      Write_slot slot data \<Rightarrow> (\<exists>junk. fs' = fs(slot := junk))
    | Copy_slot source slot n \<Rightarrow> (\<exists>junk. fs' = fs(slot := junk))
    | Replace_slot source slot \<Rightarrow> (\<exists>junk rest. fs' = fs(slot := junk, source := rest)) \<and> \<not> loaded_ok (stored kind fs')
    | Remove_slot slot \<Rightarrow> False)"

inductive crashes :: "RecordKind \<Rightarrow> disk_program \<Rightarrow> files \<Rightarrow> files \<Rightarrow> bool" for kind where
  between: "crashes kind program fs fs"
| inside: "torn kind call fs fs' \<Longrightarrow> crashes kind (Call call go_on) fs fs'"
| later: "store_call io call fs = (code, fs1) \<Longrightarrow> crashes kind (go_on code) fs1 fs2 \<Longrightarrow>
    crashes kind (Call call go_on) fs fs2"

inductive_cases crashes_FinishE: "crashes kind (Finish code) fs fs'"
inductive_simps crashes_Call: "crashes kind (Call call go_on) fs fs'"

lemma crashes_CallE:
  assumes "crashes kind (Call call go_on) fs fs'"
  obtains (between) "fs' = fs" | (inside) "torn kind call fs fs'"
    | (later) io code fs1 where "store_call io call fs = (code, fs1)" "crashes kind (go_on code) fs1 fs'"
  using assms crashes_Call by blast

lemma run_crashes: "run_program io program fs = (code, fs') \<Longrightarrow> crashes kind program fs fs'"
proof (induction program arbitrary: fs)
  case (Finish code)
  then show ?case by (simp add: between)
next
  case (Call call go_on)
  obtain c fs1 where "store_call io call fs = (c, fs1)" by force
  then show ?case using Call.IH [of "go_on c" fs1] Call.prems by (auto intro: later)
qed

text \<open>What a program leaves in the committed file where it only cleans up.\<close>

lemma crashes_cleanup:
  assumes "crashes kind (Call (Remove_slot a) (\<lambda>_. Call (Remove_slot b) (\<lambda>_. Finish code))) fs fs'" "slot \<noteq> a" "slot \<noteq> b"
  shows "fs' slot = fs slot"
  using assms
  by (auto elim!: crashes_CallE crashes_FinishE simp: store_call_def remove_file_def torn_def)

text \<open>Where a crash leaves a record that can be recovered: the committed file holds the old content or the new one,
  or it is broken, a journal says so, and the backup holds the old content.\<close>

definition recoverable :: "RecordKind \<Rightarrow> bytes option \<Rightarrow> bytes \<Rightarrow> files \<Rightarrow> bool" where
  "recoverable kind old new fs \<longleftrightarrow>
     fs Base = old \<and> (old = None \<longrightarrow> fs Backup = None) \<or> fs Base = Some new \<or>
     (fs Journal \<noteq> None \<and> \<not> loaded_ok (stored kind fs) \<and> fs Backup = old)"

lemma replace_commit_crash:
  assumes "crashes kind (replace_commit no_faults) fs fs'"
    and fs: "fs Base = old" "fs Temp = Some new" "fs Journal \<noteq> None" "fs Backup = old"
  shows "recoverable kind old new fs'"
  using assms(1) unfolding replace_commit_def
proof (cases rule: crashes_CallE)
  case between
  then show ?thesis using fs by (simp add: recoverable_def)
next
  case inside
  then show ?thesis using fs by (auto simp: recoverable_def torn_def)
next
  case (later io code fs1)
  show ?thesis
  proof (cases "io (Replace Temp Base) = None")
    case True
    then have f: "code = Ok" "fs1 = fs(Base := Some new, Temp := None)"
      using later(1) fs(2) by (simp_all add: store_call_def replace_file_def)
    then have "crashes kind (Call (Remove_slot Journal) (\<lambda>_. Call (Remove_slot Backup) (\<lambda>_. Finish Ok))) fs1 fs'"
      using later(2) by simp
    then have "fs' Base = fs1 Base" by (rule crashes_cleanup) simp_all
    then show ?thesis by (simp add: recoverable_def f)
  next
    case False
    then have f: "code = IoError" "fs1 = fs"
      using later(1) by (auto simp: store_call_def replace_file_def split: option.splits)
    then have c: "crashes kind (Call (Remove_slot Journal) (\<lambda>_. Call (Remove_slot Temp) (\<lambda>_. Finish IoError))) fs1 fs'"
      using later(2) by simp
    have "fs' Base = fs1 Base" "fs' Backup = fs1 Backup" by (rule crashes_cleanup [OF c]; simp)+
    then show ?thesis by (simp add: recoverable_def f fs)
  qed
qed

lemma after_snapshot_crash:
  assumes "crashes kind (after_snapshot no_faults encoded code) fs fs'"
    and "fs Base = old" "fs Temp = Some new" "fs Journal \<noteq> None" "code = Ok \<or> old = None \<Longrightarrow> fs Backup = old"
  shows "recoverable kind old new fs'"
proof (cases "code = Ok")
  case True
  then show ?thesis using replace_commit_crash assms by (simp add: after_snapshot_def)
next
  case False
  then have c: "crashes kind (Call (Remove_slot Journal) (\<lambda>_. Call (Remove_slot Temp) (\<lambda>_. Finish code))) fs fs'"
    using assms(1) by (simp add: after_snapshot_def)
  have "fs' Base = fs Base" "fs' Backup = fs Backup" by (rule crashes_cleanup [OF c]; simp)+
  then show ?thesis using assms(5) by (simp add: recoverable_def assms(2))
qed

lemma copy_file_ok:
  assumes "copy_file io source slot n fs = (code, fs1)" "slot \<noteq> source"
  shows "\<And>s. s \<noteq> slot \<Longrightarrow> fs1 s = fs s" "code = Ok \<Longrightarrow> fs1 slot = fs source"
  using assms by (auto simp: copy_file_def write_file_def read_file_def split: option.splits if_splits)

lemma snapshot_commit_crash:
  assumes "crashes kind (snapshot_commit no_faults main_present encoded) fs fs'"
    and fs: "fs Base = old" "fs Temp = Some new" "fs Journal \<noteq> None"
      "\<not> main_present \<Longrightarrow> fs Backup = old" "main_present \<Longrightarrow> old \<noteq> None"
  shows "recoverable kind old new fs'"
proof (cases main_present)
  case True
  then have "crashes kind (Call (Copy_slot Base Backup kMaxRecordBytes) (after_snapshot no_faults encoded)) fs fs'"
    using assms(1) by (simp add: snapshot_commit_def)
  then show ?thesis
  proof (cases rule: crashes_CallE)
    case (later io code fs1)
    note c = copy_file_ok [OF later(1) [unfolded store_call_def slot_call.case]]
    show ?thesis by (rule after_snapshot_crash [OF later(2)]) (use c fs True in auto)
  qed (use fs True in \<open>auto simp: recoverable_def torn_def\<close>)
next
  case False
  then show ?thesis using after_snapshot_crash [OF _ fs(1-3)] assms(1) fs(4) by (simp add: snapshot_commit_def)
qed

lemma write_file_frame:
  assumes "write_file io slot data fs = (code, fs1)"
  shows "\<And>s. s \<noteq> slot \<Longrightarrow> fs1 s = fs s" "code = Ok \<Longrightarrow> fs1 slot = Some data"
  using assms by (auto simp: write_file_def split: option.splits)

lemma write_commit_crash:
  assumes "crashes kind (write_commit no_faults main_present encoded journal) fs fs'"
    and fs: "fs Base = old" "\<not> main_present \<Longrightarrow> fs Backup = old" "main_present \<longleftrightarrow> old \<noteq> None"
  shows "recoverable kind old encoded fs'"
  using assms(1) unfolding write_commit_def
proof (cases rule: crashes_CallE)
  case (later io code fs1)
  note w = write_file_frame [OF later(1) [unfolded store_call_def slot_call.case]]
  show ?thesis
  proof (cases "code = Ok")
    case True
    with later(2) have "crashes kind (Call (Write_slot Journal journal) (\<lambda>journalled.
         if journalled \<noteq> Ok then Call (Remove_slot Temp) (\<lambda>_. Finish journalled)
         else snapshot_commit no_faults main_present encoded)) fs1 fs'" by (simp cong: if_cong)
    then show ?thesis
    proof (cases rule: crashes_CallE)
      case (later io' code' fs2)
      note j = write_file_frame [OF later(1) [unfolded store_call_def slot_call.case]]
      show ?thesis
      proof (cases "code' = Ok")
        case True
        then have "crashes kind (snapshot_commit no_faults main_present encoded) fs2 fs'" using later(2) by simp
        from snapshot_commit_crash [OF this, of old encoded] show ?thesis
          using w j fs \<open>code = Ok\<close> True by simp
      next
        case False
        then have "fs' Base = fs2 Base \<and> fs' Backup = fs2 Backup"
          using later(2) by (auto elim!: crashes_CallE crashes_FinishE simp: store_call_def remove_file_def torn_def)
        then show ?thesis using w j fs by (simp add: recoverable_def)
      qed
    qed (use w fs in \<open>auto simp: recoverable_def torn_def\<close>)
  next
    case False
    then have "fs' Base = fs1 Base \<and> fs' Backup = fs1 Backup"
      using later(2) by (auto elim!: crashes_CallE crashes_FinishE simp: store_call_def remove_file_def torn_def)
    then show ?thesis using w fs by (simp add: recoverable_def)
  qed
qed (use fs in \<open>auto simp: recoverable_def torn_def\<close>)

text \<open>A commit, crashed anywhere.\<close>

lemma commit_crash:
  assumes "crashes kind (commit_program io no_faults kind expected next_generation payload writer fs) fs fs'"
    and "fs Base = None \<Longrightarrow> fs Backup = None"
  shows "(check_commit io no_faults kind expected next_generation payload writer fs = Ok \<and>
      recoverable kind (fs Base) (encode_record kind next_generation writer payload) fs') \<or> fs' = fs"
proof (cases "check_commit io no_faults kind expected next_generation payload writer fs = Ok")
  case True
  have "crashes kind (write_commit no_faults (fs_exists Base fs) (encode_record kind next_generation writer payload)
      (journal_bytes next_generation payload writer)) fs fs'"
    using assms(1) True by (simp add: commit_program_def Let_def)
  from write_commit_crash [OF this refl] show ?thesis using True assms(2) by (simp add: fs_exists_def)
next
  case False
  then show ?thesis using assms(1) by (auto simp: commit_program_def Let_def elim: crashes_FinishE)
qed

section \<open>A commit that returns\<close>

text \<open>The commit that runs to its end leaves one of the two records and says which.\<close>

lemma cleanup_run: "a \<noteq> Base \<Longrightarrow> b \<noteq> Base \<Longrightarrow>
    run_program io (Call (Remove_slot a) (\<lambda>_. Call (Remove_slot b) (\<lambda>_. Finish code))) fs = (code', fs') \<Longrightarrow>
    code' = code \<and> fs' Base = fs Base"
  by (auto simp: store_call_def file_ops_frame)

lemma replace_commit_outcome:
  assumes "run_program io (replace_commit no_faults) fs = (code, fs')" "fs Temp = Some data"
  shows "(code = Ok \<and> fs' Base = Some data) \<or> (code \<noteq> Ok \<and> fs' Base = fs Base)"
  using assms
  by (auto simp: replace_commit_def store_call_def replace_file_def file_ops_frame split: option.splits if_splits)

lemma after_snapshot_outcome:
  assumes "run_program io (after_snapshot no_faults encoded snapshotted) fs = (code, fs')" "fs Temp = Some data"
  shows "(code = Ok \<and> fs' Base = Some data) \<or> (code \<noteq> Ok \<and> fs' Base = fs Base)"
proof (cases "snapshotted = Ok")
  case True
  then show ?thesis using assms replace_commit_outcome by (simp add: after_snapshot_def)
next
  case False
  then show ?thesis using assms(1) by (auto simp: after_snapshot_def store_call_def file_ops_frame)
qed

lemma snapshot_commit_outcome:
  assumes "run_program io (snapshot_commit no_faults main_present encoded) fs = (code, fs')" "fs Temp = Some data"
  shows "(code = Ok \<and> fs' Base = Some data) \<or> (code \<noteq> Ok \<and> fs' Base = fs Base)"
proof (cases main_present)
  case True
  obtain c gs where c: "copy_file io Base Backup kMaxRecordBytes fs = (c, gs)" by force
  have "run_program io (after_snapshot no_faults encoded c) gs = (code, fs')"
    using assms(1) True c by (simp add: snapshot_commit_def store_call_def)
  from after_snapshot_outcome [OF this, of data] show ?thesis using copy_file_ok [OF c] assms(2) by simp
next
  case False
  then show ?thesis using assms after_snapshot_outcome by (simp add: snapshot_commit_def)
qed

lemma store_commit_outcome:
  assumes "store_commit io no_faults kind expected next_generation payload writer fs = (code, fs')"
  shows "(code = Ok \<and> check_commit io no_faults kind expected next_generation payload writer fs = Ok \<and>
        fs' Base = Some (encode_record kind next_generation writer payload)) \<or>
     (code \<noteq> Ok \<and> fs' Base = fs Base)"
proof -
  let ?check = "check_commit io no_faults kind expected next_generation payload writer fs"
  let ?enc = "encode_record kind next_generation writer payload"
  obtain written gs where w: "write_file io Temp ?enc fs = (written, gs)" by force
  obtain journalled hs where j: "write_file io Journal (journal_bytes next_generation payload writer) gs = (journalled, hs)"
    by force
  note wf = write_file_frame [OF w] and jf = write_file_frame [OF j]
  show ?thesis
  proof (cases "?check = Ok \<and> written = Ok \<and> journalled = Ok")
    case True
    then have "run_program io (snapshot_commit no_faults (fs_exists Base fs) ?enc) hs = (code, fs')"
      using assms w j by (simp add: store_commit_def commit_program_def write_commit_def store_call_def)
    from snapshot_commit_outcome [OF this, of ?enc] show ?thesis using wf jf True by simp
  next
    case False
    then show ?thesis using assms w j wf(1) [of Base] jf(1) [of Base]
      by (auto simp: store_commit_def commit_program_def write_commit_def store_call_def file_ops_frame
          Let_def split: if_splits)
  qed
qed

lemma commit_loads:
  assumes "store_commit io no_faults kind expected next_generation payload writer fs = (code, fs')"
  shows "if code = Ok then stored kind fs' = committed_record kind next_generation writer payload
    else stored kind fs' = stored kind fs"
  using store_commit_outcome [OF assms] load_committed [of fs' kind next_generation writer payload]
    check_commit_payload [of io no_faults kind expected next_generation payload writer fs]
    store_load_cong [of fs' fs no_failures 0 kind] by auto

lemma commit_succeeds:
  assumes "check_commit no_failures no_faults kind expected next_generation payload writer fs = Ok"
  shows "fst (store_commit no_failures no_faults kind expected next_generation payload writer fs) = Ok"
proof (cases "fs Base")
  case None
  then show ?thesis using assms
    by (simp add: store_commit_def commit_program_def write_commit_def snapshot_commit_def after_snapshot_def
        replace_commit_def store_call_def write_file_def no_failures_def
        replace_file_def fs_exists_def)
next
  case (Some old)
  have "loaded_ok (stored kind fs)" using check_commit_stored [OF assms] Some by simp
  then have "length old \<le> kMaxRecordBytes"
    using Some by (auto simp: store_load_def fs_exists_def read_file_def loaded_ok_def loaded_failure_def no_failures_def
        split: if_splits)
  then show ?thesis using assms Some
    by (simp add: store_commit_def commit_program_def write_commit_def snapshot_commit_def after_snapshot_def
        replace_commit_def store_call_def write_file_def no_failures_def
        replace_file_def fs_exists_def copy_file_def read_file_def)
qed

section \<open>Recovery\<close>

text \<open>Recovery without failures: a readable record stands; an unreadable one gives way to the backup, or, without
  one, is reported.\<close>

lemma recover_readable:
  assumes "loaded_ok (stored kind fs)"
  shows "\<exists>fs' notes'. store_recover no_failures kind fs before = (Ok, fs', notes') \<and>
    fs' Base = fs Base \<and> fs' Temp = None \<and> fs' Journal = None \<and> fs' Backup = None"
proof -
  have "fs Base \<noteq> None" using assms loaded_absent(1) stored_absent by metis
  then have "lr_present (stored kind fs)" by (rule stored_present)
  then show ?thesis using assms
    by (auto simp: store_recover_def remove_file_def no_failures_def fs_exists_def Let_def)
qed

lemma recover_from_backup:
  assumes "fs Journal \<noteq> None" "\<not> loaded_ok (stored kind fs)" "fs Backup = Some old"
    and "loaded_ok (stored kind (fs(Base := Some old)))"
  shows "\<exists>fs' notes'. store_recover no_failures kind fs before = (Ok, fs', notes') \<and>
    fs' Base = Some old \<and> fs' Temp = None \<and> fs' Journal = None \<and> fs' Backup = None"
proof -
  define gs where "gs = fs(Base := Some old, Backup := None, Journal := None, Temp := None)"
  have "store_load no_failures 1 kind gs = stored kind gs" by (rule load_stored) (simp add: no_failures_def)
  also have "\<dots> = stored kind (fs(Base := Some old))" by (rule store_load_cong) (simp add: gs_def)
  finally have ok: "loaded_ok (store_load no_failures 1 kind gs)" using assms(4) by simp
  have rep: "replace_file no_failures Backup Base fs = (Ok, fs(Base := Some old, Backup := None))"
    using assms(3) by (simp add: replace_file_def no_failures_def)
  have rem: "remove_file no_failures Temp (remove_file no_failures Journal (fs(Base := Some old, Backup := None))) = gs"
    by (simp add: remove_file_def no_failures_def gs_def)
  have "store_recover no_failures kind fs before = recover_backup no_failures kind fs (before\<lparr>rn_journal_cleared := True\<rparr>)"
    using assms(1-3) by (simp add: store_recover_def fs_exists_def)
  also have "\<dots> = (Ok, gs, before\<lparr>rn_journal_cleared := True, rn_backup_recovered := True\<rparr>)"
    unfolding recover_backup_def rep Let_def prod.case rem using ok by simp
  finally show ?thesis by (intro exI [of _ gs] exI) (simp add: gs_def)
qed

lemma recover_without_backup:
  assumes "\<not> loaded_ok (stored kind fs)" "fs Backup = None"
  shows "\<exists>fs' notes'. store_recover no_failures kind fs before = (Ok, fs', notes') \<and>
    fs' Base = fs Base \<and> fs' Temp = None \<and> fs' Journal = None \<and> fs' Backup = None \<and>
    (fs Journal \<noteq> None \<and> fs Base \<noteq> None \<longrightarrow> rn_corruption_detected notes')"
proof (cases "fs Journal")
  case None
  then show ?thesis using assms(2)
    by (cases "fs Temp") (simp_all add: store_recover_def remove_file_def no_failures_def fs_exists_def)
next
  case (Some j)
  then show ?thesis using assms stored_present [of fs kind]
    by (simp add: store_recover_def remove_file_def no_failures_def fs_exists_def Let_def)
qed

text \<open>After a crash the old record or the new one is back, or, where the rename of a first commit was torn, the damage
  is reported.\<close>

lemma crash_recovered:
  assumes crash: "crashes kind (commit_program io no_faults kind expected next_generation payload writer fs) fs fs'"
    and start: "loaded_ok (stored kind fs) \<or> fs Base = None \<and> fs Backup = None"
  shows "\<exists>fs'' notes'. store_recover no_failures kind fs' before = (Ok, fs'', notes') \<and>
    fs'' Temp = None \<and> fs'' Journal = None \<and> fs'' Backup = None \<and>
    (stored kind fs'' \<in> {stored kind fs, committed_record kind next_generation writer payload} \<or>
     fs Base = None \<and> \<not> loaded_ok (stored kind fs'') \<and> rn_corruption_detected notes')"
proof -
  let ?new = "encode_record kind next_generation writer payload"
  have old: "stored kind gs = stored kind fs" if "gs Base = fs Base" for gs using that by (rule store_load_cong)
  have absent: "\<not> loaded_ok (stored kind gs)" "stored kind gs = stored kind fs" if "gs Base = None" "fs Base = None" for gs
    using that by (simp_all add: stored_absent loaded_absent)
  have c: "fs' = fs \<or> length payload \<le> 2 ^ 22 \<and> recoverable kind (fs Base) ?new fs'"
    using commit_crash [OF crash] start check_commit_payload loaded_absent(1) stored_absent by metis
  consider (stands) "loaded_ok (stored kind fs')"
      "stored kind fs' \<in> {stored kind fs, committed_record kind next_generation writer payload}"
    | (none) "fs' Base = None" "fs' Backup = None" "fs Base = None"
    | (torn) "fs' Journal \<noteq> None" "\<not> loaded_ok (stored kind fs')" "fs' Backup = fs Base" "fs' Base \<noteq> None \<or> fs Base \<noteq> None"
  proof (cases "fs' Base = Some ?new \<and> length payload \<le> 2 ^ 22 \<or> fs' Base = fs Base \<and> loaded_ok (stored kind fs)")
    case True
    then have "loaded_ok (stored kind fs') \<and>
        stored kind fs' \<in> {stored kind fs, committed_record kind next_generation writer payload}"
      using load_committed [of fs' kind next_generation writer payload] old [of fs'] by auto
    then show ?thesis using stands by blast
  next
    case False
    then have "fs' Base = None \<and> fs' Backup = None \<and> fs Base = None \<or>
        fs' Journal \<noteq> None \<and> \<not> loaded_ok (stored kind fs') \<and> fs' Backup = fs Base"
      using c start by (auto simp: recoverable_def)
    then show ?thesis using none torn by (cases "fs' Base = None \<and> fs Base = None") auto
  qed
  then show ?thesis
  proof cases
    case stands
    obtain gs notes' where r: "store_recover no_failures kind fs' before = (Ok, gs, notes')" "gs Base = fs' Base"
      "gs Temp = None" "gs Journal = None" "gs Backup = None"
      using recover_readable [OF stands(1), of before] by blast
    have "stored kind gs = stored kind fs'" by (rule store_load_cong) (rule r(2))
    with r stands(2) show ?thesis by auto
  next
    case none
    obtain gs notes' where r: "store_recover no_failures kind fs' before = (Ok, gs, notes')" "gs Base = fs' Base"
      "gs Temp = None" "gs Journal = None" "gs Backup = None"
      using recover_without_backup [of kind fs' before] absent(1) [of fs'] none by blast
    have "stored kind gs = stored kind fs" using absent(2) [of gs] none r(2) by simp
    with r show ?thesis by simp
  next
    case torn
    show ?thesis
    proof (cases "fs Base")
      case None
      then have b: "fs' Base \<noteq> None" "fs' Backup = None" using torn(3,4) by auto
      obtain gs notes' where r: "store_recover no_failures kind fs' before = (Ok, gs, notes')" "gs Base = fs' Base"
        "gs Temp = None" "gs Journal = None" "gs Backup = None" "rn_corruption_detected notes'"
        using recover_without_backup [OF torn(2) b(2), of before] torn(1) b(1) by blast
      have "stored kind gs = stored kind fs'" by (rule store_load_cong) (rule r(2))
      with r torn(2) None show ?thesis by simp
    next
      case (Some data)
      then have "loaded_ok (stored kind fs)" using start by simp
      then have "loaded_ok (stored kind (fs'(Base := Some data)))"
        using old [of "fs'(Base := Some data)"] Some by simp
      from recover_from_backup [OF torn(1,2) _ this, of before] torn(3) Some
      obtain gs notes' where r: "store_recover no_failures kind fs' before = (Ok, gs, notes')" "gs Base = Some data"
        "gs Temp = None" "gs Journal = None" "gs Backup = None" by auto
      have "stored kind gs = stored kind fs" using old [of gs] r(2) Some by simp
      with r show ?thesis by simp
    qed
  qed
qed

section \<open>Properties\<close>

text \<open>C21: A commit is all or nothing as long as the process lives: whichever file system calls fail, a commit
  that returns success has made the new record the committed one, and a commit that returns an error has
  left the committed record as it was.\<close>

theorem commit_all_or_nothing:
  assumes "store_commit io no_faults kind expected next_generation payload writer fs = (code, fs')"
  shows "if code = Ok then stored kind fs' = committed_record kind next_generation writer payload
    else stored kind fs' = stored kind fs"
  by (rule commit_loads [OF assms])

definition sample_writer :: Incarnation where "sample_writer = \<lparr>inc_boot = 7, inc_ordinal = 1\<rparr>"

definition sample_files :: files where
  "sample_files = (\<lambda>_. None)(Base := Some (encode_record AccountingRecord 3 sample_writer [1, 2]))"

lemma sample_files_load: "stored AccountingRecord sample_files = committed_record AccountingRecord 3 sample_writer [1, 2]"
  by (rule load_committed) (simp_all add: sample_files_def)

lemma sample_check: "check_commit no_failures no_faults AccountingRecord 3 4 [5, 6, 7] sample_writer sample_files = Ok"
proof -
  have "fs_exists Base sample_files" by (simp add: fs_exists_def sample_files_def)
  then show ?thesis
    by (simp add: check_commit_def sample_files_load id_valid_def sample_writer_def Let_def)
qed

theorem commit_all_or_nothing_witness:
  "lr_generation (stored AccountingRecord (snd (store_commit no_failures no_faults AccountingRecord 3 4 [5, 6, 7] sample_writer sample_files))) = 4"
proof -
  obtain fs' where "store_commit no_failures no_faults AccountingRecord 3 4 [5, 6, 7] sample_writer sample_files = (Ok, fs')"
    using commit_succeeds [OF sample_check] by (metis prod.collapse)
  from commit_all_or_nothing [OF this] this show ?thesis by simp
qed

text \<open>C22: Crash safety of the commit itself. Stop the calls of a commit anywhere, between two of them or inside one, a
  torn rename included, and whichever calls before it failed: then recovery succeeds, leaves no temporary file,
  journal or backup behind, and finds the old record or the new one. This holds over an existing record and
  for the first commit of a kind, where the old record is none; only there, and only when the rename itself was
  torn, what is left may be no record at all, and then recovery reports corruption.\<close>

theorem crash_recovery:
  assumes "crashes kind (commit_program io no_faults kind expected next_generation payload writer fs) fs fs'"
    and "loaded_ok (stored kind fs) \<or> fs Base = None \<and> fs Backup = None"
  shows "\<exists>fs'' notes'. store_recover no_failures kind fs' before = (Ok, fs'', notes') \<and>
    fs'' Temp = None \<and> fs'' Journal = None \<and> fs'' Backup = None \<and>
    (stored kind fs'' \<in> {stored kind fs, committed_record kind next_generation writer payload} \<or>
     fs Base = None \<and> \<not> loaded_ok (stored kind fs'') \<and> rn_corruption_detected notes')"
  by (rule crash_recovered [OF assms])

theorem crash_recovery_witness:
  "\<exists>fs'' notes'. store_recover no_failures AccountingRecord
      (sample_files(Temp := None, Journal := Some (journal_bytes 4 [5, 6, 7] sample_writer),
        Backup := sample_files Base, Base := Some [70, 71])) no_notes = (Ok, fs'', notes') \<and>
    lr_generation (stored AccountingRecord fs'') \<in> {3, 4}"
proof -
  let ?fs' = "sample_files(Temp := None, Journal := Some (journal_bytes 4 [5, 6, 7] sample_writer),
        Backup := sample_files Base, Base := Some [70, 71])"
  let ?enc = "encode_record AccountingRecord 4 sample_writer [5, 6, 7]" and ?j = "journal_bytes 4 [5, 6, 7] sample_writer"
  have base: "sample_files Base = Some (encode_record AccountingRecord 3 sample_writer [1, 2])"
    by (simp add: sample_files_def)
  have short: "length (encode_record AccountingRecord 3 sample_writer [1, 2]) \<le> kMaxRecordBytes"
    by (simp add: encode_record_def kMaxRecordBytes_def kRecordHeaderSize_def)
  define gs where "gs = sample_files(Temp := Some ?enc, Journal := Some ?j, Backup := sample_files Base)"
  have eq: "?fs' = gs(Base := Some [70, 71], Temp := None)" by (simp add: gs_def fun_eq_iff)
  have torn: "\<not> loaded_ok (stored AccountingRecord (gs(Base := Some [70, 71], Temp := None)))"
    by (simp add: store_load_def fs_exists_def read_file_def kMaxRecordBytes_def decode_record_def loaded_failure_def
        loaded_ok_def kRecordHeaderSize_def no_failures_def)
  have r: "crashes AccountingRecord (replace_commit no_faults) gs ?fs'"
    unfolding eq replace_commit_def by (rule inside) (use torn in \<open>auto simp: torn_def\<close>)
  have "crashes AccountingRecord (snapshot_commit no_faults True ?enc) (sample_files(Temp := Some ?enc, Journal := Some ?j)) ?fs'"
    unfolding snapshot_commit_def if_True
  proof (rule later)
    show "store_call no_failures (Copy_slot Base Backup kMaxRecordBytes) (sample_files(Temp := Some ?enc, Journal := Some ?j))
        = (Ok, gs)"
      using short by (simp add: store_call_def copy_file_def read_file_def write_file_def no_failures_def base gs_def)
    show "crashes AccountingRecord (after_snapshot no_faults ?enc Ok) gs ?fs'"
      using r by (simp add: after_snapshot_def)
  qed
  then have "crashes AccountingRecord (write_commit no_faults True ?enc ?j) sample_files ?fs'"
    unfolding write_commit_def
    by (intro later [of no_failures _ _ Ok "sample_files(Temp := Some ?enc)"]
        later [of no_failures _ "sample_files(Temp := Some ?enc)" Ok "sample_files(Temp := Some ?enc, Journal := Some ?j)"])
      (simp_all add: store_call_def write_file_def no_failures_def
        later [of no_failures _ "sample_files(Temp := Some ?enc)" Ok "sample_files(Temp := Some ?enc, Journal := Some ?j)"])
  then have c: "crashes AccountingRecord (commit_program no_failures no_faults AccountingRecord 3 4 [5, 6, 7] sample_writer
      sample_files) sample_files ?fs'"
    using base by (simp add: commit_program_def sample_check fs_exists_def)
  have "loaded_ok (stored AccountingRecord sample_files)" by (simp add: sample_files_load)
  then obtain fs'' notes' where r: "store_recover no_failures AccountingRecord ?fs' no_notes = (Ok, fs'', notes')"
      "stored AccountingRecord fs'' \<in>
        {stored AccountingRecord sample_files, committed_record AccountingRecord 4 sample_writer [5, 6, 7]}"
    using crash_recovery [OF c, of no_notes] base by auto
  then have "lr_generation (stored AccountingRecord fs'') \<in> {3, 4}" by (auto simp: sample_files_load)
  then show ?thesis using r(1) by blast
qed

end
