(* ===== verification/FG_Governor.thy ===== *)
theory FG_Governor
  imports FG_Fairness FG_Durability
begin

unbundle bit_operations_syntax

text \<open>
  The stateful governor (\<open>eval/governor.cpp\<close>): its state, opening and recovery, the installation of a
  policy, the epoch, the intake of evidence, evaluation, commit and shutdown. Every operation runs under
  the state lock, so each is one function from a state to a state and a status. The process incarnation
  (entropy), the opening of the directory and the failures of file system calls are arguments. The
  texts of a recovery report are dropped.
\<close>

section \<open>State\<close>

text \<open>A \<open>std::map\<close> is the list of its entries in the order of the keys.\<close>

fun ordered_insert :: "('k \<Rightarrow> 'k \<Rightarrow> bool) \<Rightarrow> 'k \<Rightarrow> 'v \<Rightarrow> ('k \<times> 'v) list \<Rightarrow> ('k \<times> 'v) list" where
  "ordered_insert lt k v [] = [(k, v)]"
| "ordered_insert lt k v ((k', v') # rest) =
     (if k = k' then (k, v) # rest
      else if lt k k' then (k, v) # (k', v') # rest
      else (k', v') # ordered_insert lt k v rest)"

definition pair_less :: "u64 \<times> u64 \<Rightarrow> u64 \<times> u64 \<Rightarrow> bool" where
  "pair_less a b \<longleftrightarrow> fst a < fst b \<or> (fst a = fst b \<and> snd a < snd b)"

text \<open>\<open>while (m.size() > bound) m.erase(m.begin())\<close>\<close>

definition trim_front :: "nat \<Rightarrow> 'a list \<Rightarrow> 'a list" where
  "trim_front bound xs = drop (length xs - bound) xs"

record IngestionLimits =
  il_max_staged_snapshots :: u32
  il_max_history_windows :: u32
  il_max_observations_per_snapshot :: u32

record GovernorConfig =
  gc_policy :: FairnessPolicy
  gc_has_store_path :: bool
  gc_epoch :: Generation
  gc_limits :: IngestionLimits
  gc_require_durability :: bool

record RecoveryReport =
  rr_store_present :: bool
  rr_policy_loaded :: bool
  rr_policy_committed :: bool
  rr_accounting_loaded :: bool
  rr_foreign_incarnation :: bool
  rr_unfinished_attempt_discarded :: bool
  rr_backup_recovered :: bool
  rr_corruption_detected :: bool
  rr_evidence_authority_restored :: bool
  rr_publisher_authority_restored :: bool
  rr_policy_code :: StatusCode
  rr_accounting_code :: StatusCode
  rr_loaded_accounting_generation :: u64
  rr_previous_writer_boot :: Id
  rr_loaded_epoch :: Generation

definition default_report :: RecoveryReport where
  "default_report = \<lparr>rr_store_present = False, rr_policy_loaded = False, rr_policy_committed = False,
     rr_accounting_loaded = False, rr_foreign_incarnation = False, rr_unfinished_attempt_discarded = False,
     rr_backup_recovered = False, rr_corruption_detected = False, rr_evidence_authority_restored = False,
     rr_publisher_authority_restored = False, rr_policy_code = Ok, rr_accounting_code = Ok,
     rr_loaded_accounting_generation = 0, rr_previous_writer_boot = 0, rr_loaded_epoch = 0\<rparr>"

text \<open>The store holds the files of the two record kinds.\<close>

record DurableStore =
  st_policy :: files
  st_accounting :: files
  st_faults :: StoreFaultInjection

record Impl =
  im_config :: GovernorConfig
  im_policy :: FairnessPolicy
  im_accounting :: FairnessAccounting
  im_epoch :: Generation
  im_incarnation :: Incarnation
  im_recovery :: RecoveryReport
  im_store :: "DurableStore option"
  im_policy_record_generation :: u64
  im_accounting_record_generation :: u64
  im_staged :: "(u64 \<times> EvidenceSnapshot) list"
  im_ingested :: "((u64 \<times> u64) \<times> u64) list"
  im_publisher_sequences :: "(u64 \<times> u64) list"
  im_stopping :: bool

type_synonym disk_io = "RecordKind \<Rightarrow> io"

definition publisher_key :: "ProducerIdentity \<Rightarrow> u64" where
  "publisher_key producer = (fnv1a64 (pd_name producer) kFnvOffsetBasis * 0x100000001B3) XOR pd_instance producer"

definition current_window :: "Impl \<Rightarrow> Id" where
  "current_window im = fold (\<lambda>entry best. if best < ev_window (snd entry) then ev_window (snd entry) else best)
     (im_staged im) (ac_last_window (im_accounting im))"

definition commit_accounting :: "disk_io \<Rightarrow> Impl \<Rightarrow> StatusCode \<times> Impl" where
  "commit_accounting io im =
     (case im_store im of
        None \<Rightarrow> (Ok, im)
      | Some store \<Rightarrow>
          (let (code, fs) = store_commit (io AccountingRecord) (st_faults store) AccountingRecord
                 (im_accounting_record_generation im) (im_accounting_record_generation im + 1)
                 (encode_accounting (im_accounting im)) (im_incarnation im) (st_accounting store);
               im = im\<lparr>im_store := Some (store\<lparr>st_accounting := fs\<rparr>)\<rparr>
           in if code \<noteq> Ok then (code, im)
              else (Ok, im\<lparr>im_accounting_record_generation := im_accounting_record_generation im + 1\<rparr>)))"

definition commit_policy :: "disk_io \<Rightarrow> Impl \<Rightarrow> StatusCode \<times> Impl" where
  "commit_policy io im =
     (case im_store im of
        None \<Rightarrow> (Ok, im)
      | Some store \<Rightarrow>
          (let (code, fs) = store_commit (io PolicyRecord) (st_faults store) PolicyRecord
                 (im_policy_record_generation im) (im_policy_record_generation im + 1)
                 (encode_policy (im_policy im)) (im_incarnation im) (st_policy store);
               im = im\<lparr>im_store := Some (store\<lparr>st_policy := fs\<rparr>)\<rparr>
           in if code \<noteq> Ok then (code, im)
              else (Ok, im\<lparr>im_policy_record_generation := im_policy_record_generation im + 1\<rparr>)))"

definition clear_staged :: "Impl \<Rightarrow> Impl" where
  "clear_staged im = im\<lparr>im_staged := [], im_ingested := [], im_publisher_sequences := []\<rparr>"

section \<open>Policy and epoch\<close>

definition check_install :: "FairnessPolicy \<Rightarrow> Impl \<Rightarrow> StatusCode" where
  "check_install policy im =
     (if validate_policy policy \<noteq> Ok then validate_policy policy
      else if im_stopping im then ShuttingDown
      else if fp_id policy \<noteq> fp_id (im_policy im) then Conflict
      else if fp_generation policy \<le> fp_generation (im_policy im) then StaleGeneration
      else if fp_epoch policy < im_epoch im then StaleEpoch
      else Ok)"

definition install_policy :: "disk_io \<Rightarrow> FairnessPolicy \<Rightarrow> Impl \<Rightarrow> StatusCode \<times> Impl" where
  "install_policy io policy im =
     (if check_install policy im \<noteq> Ok then (check_install policy im, im)
      else
        let previous_policy = im_policy im; previous_epoch = im_epoch im;
            epoch_advanced = im_epoch im < fp_epoch policy;
            im = im\<lparr>im_policy := policy\<rparr>;
            im = (if epoch_advanced then clear_staged (im\<lparr>im_epoch := fp_epoch policy\<rparr>) else im);
            im = im\<lparr>im_accounting := (im_accounting im)\<lparr>ac_policy_generation := fp_generation policy,
              ac_epoch := im_epoch im\<rparr>\<rparr>;
            (code, im) = commit_policy io im
        in if code \<noteq> Ok
           then (code, im\<lparr>im_policy := previous_policy, im_epoch := previous_epoch,
                  im_accounting := (im_accounting im)\<lparr>ac_policy_generation := fp_generation previous_policy,
                    ac_epoch := previous_epoch\<rparr>\<rparr>)
           else commit_accounting io im)"

definition advance_epoch :: "disk_io \<Rightarrow> Generation \<Rightarrow> Impl \<Rightarrow> StatusCode \<times> Impl" where
  "advance_epoch io next_epoch im =
     (if im_stopping im then (ShuttingDown, im)
      else if \<not> generation_valid next_epoch \<or> next_epoch \<le> im_epoch im then (StaleEpoch, im)
      else
        let previous = im_epoch im;
            im = clear_staged (im\<lparr>im_epoch := next_epoch,
              im_accounting := (im_accounting im)\<lparr>ac_epoch := next_epoch\<rparr>\<rparr>);
            (code, im) = commit_accounting io im
        in if code \<noteq> Ok
           then (code, im\<lparr>im_epoch := previous, im_accounting := (im_accounting im)\<lparr>ac_epoch := previous\<rparr>\<rparr>)
           else (Ok, im))"

section \<open>Evidence\<close>

datatype Disposition = Staged | DuplicateIgnored

record IngestResult =
  ir_disposition :: Disposition
  ir_id :: Id
  ir_generation :: Generation
  ir_window :: Id
  ir_observation_count :: u32

definition ingest_result :: "Disposition \<Rightarrow> EvidenceSnapshot \<Rightarrow> IngestResult" where
  "ingest_result disposition snapshot = \<lparr>ir_disposition = disposition, ir_id = ev_id snapshot,
     ir_generation = ev_generation snapshot, ir_window = ev_window snapshot,
     ir_observation_count = of_nat (length (ev_observations snapshot))\<rparr>"

definition stage_evidence :: "EvidenceSnapshot \<Rightarrow> Impl \<Rightarrow> Impl" where
  "stage_evidence snapshot im =
     (let pkey = publisher_key (ev_producer snapshot);
          sequence = (case map_of (im_publisher_sequences im) pkey of
                        None \<Rightarrow> ev_sequence snapshot | Some s \<Rightarrow> max s (ev_sequence snapshot));
          limit = unat (il_max_staged_snapshots (gc_limits (im_config im)))
      in im\<lparr>im_ingested := trim_front (limit * 4)
             (ordered_insert pair_less (ev_id snapshot, ev_generation snapshot) (evidence_digest snapshot) (im_ingested im)),
           im_publisher_sequences := trim_front 1024 (ordered_insert (<) pkey sequence (im_publisher_sequences im)),
           im_staged := trim_front limit (ordered_insert (<) (ev_window snapshot) snapshot (im_staged im))\<rparr>)"

definition ingest_evidence :: "EvidenceSnapshot \<Rightarrow> Impl \<Rightarrow> IngestResult result \<times> Impl" where
  "ingest_evidence snapshot im =
     (if validate_evidence snapshot \<noteq> Ok then (Inl (validate_evidence snapshot), im)
      else if im_stopping im then (Inl ShuttingDown, im)
      else if ev_epoch snapshot \<noteq> im_epoch im then (Inl StaleEpoch, im)
      else if unat (il_max_observations_per_snapshot (gc_limits (im_config im))) < length (ev_observations snapshot)
      then (Inl LimitExceeded, im)
      else if id_valid (ac_last_window (im_accounting im)) \<and>
              ev_window snapshot \<le> ac_last_window (im_accounting im)
      then (Inl StaleGeneration, im)
      else case map_of (im_ingested im) (ev_id snapshot, ev_generation snapshot) of
             Some digest \<Rightarrow>
               (if digest \<noteq> evidence_digest snapshot then (Inl EvidenceContradictory, im)
                else (Inr (ingest_result DuplicateIgnored snapshot), im))
           | None \<Rightarrow>
               (if (case map_of (im_publisher_sequences im) (publisher_key (ev_producer snapshot)) of
                      None \<Rightarrow> False | Some s \<Rightarrow> ev_sequence snapshot < s)
                then (Inl SequenceViolation, im)
                else if (case map_of (im_staged im) (ev_window snapshot) of
                           None \<Rightarrow> False | Some staged \<Rightarrow> ev_generation snapshot \<le> ev_generation staged)
                then (Inl StaleGeneration, im)
                else (Inr (ingest_result Staged snapshot), stage_evidence snapshot im)))"

section \<open>Evaluation\<close>

definition evaluation_context :: "EvaluationRequest \<Rightarrow> Impl \<Rightarrow> EvaluationContext" where
  "evaluation_context request im =
     \<lparr>ec_policy = Some (im_policy im), ec_accounting = Some (im_accounting im),
      ec_evidence = map_of (im_staged im) (rq_window request), ec_request = request,
      ec_current_epoch = im_epoch im, ec_current_window = current_window im,
      ec_last_committed_window = ac_last_window (im_accounting im)\<rparr>"

definition stamp_decision :: "Incarnation \<Rightarrow> FairnessDecision \<Rightarrow> FairnessDecision" where
  "stamp_decision governor decision =
     decision\<lparr>fd_authority := (fd_authority decision)\<lparr>av_governor := governor\<rparr>\<rparr>"

definition governor_evaluate :: "EvaluationRequest \<Rightarrow> Impl \<Rightarrow> FairnessDecision result option" where
  "governor_evaluate request im =
     (if im_stopping im then Some (Inl ShuttingDown)
      else map_option (map_sum id (stamp_decision (im_incarnation im)))
             (evaluate_fairness (evaluation_context request im)))"

definition live_authority :: "EvaluationRequest \<Rightarrow> Impl \<Rightarrow> AuthorityVector" where
  "live_authority request im =
     \<lparr>av_policy_id = fp_id (im_policy im), av_policy_generation = fp_generation (im_policy im),
      av_epoch = im_epoch im, av_evidence_id = rq_evidence_id request,
      av_evidence_generation = rq_evidence_generation request, av_window = rq_window request,
      av_window_generation = rq_window_generation request,
      av_accounting_generation = ac_generation (im_accounting im), av_governor = im_incarnation im,
      av_request_id = rq_request_id request, av_attempt = rq_attempt request\<rparr>"

end
