(* ===== verification/FG_Commit.thy ===== *)
theory FG_Commit
  imports FG_Governor
begin

text \<open>
  The durable boundary of the governor (\<open>FairnessGovernor::commit\<close>), its opening with recovery, and its
  shutdown.
\<close>

section \<open>Commit\<close>

fun intent_sums :: "CorrectiveIntent list \<Rightarrow> u64 \<times> u64 \<Rightarrow> (u64 \<times> u64) result" where
  "intent_sums [] sums = Inr sums"
| "intent_sums (intent # rest) (augment_sum, reduce_sum) =
     (case ci_direction intent of
        Augment \<Rightarrow>
          (case checked_add augment_sum (ci_units intent) of
             None \<Rightarrow> Inl ArithmeticOverflow
           | Some s \<Rightarrow> intent_sums rest (s, reduce_sum))
      | Reduce \<Rightarrow>
          (case checked_add reduce_sum (ci_units intent) of
             None \<Rightarrow> Inl ArithmeticOverflow
           | Some s \<Rightarrow> intent_sums rest (augment_sum, s)))"

text \<open>Authority and consistency of the decision, in the order of the checks.\<close>

definition check_authority :: "FairnessDecision \<Rightarrow> Impl \<Rightarrow> StatusCode" where
  "check_authority decision im =
     (let a = fd_authority decision; accounting = im_accounting im
      in if im_stopping im then ShuttingDown
         else if av_governor a \<noteq> im_incarnation im then StaleIncarnation
         else if av_epoch a \<noteq> im_epoch im then StaleEpoch
         else if av_policy_id a \<noteq> fp_id (im_policy im) \<or>
                 av_policy_generation a \<noteq> fp_generation (im_policy im) then PolicyGenerationMismatch
         else if av_accounting_generation a \<noteq> ac_generation accounting then StaleGeneration
         else if \<not> id_valid (av_window a) \<or> \<not> generation_valid (av_window_generation a) then InvalidArgument
         else if id_valid (ac_last_window accounting) \<and> av_window a \<le> ac_last_window accounting
         then StaleGeneration
         else Ok)"

definition check_contents :: "FairnessDecision \<Rightarrow> Impl \<Rightarrow> StatusCode" where
  "check_contents decision im =
     (let correction = fd_correction decision
      in if length (fd_subjects decision) \<noteq> length (fp_subjects (im_policy im)) then Conflict
         else if decision_digest decision \<noteq> fd_content_digest decision then Conflict
         else if cs_augment_units correction \<noteq> cs_reduce_units correction then Conflict
         else case intent_sums (fd_intents decision) (0, 0) of
                Inl code \<Rightarrow> code
              | Inr (augment_sum, reduce_sum) \<Rightarrow>
                  (if augment_sum \<noteq> cs_augment_units correction \<or> reduce_sum \<noteq> cs_reduce_units correction
                   then Conflict
                   else if unat kMaxCorrectiveIntents < length (fd_intents decision) then LimitExceeded
                   else Ok))"

definition check_decision :: "FairnessDecision \<Rightarrow> Impl \<Rightarrow> StatusCode" where
  "check_decision decision im =
     (if check_authority decision im \<noteq> Ok then check_authority decision im else check_contents decision im)"

text \<open>The entry of a subject: the first one with its id, where the index of the code points.\<close>

fun entry_index :: "SubjectAccounting list \<Rightarrow> Id \<Rightarrow> nat option" where
  "entry_index [] wanted = None"
| "entry_index (e # es) wanted = (if sa_id e = wanted then Some 0 else map_option Suc (entry_index es wanted))"

definition apply_entry :: "u64 \<Rightarrow> SubjectFairnessState \<Rightarrow> SubjectAccounting \<Rightarrow> SubjectAccounting result" where
  "apply_entry max_carry state entry =
     (case apply_window_carry entry (ss_entitlement_units state - ss_served_units state) max_carry of
        None \<Rightarrow> Inl ArithmeticOverflow
      | Some carry \<Rightarrow>
          (case (checked_add (sa_windows_observed entry) 1,
                 checked_add (sa_total_served_units entry) (ss_served_units state)) of
             (Some windows, Some served) \<Rightarrow>
               Inr (entry\<lparr>sa_cumulative_deficit := co_cumulative_deficit carry,
                 sa_cumulative_surplus := co_cumulative_surplus carry,
                 sa_discarded_deficit := co_discarded_deficit carry,
                 sa_discarded_surplus := co_discarded_surplus carry,
                 sa_unserved_streak := ss_unserved_streak state,
                 sa_below_floor_streak := ss_below_floor_streak state,
                 sa_windows_observed := windows, sa_total_served_units := served\<rparr>)
           | _ \<Rightarrow> Inl ArithmeticOverflow))"

definition apply_state ::
    "FairnessPolicy \<Rightarrow> SubjectFairnessState \<Rightarrow> SubjectAccounting list \<Rightarrow> SubjectAccounting list result" where
  "apply_state policy state entries =
     (if \<not> ss_has_authority state then Inr entries
      else case find_subject policy (ss_id state) of
             None \<Rightarrow> Inl Conflict
           | Some subject \<Rightarrow>
               (if sb_generation subject \<noteq> ss_generation state then Inl Conflict
                else
                  let entries = (case entry_index entries (ss_id state) of
                          None \<Rightarrow> entries @ [default_subject_accounting\<lparr>sa_id := ss_id state,
                                    sa_generation := ss_generation state\<rparr>]
                        | Some _ \<Rightarrow> entries);
                      i = the (entry_index entries (ss_id state))
                  in and_then (apply_entry (fp_max_carry_units policy) state (entries ! i))
                       (\<lambda>entry. Inr (entries[i := entry]))))"

fun apply_states ::
    "FairnessPolicy \<Rightarrow> SubjectFairnessState list \<Rightarrow> SubjectAccounting list \<Rightarrow> SubjectAccounting list result" where
  "apply_states policy [] entries = Inr entries"
| "apply_states policy (state # rest) entries =
     and_then (apply_state policy state entries) (apply_states policy rest)"

definition apply_intent :: "Id \<Rightarrow> CorrectiveIntent \<Rightarrow> SubjectAccounting list \<Rightarrow> SubjectAccounting list" where
  "apply_intent window intent entries =
     (case entry_index entries (ci_subject intent) of
        None \<Rightarrow> entries
      | Some i \<Rightarrow>
          (if sa_last_correction_generation (entries ! i) < ci_generation intent
           then entries[i := (entries ! i)\<lparr>sa_last_correction_window := window,
                  sa_last_correction_generation := ci_generation intent\<rparr>]
           else entries))"

definition newest_intervention :: "CorrectiveIntent list \<Rightarrow> Generation \<Rightarrow> Generation" where
  "newest_intervention intents generation =
     fold (\<lambda>intent best. if best < ci_generation intent then ci_generation intent else best) intents generation"

definition applied_accounting :: "FairnessDecision \<Rightarrow> Impl \<Rightarrow> FairnessAccounting result" where
  "applied_accounting decision im =
     (let accounting = im_accounting im; a = fd_authority decision
      in and_then (apply_states (im_policy im) (fd_subjects decision) (ac_subjects accounting)) (\<lambda>entries.
           case checked_add (ac_generation accounting) 1 of
             None \<Rightarrow> Inl ArithmeticOverflow
           | Some generation \<Rightarrow>
               Inr (accounting\<lparr>ac_subjects := fold (apply_intent (av_window a)) (fd_intents decision) entries,
                 ac_intervention_generation :=
                   newest_intervention (fd_intents decision) (ac_intervention_generation accounting),
                 ac_last_window := av_window a, ac_last_window_generation := av_window_generation a,
                 ac_writer_boot := inc_boot (im_incarnation im), ac_policy_id := fp_id (im_policy im),
                 ac_policy_generation := fp_generation (im_policy im), ac_epoch := im_epoch im,
                 ac_generation := generation\<rparr>)))"

definition governor_commit :: "disk_io \<Rightarrow> FairnessDecision \<Rightarrow> Impl \<Rightarrow> StatusCode \<times> Impl" where
  "governor_commit io decision im =
     (if check_decision decision im \<noteq> Ok then (check_decision decision im, im)
      else case applied_accounting decision im of
             Inl code \<Rightarrow> (code, im)
           | Inr accounting \<Rightarrow>
               (let previous = im_accounting im; (code, im) = commit_accounting io (im\<lparr>im_accounting := accounting\<rparr>)
                in if code \<noteq> Ok then (code, im\<lparr>im_accounting := previous\<rparr>) else (Ok, im)))"

section \<open>Opening\<close>

definition check_config :: "GovernorConfig \<Rightarrow> StatusCode" where
  "check_config config =
     (let limits = gc_limits config
      in if validate_policy (gc_policy config) \<noteq> Ok then validate_policy (gc_policy config)
         else if \<not> generation_valid (gc_epoch config) then InvalidArgument
         else if fp_epoch (gc_policy config) \<noteq> gc_epoch config then Conflict
         else if il_max_staged_snapshots limits = 0 \<or> il_max_history_windows limits = 0 \<or>
                 il_max_observations_per_snapshot limits = 0 then InvalidArgument
         else if \<not> gc_has_store_path config \<and> gc_require_durability config then InvalidArgument
         else Ok)"

definition fresh_impl :: "GovernorConfig \<Rightarrow> Incarnation \<Rightarrow> Impl" where
  "fresh_impl config incarnation =
     \<lparr>im_config = config, im_policy = gc_policy config,
      im_accounting = default_accounting\<lparr>ac_policy_id := fp_id (gc_policy config),
        ac_policy_generation := fp_generation (gc_policy config), ac_epoch := gc_epoch config\<rparr>,
      im_epoch = gc_epoch config, im_incarnation = incarnation, im_recovery = default_report, im_store = None,
      im_policy_record_generation = 0, im_accounting_record_generation = 0, im_staged = [],
      im_ingested = [], im_publisher_sequences = [], im_stopping = False\<rparr>"

text \<open>\<open>impl->recovery.field = ...\<close>\<close>

definition report :: "(RecoveryReport \<Rightarrow> RecoveryReport) \<Rightarrow> Impl \<Rightarrow> Impl" where
  "report f im = im\<lparr>im_recovery := f (im_recovery im)\<rparr>"

definition align_accounting :: "Impl \<Rightarrow> Impl" where
  "align_accounting im = im\<lparr>im_accounting := (im_accounting im)\<lparr>ac_policy_id := fp_id (im_policy im),
     ac_policy_generation := fp_generation (im_policy im), ac_epoch := im_epoch im\<rparr>\<rparr>"

definition recover_records :: "disk_io \<Rightarrow> DurableStore \<Rightarrow> Impl \<Rightarrow> StatusCode \<times> Impl" where
  "recover_records io store im =
     (let (policy_code, policy_files, policy_notes) = store_recover (io PolicyRecord) PolicyRecord (st_policy store) no_notes;
          (accounting_code, accounting_files, accounting_notes) =
            store_recover (io AccountingRecord) AccountingRecord (st_accounting store) no_notes;
          im = im\<lparr>im_store := Some (store\<lparr>st_policy := policy_files, st_accounting := accounting_files\<rparr>)\<rparr>;
          im = report (\<lambda>r. r\<lparr>rr_store_present := True,
            rr_unfinished_attempt_discarded := (rn_unfinished_attempt_discarded policy_notes \<or>
              rn_unfinished_attempt_discarded accounting_notes),
            rr_backup_recovered := (rn_backup_recovered policy_notes \<or> rn_backup_recovered accounting_notes),
            rr_corruption_detected := (rn_corruption_detected policy_notes \<or>
              rn_corruption_detected accounting_notes)\<rparr>) im
      in if policy_code \<noteq> Ok \<or> accounting_code \<noteq> Ok then (RecoveryRequired, im) else (Ok, im))"

text \<open>The policy that is served: the durable one where it is newer, the configured one otherwise.\<close>

definition install_configured :: "disk_io \<Rightarrow> Impl \<Rightarrow> StatusCode \<times> Impl" where
  "install_configured io im =
     (let (code, im) = commit_policy io im
      in if code \<noteq> Ok then (code, im) else (Ok, report (\<lambda>r. r\<lparr>rr_policy_committed := True\<rparr>) im))"

definition load_policy :: "disk_io \<Rightarrow> DurableStore \<Rightarrow> Impl \<Rightarrow> StatusCode \<times> Impl" where
  "load_policy io store im =
     (let policy_record = store_load (io PolicyRecord) 2 PolicyRecord (st_policy store)
      in if \<not> lr_present policy_record
         then install_configured io (report (\<lambda>r. r\<lparr>rr_policy_code := NotFound\<rparr>) im)
         else if \<not> loaded_ok policy_record then (lr_code policy_record, im)
         else case decode_policy (lr_payload policy_record) of
                Inl code \<Rightarrow> (code, im)
              | Inr durable_policy \<Rightarrow>
                  (let im = im\<lparr>im_policy_record_generation := lr_generation policy_record\<rparr>
                   in if fp_id durable_policy \<noteq> fp_id (im_policy im) then (Conflict, im)
                      else if fp_generation (im_policy im) < fp_generation durable_policy
                      then (Ok, report (\<lambda>r. r\<lparr>rr_policy_loaded := True\<rparr>)
                             (im\<lparr>im_policy := durable_policy, im_epoch := fp_epoch durable_policy\<rparr>))
                      else if fp_generation durable_policy = fp_generation (im_policy im)
                      then (if policy_digest durable_policy \<noteq> policy_digest (im_policy im) then (Conflict, im)
                            else (Ok, report (\<lambda>r. r\<lparr>rr_policy_loaded := True\<rparr>) im))
                      else install_configured io im))"

definition kept_entries :: "FairnessPolicy \<Rightarrow> SubjectAccounting list \<Rightarrow> SubjectAccounting list" where
  "kept_entries policy entries =
     filter (\<lambda>e. case find_subject policy (sa_id e) of
               None \<Rightarrow> False | Some subject \<Rightarrow> sb_generation subject = sa_generation e) entries"

definition adopt_accounting :: "FairnessAccounting \<Rightarrow> Impl \<Rightarrow> Impl" where
  "adopt_accounting durable im =
     (let im = im\<lparr>im_accounting := durable\<rparr>;
          im = report (\<lambda>r. r\<lparr>rr_accounting_loaded := True,
            rr_loaded_accounting_generation := ac_generation durable,
            rr_previous_writer_boot := ac_writer_boot durable, rr_loaded_epoch := ac_epoch durable,
            rr_foreign_incarnation := (id_valid (ac_writer_boot durable) \<and>
              ac_writer_boot durable \<noteq> inc_boot (im_incarnation im))\<rparr>) im;
          im = (if im_epoch im < ac_epoch durable then im\<lparr>im_epoch := ac_epoch durable\<rparr> else im);
          im = im\<lparr>im_accounting := (im_accounting im)\<lparr>ac_subjects := kept_entries (im_policy im) (ac_subjects durable)\<rparr>\<rparr>
      in align_accounting im)"

definition load_accounting :: "disk_io \<Rightarrow> DurableStore \<Rightarrow> Impl \<Rightarrow> StatusCode \<times> Impl" where
  "load_accounting io store im =
     (let accounting_record = store_load (io AccountingRecord) 2 AccountingRecord (st_accounting store)
      in if \<not> lr_present accounting_record
         then (Ok, report (\<lambda>r. r\<lparr>rr_accounting_code := NotFound\<rparr>) im)
         else if \<not> loaded_ok accounting_record then (lr_code accounting_record, im)
         else case decode_accounting (lr_payload accounting_record) of
                Inl code \<Rightarrow> (code, im)
              | Inr durable \<Rightarrow>
                  (Ok, adopt_accounting durable
                     (im\<lparr>im_accounting_record_generation := lr_generation accounting_record\<rparr>)))"

text \<open>The outcome of opening: the governor or an error, and what is on disk afterwards.\<close>

definition governor_open ::
    "disk_io \<Rightarrow> Incarnation \<Rightarrow> GovernorConfig \<Rightarrow> DurableStore result \<Rightarrow> Impl result \<times> DurableStore result" where
  "governor_open io incarnation config opened =
     (if check_config config \<noteq> Ok then (Inl (check_config config), opened)
      else if \<not> gc_has_store_path config then (Inr (fresh_impl config incarnation), opened)
      else case opened of
             Inl code \<Rightarrow> (Inl code, opened)
           | Inr store \<Rightarrow>
               (let (recovered, im) = recover_records io store (fresh_impl config incarnation);
                    disk = (\<lambda>im. case im_store im of None \<Rightarrow> opened | Some store \<Rightarrow> Inr store)
                in if recovered \<noteq> Ok then (Inl recovered, disk im)
                   else
                     let (policy_code, im) = load_policy io (the (im_store im)) im
                     in if policy_code \<noteq> Ok then (Inl policy_code, disk im)
                        else
                          let (accounting_code, im) = load_accounting io (the (im_store im)) (align_accounting im)
                          in if accounting_code \<noteq> Ok then (Inl accounting_code, disk im)
                             else (Inr (clear_staged im), disk im)))"

definition governor_shutdown :: "Impl \<Rightarrow> StatusCode \<times> Impl" where
  "governor_shutdown im =
     (if im_stopping im then (Ok, im) else (Ok, clear_staged (im\<lparr>im_stopping := True, im_store := None\<rparr>)))"

end
