(* ===== verification/FG_Lifecycle.thy ===== *)
theory FG_Lifecycle
  imports FG_Commit
begin

text \<open>
  The invariant of a running governor (\<open>impl_ok\<close>): what each operation does to the state, case by case, and
  that each operation keeps the invariant.
\<close>

section \<open>Runs\<close>

text \<open>What a run of a governor can reach: its state and the decisions its evaluations returned, which are
  the decisions a caller can commit.\<close>

inductive reachable :: "Impl \<Rightarrow> FairnessDecision set \<Rightarrow> bool" where
  reach_open: "fst (governor_open io incarnation config opened) = Inr im \<Longrightarrow> reachable im {}"
| reach_evaluate: "\<lbrakk>reachable im taken; governor_evaluate request im = Some (Inr decision)\<rbrakk>
    \<Longrightarrow> reachable im (insert decision taken)"
| reach_commit: "\<lbrakk>reachable im taken; decision \<in> taken\<rbrakk> \<Longrightarrow> reachable (snd (governor_commit io decision im)) taken"
| reach_install: "reachable im taken \<Longrightarrow> reachable (snd (install_policy io policy im)) taken"
| reach_epoch: "reachable im taken \<Longrightarrow> reachable (snd (advance_epoch io next_epoch im)) taken"
| reach_ingest: "reachable im taken \<Longrightarrow> reachable (snd (ingest_evidence snapshot im)) taken"
| reach_clear: "reachable im taken \<Longrightarrow> reachable (clear_staged im) taken"
| reach_shutdown: "reachable im taken \<Longrightarrow> reachable (snd (governor_shutdown im)) taken"

section \<open>The invariant of the state\<close>

definition staged_ok :: "Impl \<Rightarrow> bool" where
  "staged_ok im \<longleftrightarrow> (\<forall>(w, s)\<in>set (im_staged im). w = ev_window s \<and> validate_evidence s = Ok \<and> ev_epoch s = im_epoch im) \<and>
     sorted_wrt (<) (map fst (im_staged im)) \<and>
     length (im_staged im) \<le> unat (il_max_staged_snapshots (gc_limits (im_config im)))"

definition aligned :: "Impl \<Rightarrow> bool" where
  "aligned im \<longleftrightarrow> ac_policy_id (im_accounting im) = fp_id (im_policy im) \<and>
     ac_policy_generation (im_accounting im) = fp_generation (im_policy im) \<and>
     ac_epoch (im_accounting im) = im_epoch im"

definition impl_ok :: "Impl \<Rightarrow> bool" where
  "impl_ok im \<longleftrightarrow> validate_policy (im_policy im) = Ok \<and> fp_epoch (im_policy im) \<le> im_epoch im \<and>
     accounting_storable (im_accounting im) \<and> aligned im \<and> staged_ok im"

definition decision_ok :: "FairnessDecision \<Rightarrow> bool" where
  "decision_ok decision \<longleftrightarrow> (\<forall>s\<in>set (fd_subjects decision). ss_unserved_streak s \<le> 1000000 \<and> ss_below_floor_streak s \<le> 1000000)"

section \<open>Entries\<close>

lemma entry_index_Some: "entry_index es w = Some i \<Longrightarrow> i < length es \<and> sa_id (es ! i) = w"
  by (induction es arbitrary: i) (auto split: if_splits)

lemma entry_index_None: "entry_index es w = None \<longleftrightarrow> w \<notin> set (map sa_id es)"
  by (induction es) auto

lemma entry_index_append: "entry_index es w = None \<Longrightarrow> entry_index (es @ [e]) w = (if sa_id e = w then Some (length es) else None)"
  by (induction es) (auto split: if_splits)

definition entries_ok :: "SubjectAccounting list \<Rightarrow> bool" where
  "entries_ok es \<longleftrightarrow> (\<forall>e\<in>set es. entry_storable e) \<and> distinct (map sa_id es)"

lemma storable_entries: "accounting_storable a \<longleftrightarrow> entries_ok (ac_subjects a)"
  by (simp add: accounting_storable_def entries_ok_def)

lemma entries_ok_update:
  assumes "entries_ok es" "entry_storable e" "i < length es" "sa_id e = sa_id (es ! i)"
  shows "entries_ok (es[i := e])"
proof -
  have "map sa_id (es[i := e]) = map sa_id es" using assms(3,4) by (simp add: map_update list_update_same_conv)
  then show ?thesis using assms set_update_subset_insert [of es i e] unfolding entries_ok_def by auto
qed

text \<open>The entry that a state is applied to.\<close>

definition target_entries :: "SubjectFairnessState \<Rightarrow> SubjectAccounting list \<Rightarrow> SubjectAccounting list" where
  "target_entries state es = (case entry_index es (ss_id state) of
     None \<Rightarrow> es @ [default_subject_accounting\<lparr>sa_id := ss_id state, sa_generation := ss_generation state\<rparr>]
   | Some _ \<Rightarrow> es)"

lemma target_entries_index:
  obtains i where "entry_index (target_entries state es) (ss_id state) = Some i" "i < length (target_entries state es)"
    "sa_id (target_entries state es ! i) = ss_id state"
proof -
  have "\<exists>i. entry_index (target_entries state es) (ss_id state) = Some i"
    by (cases "entry_index es (ss_id state)") (simp_all add: target_entries_def entry_index_append)
  then show ?thesis using that entry_index_Some by blast
qed

lemma target_entries_ok:
  assumes "entries_ok es"
  shows "entries_ok (target_entries state es)"
proof (cases "entry_index es (ss_id state)")
  case None
  then have "ss_id state \<notin> set (map sa_id es)" unfolding entry_index_None .
  then show ?thesis using assms None
    by (auto simp: target_entries_def entries_ok_def entry_storable_def default_subject_accounting_def)
qed (simp add: target_entries_def assms)

lemma apply_state_Inr:
  assumes "apply_state policy state es = Inr es'" "ss_has_authority state"
  obtains i e subject where "find_subject policy (ss_id state) = Some subject" "sb_generation subject = ss_generation state"
    "entry_index (target_entries state es) (ss_id state) = Some i"
    "i < length (target_entries state es)" "sa_id (target_entries state es ! i) = ss_id state"
    "apply_entry (fp_max_carry_units policy) state (target_entries state es ! i) = Inr e"
    "es' = (target_entries state es)[i := e]"
proof -
  obtain i where i: "entry_index (target_entries state es) (ss_id state) = Some i" "i < length (target_entries state es)"
      "sa_id (target_entries state es ! i) = ss_id state" by (rule target_entries_index)
  obtain subject where s: "find_subject policy (ss_id state) = Some subject" "sb_generation subject = ss_generation state"
    using assms by (auto simp: apply_state_def split: option.splits if_splits)
  have "and_then (apply_entry (fp_max_carry_units policy) state (target_entries state es ! i))
      (\<lambda>entry. Inr ((target_entries state es)[i := entry])) = Inr es'"
    using assms s i(1) by (simp add: apply_state_def target_entries_def [symmetric] Let_def)
  then show thesis using that [OF s i] by (auto simp: and_then_Inr)
qed

lemma apply_entry_Inr:
  assumes "apply_entry max_carry state e = Inr e'"
  shows "sa_id e' = sa_id e" "sa_cumulative_deficit e' \<le> max_carry" "sa_cumulative_surplus e' \<le> max_carry"
    "sa_unserved_streak e' = ss_unserved_streak state" "sa_below_floor_streak e' = ss_below_floor_streak state"
    "entry_closure e' = entry_closure e + sint (ss_entitlement_units state - ss_served_units state)"
proof -
  obtain carry w s where c: "apply_window_carry e (ss_entitlement_units state - ss_served_units state) max_carry = Some carry"
    "e' = e\<lparr>sa_cumulative_deficit := co_cumulative_deficit carry,
                 sa_cumulative_surplus := co_cumulative_surplus carry,
                 sa_discarded_deficit := co_discarded_deficit carry,
                 sa_discarded_surplus := co_discarded_surplus carry,
                 sa_unserved_streak := ss_unserved_streak state,
                 sa_below_floor_streak := ss_below_floor_streak state,
                 sa_windows_observed := w, sa_total_served_units := s\<rparr>"
    using assms by (auto simp: apply_entry_def split: option.splits)
  note spec = apply_window_carry_spec [OF c(1)]
  show "sa_id e' = sa_id e" "sa_cumulative_deficit e' \<le> max_carry" "sa_cumulative_surplus e' \<le> max_carry"
    "sa_unserved_streak e' = ss_unserved_streak state" "sa_below_floor_streak e' = ss_below_floor_streak state"
    using spec(2,3) by (simp_all add: c(2))
  show "entry_closure e' = entry_closure e + sint (ss_entitlement_units state - ss_served_units state)"
    using spec(1) by (simp add: c(2) entry_closure_def outcome_closure_def)
qed

lemma apply_state_ok:
  assumes "apply_state policy state es = Inr es'" "entries_ok es" "fp_max_carry_units policy \<le> kMaxCarryUnits"
    and "ss_unserved_streak state \<le> 1000000" "ss_below_floor_streak state \<le> 1000000"
  shows "entries_ok es'"
proof (cases "ss_has_authority state")
  case False
  then show ?thesis using assms by (simp add: apply_state_def)
next
  case True
  obtain i e subject where i: "find_subject policy (ss_id state) = Some subject" "sb_generation subject = ss_generation state"
    "entry_index (target_entries state es) (ss_id state) = Some i"
    "i < length (target_entries state es)" "sa_id (target_entries state es ! i) = ss_id state"
    "apply_entry (fp_max_carry_units policy) state (target_entries state es ! i) = Inr e"
    "es' = (target_entries state es)[i := e]" by (rule apply_state_Inr [OF assms(1) True])
  note ae = apply_entry_Inr [OF i(6)]
  have "entry_storable e" using ae(2,3) assms(3-5) by (auto simp: entry_storable_def ae(4,5) intro: order_trans)
  then show ?thesis unfolding i(7) by (rule entries_ok_update [OF target_entries_ok [OF assms(2)] _ i(4) ae(1)])
qed

lemma apply_states_ok:
  assumes "fp_max_carry_units policy \<le> kMaxCarryUnits"
  shows "\<lbrakk>apply_states policy states es = Inr es'; entries_ok es;
      \<forall>s\<in>set states. ss_unserved_streak s \<le> 1000000 \<and> ss_below_floor_streak s \<le> 1000000\<rbrakk> \<Longrightarrow> entries_ok es'"
proof (induction states arbitrary: es)
  case (Cons s states)
  obtain fs where fs: "apply_state policy s es = Inr fs" "apply_states policy states fs = Inr es'"
    using Cons.prems(1) by (auto simp: and_then_Inr)
  show ?case using apply_state_ok [OF fs(1) Cons.prems(2) assms] Cons.IH [OF fs(2)] Cons.prems(3) by simp
qed simp

lemma apply_intent_frame:
  assumes "entries_ok es"
  shows "entries_ok (apply_intent w c es)"
proof (cases "entry_index es (ci_subject c)")
  case (Some i)
  then have i: "i < length es" using entry_index_Some by blast
  then have "entry_storable (es ! i)" using assms by (simp add: entries_ok_def)
  then show ?thesis using assms i Some
    by (auto simp: apply_intent_def entry_storable_def intro!: entries_ok_update)
qed (simp add: apply_intent_def assms)

lemma apply_intents_ok: "entries_ok es \<Longrightarrow> entries_ok (fold (apply_intent w) cs es)"
  by (induction cs arbitrary: es) (simp_all add: apply_intent_frame)


section \<open>Ordered maps\<close>

lemma ordered_insert_mem: "set (ordered_insert lt k v xs) \<subseteq> insert (k, v) (set xs)"
  by (induction xs) (auto split: if_splits)

lemma ordered_insert_keys: "set (map fst (ordered_insert lt k v xs)) = insert k (set (map fst xs))"
proof (induction xs)
  case (Cons x xs)
  obtain k' v' where "x = (k', v')" by force
  then show ?case using Cons by (cases "k = k'"; cases "lt k k'") auto
qed simp

lemma ordered_insert_sorted:
  "sorted_wrt (<) (map fst xs) \<Longrightarrow> sorted_wrt (<) (map fst (ordered_insert (<) (k :: 'k::linorder) v xs))"
proof (induction xs)
  case (Cons x xs)
  obtain k' v' where x: "x = (k', v')" by force
  have keys: "set (map fst (ordered_insert (<) k v xs)) = insert k (set (map fst xs))" by (rule ordered_insert_keys)
  consider "k = k'" | "k < k'" | "k' < k" by force
  then show ?case
  proof cases
    case 2
    then show ?thesis using Cons.prems by (auto simp: x)
  next
    case 3
    have "\<forall>y\<in>set (map fst (ordered_insert (<) k v xs)). k' < y"
      unfolding keys using Cons.prems 3 by (auto simp: x)
    then show ?thesis using 3 Cons by (auto simp: x)
  qed (use Cons.prems in \<open>auto simp: x\<close>)
qed simp

lemma trim_front_length: "length (trim_front n xs) \<le> n"
  by (simp add: trim_front_def)

lemma trim_front_mem: "set (trim_front n xs) \<subseteq> set xs"
  by (simp add: trim_front_def set_drop_subset)

lemma trim_front_sorted: "sorted_wrt P (map f xs) \<Longrightarrow> sorted_wrt P (map f (trim_front n xs))"
  by (simp add: trim_front_def drop_map [symmetric] sorted_wrt_drop)

section \<open>Every operation keeps the invariant\<close>

text \<open>A durable commit changes the store and its record generation only.\<close>

lemma commit_accounting_frame:
  "\<exists>store g. snd (commit_accounting io im) = im\<lparr>im_store := store, im_accounting_record_generation := g\<rparr>"
proof (cases "im_store im")
  case None
  then show ?thesis
    by (intro exI [of _ None] exI [of _ "im_accounting_record_generation im"]) (simp add: commit_accounting_def)
next
  case (Some store)
  obtain code fs where c: "store_commit (io AccountingRecord) (st_faults store) AccountingRecord
                 (im_accounting_record_generation im) (im_accounting_record_generation im + 1)
                 (encode_accounting (im_accounting im)) (im_incarnation im) (st_accounting store) = (code, fs)" by force
  show ?thesis
    by (intro exI [of _ "Some (store\<lparr>st_accounting := fs\<rparr>)"]
        exI [of _ "if code = Ok then im_accounting_record_generation im + 1 else im_accounting_record_generation im"])
      (simp add: commit_accounting_def Some c)
qed

lemma commit_policy_frame:
  "\<exists>store g. snd (commit_policy io im) = im\<lparr>im_store := store, im_policy_record_generation := g\<rparr>"
proof (cases "im_store im")
  case None
  then show ?thesis
    by (intro exI [of _ None] exI [of _ "im_policy_record_generation im"]) (simp add: commit_policy_def)
next
  case (Some store)
  obtain code fs where c: "store_commit (io PolicyRecord) (st_faults store) PolicyRecord
                 (im_policy_record_generation im) (im_policy_record_generation im + 1)
                 (encode_policy (im_policy im)) (im_incarnation im) (st_policy store) = (code, fs)" by force
  show ?thesis
    by (intro exI [of _ "Some (store\<lparr>st_policy := fs\<rparr>)"]
        exI [of _ "if code = Ok then im_policy_record_generation im + 1 else im_policy_record_generation im"])
      (simp add: commit_policy_def Some c)
qed

lemma impl_ok_frame [simp]:
  "impl_ok (im\<lparr>im_store := store, im_accounting_record_generation := g\<rparr>) = impl_ok im"
  "impl_ok (im\<lparr>im_store := store, im_policy_record_generation := h\<rparr>) = impl_ok im"
  "impl_ok (report f im) = impl_ok im"
  "impl_ok (im\<lparr>im_store := store\<rparr>) = impl_ok im"
  "impl_ok (im\<lparr>im_accounting_record_generation := g\<rparr>) = impl_ok im"
  "impl_ok (im\<lparr>im_policy_record_generation := h\<rparr>) = impl_ok im"
  by (simp_all add: impl_ok_def aligned_def staged_ok_def report_def)

lemma staged_ok_cleared [simp]: "staged_ok (clear_staged im)" "staged_ok (im\<lparr>im_staged := []\<rparr>)"
  by (simp_all add: staged_ok_def clear_staged_def)

lemma impl_ok_clear: "impl_ok im \<Longrightarrow> impl_ok (clear_staged im)"
  by (simp add: impl_ok_def) (simp add: clear_staged_def aligned_def)

text \<open>The state an epoch change or an installation makes durable, and what a failure puts back.\<close>

definition epoch_entered :: "Generation \<Rightarrow> Impl \<Rightarrow> Impl" where
  "epoch_entered next_epoch im = clear_staged (im\<lparr>im_epoch := next_epoch,
     im_accounting := (im_accounting im)\<lparr>ac_epoch := next_epoch\<rparr>\<rparr>)"

definition policy_entered :: "FairnessPolicy \<Rightarrow> Impl \<Rightarrow> Impl" where
  "policy_entered policy im = (let im = im\<lparr>im_policy := policy\<rparr>;
            im = (if im_epoch im < fp_epoch policy then clear_staged (im\<lparr>im_epoch := fp_epoch policy\<rparr>) else im)
        in im\<lparr>im_accounting := (im_accounting im)\<lparr>ac_policy_generation := fp_generation policy,
              ac_epoch := im_epoch im\<rparr>\<rparr>)"

definition put_back :: "Impl \<Rightarrow> Impl \<Rightarrow> Impl" where
  "put_back previous im = im\<lparr>im_policy := im_policy previous, im_epoch := im_epoch previous,
     im_accounting := (im_accounting im)\<lparr>ac_policy_generation := fp_generation (im_policy previous),
       ac_epoch := im_epoch previous\<rparr>\<rparr>"

lemma advance_epoch_cases:
  obtains (refused) "snd (advance_epoch io next_epoch im) = im"
  | (entered) store g where "generation_valid next_epoch" "im_epoch im < next_epoch"
      "snd (advance_epoch io next_epoch im) =
        (epoch_entered next_epoch im)\<lparr>im_store := store, im_accounting_record_generation := g\<rparr>"
  | (failed) store g where "im_epoch im < next_epoch"
      "snd (advance_epoch io next_epoch im) =
        (epoch_entered (im_epoch im) im)\<lparr>im_store := store, im_accounting_record_generation := g\<rparr>"
proof (cases "im_stopping im \<or> \<not> generation_valid next_epoch \<or> next_epoch \<le> im_epoch im")
  case True
  then have "snd (advance_epoch io next_epoch im) = im" by (auto simp: advance_epoch_def)
  then show ?thesis by (rule refused)
next
  case False
  then have lt: "im_epoch im < next_epoch" "generation_valid next_epoch" by auto
  obtain store g where f: "snd (commit_accounting io (epoch_entered next_epoch im))
      = (epoch_entered next_epoch im)\<lparr>im_store := store, im_accounting_record_generation := g\<rparr>"
    using commit_accounting_frame by blast
  obtain code km where k: "commit_accounting io (epoch_entered next_epoch im) = (code, km)" by force
  have km: "km = (epoch_entered next_epoch im)\<lparr>im_store := store, im_accounting_record_generation := g\<rparr>" using f k by simp
  have st: "snd (advance_epoch io next_epoch im) = (if code \<noteq> Ok
      then km\<lparr>im_epoch := im_epoch im, im_accounting := (im_accounting km)\<lparr>ac_epoch := im_epoch im\<rparr>\<rparr> else km)"
    using False k by (simp add: advance_epoch_def epoch_entered_def [symmetric] Let_def)
  show ?thesis
  proof (cases "code = Ok")
    case True
    then show ?thesis using entered lt st km by simp
  next
    case False
    have "snd (advance_epoch io next_epoch im)
        = (epoch_entered (im_epoch im) im)\<lparr>im_store := store, im_accounting_record_generation := g\<rparr>"
      using False by (simp add: st km) (simp add: epoch_entered_def clear_staged_def)
    then show ?thesis using failed lt by blast
  qed
qed

lemma install_policy_cases:
  obtains (refused) "snd (install_policy io policy im) = im"
  | (entered) store g store' g' where "check_install policy im = Ok" "snd (install_policy io policy im) =
      (policy_entered policy im)\<lparr>im_store := store, im_policy_record_generation := g,
        im_store := store', im_accounting_record_generation := g'\<rparr>"
  | (failed) store g where "check_install policy im = Ok" "snd (install_policy io policy im) =
      put_back im ((policy_entered policy im)\<lparr>im_store := store, im_policy_record_generation := g\<rparr>)"
proof (cases "check_install policy im = Ok")
  case False
  then have "snd (install_policy io policy im) = im" by (simp add: install_policy_def)
  then show ?thesis by (rule refused)
next
  case True
  let ?jm = "policy_entered policy im"
  obtain code km where k: "commit_policy io ?jm = (code, km)" by force
  obtain store g where f: "snd (commit_policy io ?jm) = ?jm\<lparr>im_store := store, im_policy_record_generation := g\<rparr>"
    using commit_policy_frame by blast
  have km: "km = ?jm\<lparr>im_store := store, im_policy_record_generation := g\<rparr>" using f k by simp
  have st: "snd (install_policy io policy im) = (if code \<noteq> Ok then put_back im km else snd (commit_accounting io km))"
    using True k by (simp add: install_policy_def policy_entered_def put_back_def Let_def)
  show ?thesis
  proof (cases "code = Ok")
    case False
    then show ?thesis using failed True st km by simp
  next
    case ok: True
    obtain store' g' where "snd (commit_accounting io km) = km\<lparr>im_store := store', im_accounting_record_generation := g'\<rparr>"
      using commit_accounting_frame by blast
    then have "snd (install_policy io policy im) = ?jm\<lparr>im_store := store, im_policy_record_generation := g,
        im_store := store', im_accounting_record_generation := g'\<rparr>" using st ok km by simp
    then show ?thesis using entered True by blast
  qed
qed

lemma epoch_entered_ok:
  assumes "impl_ok im" "im_epoch im \<le> epoch"
  shows "impl_ok (epoch_entered epoch im)"
proof -
  have "fp_epoch (im_policy im) \<le> epoch" using assms unfolding impl_ok_def by auto
  then show ?thesis using assms(1)
    by (auto simp: epoch_entered_def impl_ok_def aligned_def clear_staged_def staged_ok_def accounting_storable_def)
qed

lemma advance_epoch_ok:
  assumes "impl_ok im"
  shows "impl_ok (snd (advance_epoch io next_epoch im))"
  by (cases rule: advance_epoch_cases [of io next_epoch im]) (simp_all add: assms epoch_entered_ok)

lemma install_policy_ok:
  assumes "impl_ok im"
  shows "impl_ok (snd (install_policy io policy im))"
proof (cases rule: install_policy_cases [of io policy im])
  case refused
  then show ?thesis using assms by simp
next
  case (entered store g store' g')
  have chk: "validate_policy policy = Ok" "fp_id policy = fp_id (im_policy im)" "im_epoch im \<le> fp_epoch policy"
    using entered(1) by (auto simp: check_install_def not_less split: if_splits)
  have "impl_ok (policy_entered policy im)" using assms chk
    by (auto simp: policy_entered_def impl_ok_def aligned_def clear_staged_def staged_ok_def accounting_storable_def Let_def)
  then show ?thesis by (simp add: entered(2))
next
  case (failed store g)
  show ?thesis unfolding failed(2) using assms
    by (auto simp: put_back_def policy_entered_def impl_ok_def aligned_def clear_staged_def staged_ok_def
        accounting_storable_def Let_def)
qed

lemma stage_evidence_ok:
  assumes "impl_ok im" "validate_evidence snapshot = Ok" "ev_epoch snapshot = im_epoch im"
  shows "impl_ok (stage_evidence snapshot im)"
proof -
  let ?xs = "ordered_insert (<) (ev_window snapshot) snapshot (im_staged im)"
  have st: "staged_ok im" using assms(1) by (simp add: impl_ok_def)
  have "\<forall>(w, s)\<in>set ?xs. w = ev_window s \<and> validate_evidence s = Ok \<and> ev_epoch s = im_epoch im"
    using st assms(2,3) ordered_insert_mem [of "(<)" "ev_window snapshot" snapshot "im_staged im"]
    unfolding staged_ok_def by fastforce
  then have "staged_ok (stage_evidence snapshot im)"
    using st trim_front_mem trim_front_length
    by (fastforce simp: staged_ok_def stage_evidence_def Let_def intro!: trim_front_sorted ordered_insert_sorted)
  then show ?thesis using assms(1) by (simp add: impl_ok_def aligned_def stage_evidence_def Let_def)
qed

text \<open>Evidence is refused, a duplicate, or staged.\<close>

lemma ingest_evidence_cases:
  obtains (refused) code where "ingest_evidence snapshot im = (Inl code, im)"
  | (duplicate) "ingest_evidence snapshot im = (Inr (ingest_result DuplicateIgnored snapshot), im)"
  | (staged) "ingest_evidence snapshot im = (Inr (ingest_result Staged snapshot), stage_evidence snapshot im)"
      "validate_evidence snapshot = Ok" "ev_epoch snapshot = im_epoch im"
proof -
  let ?refused = "\<exists>code. ingest_evidence snapshot im = (Inl code, im)"
  consider "validate_evidence snapshot \<noteq> Ok" | "im_stopping im" | "ev_epoch snapshot \<noteq> im_epoch im"
    | "validate_evidence snapshot = Ok" "\<not> im_stopping im" "ev_epoch snapshot = im_epoch im" by blast
  then show thesis
  proof cases
    case 1
    then have ?refused by (simp add: ingest_evidence_def)
    then show ?thesis using refused by blast
  next
    case 2
    then have ?refused by (simp add: ingest_evidence_def)
    then show ?thesis using refused by blast
  next
    case 3
    then have ?refused by (simp add: ingest_evidence_def)
    then show ?thesis using refused by blast
  next
    case 4
    have "?refused \<or> ingest_evidence snapshot im = (Inr (ingest_result DuplicateIgnored snapshot), im) \<or>
        ingest_evidence snapshot im = (Inr (ingest_result Staged snapshot), stage_evidence snapshot im)"
      unfolding ingest_evidence_def using 4
      by (cases "map_of (im_ingested im) (ev_id snapshot, ev_generation snapshot)") simp_all
    then show ?thesis using 4 refused duplicate staged by blast
  qed
qed

lemma ingest_evidence_ok:
  assumes "impl_ok im"
  shows "impl_ok (snd (ingest_evidence snapshot im))"
  by (cases rule: ingest_evidence_cases [of snapshot im]) (simp_all add: assms stage_evidence_ok)

lemma applied_accounting_ok:
  assumes "impl_ok im" "decision_ok decision" "applied_accounting decision im = Inr accounting"
  shows "impl_ok (im\<lparr>im_accounting := accounting\<rparr>)"
proof -
  obtain entries g where a: "apply_states (im_policy im) (fd_subjects decision) (ac_subjects (im_accounting im)) = Inr entries"
    "ac_subjects accounting = fold (apply_intent (av_window (fd_authority decision))) (fd_intents decision) entries"
    "ac_policy_id accounting = fp_id (im_policy im)" "ac_policy_generation accounting = fp_generation (im_policy im)"
    "ac_epoch accounting = im_epoch im"
    using assms(3) by (auto simp: applied_accounting_def and_then_Inr Let_def split: option.splits)
  have "fp_max_carry_units (im_policy im) \<le> kMaxCarryUnits"
    using assms(1) by (simp add: impl_ok_def validate_policy_iff policy_wf_def header_wf_def)
  then have "entries_ok entries"
    using apply_states_ok [OF _ a(1)] assms(1,2) by (simp add: impl_ok_def storable_entries decision_ok_def)
  then have "accounting_storable accounting" unfolding storable_entries a(2) by (rule apply_intents_ok)
  then show ?thesis using assms(1) a(3-5) by (simp add: impl_ok_def aligned_def staged_ok_def)
qed

lemma apply_states_error: "apply_states policy states es = Inl code \<Longrightarrow> code \<noteq> Ok"
proof (induction states arbitrary: es)
  case (Cons s states)
  show ?case
  proof (cases "apply_state policy s es")
    case (Inl c)
    then have "c \<noteq> Ok" by (auto simp: apply_state_def apply_entry_def and_then_def Let_def split: if_splits option.splits sum.splits)
    then show ?thesis using Cons.prems Inl by (simp add: and_then_def)
  next
    case (Inr fs)
    then show ?thesis using Cons by (simp add: and_then_def)
  qed
qed simp

lemma applied_accounting_error: "applied_accounting decision im = Inl code \<Longrightarrow> code \<noteq> Ok"
  using apply_states_error
  by (auto simp: applied_accounting_def and_then_def Let_def split: sum.splits option.splits)

text \<open>A commit ends in one of two ways: refused, with nothing but the files of the store changed, or accepted
  with the applied accounting.\<close>

lemma commit_accounting_cases:
  obtains (refused) code store where "commit_accounting io im = (code, im\<lparr>im_store := store\<rparr>)" "code \<noteq> Ok"
  | (accepted) store g where "commit_accounting io im =
      (Ok, im\<lparr>im_store := store, im_accounting_record_generation := g\<rparr>)"
proof (cases "im_store im")
  case None
  then have "commit_accounting io im = (Ok, im\<lparr>im_store := None, im_accounting_record_generation := im_accounting_record_generation im\<rparr>)"
    by (simp add: commit_accounting_def)
  then show ?thesis by (rule accepted)
next
  case (Some store)
  obtain code fs where c: "store_commit (io AccountingRecord) (st_faults store) AccountingRecord
                 (im_accounting_record_generation im) (im_accounting_record_generation im + 1)
                 (encode_accounting (im_accounting im)) (im_incarnation im) (st_accounting store) = (code, fs)" by force
  show ?thesis
  proof (cases "code = Ok")
    case True
    then have "commit_accounting io im = (Ok, im\<lparr>im_store := Some (store\<lparr>st_accounting := fs\<rparr>),
        im_accounting_record_generation := im_accounting_record_generation im + 1\<rparr>)"
      by (simp add: commit_accounting_def Some c)
    then show ?thesis by (rule accepted)
  next
    case False
    then have "commit_accounting io im = (code, im\<lparr>im_store := Some (store\<lparr>st_accounting := fs\<rparr>)\<rparr>)"
      by (simp add: commit_accounting_def Some c)
    then show ?thesis using False by (rule refused)
  qed
qed

lemma governor_commit_cases:
  obtains (refused) code store where "governor_commit io decision im = (code, im\<lparr>im_store := store\<rparr>)" "code \<noteq> Ok"
  | (accepted) accounting store g where "check_decision decision im = Ok" "applied_accounting decision im = Inr accounting"
      "governor_commit io decision im =
        (Ok, im\<lparr>im_accounting := accounting, im_store := store, im_accounting_record_generation := g\<rparr>)"
proof (cases "check_decision decision im = Ok")
  case False
  then have "governor_commit io decision im = (check_decision decision im, im\<lparr>im_store := im_store im\<rparr>)"
    by (simp add: governor_commit_def)
  then show ?thesis using False by (rule refused)
next
  case chk: True
  show ?thesis
  proof (cases "applied_accounting decision im")
    case (Inl code)
    then have "governor_commit io decision im = (code, im\<lparr>im_store := im_store im\<rparr>)"
      using chk by (simp add: governor_commit_def)
    moreover have "code \<noteq> Ok" using applied_accounting_error [OF Inl] .
    ultimately show ?thesis by (rule refused)
  next
    case (Inr accounting)
    show ?thesis
    proof (cases rule: commit_accounting_cases [of io "im\<lparr>im_accounting := accounting\<rparr>"])
      case (refused code store)
      then have "governor_commit io decision im = (code, im\<lparr>im_store := store\<rparr>)"
        using chk Inr by (simp add: governor_commit_def)
      then show ?thesis using refused(2) by (rule that(1))
    next
      case (accepted store g)
      then have "governor_commit io decision im =
        (Ok, im\<lparr>im_accounting := accounting, im_store := store, im_accounting_record_generation := g\<rparr>)"
        using chk Inr by (simp add: governor_commit_def)
      then show ?thesis using chk Inr by (intro that(2))
    qed
  qed
qed

lemma governor_commit_ok:
  assumes "impl_ok im" "decision_ok decision"
  shows "impl_ok (snd (governor_commit io decision im))"
proof (cases rule: governor_commit_cases [of io decision im])
  case (refused code store)
  then show ?thesis using assms(1) by simp
next
  case (accepted accounting store g)
  then show ?thesis using applied_accounting_ok [OF assms accepted(2)] by simp
qed

lemma governor_shutdown_ok: "impl_ok im \<Longrightarrow> impl_ok (snd (governor_shutdown im))"
  by (auto simp: governor_shutdown_def impl_ok_def aligned_def clear_staged_def staged_ok_def)

end
