(* ===== verification/FG_Opening.thy ===== *)
theory FG_Opening
  imports FG_Lifecycle
begin

text \<open>
  Opening a governor establishes the invariant, an evaluation in a state with the invariant returns
  decisions whose streaks stay in the durable domain, and so every reachable state has the invariant.
\<close>

section \<open>Opening\<close>

text \<open>The invariant without the identity fields of the accounting, which opening aligns at the end.\<close>

definition opening_ok :: "Impl \<Rightarrow> bool" where
  "opening_ok im \<longleftrightarrow> validate_policy (im_policy im) = Ok \<and> fp_epoch (im_policy im) \<le> im_epoch im \<and>
     entries_ok (ac_subjects (im_accounting im)) \<and> im_staged im = []"

lemma opening_ok_frame [simp]:
  "opening_ok (im\<lparr>im_store := store\<rparr>) = opening_ok im"
  "opening_ok (report f im) = opening_ok im"
  "opening_ok (im\<lparr>im_policy_record_generation := g\<rparr>) = opening_ok im"
  "opening_ok (im\<lparr>im_accounting_record_generation := g\<rparr>) = opening_ok im"
  "opening_ok (align_accounting im) = opening_ok im"
  by (simp_all add: opening_ok_def report_def align_accounting_def)

lemma align_ok: "opening_ok im \<Longrightarrow> impl_ok (align_accounting im)"
  by (simp add: opening_ok_def impl_ok_def align_accounting_def aligned_def staged_ok_def storable_entries)

lemma fresh_opening: "check_config config = Ok \<Longrightarrow> opening_ok (fresh_impl config incarnation)"
  by (auto simp: check_config_def opening_ok_def fresh_impl_def entries_ok_def default_accounting_def Let_def
      split: if_splits)

lemma fresh_ok: "check_config config = Ok \<Longrightarrow> impl_ok (fresh_impl config incarnation)"
  using fresh_opening [of config incarnation]
  by (simp add: opening_ok_def impl_ok_def storable_entries aligned_def staged_ok_def) (simp add: fresh_impl_def)

lemma recover_opening: "opening_ok im \<Longrightarrow> opening_ok (snd (recover_records io store im))"
  by (simp add: recover_records_def Let_def split: prod.split)

lemma install_configured_opening:
  assumes "opening_ok im"
  shows "opening_ok (snd (install_configured io im))"
proof -
  obtain code jm where c: "commit_policy io im = (code, jm)" by force
  obtain store g where "snd (commit_policy io im) = im\<lparr>im_store := store, im_policy_record_generation := g\<rparr>"
    using commit_policy_frame by blast
  then have "opening_ok jm" using assms c by simp
  then show ?thesis by (simp add: install_configured_def c)
qed

lemma load_policy_opening:
  assumes "opening_ok im" "load_policy io store im = (Ok, jm)"
  shows "opening_ok jm"
proof -
  let ?r = "store_load (io PolicyRecord) 2 PolicyRecord (st_policy store)"
  consider "\<not> lr_present ?r" | "lr_present ?r" "\<not> loaded_ok ?r" | "lr_present ?r" "loaded_ok ?r" by blast
  then show ?thesis
  proof cases
    case 1
    then have "jm = snd (install_configured io (report (\<lambda>r. r\<lparr>rr_policy_code := NotFound\<rparr>) im))"
      using assms(2) by (simp add: load_policy_def)
    then show ?thesis using assms(1) install_configured_opening by simp
  next
    case 2
    then show ?thesis using assms(2) by (simp add: load_policy_def loaded_ok_def)
  next
    case 3
    show ?thesis
    proof (cases "decode_policy (lr_payload ?r)")
      case (Inl code)
      then have "jm = im" using assms(2) 3 by (simp add: load_policy_def)
      then show ?thesis using assms(1) by simp
    next
      case (Inr durable)
      let ?im = "im\<lparr>im_policy_record_generation := lr_generation ?r\<rparr>"
      consider "fp_id durable = fp_id (im_policy im)" "fp_generation (im_policy im) < fp_generation durable"
        | "fp_id durable = fp_id (im_policy im)" "fp_generation (im_policy im) = fp_generation durable"
        | "fp_id durable = fp_id (im_policy im)" "fp_generation durable < fp_generation (im_policy im)"
        using assms(2) 3 Inr by (force simp: load_policy_def Let_def not_less_iff_gr_or_eq)
      then show ?thesis
      proof cases
        case 1
        then have "jm = report (\<lambda>r. r\<lparr>rr_policy_loaded := True\<rparr>)
            (?im\<lparr>im_policy := durable, im_epoch := fp_epoch durable\<rparr>)"
          using assms(2) 3 Inr by (simp add: load_policy_def Let_def)
        then show ?thesis using assms(1) decode_policy_legal [OF Inr] by (simp add: opening_ok_def report_def)
      next
        case 2
        then have "jm = report (\<lambda>r. r\<lparr>rr_policy_loaded := True\<rparr>) ?im"
          using assms(2) 3 Inr by (simp add: load_policy_def Let_def split: if_splits)
        then show ?thesis using assms(1) by simp
      next
        case 3
        then have "\<not> fp_generation (im_policy im) < fp_generation durable"
            "fp_generation durable \<noteq> fp_generation (im_policy im)" by auto
        then have "load_policy io store im = install_configured io ?im"
          using 3 \<open>lr_present ?r\<close> \<open>loaded_ok ?r\<close> Inr by (simp add: load_policy_def Let_def)
        then have "jm = snd (install_configured io ?im)" using assms(2) by (metis snd_conv)
        then show ?thesis using assms(1) install_configured_opening by simp
      qed
    qed
  qed
qed

lemma kept_entries_ok: "entries_ok es \<Longrightarrow> entries_ok (kept_entries policy es)"
  by (auto simp: entries_ok_def kept_entries_def distinct_map_filter)

lemma adopt_accounting_ok:
  assumes "opening_ok im" "entries_ok (ac_subjects durable)"
  shows "impl_ok (adopt_accounting durable im)"
proof -
  define jm where "jm = report (\<lambda>r. r\<lparr>rr_accounting_loaded := True,
            rr_loaded_accounting_generation := ac_generation durable,
            rr_previous_writer_boot := ac_writer_boot durable, rr_loaded_epoch := ac_epoch durable,
            rr_foreign_incarnation := (id_valid (ac_writer_boot durable) \<and>
              ac_writer_boot durable \<noteq> inc_boot (im_incarnation im))\<rparr>) (im\<lparr>im_accounting := durable\<rparr>)"
  have jm: "opening_ok jm" using assms by (simp add: jm_def opening_ok_def report_def)
  define km where "km = (if im_epoch jm < ac_epoch durable then jm\<lparr>im_epoch := ac_epoch durable\<rparr> else jm)"
  have "opening_ok km" using jm by (auto simp: km_def opening_ok_def)
  then have "opening_ok (km\<lparr>im_accounting := (im_accounting km)\<lparr>ac_subjects := kept_entries (im_policy km) (ac_subjects durable)\<rparr>\<rparr>)"
    using kept_entries_ok [OF assms(2)] by (simp add: opening_ok_def)
  moreover have "adopt_accounting durable im = align_accounting
      (km\<lparr>im_accounting := (im_accounting km)\<lparr>ac_subjects := kept_entries (im_policy km) (ac_subjects durable)\<rparr>\<rparr>)"
    by (cases "im_epoch jm < ac_epoch durable") (simp_all add: adopt_accounting_def Let_def jm_def [symmetric] km_def)
  ultimately show ?thesis by (simp add: align_ok)
qed

lemma load_accounting_ok:
  assumes "impl_ok im" "opening_ok im" "load_accounting io store im = (Ok, jm)"
  shows "impl_ok jm"
proof -
  let ?r = "store_load (io AccountingRecord) 2 AccountingRecord (st_accounting store)"
  consider "\<not> lr_present ?r" | "lr_present ?r" "\<not> loaded_ok ?r" | "lr_present ?r" "loaded_ok ?r" by blast
  then show ?thesis
  proof cases
    case 1
    then have "jm = report (\<lambda>r. r\<lparr>rr_accounting_code := NotFound\<rparr>) im" using assms(3) by (simp add: load_accounting_def)
    then show ?thesis using assms(1) by simp
  next
    case 2
    then show ?thesis using assms(3) by (simp add: load_accounting_def loaded_ok_def)
  next
    case 3
    show ?thesis
    proof (cases "decode_accounting (lr_payload ?r)")
      case (Inl code)
      then have "jm = im" using assms(3) 3 by (simp add: load_accounting_def)
      then show ?thesis using assms(1) by simp
    next
      case (Inr durable)
      then have "jm = adopt_accounting durable (im\<lparr>im_accounting_record_generation := lr_generation ?r\<rparr>)"
        using assms(3) 3 by (simp add: load_accounting_def)
      then show ?thesis using adopt_accounting_ok assms(2) decode_accounting_legal [OF Inr]
        by (simp add: storable_entries)
    qed
  qed
qed

text \<open>An opened governor went through recovery, the policy and the accounting, in this order.\<close>

lemma governor_openE:
  assumes "fst (governor_open io incarnation config opened) = Inr im"
  obtains (memory) "check_config config = Ok" "\<not> gc_has_store_path config" "im = fresh_impl config incarnation"
  | (durable) store jm km lm where "check_config config = Ok" "gc_has_store_path config" "opened = Inr store"
      "recover_records io store (fresh_impl config incarnation) = (Ok, jm)"
      "load_policy io (the (im_store jm)) jm = (Ok, km)"
      "load_accounting io (the (im_store km)) (align_accounting km) = (Ok, lm)" "im = clear_staged lm"
proof (cases "check_config config = Ok \<and> gc_has_store_path config")
  case False
  then show ?thesis using assms memory by (auto simp: governor_open_def split: if_splits)
next
  case True
  then obtain store where store: "opened = Inr store" using assms by (cases opened) (simp_all add: governor_open_def)
  obtain c1 jm where j: "recover_records io store (fresh_impl config incarnation) = (c1, jm)" by force
  then have c1: "c1 = Ok" using assms True store by (cases "c1 = Ok") (simp_all add: governor_open_def Let_def)
  obtain c2 km where k: "load_policy io (the (im_store jm)) jm = (c2, km)" by force
  then have c2: "c2 = Ok" using assms True store j c1 by (cases "c2 = Ok") (simp_all add: governor_open_def Let_def)
  obtain c3 lm where l: "load_accounting io (the (im_store km)) (align_accounting km) = (c3, lm)" by force
  then have c3: "c3 = Ok" using assms True store j c1 k c2 by (cases "c3 = Ok") (simp_all add: governor_open_def Let_def)
  have "im = clear_staged lm" using assms True store j k l c1 c2 c3 by (simp add: governor_open_def Let_def)
  then show ?thesis using durable True store j k l c1 c2 c3 by blast
qed

lemma governor_open_ok:
  assumes "fst (governor_open io incarnation config opened) = Inr im"
  shows "impl_ok im"
proof (cases rule: governor_openE [OF assms])
  case 1
  then show ?thesis using fresh_ok by simp
next
  case (2 store jm km lm)
  have "opening_ok jm" using recover_opening [OF fresh_opening [OF 2(1)], of io store incarnation] 2(4) by simp
  then have "opening_ok km" using load_policy_opening 2(5) by blast
  then have "impl_ok (align_accounting km)" "opening_ok (align_accounting km)" by (simp_all add: align_ok)
  then have "impl_ok lm" using load_accounting_ok 2(6) by blast
  then show ?thesis using 2(7) impl_ok_clear by blast
qed


section \<open>Evaluation\<close>

lemma streaks_of_subject:
  assumes ev: "\<And>evidence. ec_evidence ctx = Some evidence \<Longrightarrow> validate_evidence evidence = Ok"
    and dec: "evaluate_fairness ctx = Some (Inr decision)" "ec_policy ctx = Some policy" "i < length (fp_subjects policy)"
  shows "ss_unserved_streak (fd_subjects decision ! i) \<le> 1000000 \<and> ss_below_floor_streak (fd_subjects decision ! i) \<le> 1000000"
proof (rule decision_subject [OF dec])
  fix accounting d p
  assume st: "fd_subjects decision ! i = subject_state policy (fp_subjects policy ! i) (assign_outcome policy (fp_subjects policy ! i) p)"
    and p: "bare_plan p \<or> settled policy accounting ctx d (cs_protected_obligation_blocked (fd_correction decision)) i p"
  have "pl_unserved_streak p \<le> 1000000 \<and> pl_below_floor_streak p \<le> 1000000"
    using p
  proof
    assume "settled policy accounting ctx d (cs_protected_obligation_blocked (fd_correction decision)) i p"
    then obtain r g h b where r: "ready_plan policy accounting ctx d i r" "p = r\<lparr>pl_augment := g, pl_reduce := h, pl_blocked := b\<rparr>"
      by (auto simp: settled_def)
    obtain evidence ob where ob: "ec_evidence ctx = Some evidence"
      "evidence_find evidence (sb_id (fp_subjects policy ! i)) = Some ob"
      "pl_unserved_streak r \<le> max kStreakSaturation (ob_unserved_streak ob)"
      "pl_below_floor_streak r \<le> max kStreakSaturation (ob_below_floor_streak ob)"
      using r(1) by (auto simp: ready_plan_def)
    have "ob \<in> set (ev_observations evidence)" using ob(2) unfolding evidence_find_def by (blast dest: find_Some_iff_mem)
    moreover have "evidence_wf evidence" using ev [OF ob(1)] by (simp add: validate_evidence_iff)
    ultimately have "ob_unserved_streak ob \<le> 1000000" "ob_below_floor_streak ob \<le> 1000000"
      by (simp_all add: evidence_wf_def observation_wf_def)
    then show ?thesis using ob(3,4) by (simp add: r(2) kStreakSaturation_def max_def split: if_splits)
  qed (auto simp: bare_plan_def default_plan_def)
  then show ?thesis by (simp add: st subject_state_def Let_def)
qed

lemma staged_evidence:
  assumes "impl_ok im" "map_of (im_staged im) w = Some evidence"
  shows "validate_evidence evidence = Ok" "ev_window evidence = w" "ev_epoch evidence = im_epoch im"
  using assms map_of_SomeD [OF assms(2)] by (auto simp: impl_ok_def staged_ok_def)

lemma map_sum_Inr: "map_sum id f r = Inr y \<longleftrightarrow> (\<exists>x. r = Inr x \<and> y = f x)"
  by (cases r) auto

lemma governor_evaluate_Inr:
  assumes "governor_evaluate request im = Some (Inr decision)"
  obtains raw where "\<not> im_stopping im" "evaluate_fairness (evaluation_context request im) = Some (Inr raw)"
    "decision = stamp_decision (im_incarnation im) raw"
  using assms by (auto simp: governor_evaluate_def map_sum_Inr split: if_splits)

lemma evaluation_context_simps [simp]:
  "ec_policy (evaluation_context request im) = Some (im_policy im)"
  "ec_accounting (evaluation_context request im) = Some (im_accounting im)"
  "ec_evidence (evaluation_context request im) = map_of (im_staged im) (rq_window request)"
  "ec_request (evaluation_context request im) = request"
  by (simp_all add: evaluation_context_def)

lemma stamp_decision_simps [simp]:
  "fd_subjects (stamp_decision g d) = fd_subjects d" "fd_intents (stamp_decision g d) = fd_intents d"
  "fd_correction (stamp_decision g d) = fd_correction d" "fd_content_digest (stamp_decision g d) = fd_content_digest d"
  "fd_authority (stamp_decision g d) = (fd_authority d)\<lparr>av_governor := g\<rparr>"
  by (simp_all add: stamp_decision_def)

lemma evaluated_decision_ok:
  assumes ok: "impl_ok im" and ev: "governor_evaluate request im = Some (Inr decision)"
  shows "decision_ok decision"
proof (rule governor_evaluate_Inr [OF ev])
  fix raw
  assume raw: "evaluate_fairness (evaluation_context request im) = Some (Inr raw)"
    and dec: "decision = stamp_decision (im_incarnation im) raw"
  have len: "length (fd_subjects raw) = length (fp_subjects (im_policy im))" by (rule decision_lengths [OF raw]) simp
  have "ss_unserved_streak (fd_subjects raw ! i) \<le> 1000000 \<and> ss_below_floor_streak (fd_subjects raw ! i) \<le> 1000000"
    if "i < length (fp_subjects (im_policy im))" for i
    by (rule streaks_of_subject [OF _ raw _ that]) (simp_all add: staged_evidence(1) [OF ok])
  then show ?thesis using len by (auto simp: decision_ok_def dec in_set_conv_nth)
qed

lemma reachable_ok: "reachable im taken \<Longrightarrow> impl_ok im \<and> (\<forall>d\<in>taken. decision_ok d)"
proof (induction rule: reachable.induct)
  case (reach_open io incarnation config opened im)
  then show ?case using governor_open_ok by blast
next
  case (reach_evaluate im taken request decision)
  then show ?case using evaluated_decision_ok by blast
next
  case (reach_commit im taken decision io)
  then show ?case using governor_commit_ok by blast
qed (use install_policy_ok advance_epoch_ok ingest_evidence_ok impl_ok_clear governor_shutdown_ok in blast)+

end
