(* ===== verification/FG_Progress.thy ===== *)
theory FG_Progress
  imports FG_Opening
begin

text \<open>
  Progress: a governor whose counters are not exhausted evaluates the next window, and the decision it
  returns is accepted by its own commit; only a failing durable write can refuse it.
\<close>

section \<open>The decision passes the checks\<close>

lemma digest_frame:
  "decision_digest (d\<lparr>fd_content_digest := x\<rparr>) = decision_digest d"
  "decision_digest (stamp_decision g d) = decision_digest d"
  by (simp_all add: decision_digest_def stamp_decision_def put_authority_def)

lemma decision_sealed:
  assumes "evaluate_fairness ctx = Some (Inr decision)" "ec_policy ctx = Some policy" "ec_accounting ctx = Some accounting"
  shows "fd_authority decision = decision_authority policy accounting ctx"
    "fd_content_digest decision = decision_digest decision" "length (fd_intents decision) \<le> 8192"
proof -
  obtain ns plans summary groups intents d_order s_order policy' accounting' where d:
    "ec_policy ctx = Some policy'" "ec_accounting ctx = Some accounting'"
    "decision = assemble policy' accounting' ctx ns plans summary groups intents"
    "all_intents policy' accounting' (ec_request ctx) plans d_order s_order = Inr intents"
    by (rule evaluationE [OF assms(1)])
  show "fd_authority decision = decision_authority policy accounting ctx"
    using d(1-3) assms(2,3) by (simp add: assemble_def Let_def)
  obtain raw where "decision = raw\<lparr>fd_content_digest := decision_digest raw\<rparr>"
    using d(3) unfolding assemble_def Let_def by blast
  then show "fd_content_digest decision = decision_digest decision" by (simp add: digest_frame)
  have bound: "length intents' \<le> 8192" if "issue_intents mk order st = Inr (g, intents')" "length (snd st) \<le> 8192"
    for mk order st g intents'
    using that
  proof (induction order arbitrary: st)
    case (Cons i order)
    then show ?case by (cases st) (force split: option.splits if_splits)
  qed auto
  obtain st st' where "issue_intents (augment_intent policy' (ec_request ctx) plans) d_order
      (ac_intervention_generation accounting', []) = Inr st"
    "issue_intents (reduce_intent policy' (ec_request ctx) plans) s_order st = Inr st'" "intents = snd st'"
    using d(4) by (auto simp: all_intents_def and_then_Inr)
  then have "length intents \<le> 8192" using bound [of _ d_order _ "fst st" "snd st"] bound [of _ s_order st "fst st'" "snd st'"] by simp
  then show "length (fd_intents decision) \<le> 8192" by (simp add: d(3) assemble_def Let_def)
qed

lemma intent_sums_ok:
  "\<lbrakk>unat a + units_of Augment cs < 2 ^ 64; unat r + units_of Reduce cs < 2 ^ 64\<rbrakk> \<Longrightarrow>
   \<exists>a' r'. intent_sums cs (a, r) = Inr (a', r') \<and> unat a' = unat a + units_of Augment cs \<and>
     unat r' = unat r + units_of Reduce cs"
proof (induction cs arbitrary: a r)
  case (Cons c cs)
  show ?case
  proof (cases "ci_direction c")
    case Augment
    then have "checked_add a (ci_units c) = Some (a + ci_units c)" "unat (a + ci_units c) = unat a + unat (ci_units c)"
      using Cons.prems by (simp_all add: checked_add_exact unat_plus_exact)
    then show ?thesis using Cons.IH [of "a + ci_units c" r] Cons.prems Augment by (simp add: add.assoc)
  next
    case Reduce
    then have "checked_add r (ci_units c) = Some (r + ci_units c)" "unat (r + ci_units c) = unat r + unat (ci_units c)"
      using Cons.prems by (simp_all add: checked_add_exact unat_plus_exact)
    then show ?thesis using Cons.IH [of a "r + ci_units c"] Cons.prems Reduce by (simp add: add.assoc)
  qed
qed simp

lemma decision_sums:
  assumes "evaluate_fairness ctx = Some (Inr decision)"
  shows "cs_augment_units (fd_correction decision) = cs_reduce_units (fd_correction decision)"
    "intent_sums (fd_intents decision) (0, 0)
      = Inr (cs_augment_units (fd_correction decision), cs_reduce_units (fd_correction decision))"
proof -
  have "cs_augment_units (fd_correction decision) = cs_reduce_units (fd_correction decision) \<and>
    units_of Augment (fd_intents decision) = unat (cs_augment_units (fd_correction decision)) \<and>
    units_of Reduce (fd_intents decision) = unat (cs_reduce_units (fd_correction decision))"
  proof (rule decision_stages [OF assms])
    fix policy accounting tree whole d ready plans summary d_order s_order groups intents budget authorized
    assume dec: "fd_correction decision = summary" "fd_intents decision = intents"
      and len: "length plans = length (fp_subjects policy)"
      and ai: "all_intents policy accounting (ec_request ctx) (map2 (assign_outcome policy) (fp_subjects policy) plans)
         d_order s_order = Inr intents"
      and ord: "distinct d_order" "distinct s_order"
        "set d_order = {i. i < length plans \<and> pl_has_authority (ready ! i) \<and> 0 < pl_demand (ready ! i)}"
        "set s_order = {i. i < length plans \<and> pl_has_authority (ready ! i) \<and> 0 < pl_reducible (ready ! i)}"
      and sums: "(\<Sum>i\<in>set d_order. unat (pl_augment (plans ! i))) = unat authorized"
        "(\<Sum>i\<in>set s_order. unat (pl_reduce (plans ! i))) = unat authorized"
        "cs_augment_units summary = authorized" "cs_reduce_units summary = authorized"
    note u = units_of_intents [OF ai ord(1,2)]
    have "(\<Sum>i\<in>set d_order. unat (pl_augment (map2 (assign_outcome policy) (fp_subjects policy) plans ! i)))
        = (\<Sum>i\<in>set d_order. unat (pl_augment (plans ! i)))"
      "(\<Sum>i\<in>set s_order. unat (pl_reduce (map2 (assign_outcome policy) (fp_subjects policy) plans ! i)))
        = (\<Sum>i\<in>set s_order. unat (pl_reduce (plans ! i)))"
      by (rule sum.cong; use ord(3,4) len in simp)+
    then show ?thesis using u sums dec by simp
  qed
  then have s: "cs_augment_units (fd_correction decision) = cs_reduce_units (fd_correction decision)"
    "units_of Augment (fd_intents decision) = unat (cs_augment_units (fd_correction decision))"
    "units_of Reduce (fd_intents decision) = unat (cs_reduce_units (fd_correction decision))" by blast+
  show "cs_augment_units (fd_correction decision) = cs_reduce_units (fd_correction decision)" by (rule s(1))
  show "intent_sums (fd_intents decision) (0, 0)
      = Inr (cs_augment_units (fd_correction decision), cs_reduce_units (fd_correction decision))"
    using intent_sums_ok [of 0 "fd_intents decision" 0] s(2,3)
    by (auto simp: unat_u64_bounded intro: word_unat_eq_iff [THEN iffD2])
qed

text \<open>A request for the next window.\<close>

definition next_window :: "EvaluationRequest \<Rightarrow> Impl \<Rightarrow> bool" where
  "next_window request im \<longleftrightarrow> ac_last_window (im_accounting im) < rq_window request \<and>
     generation_valid (rq_window_generation request)"

lemma evaluated_checks:
  assumes ev: "governor_evaluate request im = Some (Inr decision)" and nw: "next_window request im"
  shows "check_decision decision im = Ok"
proof (rule governor_evaluate_Inr [OF ev])
  fix raw
  assume st: "\<not> im_stopping im" and raw: "evaluate_fairness (evaluation_context request im) = Some (Inr raw)"
    and dec: "decision = stamp_decision (im_incarnation im) raw"
  note sealed = decision_sealed [OF raw evaluation_context_simps(1,2)]
  have "id_valid (rq_window request)" using nw by (auto simp: next_window_def id_valid_def)
  then have "check_authority decision im = Ok"
    using st nw by (simp add: check_authority_def Let_def dec sealed(1) decision_authority_def evaluation_context_def
        next_window_def not_le)
  moreover have "length (fd_subjects raw) = length (fp_subjects (im_policy im))" by (rule decision_lengths [OF raw]) simp
  then have "check_contents decision im = Ok"
    using sealed(2,3) decision_sums [OF raw] by (simp add: check_contents_def Let_def dec digest_frame)
  ultimately show ?thesis by (simp add: check_decision_def)
qed

section \<open>The decision applies\<close>

text \<open>Counters that can take one more window.\<close>

definition entry_spare :: "SubjectAccounting \<Rightarrow> bool" where
  "entry_spare e \<longleftrightarrow> unat (sa_discarded_deficit e) < 2 ^ 62 \<and> unat (sa_discarded_surplus e) < 2 ^ 62 \<and>
     unat (sa_windows_observed e) + 1 < 2 ^ 64 \<and> unat (sa_total_served_units e) + 2 ^ 40 < 2 ^ 64"

definition counters_spare :: "FairnessAccounting \<Rightarrow> bool" where
  "counters_spare a \<longleftrightarrow> unat (ac_generation a) + 1 < 2 ^ 64 \<and> (\<forall>e\<in>set (ac_subjects a). entry_spare e)"

definition applicable :: "FairnessPolicy \<Rightarrow> SubjectFairnessState \<Rightarrow> bool" where
  "applicable policy s \<longleftrightarrow> unat (ss_served_units s) \<le> 2 ^ 40 \<and> unat (ss_entitlement_units s) \<le> 2 ^ 52 \<and>
     (\<exists>subject. find_subject policy (ss_id s) = Some subject \<and> sb_generation subject = ss_generation s)"

lemma apply_entry_total:
  assumes "entry_storable e" "entry_spare e" "applicable policy s"
  shows "\<exists>e'. apply_entry max_carry s e = Inr e'"
proof -
  have "\<bar>sint (ss_entitlement_units s - ss_served_units s)\<bar> < 2 ^ 62"
    using assms(3) by (intro signed_difference_exact(2)) (simp_all add: applicable_def)
  moreover have "unat (sa_cumulative_deficit e) < 2 ^ 62" "unat (sa_cumulative_surplus e) < 2 ^ 62"
    using assms(1) by (simp_all add: entry_storable_def word_le_nat_alt kMaxCarryUnits_def)
  ultimately obtain carry where "apply_window_carry e (ss_entitlement_units s - ss_served_units s) max_carry = Some carry"
    using apply_window_carry_total assms(2) unfolding entry_spare_def by blast
  moreover have "checked_add (sa_windows_observed e) 1 = Some (sa_windows_observed e + 1)"
      "checked_add (sa_total_served_units e) (ss_served_units s) = Some (sa_total_served_units e + ss_served_units s)"
    using assms(2,3) by (simp_all add: checked_add_exact entry_spare_def applicable_def)
  ultimately show ?thesis by (simp add: apply_entry_def)
qed

lemma apply_state_total:
  assumes "applicable policy s" "\<forall>e\<in>set es. sa_id e = ss_id s \<longrightarrow> entry_storable e \<and> entry_spare e"
  shows "\<exists>es'. apply_state policy s es = Inr es' \<and> {e \<in> set es'. sa_id e \<noteq> ss_id s} \<subseteq> set es"
proof (cases "ss_has_authority s")
  case False
  then show ?thesis by (auto simp: apply_state_def)
next
  case True
  obtain i where i: "entry_index (target_entries s es) (ss_id s) = Some i" "i < length (target_entries s es)"
      "sa_id (target_entries s es ! i) = ss_id s" by (rule target_entries_index)
  obtain subject where su: "find_subject policy (ss_id s) = Some subject" "sb_generation subject = ss_generation s"
    using assms(1) by (auto simp: applicable_def)
  have new: "entry_storable (default_subject_accounting\<lparr>sa_id := x, sa_generation := g\<rparr>) \<and>
      entry_spare (default_subject_accounting\<lparr>sa_id := x, sa_generation := g\<rparr>)" for x g
    by (simp add: entry_storable_def entry_spare_def default_subject_accounting_def)
  have sub: "set (target_entries s es) \<subseteq> insert (default_subject_accounting\<lparr>sa_id := ss_id s, sa_generation := ss_generation s\<rparr>) (set es)"
    by (simp add: target_entries_def split: option.split) blast
  then have "entry_storable (target_entries s es ! i) \<and> entry_spare (target_entries s es ! i)"
    using assms(2) new i(2,3) nth_mem [OF i(2)] by (metis insertE subsetD)
  then obtain e where e: "apply_entry (fp_max_carry_units policy) s (target_entries s es ! i) = Inr e"
    using apply_entry_total assms(1) by blast
  have "apply_state policy s es = Inr ((target_entries s es)[i := e])"
    using True su i(1) e by (simp add: apply_state_def target_entries_def [symmetric] Let_def)
  moreover have "x \<in> set es" if x: "x \<in> set ((target_entries s es)[i := e])" "sa_id x \<noteq> ss_id s" for x
  proof -
    have "x \<noteq> e" using apply_entry_Inr(1) [OF e] i(3) x(2) by auto
    then have "x \<in> set (target_entries s es)" using x(1) set_update_subset_insert by fastforce
    then show ?thesis using sub x(2) by auto
  qed
  ultimately show ?thesis by blast
qed

lemma apply_states_total:
  "\<lbrakk>\<forall>s\<in>set states. applicable policy s; distinct (map ss_id states);
    \<forall>e\<in>set es. sa_id e \<in> ss_id ` set states \<longrightarrow> entry_storable e \<and> entry_spare e\<rbrakk> \<Longrightarrow>
   \<exists>es'. apply_states policy states es = Inr es'"
proof (induction states arbitrary: es)
  case (Cons s states)
  obtain fs where fs: "apply_state policy s es = Inr fs" "{e \<in> set fs. sa_id e \<noteq> ss_id s} \<subseteq> set es"
    using apply_state_total [of policy s es] Cons.prems(1,3) by auto
  have "\<exists>es'. apply_states policy states fs = Inr es'"
  proof (rule Cons.IH)
    show "\<forall>e\<in>set fs. sa_id e \<in> ss_id ` set states \<longrightarrow> entry_storable e \<and> entry_spare e"
      using fs(2) Cons.prems(2,3) by (fastforce simp: image_iff)
  qed (use Cons.prems(1,2) in auto)
  then show ?case using fs(1) by simp
qed simp

lemma decision_applicable:
  assumes ok: "impl_ok im" and raw: "evaluate_fairness (evaluation_context request im) = Some (Inr raw)"
  shows "\<forall>s\<in>set (fd_subjects raw). applicable (im_policy im) s" "map ss_id (fd_subjects raw) = map sb_id (fp_subjects (im_policy im))"
proof -
  let ?p = "im_policy im"
  have valid: "validate_policy ?p = Ok" using ok by (simp add: impl_ok_def)
  then have wf: "policy_wf ?p" by (simp add: validate_policy_iff)
  have len: "length (fd_subjects raw) = length (fp_subjects ?p)" by (rule decision_lengths [OF raw]) simp
  have ev: "\<forall>evidence. ec_evidence (evaluation_context request im) = Some evidence \<longrightarrow> validate_evidence evidence = Ok"
    using staged_evidence(1) [OF ok] by simp
  have ids: "ss_id (fd_subjects raw ! i) = sb_id (fp_subjects ?p ! i) \<and>
      ss_generation (fd_subjects raw ! i) = sb_generation (fp_subjects ?p ! i)" if i: "i < length (fp_subjects ?p)" for i
    by (rule decision_subject [OF raw evaluation_context_simps(1) i]) (simp add: subject_state_def Let_def)
  show "map ss_id (fd_subjects raw) = map sb_id (fp_subjects ?p)"
    by (rule nth_equalityI) (simp_all add: len ids)
  show "\<forall>s\<in>set (fd_subjects raw). applicable ?p s"
  proof
    fix s assume "s \<in> set (fd_subjects raw)"
    then obtain i where i: "i < length (fp_subjects ?p)" "s = fd_subjects raw ! i" using len by (auto simp: in_set_conv_nth)
    have "find_subject ?p (sb_id (fp_subjects ?p ! i)) = Some (fp_subjects ?p ! i)"
      unfolding find_subject_def using wf i(1) by (intro find_distinct_key) (simp_all add: policy_wf_def)
    then show "applicable ?p s"
      using decision_units(1,2) [OF raw evaluation_context_simps(1) valid ev i(1)] ids [OF i(1)] i(2)
      by (simp add: applicable_def)
  qed
qed

lemma evaluated_applies:
  assumes ok: "impl_ok im" and ev: "governor_evaluate request im = Some (Inr decision)"
    and spare: "counters_spare (im_accounting im)"
  shows "\<exists>accounting. applied_accounting decision im = Inr accounting"
proof (rule governor_evaluate_Inr [OF ev])
  fix raw
  assume raw: "evaluate_fairness (evaluation_context request im) = Some (Inr raw)"
    and dec: "decision = stamp_decision (im_incarnation im) raw"
  note da = decision_applicable [OF ok raw]
  have "policy_wf (im_policy im)" using ok by (simp add: impl_ok_def validate_policy_iff)
  then have "distinct (map ss_id (fd_subjects raw))" unfolding da(2) by (simp add: policy_wf_def)
  then obtain es where "apply_states (im_policy im) (fd_subjects raw) (ac_subjects (im_accounting im)) = Inr es"
    using apply_states_total [OF da(1), of "ac_subjects (im_accounting im)"] ok spare
    by (auto simp: impl_ok_def accounting_storable_def counters_spare_def)
  moreover have "checked_add (ac_generation (im_accounting im)) 1 = Some (ac_generation (im_accounting im) + 1)"
    using spare by (simp add: checked_add_exact counters_spare_def)
  ultimately show ?thesis by (simp add: applied_accounting_def dec Let_def)
qed

lemma evaluation_progress:
  assumes ok: "impl_ok im" and "\<not> im_stopping im" and spare: "counters_spare (im_accounting im)"
  shows "\<exists>decision. governor_evaluate request im = Some (Inr decision)"
proof -
  have "accounting_bounded (im_accounting im)" using ok spare
    by (simp add: impl_ok_def accounting_storable_def counters_spare_def accounting_bounded_def entry_storable_def entry_spare_def)
  then have "\<exists>raw. evaluate_fairness (evaluation_context request im) = Some (Inr raw)"
    using ok staged_evidence(1) [OF ok] by (intro evaluation_total [where policy = "im_policy im"]) (simp_all add: impl_ok_def)
  then show ?thesis using assms(2) by (auto simp: governor_evaluate_def)
qed

lemma commit_progress:
  assumes ok: "impl_ok im" and "\<not> im_stopping im" and spare: "counters_spare (im_accounting im)"
    and nw: "next_window request im"
  obtains decision accounting where "governor_evaluate request im = Some (Inr decision)"
    "applied_accounting decision im = Inr accounting"
    "fst (governor_commit io decision im) = fst (commit_accounting io (im\<lparr>im_accounting := accounting\<rparr>))"
proof -
  obtain decision where d: "governor_evaluate request im = Some (Inr decision)"
    using evaluation_progress [OF assms(1-3)] by blast
  obtain accounting where a: "applied_accounting decision im = Inr accounting" using evaluated_applies [OF ok d spare] by blast
  obtain code jm where c: "commit_accounting io (im\<lparr>im_accounting := accounting\<rparr>) = (code, jm)" by force
  have "fst (governor_commit io decision im) = code"
    using evaluated_checks [OF d nw] a c by (simp add: governor_commit_def)
  then show ?thesis using that [OF d a] c by simp
qed

end
