(* ===== verification/FG_Runs.thy ===== *)
theory FG_Runs
  imports FG_Progress
begin

text \<open>
  Runs of a governor: what a sequence of calls can and cannot do to the committed window, the generation,
  the epoch and the carry of the subjects, with the properties of the running governor.
\<close>

section \<open>Runs of one governor\<close>

text \<open>One call on a governor, with whatever decisions, policies, evidence and failures a caller brings.\<close>

inductive governor_step :: "Impl \<Rightarrow> Impl \<Rightarrow> bool" where
  "governor_step im (snd (governor_commit io decision im))"
| "governor_step im (snd (install_policy io policy im))"
| "governor_step im (snd (advance_epoch io next_epoch im))"
| "governor_step im (snd (ingest_evidence snapshot im))"
| "governor_step im (clear_staged im)"
| "governor_step im (snd (governor_shutdown im))"

text \<open>What a step leaves in place or moves forward.\<close>

definition advanced :: "Impl \<Rightarrow> Impl \<Rightarrow> bool" where
  "advanced im jm \<longleftrightarrow> ac_last_window (im_accounting im) \<le> ac_last_window (im_accounting jm) \<and>
     ac_generation (im_accounting im) \<le> ac_generation (im_accounting jm) \<and> im_epoch im \<le> im_epoch jm \<and>
     fp_generation (im_policy im) \<le> fp_generation (im_policy jm) \<and> im_incarnation jm = im_incarnation im"

lemma advanced_refl [simp]: "advanced im im"
  by (simp add: advanced_def)

lemma advanced_trans: "\<lbrakk>advanced im jm; advanced jm km\<rbrakk> \<Longrightarrow> advanced im km"
  by (auto simp: advanced_def)

lemma advanced_frame:
  "advanced im (jm\<lparr>im_store := store\<rparr>) = advanced im jm"
  "advanced im (jm\<lparr>im_accounting_record_generation := g\<rparr>) = advanced im jm"
  "advanced im (jm\<lparr>im_policy_record_generation := g\<rparr>) = advanced im jm"
  "advanced im (clear_staged jm) = advanced im jm"
  by (simp_all add: advanced_def clear_staged_def)

text \<open>An accepted commit moves the generation by one and the window to that of the decision.\<close>

lemma applied_accounting_fields:
  assumes "applied_accounting decision im = Inr accounting"
  shows "ac_last_window accounting = av_window (fd_authority decision)"
    "ac_generation accounting = ac_generation (im_accounting im) + 1"
    "unat (ac_generation accounting) = unat (ac_generation (im_accounting im)) + 1"
proof -
  obtain entries generation where a: "checked_add (ac_generation (im_accounting im)) 1 = Some generation"
    "ac_last_window accounting = av_window (fd_authority decision)" "ac_generation accounting = generation"
    using assms by (auto simp: applied_accounting_def and_then_Inr Let_def split: option.splits)
  show "ac_last_window accounting = av_window (fd_authority decision)" by (rule a(2))
  show "ac_generation accounting = ac_generation (im_accounting im) + 1"
    "unat (ac_generation accounting) = unat (ac_generation (im_accounting im)) + 1"
    using checked_add_SomeD [OF a(1)] a(3) by auto
qed

lemma check_decision_window:
  assumes "check_decision decision im = Ok"
  shows "id_valid (av_window (fd_authority decision))" "ac_last_window (im_accounting im) < av_window (fd_authority decision)"
proof -
  have "check_authority decision im = Ok" using assms by (simp add: check_decision_def split: if_splits)
  then have a: "id_valid (av_window (fd_authority decision))"
      "id_valid (ac_last_window (im_accounting im)) \<longrightarrow> \<not> av_window (fd_authority decision) \<le> ac_last_window (im_accounting im)"
    by (simp_all add: check_authority_def Let_def split: if_splits)
  show "id_valid (av_window (fd_authority decision))" by (rule a(1))
  show "ac_last_window (im_accounting im) < av_window (fd_authority decision)"
    using a by (cases "ac_last_window (im_accounting im) = 0") (auto simp: id_valid_def word_gt_0)
qed

lemma commit_advances: "advanced im (snd (governor_commit io decision im))"
proof (cases rule: governor_commit_cases [of io decision im])
  case (refused code store)
  then show ?thesis by (simp add: advanced_frame)
next
  case (accepted accounting store g)
  have "ac_generation (im_accounting im) \<le> ac_generation accounting"
    using applied_accounting_fields(3) [OF accepted(2)] by (simp add: word_le_nat_alt)
  then show ?thesis using applied_accounting_fields(1) [OF accepted(2)] check_decision_window(2) [OF accepted(1)]
    by (simp add: accepted(3) advanced_def)
qed

lemma install_advances: "advanced im (snd (install_policy io policy im))"
proof (cases rule: install_policy_cases [of io policy im])
  case (entered store g store' g')
  have "fp_generation (im_policy im) < fp_generation policy"
    using entered(1) by (auto simp: check_install_def not_le split: if_splits)
  then have "advanced im (policy_entered policy im)"
    by (auto simp: policy_entered_def advanced_def clear_staged_def Let_def)
  then show ?thesis by (simp add: entered(2) advanced_frame)
next
  case (failed store g)
  show ?thesis unfolding failed(2) by (auto simp: put_back_def policy_entered_def advanced_def clear_staged_def Let_def)
qed simp

lemma epoch_advances: "advanced im (snd (advance_epoch io next_epoch im))"
  by (cases rule: advance_epoch_cases [of io next_epoch im])
    (simp_all add: epoch_entered_def advanced_def clear_staged_def)

lemma ingest_advances: "advanced im (snd (ingest_evidence snapshot im))"
  by (cases rule: ingest_evidence_cases [of snapshot im]) (simp_all add: stage_evidence_def advanced_def Let_def)

lemma step_advances: "governor_step im jm \<Longrightarrow> advanced im jm"
proof (induction rule: governor_step.induct)
  case (6 im)
  then show ?case by (simp add: governor_shutdown_def advanced_def clear_staged_def)
qed (simp_all add: commit_advances install_advances epoch_advances ingest_advances advanced_frame)

lemma run_advances: "governor_step\<^sup>*\<^sup>* im jm \<Longrightarrow> advanced im jm"
  by (induction rule: rtranclp_induct) (auto intro: advanced_trans step_advances)

lemma accepted_once:
  assumes "governor_commit io decision im = (Ok, jm)" "governor_step\<^sup>*\<^sup>* jm km"
  shows "fst (governor_commit io' decision km) \<noteq> Ok"
proof (cases rule: governor_commit_cases [of io decision im])
  case (refused code store)
  then show ?thesis using assms(1) by simp
next
  case (accepted accounting store g)
  have w: "ac_last_window (im_accounting jm) = av_window (fd_authority decision)"
    using accepted assms(1) applied_accounting_fields(1) by simp
  have "av_window (fd_authority decision) \<le> ac_last_window (im_accounting km)"
    using run_advances [OF assms(2)] w by (simp add: advanced_def)
  then have "check_decision decision km \<noteq> Ok" using check_decision_window(2) [of decision km] by auto
  then show ?thesis by (simp add: governor_commit_def)
qed

section \<open>The carry closure\<close>

lemma sum_list_update_int:
  "i < length xs \<Longrightarrow> sum_list (map f (xs[i := e])) = sum_list (map f xs) - f (xs ! i) + (f e :: int)"
proof (induction xs arbitrary: i)
  case (Cons x xs)
  then show ?case by (cases i) simp_all
qed simp

lemma target_closure: "sum_list (map entry_closure (target_entries state es)) = sum_list (map entry_closure es)"
  by (simp add: target_entries_def entry_closure_def closure_of_def default_subject_accounting_def split: option.split)

definition state_net :: "SubjectFairnessState \<Rightarrow> int" where
  "state_net s = (if ss_has_authority s then sint (ss_entitlement_units s - ss_served_units s) else 0)"

lemma apply_state_closure:
  assumes "apply_state policy state es = Inr es'"
  shows "sum_list (map entry_closure es') = sum_list (map entry_closure es) + state_net state"
proof (cases "ss_has_authority state")
  case False
  then show ?thesis using assms by (simp add: apply_state_def state_net_def)
next
  case True
  obtain i e subject where i: "find_subject policy (ss_id state) = Some subject" "sb_generation subject = ss_generation state"
    "entry_index (target_entries state es) (ss_id state) = Some i"
    "i < length (target_entries state es)" "sa_id (target_entries state es ! i) = ss_id state"
    "apply_entry (fp_max_carry_units policy) state (target_entries state es ! i) = Inr e"
    "es' = (target_entries state es)[i := e]" by (rule apply_state_Inr [OF assms(1) True])
  show ?thesis using apply_entry_Inr(6) [OF i(6)] True
    by (simp add: i(7) sum_list_update_int [OF i(4)] target_closure state_net_def)
qed

lemma apply_states_closure:
  "apply_states policy states es = Inr es' \<Longrightarrow>
   sum_list (map entry_closure es') = sum_list (map entry_closure es) + sum_list (map state_net states)"
proof (induction states arbitrary: es)
  case (Cons s states)
  obtain fs where fs: "apply_state policy s es = Inr fs" "apply_states policy states fs = Inr es'"
    using Cons.prems(1) by (auto simp: and_then_Inr)
  show ?case using apply_state_closure [OF fs(1)] Cons.IH [OF fs(2)] by simp
qed simp

lemma apply_intent_closure: "map entry_closure (apply_intent w c es) = map entry_closure es"
proof (cases "entry_index es (ci_subject c)")
  case (Some i)
  then have "i < length es" using entry_index_Some by blast
  then show ?thesis using Some
    by (simp add: apply_intent_def map_update entry_closure_def list_update_same_conv)
qed (simp add: apply_intent_def)

lemma apply_intents_closure: "map entry_closure (fold (apply_intent w) cs es) = map entry_closure es"
  by (induction cs arbitrary: es) (simp_all add: apply_intent_closure)

lemma applied_closure:
  assumes "applied_accounting decision im = Inr accounting"
  shows "closure_total accounting = closure_total (im_accounting im) + sum_list (map state_net (fd_subjects decision))"
proof -
  obtain entries where a: "apply_states (im_policy im) (fd_subjects decision) (ac_subjects (im_accounting im)) = Inr entries"
    "ac_subjects accounting = fold (apply_intent (av_window (fd_authority decision))) (fd_intents decision) entries"
    using assms by (auto simp: applied_accounting_def and_then_Inr Let_def split: option.splits)
  show ?thesis using apply_states_closure [OF a(1)] by (simp add: closure_total_def a(2) apply_intents_closure)
qed

text \<open>The net of an evaluated state, as a difference of numbers.\<close>

lemma evaluated_net:
  assumes ok: "impl_ok im" and raw: "evaluate_fairness (evaluation_context request im) = Some (Inr raw)"
    and s: "s \<in> set (fd_subjects raw)" "ss_has_authority s"
  shows "state_net s = int (unat (ss_entitlement_units s)) - int (unat (ss_served_units s))"
proof -
  have "unat (ss_served_units s) \<le> 2 ^ 40 \<and> unat (ss_entitlement_units s) \<le> 2 ^ 52"
    using decision_applicable(1) [OF ok raw] s(1) by (auto simp: applicable_def)
  then have "sint (ss_entitlement_units s - ss_served_units s)
      = int (unat (ss_entitlement_units s)) - int (unat (ss_served_units s))"
    by (intro signed_difference_exact(1)) simp_all
  then show ?thesis unfolding state_net_def using s(2) by (simp only: if_True)
qed

lemma nets_of_totals:
  assumes "\<forall>s\<in>set states. state_net s = int (unat (ss_entitlement_units s)) - int (unat (ss_served_units s))"
  shows "sum_list (map state_net states)
    = int (nsum (map ss_entitlement_units states)) - int (nsum (map ss_served_units states))"
  using assms by (induction states) (simp_all add: nsum_def)

section \<open>A governor in memory\<close>

definition sample_config :: GovernorConfig where
  "sample_config = \<lparr>gc_policy = sample_policy, gc_has_store_path = False, gc_epoch = 1,
     gc_limits = \<lparr>il_max_staged_snapshots = 64, il_max_history_windows = 64, il_max_observations_per_snapshot = 4096\<rparr>,
     gc_require_durability = False\<rparr>"

definition sample_incarnation :: Incarnation where
  "sample_incarnation = \<lparr>inc_boot = 7, inc_ordinal = 1\<rparr>"

definition sample_impl :: Impl where
  "sample_impl = stage_evidence sample_evidence (fresh_impl sample_config sample_incarnation)"

definition silent_io :: disk_io where "silent_io kind = no_failures"

lemma sample_config_ok: "check_config sample_config = Ok"
  by (simp add: check_config_def sample_config_def sample_policy_valid) (simp add: sample_policy_def generation_valid_def)

lemma sample_opened:
  "fst (governor_open silent_io sample_incarnation sample_config opened) = Inr (fresh_impl sample_config sample_incarnation)"
  using sample_config_ok by (simp add: governor_open_def) (simp add: sample_config_def)

lemma sample_ingested:
  "ingest_evidence sample_evidence (fresh_impl sample_config sample_incarnation)
    = (Inr (ingest_result Staged sample_evidence), sample_impl)"
  by (simp add: ingest_evidence_def sample_evidence_valid sample_impl_def)
    (simp add: fresh_impl_def sample_config_def sample_evidence_def default_accounting_def id_valid_def)

lemma sample_reachable: "reachable sample_impl {}"
  using reach_ingest [OF reach_open [OF sample_opened [of "Inl IoError"]], of sample_evidence] by (simp add: sample_ingested)

lemma sample_impl_fields:
  "im_store sample_impl = None" "im_accounting sample_impl = im_accounting (fresh_impl sample_config sample_incarnation)"
  "im_stopping sample_impl = False"
  by (simp_all add: sample_impl_def stage_evidence_def Let_def) (simp_all add: fresh_impl_def)

lemma sample_next: "next_window sample_request sample_impl" "counters_spare (im_accounting sample_impl)"
  by (simp_all add: next_window_def counters_spare_def sample_impl_fields fresh_impl_def default_accounting_def
      sample_request_def generation_valid_def)

lemma sample_commit:
  obtains decision where "governor_evaluate sample_request sample_impl = Some (Inr decision)"
    "fst (governor_commit silent_io decision sample_impl) = Ok"
proof -
  have ok: "impl_ok sample_impl" using reachable_ok [OF sample_reachable] by simp
  show ?thesis
    by (rule commit_progress [OF ok _ sample_next(2,1), of silent_io])
      (use that in \<open>simp_all add: sample_impl_fields commit_accounting_def\<close>)
qed

section \<open>Properties\<close>

text \<open>C24: Whatever a caller does with a governor after opening it (evaluations, commits of the decisions they
  returned, policy installations, epoch changes, evidence, clearing, shutdown, with any failure of the
  file system calls), the policy served is one the validation accepts, the epoch is not behind it, the
  accounting is in the domain of its durable encoding and carries the identity of the policy and the
  epoch, and the staged snapshots are valid, of the current epoch, in window order, one per window, and no more
  than the configured limit.\<close>

theorem reachable_states_are_legal:
  assumes "reachable im taken"
  shows "validate_policy (im_policy im) = Ok \<and> fp_epoch (im_policy im) \<le> im_epoch im \<and>
    accounting_storable (im_accounting im) \<and> ac_policy_id (im_accounting im) = fp_id (im_policy im) \<and>
    ac_policy_generation (im_accounting im) = fp_generation (im_policy im) \<and>
    ac_epoch (im_accounting im) = im_epoch im \<and>
    (\<forall>entry\<in>set (im_staged im). fst entry = ev_window (snd entry) \<and> validate_evidence (snd entry) = Ok \<and>
       ev_epoch (snd entry) = im_epoch im) \<and>
    sorted_wrt (<) (map fst (im_staged im)) \<and>
    length (im_staged im) \<le> unat (il_max_staged_snapshots (gc_limits (im_config im)))"
  using reachable_ok [OF assms] by (auto simp: impl_ok_def aligned_def staged_ok_def)

theorem reachable_states_are_legal_witness:
  "validate_policy (im_policy sample_impl) = Ok \<and> accounting_storable (im_accounting sample_impl) \<and>
   (\<exists>entry\<in>set (im_staged sample_impl). validate_evidence (snd entry) = Ok)"
proof -
  have "im_staged sample_impl = [(1, sample_evidence)]"
    by (simp add: sample_impl_def stage_evidence_def Let_def fresh_impl_def trim_front_def sample_config_def)
      (simp add: sample_evidence_def)
  then show ?thesis using reachable_states_are_legal [OF sample_reachable] by auto
qed

text \<open>C25: A decision is committed at most once. After a commit was accepted, no sequence of calls on the
  same governor (commits of any decisions, policies, epochs, evidence, failures of the store) leads to
  a state that accepts the same decision again.\<close>

theorem decision_commits_at_most_once:
  assumes "governor_commit io decision im = (Ok, jm)" "governor_step\<^sup>*\<^sup>* jm km"
  shows "fst (governor_commit io' decision km) \<noteq> Ok"
  by (rule accepted_once [OF assms])

theorem decision_commits_at_most_once_witness:
  "\<exists>decision jm. governor_commit silent_io decision sample_impl = (Ok, jm) \<and>
     fst (governor_commit silent_io decision (snd (ingest_evidence sample_evidence jm))) \<noteq> Ok"
proof -
  obtain decision where d: "fst (governor_commit silent_io decision sample_impl) = Ok" by (rule sample_commit)
  then obtain jm where c: "governor_commit silent_io decision sample_impl = (Ok, jm)" by (metis prod.collapse)
  have "governor_step\<^sup>*\<^sup>* jm (snd (ingest_evidence sample_evidence jm))"
    by (intro r_into_rtranclp governor_step.intros(4))
  then show ?thesis using decision_commits_at_most_once [OF c] c by blast
qed

text \<open>C26: A commit conserves the carry. The deficits less the surpluses of all subjects, the discarded ones
  included, move by exactly the entitlements less the served units of the subjects the decision has
  authority over, saturation or not; and when every subject has authority they do not move at
  all. (Deficits count positive and surpluses negative, carried and discarded alike: the identity that the comment on
  \<open>apply_window_carry\<close> states; for the one at the head of \<open>accounting.hpp\<close> see \<open>header_identity_fails\<close>.)\<close>

theorem commit_conserves_carry:
  assumes "reachable im taken" "governor_evaluate request im = Some (Inr decision)"
    and "governor_commit io decision im = (Ok, jm)"
  shows "closure_total (im_accounting jm) - closure_total (im_accounting im)
      = (\<Sum>s\<leftarrow>filter ss_has_authority (fd_subjects decision).
           int (unat (ss_entitlement_units s)) - int (unat (ss_served_units s))) \<and>
    ((\<forall>s\<in>set (fd_subjects decision). ss_has_authority s) \<longrightarrow>
      closure_total (im_accounting jm) = closure_total (im_accounting im))"
proof (rule conjI)
  have ok: "impl_ok im" using reachable_ok [OF assms(1)] by blast
  obtain raw where raw: "evaluate_fairness (evaluation_context request im) = Some (Inr raw)"
      "decision = stamp_decision (im_incarnation im) raw" by (rule governor_evaluate_Inr [OF assms(2)])
  have moved: "closure_total (im_accounting jm) = closure_total (im_accounting im) + sum_list (map state_net (fd_subjects raw))"
  proof (cases rule: governor_commit_cases [of io decision im])
    case (accepted accounting store g)
    then have "im_accounting jm = accounting" using assms(3) by auto
    then show ?thesis using applied_closure [OF accepted(2)] raw(2) by simp
  qed (use assms(3) in simp)
  note net = evaluated_net [OF ok raw(1)]
  have "sum_list (map state_net states) = (\<Sum>s\<leftarrow>filter ss_has_authority states.
      int (unat (ss_entitlement_units s)) - int (unat (ss_served_units s)))"
    if "set states \<subseteq> set (fd_subjects raw)" for states
    using that by (induction states) (auto simp: net, simp add: state_net_def)
  then show "closure_total (im_accounting jm) - closure_total (im_accounting im)
      = (\<Sum>s\<leftarrow>filter ss_has_authority (fd_subjects decision).
           int (unat (ss_entitlement_units s)) - int (unat (ss_served_units s)))"
    using moved raw(2) by simp
  have "validate_policy (im_policy im) = Ok" using ok by (simp add: impl_ok_def)
  then show "(\<forall>s\<in>set (fd_subjects decision). ss_has_authority s) \<longrightarrow>
      closure_total (im_accounting jm) = closure_total (im_accounting im)"
    using decision_totals [OF raw(1) evaluation_context_simps(1)] nets_of_totals [of "fd_subjects raw"] net moved raw(2) by auto
qed

theorem commit_conserves_carry_witness:
  "\<exists>decision jm. governor_commit silent_io decision sample_impl = (Ok, jm) \<and>
     closure_total (im_accounting jm) = (\<Sum>s\<leftarrow>filter ss_has_authority (fd_subjects decision).
           int (unat (ss_entitlement_units s)) - int (unat (ss_served_units s)))"
proof -
  obtain decision where d: "governor_evaluate sample_request sample_impl = Some (Inr decision)"
    "fst (governor_commit silent_io decision sample_impl) = Ok" by (rule sample_commit)
  then obtain jm where c: "governor_commit silent_io decision sample_impl = (Ok, jm)" by (metis prod.collapse)
  have "closure_total (im_accounting sample_impl) = 0"
    by (simp add: sample_impl_fields fresh_impl_def default_accounting_def closure_total_def)
  then show ?thesis using commit_conserves_carry [OF sample_reachable d(1) c] c by auto
qed

text \<open>C27: The governor makes progress. In every reachable state of a governor that is not shutting down and
  whose counters are not exhausted, evaluating the next window returns a decision, that decision passes
  every check of its commit and applies to the accounting, and the commit returns what the durable write of the
  new accounting returns: success when the governor is in memory.\<close>

theorem next_window_commits:
  assumes "reachable im taken" "\<not> im_stopping im" "counters_spare (im_accounting im)" "next_window request im"
  shows "\<exists>decision accounting. governor_evaluate request im = Some (Inr decision) \<and>
    applied_accounting decision im = Inr accounting \<and>
    fst (governor_commit io decision im) = fst (commit_accounting io (im\<lparr>im_accounting := accounting\<rparr>)) \<and>
    (im_store im = None \<longrightarrow> fst (governor_commit io decision im) = Ok)"
proof -
  have ok: "impl_ok im" using reachable_ok [OF assms(1)] by blast
  obtain decision accounting where "governor_evaluate request im = Some (Inr decision)"
    "applied_accounting decision im = Inr accounting"
    "fst (governor_commit io decision im) = fst (commit_accounting io (im\<lparr>im_accounting := accounting\<rparr>))"
    by (rule commit_progress [OF ok assms(2-4)])
  then show ?thesis by (auto simp: commit_accounting_def)
qed

theorem next_window_commits_witness:
  "\<exists>decision. governor_evaluate sample_request sample_impl = Some (Inr decision) \<and>
     fst (governor_commit silent_io decision sample_impl) = Ok"
  using next_window_commits [OF sample_reachable _ sample_next(2,1), of silent_io] by (auto simp: sample_impl_fields)

end
