(* ===== verification/FG_Restart.thy ===== *)
theory FG_Restart
  imports FG_Runs
begin

text \<open>
  Restart: a governor opened on the files a committed window left serves the same policy, epoch and
  accounting, and no evidence.
\<close>

section \<open>Recovery of an intact record\<close>

text \<open>The reads of an operation find what is stored.\<close>

definition reads_succeed :: "io \<Rightarrow> bool" where
  "reads_succeed io \<longleftrightarrow> (\<forall>slot k. io (Read slot k) = None)"

lemma reads_stored: "reads_succeed io \<Longrightarrow> store_load io k kind fs = stored kind fs"
  by (rule load_stored) (simp add: reads_succeed_def)

lemma recover_intact:
  assumes "reads_succeed io" "lr_present (stored kind fs)" "loaded_ok (stored kind fs)"
  shows "\<exists>fs' notes'. store_recover io kind fs notes0 = (Ok, fs', notes') \<and> fs' Base = fs Base"
proof -
  have "store_load io 0 kind fs = stored kind fs" by (rule reads_stored [OF assms(1)])
  then show ?thesis using assms(2,3) by (auto simp: store_recover_def Let_def file_ops_frame)
qed

text \<open>The committed record of one kind.\<close>

definition durable :: "RecordKind \<Rightarrow> bytes \<Rightarrow> files \<Rightarrow> bool" where
  "durable kind payload fs \<longleftrightarrow> lr_present (stored kind fs) \<and> loaded_ok (stored kind fs) \<and>
     lr_payload (stored kind fs) = payload"

lemma durable_cong: "fs Base = gs Base \<Longrightarrow> durable kind payload fs = durable kind payload gs"
  unfolding durable_def by (simp add: store_load_cong [of fs gs no_failures 0 kind])

lemma recover_records_intact:
  assumes "durable PolicyRecord p (st_policy store)" "durable AccountingRecord a (st_accounting store)"
    and io: "\<And>kind. reads_succeed (io kind)"
  obtains f store' where "recover_records io store im = (Ok, report f (im\<lparr>im_store := Some store'\<rparr>))"
    "st_policy store' Base = st_policy store Base" "st_accounting store' Base = st_accounting store Base"
proof -
  obtain pf pn where p: "store_recover (io PolicyRecord) PolicyRecord (st_policy store) no_notes = (Ok, pf, pn)"
      "pf Base = st_policy store Base"
    using recover_intact [OF io] assms(1) unfolding durable_def by blast
  obtain af an where a: "store_recover (io AccountingRecord) AccountingRecord (st_accounting store) no_notes = (Ok, af, an)"
      "af Base = st_accounting store Base"
    using recover_intact [OF io] assms(2) unfolding durable_def by blast
  have "\<exists>f. recover_records io store im = (Ok, report f (im\<lparr>im_store := Some (store\<lparr>st_policy := pf, st_accounting := af\<rparr>)\<rparr>))"
    by (simp add: recover_records_def p(1) a(1) Let_def) blast
  then show ?thesis using that p(2) a(2) by force
qed

lemma load_policy_intact:
  assumes "durable PolicyRecord (encode_policy (im_policy im)) (st_policy store)" "validate_policy (im_policy im) = Ok"
    and "\<And>kind. reads_succeed (io kind)"
  obtains f g where "load_policy io store im = (Ok, report f (im\<lparr>im_policy_record_generation := g\<rparr>))"
  using assms by (simp add: load_policy_def durable_def decode_policy_inverse reads_stored Let_def)

lemma load_accounting_intact:
  assumes "durable AccountingRecord (encode_accounting a) (st_accounting store)"
    and "accounting_storable a" "length (ac_subjects a) \<le> 47661" "\<And>kind. reads_succeed (io kind)"
  shows "load_accounting io store im = (Ok, adopt_accounting a
    (im\<lparr>im_accounting_record_generation := lr_generation (stored AccountingRecord (st_accounting store))\<rparr>))"
  using assms by (simp add: load_accounting_def durable_def decode_accounting_inverse reads_stored Let_def)

lemma adopt_accounting_fields:
  "im_policy (adopt_accounting a im) = im_policy im"
  "im_epoch (adopt_accounting a im) = max (im_epoch im) (ac_epoch a)"
  "im_accounting (adopt_accounting a im) = a\<lparr>ac_subjects := kept_entries (im_policy im) (ac_subjects a),
     ac_policy_id := fp_id (im_policy im), ac_policy_generation := fp_generation (im_policy im),
     ac_epoch := max (im_epoch im) (ac_epoch a)\<rparr>"
  "im_accounting_record_generation (adopt_accounting a im) = im_accounting_record_generation im"
  by (auto simp: adopt_accounting_def Let_def align_accounting_def report_def max_def not_less)

text \<open>What opening on intact records yields.\<close>

lemma open_intact:
  assumes config: "check_config config = Ok" "gc_has_store_path config"
    and dp: "durable PolicyRecord (encode_policy (gc_policy config)) (st_policy store)"
    and da: "durable AccountingRecord (encode_accounting a) (st_accounting store)"
      "accounting_storable a" "length (ac_subjects a) \<le> 47661"
    and io: "\<And>kind. reads_succeed (io kind)"
  obtains km where "fst (governor_open io incarnation config (Inr store)) = Inr km"
    "im_policy km = gc_policy config" "im_epoch km = max (gc_epoch config) (ac_epoch a)"
    "im_accounting km = a\<lparr>ac_subjects := kept_entries (gc_policy config) (ac_subjects a),
       ac_policy_id := fp_id (gc_policy config), ac_policy_generation := fp_generation (gc_policy config),
       ac_epoch := max (gc_epoch config) (ac_epoch a)\<rparr>"
    "im_accounting_record_generation km = lr_generation (stored AccountingRecord (st_accounting store))"
    "im_staged km = []" "im_ingested km = []" "im_publisher_sequences km = []"
proof -
  let ?fresh = "fresh_impl config incarnation"
  obtain f store' where r: "recover_records io store ?fresh = (Ok, report f (?fresh\<lparr>im_store := Some store'\<rparr>))"
    "st_policy store' Base = st_policy store Base" "st_accounting store' Base = st_accounting store Base"
    by (rule recover_records_intact [OF dp da(1) io])
  define rm where "rm = report f (?fresh\<lparr>im_store := Some store'\<rparr>)"
  have rm: "im_store rm = Some store'" "im_policy rm = gc_policy config" "im_epoch rm = gc_epoch config"
    by (simp_all add: rm_def report_def fresh_impl_def)
  have valid: "validate_policy (gc_policy config) = Ok" using config(1) by (simp add: check_config_def Let_def split: if_splits)
  have dp': "durable PolicyRecord (encode_policy (im_policy rm)) (st_policy store')"
    using dp durable_cong [of "st_policy store'" "st_policy store"] r(2) rm(2) by simp
  obtain f' g where l: "load_policy io store' rm = (Ok, report f' (rm\<lparr>im_policy_record_generation := g\<rparr>))"
    by (rule load_policy_intact [OF dp' _ io]) (use valid rm(2) in simp_all)
  define pm where "pm = align_accounting (report f' (rm\<lparr>im_policy_record_generation := g\<rparr>))"
  have pm: "im_policy pm = gc_policy config" "im_epoch pm = gc_epoch config"
    "im_store (report f' (rm\<lparr>im_policy_record_generation := g\<rparr>)) = Some store'"
    by (simp_all add: pm_def align_accounting_def report_def rm)
  define h where "h = lr_generation (stored AccountingRecord (st_accounting store'))"
  have da': "durable AccountingRecord (encode_accounting a) (st_accounting store')"
    using da(1) durable_cong [of "st_accounting store'" "st_accounting store"] r(3) by simp
  define km where "km = clear_staged (adopt_accounting a (pm\<lparr>im_accounting_record_generation := h\<rparr>))"
  have "load_accounting io store' pm = (Ok, adopt_accounting a (pm\<lparr>im_accounting_record_generation := h\<rparr>))"
    unfolding h_def by (rule load_accounting_intact [OF da' da(2,3) io])
  then have "fst (governor_open io incarnation config (Inr store)) = Inr km"
    using config r(1) l pm(3)
    by (simp add: governor_open_def rm_def [symmetric] pm_def [symmetric] km_def rm(1) Let_def)
  moreover have "h = lr_generation (stored AccountingRecord (st_accounting store))"
    unfolding h_def using r(3) store_load_cong [of "st_accounting store'" "st_accounting store" no_failures 0 AccountingRecord] by simp
  ultimately show ?thesis
    by (intro that [of km]) (simp_all add: km_def clear_staged_def adopt_accounting_fields pm)
qed

section \<open>A durable commit\<close>

lemma commit_accounting_durable:
  assumes "commit_accounting io im = (Ok, jm)" "im_store im = Some store" "st_faults store = no_faults"
  obtains store' where "im_store jm = Some store'" "st_policy store' = st_policy store"
    "durable AccountingRecord (encode_accounting (im_accounting im)) (st_accounting store')"
    "lr_generation (stored AccountingRecord (st_accounting store')) = im_accounting_record_generation jm"
    "length (ac_subjects (im_accounting im)) \<le> 47661"
proof -
  obtain code fs where c: "store_commit (io AccountingRecord) no_faults AccountingRecord
                 (im_accounting_record_generation im) (im_accounting_record_generation im + 1)
                 (encode_accounting (im_accounting im)) (im_incarnation im) (st_accounting store) = (code, fs)" by force
  have code: "code = Ok" using assms c by (cases "code = Ok") (simp_all add: commit_accounting_def Let_def)
  have jm: "im_store jm = Some (store\<lparr>st_accounting := fs\<rparr>)"
    "im_accounting_record_generation jm = im_accounting_record_generation im + 1"
    using assms c code by (auto simp: commit_accounting_def Let_def)
  have ld: "stored AccountingRecord fs = committed_record AccountingRecord (im_accounting_record_generation im + 1)
      (im_incarnation im) (encode_accounting (im_accounting im))"
    using commit_loads [OF c] code by simp
  have "length (encode_accounting (im_accounting im)) \<le> 2 ^ 22"
    using store_commit_outcome [OF c] code check_commit_payload by blast
  then have "length (ac_subjects (im_accounting im)) \<le> 47661" by (simp add: encoded_accounting_length)
  then show ?thesis using that [OF jm(1)] ld jm(2) by (simp add: durable_def)
qed

lemma governor_commit_durable:
  assumes "governor_commit io decision im = (Ok, jm)" "im_store im = Some store" "st_faults store = no_faults"
  obtains store' where "im_store jm = Some store'" "st_policy store' = st_policy store"
    "durable AccountingRecord (encode_accounting (im_accounting jm)) (st_accounting store')"
    "lr_generation (stored AccountingRecord (st_accounting store')) = im_accounting_record_generation jm"
    "length (ac_subjects (im_accounting jm)) \<le> 47661"
proof (cases rule: governor_commit_cases [of io decision im])
  case (refused code store)
  then show ?thesis using assms(1) by simp
next
  case (accepted accounting store' g)
  let ?im = "im\<lparr>im_accounting := accounting\<rparr>"
  have c: "commit_accounting io ?im = (Ok, jm)"
    using assms(1) accepted(1,2) by (auto simp: governor_commit_def Let_def split: prod.splits if_splits)
  have "im_accounting jm = accounting" using accepted(3) assms(1) by auto
  then show ?thesis by - (rule commit_accounting_durable [OF c]; use assms(2,3) that in simp)
qed

section \<open>A governor on disk\<close>

definition sample_disk_config :: GovernorConfig where
  "sample_disk_config = sample_config\<lparr>gc_has_store_path := True\<rparr>"

definition empty_store :: DurableStore where
  "empty_store = \<lparr>st_policy = (\<lambda>_. None), st_accounting = (\<lambda>_. None), st_faults = no_faults\<rparr>"

lemma sample_disk_config_ok: "check_config sample_disk_config = Ok"
  using sample_config_ok by (simp add: check_config_def sample_disk_config_def Let_def sample_config_def split: if_splits)

lemma sample_writer_valid: "id_valid (inc_boot sample_incarnation)" "inc_ordinal sample_incarnation \<noteq> 0"
  by code_simp+

lemma first_commit:
  assumes "fs Base = None" "length payload \<le> 2 ^ 22" "id_valid (inc_boot writer)" "inc_ordinal writer \<noteq> 0"
  obtains fs' where "store_commit no_failures no_faults kind 0 1 payload writer fs = (Ok, fs')"
    "stored kind fs' = committed_record kind 1 writer payload"
proof -
  have "check_commit no_failures no_faults kind 0 1 payload writer fs = Ok"
    using assms by (simp add: check_commit_def fs_exists_def)
  then obtain fs' where c: "store_commit no_failures no_faults kind 0 1 payload writer fs = (Ok, fs')"
    using commit_succeeds by (metis prod.collapse)
  show ?thesis by (rule that [OF c]) (use commit_loads [OF c] in simp)
qed

lemma sample_disk_opened:
  obtains im store where "fst (governor_open silent_io sample_incarnation sample_disk_config (Inr empty_store)) = Inr im"
    "im_store im = Some store" "st_accounting store = (\<lambda>_. None)" "st_faults store = no_faults"
    "durable PolicyRecord (encode_policy sample_policy) (st_policy store)"
    "im_accounting_record_generation im = 0" "im_incarnation im = sample_incarnation"
    "im_policy im = sample_policy" "im_epoch im = 1" "im_stopping im = False" "im_staged im = []" "im_ingested im = []"
    "im_publisher_sequences im = []" "im_config im = sample_disk_config"
    "im_accounting im = im_accounting (fresh_impl sample_config sample_incarnation)"
proof -
  let ?fresh = "fresh_impl sample_disk_config sample_incarnation"
  have rec: "store_recover io kind (\<lambda>_. None) n = (Ok, \<lambda>_. None, n)" for io kind n
    by (simp add: store_recover_def fs_exists_def Let_def)
  obtain f where r: "recover_records silent_io empty_store ?fresh = (Ok, report f (?fresh\<lparr>im_store := Some empty_store\<rparr>))"
    by (simp add: recover_records_def empty_store_def rec Let_def)
  define rm where "rm = report f (?fresh\<lparr>im_store := Some empty_store\<rparr>)"
  define rm' where "rm' = report (\<lambda>r. r\<lparr>rr_policy_code := NotFound\<rparr>) rm"
  have gens: "im_policy_record_generation rm' = 0" "im_store rm' = Some empty_store" "im_policy rm' = sample_policy"
    "im_incarnation rm' = sample_incarnation"
    by (simp_all add: rm'_def rm_def report_def fresh_impl_def sample_disk_config_def sample_config_def)
  have "length (encode_policy sample_policy) \<le> 2 ^ 22" using encoded_policy_fits [of sample_policy] sample_policy_valid by (simp add: validate_policy_iff)
  then obtain fs where c: "store_commit no_failures no_faults PolicyRecord 0 1 (encode_policy sample_policy) sample_incarnation (\<lambda>_. None) = (Ok, fs)"
    "stored PolicyRecord fs = committed_record PolicyRecord 1 sample_incarnation (encode_policy sample_policy)"
    using first_commit [of "\<lambda>_. None" "encode_policy sample_policy" sample_incarnation PolicyRecord] sample_writer_valid
    by blast
  define store where "store = empty_store\<lparr>st_policy := fs\<rparr>"
  define pm where "pm = report (\<lambda>r. r\<lparr>rr_policy_committed := True\<rparr>)
      (rm'\<lparr>im_store := Some store, im_policy_record_generation := 1\<rparr>)"
  have "commit_policy silent_io rm' = (Ok, rm'\<lparr>im_store := Some store, im_policy_record_generation := 1\<rparr>)"
    using c(1) gens by (simp add: commit_policy_def silent_io_def store_def empty_store_def Let_def)
  then have "install_configured silent_io rm' = (Ok, pm)" by (simp add: install_configured_def pm_def)
  moreover have absent: "store_load io k kind (\<lambda>_. None) = loaded_failure kind False NotFound" for io k kind
    by (simp add: store_load_def fs_exists_def)
  ultimately have l: "load_policy silent_io empty_store rm = (Ok, pm)"
    by (simp add: load_policy_def empty_store_def rm'_def [symmetric] loaded_failure_def)
  define im where "im = clear_staged (report (\<lambda>r. r\<lparr>rr_accounting_code := NotFound\<rparr>) (align_accounting pm))"
  have r': "recover_records silent_io empty_store ?fresh = (Ok, rm)" unfolding rm_def by (rule r)
  have stores: "im_store rm = Some empty_store" "im_store pm = Some store"
    by (simp_all add: rm_def report_def pm_def)
  have "st_accounting store = (\<lambda>_. None)" by (simp add: store_def empty_store_def)
  then have la: "load_accounting silent_io store (align_accounting pm)
      = (Ok, report (\<lambda>r. r\<lparr>rr_accounting_code := NotFound\<rparr>) (align_accounting pm))"
    by (simp add: load_accounting_def absent) (simp add: loaded_failure_def)
  have path: "gc_has_store_path sample_disk_config" by (simp add: sample_disk_config_def)
  have "fst (governor_open silent_io sample_incarnation sample_disk_config (Inr empty_store)) = Inr im"
    unfolding governor_open_def Let_def
    by (simp add: sample_disk_config_ok path r' stores l la im_def)
  then show ?thesis
    by (rule that [of im store]) (simp_all add: im_def pm_def rm'_def rm_def report_def store_def empty_store_def
      clear_staged_def align_accounting_def fresh_impl_def sample_disk_config_def sample_config_def sample_policy_def
      default_accounting_def durable_def c(2))
qed

lemma apply_states_length:
  "apply_states policy states es = Inr es' \<Longrightarrow> length es' \<le> length es + length states"
proof (induction states arbitrary: es)
  case (Cons s states)
  obtain fs where fs: "apply_state policy s es = Inr fs" "apply_states policy states fs = Inr es'"
    using Cons.prems(1) by (auto simp: and_then_Inr)
  have "length fs \<le> length es + 1"
  proof (cases "ss_has_authority s")
    case True
    show ?thesis by (rule apply_state_Inr [OF fs(1) True]) (simp add: target_entries_def split: option.splits)
  qed (use fs(1) in \<open>simp add: apply_state_def\<close>)
  then show ?case using Cons.IH [OF fs(2)] by simp
qed simp

lemma applied_accounting_length:
  assumes "applied_accounting decision im = Inr accounting"
  shows "length (ac_subjects accounting) \<le> length (ac_subjects (im_accounting im)) + length (fd_subjects decision)"
proof -
  have "length (fold (apply_intent w) cs es) = length es" for w cs es
    by (induction cs arbitrary: es) (simp_all add: apply_intent_def split: option.split)
  then show ?thesis using assms apply_states_length
    by (fastforce simp: applied_accounting_def and_then_Inr Let_def split: option.splits)
qed

text \<open>A committed window of a governor on disk, and the files it leaves.\<close>

lemma sample_disk_commit:
  obtains im before decision jm store where "reachable im {decision}"
    "governor_commit silent_io decision im = (Ok, jm)" "im_store im = Some before" "st_faults before = no_faults"
    "im_store jm = Some store" "durable PolicyRecord (encode_policy (im_policy jm)) (st_policy store)"
    "im_policy jm = sample_policy"
proof -
  obtain im store where o: "fst (governor_open silent_io sample_incarnation sample_disk_config (Inr empty_store)) = Inr im"
    "im_store im = Some store" "st_accounting store = (\<lambda>_. None)" "st_faults store = no_faults"
    "durable PolicyRecord (encode_policy sample_policy) (st_policy store)"
    "im_accounting_record_generation im = 0" "im_incarnation im = sample_incarnation"
    "im_policy im = sample_policy" "im_stopping im = False"
    "im_accounting im = im_accounting (fresh_impl sample_config sample_incarnation)"
    by (rule sample_disk_opened) blast
  have reach: "reachable im {}" by (rule reach_open [OF o(1)])
  then have ok: "impl_ok im" using reachable_ok by blast
  have acc: "ac_subjects (im_accounting im) = []" "ac_last_window (im_accounting im) = 0" "ac_generation (im_accounting im) = 0"
    by (simp_all add: o(10) fresh_impl_def default_accounting_def)
  have nw: "next_window sample_request im" "counters_spare (im_accounting im)"
    by (simp_all add: next_window_def counters_spare_def acc sample_request_def generation_valid_def)
  obtain decision accounting where d: "governor_evaluate sample_request im = Some (Inr decision)"
    "applied_accounting decision im = Inr accounting"
    "fst (governor_commit silent_io decision im) = fst (commit_accounting silent_io (im\<lparr>im_accounting := accounting\<rparr>))"
    by (rule commit_progress [OF ok _ nw(2,1), of silent_io]) (simp_all add: o(9))
  have "length (fd_subjects decision) = 3"
  proof (rule governor_evaluate_Inr [OF d(1)])
    fix raw
    assume raw: "evaluate_fairness (evaluation_context sample_request im) = Some (Inr raw)"
      and "decision = stamp_decision (im_incarnation im) raw"
    then show ?thesis using decision_lengths [OF raw evaluation_context_simps(1)] by (simp add: o(8) sample_policy_def)
  qed
  then have "length (ac_subjects accounting) \<le> 3" using applied_accounting_length [OF d(2)] acc(1) by simp
  then have "length (encode_accounting accounting) \<le> 2 ^ 22" by (simp add: encoded_accounting_length)
  then obtain fs where "store_commit no_failures no_faults AccountingRecord 0 1 (encode_accounting accounting)
      sample_incarnation (\<lambda>_. None) = (Ok, fs)"
    using first_commit [of "\<lambda>_. None" "encode_accounting accounting" sample_incarnation AccountingRecord] sample_writer_valid
    by blast
  then have "fst (commit_accounting silent_io (im\<lparr>im_accounting := accounting\<rparr>)) = Ok"
    by (simp add: commit_accounting_def silent_io_def o Let_def)
  then have "fst (governor_commit silent_io decision im) = Ok" using d(3) by simp
  then obtain jm where j: "governor_commit silent_io decision im = (Ok, jm)" by (metis prod.collapse)
  obtain store' where s: "im_store jm = Some store'" "st_policy store' = st_policy store"
    by (rule governor_commit_durable [OF j o(2,4)])
  have "im_policy jm = im_policy im"
    using j by (cases rule: governor_commit_cases [of silent_io decision im]) auto
  then show ?thesis
    using that [OF reach_evaluate [OF reach d(1), folded One_nat_def] j o(2,4) s(1)] o(5,8) s(2) by simp
qed

section \<open>Properties\<close>

text \<open>C28: Restart. After an accepted commit, a governor that is opened on the committed files of the store
  (whatever temporary file, journal or backup lies beside them, whichever calls of the recovery that change files
  fail, as long as its reads do not, and under any incarnation) with the policy that was served opens, serves the same policy and epoch and the
  committed accounting less the entries of subjects that the policy no longer has, continues with the
  record generation of the store, has no evidence and no publisher state, and does not accept the committed
  decision again.\<close>

theorem restart_restores_accounting:
  assumes "reachable im taken" "decision \<in> taken" "governor_commit io decision im = (Ok, jm)"
    and "im_store im = Some before" "st_faults before = no_faults" "im_store jm = Some store"
    and "durable PolicyRecord (encode_policy (im_policy jm)) (st_policy store)"
    and "check_config config = Ok" "gc_has_store_path config" "gc_policy config = im_policy jm"
    and "st_policy found Base = st_policy store Base" "st_accounting found Base = st_accounting store Base"
    and "\<And>kind. reads_succeed (io' kind)"
  shows "\<exists>km. fst (governor_open io' incarnation config (Inr found)) = Inr km \<and>
    im_policy km = im_policy jm \<and> im_epoch km = im_epoch jm \<and>
    im_accounting km = (im_accounting jm)\<lparr>ac_subjects := kept_entries (im_policy jm) (ac_subjects (im_accounting jm))\<rparr> \<and>
    im_accounting_record_generation km = im_accounting_record_generation jm \<and>
    im_staged km = [] \<and> im_ingested km = [] \<and> im_publisher_sequences km = [] \<and>
    (\<forall>io''. fst (governor_commit io'' decision km) \<noteq> Ok)"
proof -
  let ?a = "im_accounting jm"
  obtain store' where s: "im_store jm = Some store'"
    "durable AccountingRecord (encode_accounting ?a) (st_accounting store')"
    "lr_generation (stored AccountingRecord (st_accounting store')) = im_accounting_record_generation jm"
    "length (ac_subjects ?a) \<le> 47661"
    by (rule governor_commit_durable [OF assms(3,4,5)])
  have eq: "store' = store" using s(1) assms(6) by simp
  have ok: "impl_ok jm" using reachable_ok [OF reach_commit [OF assms(1,2), of io]] assms(3) by simp
  have st: "accounting_storable ?a" "ac_policy_id ?a = fp_id (im_policy jm)"
    "ac_policy_generation ?a = fp_generation (im_policy jm)" "ac_epoch ?a = im_epoch jm"
    "fp_epoch (im_policy jm) \<le> im_epoch jm" using ok by (simp_all add: impl_ok_def aligned_def)
  have epoch: "max (gc_epoch config) (ac_epoch ?a) = im_epoch jm"
    using assms(8,10) st(4,5) by (simp add: check_config_def Let_def split: if_splits)
  have dp: "durable PolicyRecord (encode_policy (gc_policy config)) (st_policy found)"
    using assms(7,10) durable_cong [of "st_policy found" "st_policy store"] assms(11) by simp
  have da: "durable AccountingRecord (encode_accounting ?a) (st_accounting found)"
    using s(2) durable_cong [of "st_accounting found" "st_accounting store"] assms(12) eq by simp
  obtain km where k: "fst (governor_open io' incarnation config (Inr found)) = Inr km"
    "im_policy km = gc_policy config" "im_epoch km = max (gc_epoch config) (ac_epoch ?a)"
    "im_accounting km = ?a\<lparr>ac_subjects := kept_entries (gc_policy config) (ac_subjects ?a),
       ac_policy_id := fp_id (gc_policy config), ac_policy_generation := fp_generation (gc_policy config),
       ac_epoch := max (gc_epoch config) (ac_epoch ?a)\<rparr>"
    "im_accounting_record_generation km = lr_generation (stored AccountingRecord (st_accounting found))"
    "im_staged km = []" "im_ingested km = []" "im_publisher_sequences km = []"
    by (rule open_intact [OF assms(8,9) dp da st(1) s(4) assms(13)])
  have a: "im_accounting km = ?a\<lparr>ac_subjects := kept_entries (im_policy jm) (ac_subjects ?a)\<rparr>"
    unfolding k(4) epoch assms(10) using st(2-4) by (cases ?a) simp
  have w: "ac_last_window (im_accounting km) = av_window (fd_authority decision)"
  proof (cases rule: governor_commit_cases [of io decision im])
    case (accepted accounting store g)
    then have "?a = accounting" using assms(3) by auto
    then show ?thesis using applied_accounting_fields(1) [OF accepted(2)] by (simp add: a)
  qed (use assms(3) in simp)
  have "check_decision decision km \<noteq> Ok" using check_decision_window(2) [of decision km] w by auto
  then have "\<forall>io''. fst (governor_commit io'' decision km) \<noteq> Ok" by (simp add: governor_commit_def)
  moreover have "lr_generation (stored AccountingRecord (st_accounting found)) = im_accounting_record_generation jm"
    using s(3) store_load_cong [of "st_accounting found" "st_accounting store" no_failures 0 AccountingRecord] assms(12) eq by simp
  ultimately show ?thesis using k a epoch assms(10) by simp
qed

theorem restart_restores_accounting_witness:
  "\<exists>decision im jm store km. governor_commit silent_io decision im = (Ok, jm) \<and> im_store jm = Some store \<and>
     fst (governor_open silent_io \<lparr>inc_boot = 8, inc_ordinal = 2\<rparr> sample_disk_config (Inr store)) = Inr km \<and>
     ac_last_window (im_accounting km) = ac_last_window (im_accounting jm) \<and> im_staged km = []"
proof -
  obtain im before decision jm store where w: "reachable im {decision}"
    "governor_commit silent_io decision im = (Ok, jm)" "im_store im = Some before" "st_faults before = no_faults"
    "im_store jm = Some store" "durable PolicyRecord (encode_policy (im_policy jm)) (st_policy store)"
    "im_policy jm = sample_policy" by (rule sample_disk_commit)
  have c: "gc_has_store_path sample_disk_config" "gc_policy sample_disk_config = im_policy jm"
    by (simp_all add: sample_disk_config_def sample_config_def w(7))
  obtain km where "fst (governor_open silent_io \<lparr>inc_boot = 8, inc_ordinal = 2\<rparr> sample_disk_config (Inr store)) = Inr km"
    "im_accounting km = (im_accounting jm)\<lparr>ac_subjects := kept_entries (im_policy jm) (ac_subjects (im_accounting jm))\<rparr>"
    "im_staged km = []"
    using restart_restores_accounting [OF w(1) _ w(2-6) sample_disk_config_ok c refl refl, of silent_io]
    by (auto simp: silent_io_def no_failures_def reads_succeed_def)
  then show ?thesis using w(2,5) by fastforce
qed

end
