(* ===== verification/FG_Scenario.thy ===== *)
theory FG_Scenario
  imports FG_Record
begin

text \<open>
  The scenario format (\<open>scenario.cpp\<close>): lines of tokens with an optional trailing label, directives whose
  attributes are \<open>key=value\<close>, and the validation that ends a parse. An error is the number of its line, 0 for
  a document that fails the final validation; the code of every error is \<open>InvalidArgument\<close> and its text is
  dropped.
\<close>

section \<open>Numbers\<close>

definition ascii :: "string \<Rightarrow> bytes" where
  "ascii = map of_char"

fun number_loop :: "bytes \<Rightarrow> u64 \<Rightarrow> u64 option" where
  "number_loop [] v = Some v"
| "number_loop (c # cs) v =
     (if c < 48 \<or> 57 < c then None
      else Option.bind (checked_mul v 10) (\<lambda>v. Option.bind (checked_add v (ucast (c - 48))) (number_loop cs)))"

definition parse_u64 :: "bytes \<Rightarrow> u64 option" where
  "parse_u64 chars = (if chars = [] \<or> 20 < length chars then None else number_loop chars 0)"

definition parse_i64 :: "bytes \<Rightarrow> i64 option" where
  "parse_i64 chars =
     (if chars = [] then None
      else if hd chars = 45
      then (case parse_u64 (tl chars) of
              None \<Rightarrow> None
            | Some m \<Rightarrow> (if 2 ^ 63 < m then None else if m = 2 ^ 63 then Some int64_min else Some (- m)))
      else (case parse_u64 chars of
              None \<Rightarrow> None
            | Some v \<Rightarrow> (if 2 ^ 63 - 1 < v then None else Some v)))"

definition parse_u32 :: "bytes \<Rightarrow> u32 option" where
  "parse_u32 chars = Option.bind (parse_u64 chars) (\<lambda>v. if 2 ^ 32 - 1 < v then None else Some (ucast v))"

definition parse_i32 :: "bytes \<Rightarrow> i32 option" where
  "parse_i32 chars = Option.bind (parse_i64 chars)
     (\<lambda>v. if 2 ^ 31 - 1 < sint v \<or> sint v < - (2 ^ 31) then None else Some (ucast v))"

definition parse_flag :: "bytes \<Rightarrow> bool option" where
  "parse_flag chars = Option.bind (parse_u32 chars) (\<lambda>v. if v \<le> 1 then Some (v \<noteq> 0) else None)"

text \<open>The text in front of the first separator and behind it.\<close>

definition split_at :: "u8 \<Rightarrow> bytes \<Rightarrow> (bytes \<times> bytes) option" where
  "split_at c chars =
     (if c \<in> set chars then Some (takeWhile (\<lambda>x. x \<noteq> c) chars, tl (dropWhile (\<lambda>x. x \<noteq> c) chars)) else None)"

definition parse_id_pair :: "bytes \<Rightarrow> (u64 \<times> u64) option" where
  "parse_id_pair chars = Option.bind (split_at 58 chars) (\<lambda>(a, b).
     Option.bind (parse_u64 a) (\<lambda>i. Option.bind (parse_u64 b) (\<lambda>g. Some (i, g))))"

section \<open>Lines\<close>

text \<open>A line ends at a line feed or at the end of the text; nothing follows a final line feed.\<close>

function raw_lines :: "bytes \<Rightarrow> bytes list" where
  "raw_lines chars =
     (if chars = [] then []
      else takeWhile (\<lambda>c. c \<noteq> 10) chars # raw_lines (drop (length (takeWhile (\<lambda>c. c \<noteq> 10) chars) + 1) chars))"
  by pat_completeness auto

termination
  by (relation "measure length") auto

declare raw_lines.simps [simp del]

definition strip_cr :: "bytes \<Rightarrow> bytes" where
  "strip_cr raw = (if raw \<noteq> [] \<and> last raw = 13 then butlast raw else raw)"

abbreviation blank :: "u8 \<Rightarrow> bool" where "blank c \<equiv> c = 32 \<or> c = 9"

definition trim :: "bytes \<Rightarrow> bytes" where
  "trim chars = rev (dropWhile blank (rev (dropWhile blank chars)))"

definition label_of :: "bytes \<Rightarrow> bytes \<Rightarrow> bytes" where
  "label_of inline_value rest =
     (if inline_value \<noteq> []
      then inline_value @ (if trim rest \<noteq> [] then 32 # trim rest else [])
      else trim rest)"

lemma dropWhile_shorter: "dropWhile P xs \<noteq> [] \<Longrightarrow> \<not> P (hd (dropWhile P xs))"
  by (metis hd_dropWhile)

function tokenize :: "bytes \<Rightarrow> bytes list \<times> bytes option" where
  "tokenize raw =
     (let raw = dropWhile blank raw
      in if raw = [] \<or> hd raw = 35 then ([], None)
         else let token = takeWhile (\<lambda>c. \<not> blank c) raw; rest = dropWhile (\<lambda>c. \<not> blank c) raw
              in if take 6 token = ascii ''label='' then ([], Some (label_of (drop 6 token) rest))
                 else case tokenize rest of (tokens, label) \<Rightarrow> (token # tokens, label))"
  by pat_completeness auto

termination
proof (relation "measure length")
  fix raw x token rest
  assume x: "x = dropWhile blank raw" "\<not> (x = [] \<or> hd x = 35)" and r: "rest = dropWhile (\<lambda>c. \<not> blank c) x"
  have "\<not> blank (hd x)" using x dropWhile_shorter [of blank raw] by blast
  then have "length rest < length x" using x(2) r
    by (cases x) (auto simp: le_imp_less_Suc length_dropWhile_le)
  also have "\<dots> \<le> length raw" using x(1) length_dropWhile_le by blast
  finally show "(rest, raw) \<in> measure length" by simp
qed simp

declare tokenize.simps [simp del]

section \<open>Attributes\<close>

text \<open>The attribute loop of a directive: what it sets, and whether a key may come once only.\<close>

fun attributes :: "(bytes \<Rightarrow> bytes \<Rightarrow> 'a \<Rightarrow> 'a option) \<Rightarrow> bool \<Rightarrow> bytes list \<Rightarrow> bytes list \<Rightarrow> 'a \<Rightarrow> 'a option" where
  "attributes set_one unique seen [] x = Some x"
| "attributes set_one unique seen (token # tokens) x =
     (case split_at 61 token of
        None \<Rightarrow> None
      | Some (key, v) \<Rightarrow>
          (if unique \<and> key \<in> set seen then None
           else Option.bind (set_one key v x) (attributes set_one unique (key # seen) tokens)))"

definition policy_attribute :: "bytes \<Rightarrow> bytes \<Rightarrow> FairnessPolicy \<Rightarrow> FairnessPolicy option" where
  "policy_attribute key v p =
     (if key = ascii ''window_units'' then map_option (\<lambda>n. p\<lparr>fp_window_units := n\<rparr>) (parse_u64 v)
      else if key = ascii ''fair_band'' then map_option (\<lambda>n. p\<lparr>fp_fair_band_units := n\<rparr>) (parse_u64 v)
      else if key = ascii ''correction_threshold''
      then map_option (\<lambda>n. p\<lparr>fp_correction_threshold_units := n\<rparr>) (parse_u64 v)
      else if key = ascii ''cooldown'' then map_option (\<lambda>n. p\<lparr>fp_cooldown_windows := n\<rparr>) (parse_u32 v)
      else if key = ascii ''max_correction'' then map_option (\<lambda>n. p\<lparr>fp_max_correction_units := n\<rparr>) (parse_u64 v)
      else if key = ascii ''max_correction_bps'' then map_option (\<lambda>n. p\<lparr>fp_max_correction_bps := n\<rparr>) (parse_u32 v)
      else if key = ascii ''max_modifier_bps''
      then map_option (\<lambda>n. p\<lparr>fp_max_priority_modifier_bps := n\<rparr>) (parse_u32 v)
      else if key = ascii ''max_age_windows''
      then map_option (\<lambda>n. p\<lparr>fp_max_evidence_age_windows := n\<rparr>) (parse_u32 v)
      else if key = ascii ''max_age_ns'' then map_option (\<lambda>n. p\<lparr>fp_max_evidence_age_ns := n\<rparr>) (parse_u64 v)
      else if key = ascii ''max_carry'' then map_option (\<lambda>n. p\<lparr>fp_max_carry_units := n\<rparr>) (parse_u64 v)
      else if key = ascii ''enforce_floors''
      then map_option (\<lambda>b. p\<lparr>fp_enforce_guarantee_floors := b\<rparr>) (parse_flag v)
      else if key = ascii ''source'' then Some (p\<lparr>fp_provenance := (fp_provenance p)\<lparr>pv_source := v\<rparr>\<rparr>)
      else if key = ascii ''revision''
      then map_option (\<lambda>n. p\<lparr>fp_provenance := (fp_provenance p)\<lparr>pv_revision := n\<rparr>\<rparr>) (parse_u64 v)
      else if key = ascii ''digest''
      then map_option (\<lambda>n. p\<lparr>fp_provenance := (fp_provenance p)\<lparr>pv_source_digest := n\<rparr>\<rparr>) (parse_u64 v)
      else None)"

definition group_attribute :: "bytes \<Rightarrow> bytes \<Rightarrow> FairnessGroup \<Rightarrow> FairnessGroup option" where
  "group_attribute key v g =
     (if key = ascii ''parent'' then map_option (\<lambda>n. g\<lparr>fg_parent := n\<rparr>) (parse_u64 v)
      else if key = ascii ''weight'' then map_option (\<lambda>n. g\<lparr>fg_share_weight := n\<rparr>) (parse_u32 v)
      else if key = ascii ''floor'' then map_option (\<lambda>n. g\<lparr>fg_guarantee_floor := n\<rparr>) (parse_u64 v)
      else if key = ascii ''rank'' then map_option (\<lambda>n. g\<lparr>fg_obligation_rank := n\<rparr>) (parse_u32 v)
      else if key = ascii ''protected'' then map_option (\<lambda>b. g\<lparr>fg_protected_obligation := b\<rparr>) (parse_flag v)
      else None)"

definition subject_attribute :: "bytes \<Rightarrow> bytes \<Rightarrow> Subject \<Rightarrow> Subject option" where
  "subject_attribute key v s =
     (if key = ascii ''group'' then map_option (\<lambda>n. s\<lparr>sb_group := n\<rparr>) (parse_u64 v)
      else if key = ascii ''tenant'' then map_option (\<lambda>n. s\<lparr>sb_tenant := n\<rparr>) (parse_u64 v)
      else if key = ascii ''weight'' then map_option (\<lambda>n. s\<lparr>sb_share_weight := n\<rparr>) (parse_u32 v)
      else if key = ascii ''floor'' then map_option (\<lambda>n. s\<lparr>sb_guarantee_floor := n\<rparr>) (parse_u64 v)
      else if key = ascii ''starvation'' then map_option (\<lambda>n. s\<lparr>sb_starvation_windows := n\<rparr>) (parse_u32 v)
      else if key = ascii ''guarantee_starvation''
      then map_option (\<lambda>n. s\<lparr>sb_guarantee_starvation_windows := n\<rparr>) (parse_u32 v)
      else if key = ascii ''rank'' then map_option (\<lambda>n. s\<lparr>sb_obligation_rank := n\<rparr>) (parse_u32 v)
      else if key = ascii ''protected'' then map_option (\<lambda>b. s\<lparr>sb_protected_obligation := b\<rparr>) (parse_flag v)
      else if key = ascii ''reduce_cap'' then map_option (\<lambda>n. s\<lparr>sb_max_reduce_units := n\<rparr>) (parse_u64 v)
      else if key = ascii ''augment_cap'' then map_option (\<lambda>n. s\<lparr>sb_max_augment_units := n\<rparr>) (parse_u64 v)
      else if key = ascii ''modifier_bps'' then map_option (\<lambda>n. s\<lparr>sb_priority_modifier_bps := n\<rparr>) (parse_i32 v)
      else if key = ascii ''priority_rank'' then map_option (\<lambda>n. s\<lparr>sb_priority_rank := n\<rparr>) (parse_u32 v)
      else if key = ascii ''priority''
      then map_option (\<lambda>(i, g). s\<lparr>sb_priority := \<lparr>pr_id = i, pr_generation = g\<rparr>\<rparr>) (parse_id_pair v)
      else if key = ascii ''qos''
      then map_option (\<lambda>(i, g). s\<lparr>sb_qos := \<lparr>qos_id = i, qos_generation = g\<rparr>\<rparr>) (parse_id_pair v)
      else None)"

definition evidence_attribute :: "bytes \<Rightarrow> bytes \<Rightarrow> EvidenceSnapshot \<Rightarrow> EvidenceSnapshot option" where
  "evidence_attribute key v e =
     (if key = ascii ''window'' then map_option (\<lambda>n. e\<lparr>ev_window := n\<rparr>) (parse_u64 v)
      else if key = ascii ''window_gen'' then map_option (\<lambda>n. e\<lparr>ev_window_generation := n\<rparr>) (parse_u64 v)
      else if key = ascii ''epoch'' then map_option (\<lambda>n. e\<lparr>ev_epoch := n\<rparr>) (parse_u64 v)
      else if key = ascii ''captured_ns'' then map_option (\<lambda>n. e\<lparr>ev_captured_at_ns := n\<rparr>) (parse_i64 v)
      else if key = ascii ''sequence'' then map_option (\<lambda>n. e\<lparr>ev_sequence := n\<rparr>) (parse_u64 v)
      else if key = ascii ''producer'' then Some (e\<lparr>ev_producer := (ev_producer e)\<lparr>pd_name := v\<rparr>\<rparr>)
      else if key = ascii ''instance''
      then map_option (\<lambda>n. e\<lparr>ev_producer := (ev_producer e)\<lparr>pd_instance := n\<rparr>\<rparr>) (parse_u64 v)
      else if key = ascii ''version''
      then map_option (\<lambda>n. e\<lparr>ev_producer := (ev_producer e)\<lparr>pd_version := n\<rparr>\<rparr>) (parse_u64 v)
      else if key = ascii ''declared_digest'' then map_option (\<lambda>n. e\<lparr>ev_declared_digest := n\<rparr>) (parse_u64 v)
      else None)"

definition obs_attribute :: "bytes \<Rightarrow> bytes \<Rightarrow> SubjectObservation \<Rightarrow> SubjectObservation option" where
  "obs_attribute key v ob =
     (if key = ascii ''served'' then map_option (\<lambda>n. ob\<lparr>ob_served_units := n\<rparr>) (parse_u64 v)
      else if key = ascii ''unserved'' then map_option (\<lambda>n. ob\<lparr>ob_unserved_streak := n\<rparr>) (parse_u32 v)
      else if key = ascii ''below'' then map_option (\<lambda>n. ob\<lparr>ob_below_floor_streak := n\<rparr>) (parse_u32 v)
      else if key = ascii ''priority''
      then map_option (\<lambda>(i, g). ob\<lparr>ob_priority := \<lparr>pr_id = i, pr_generation = g\<rparr>\<rparr>) (parse_id_pair v)
      else if key = ascii ''qos''
      then map_option (\<lambda>(i, g). ob\<lparr>ob_qos := \<lparr>qos_id = i, qos_generation = g\<rparr>\<rparr>) (parse_id_pair v)
      else None)"

definition request_attribute :: "bytes \<Rightarrow> bytes \<Rightarrow> EvaluationRequest \<Rightarrow> EvaluationRequest option" where
  "request_attribute key v r =
     (if key = ascii ''policy''
      then map_option (\<lambda>(i, g). r\<lparr>rq_policy_id := i, rq_policy_generation := g\<rparr>) (parse_id_pair v)
      else if key = ascii ''evidence''
      then map_option (\<lambda>(i, g). r\<lparr>rq_evidence_id := i, rq_evidence_generation := g\<rparr>) (parse_id_pair v)
      else if key = ascii ''window''
      then map_option (\<lambda>(i, g). r\<lparr>rq_window := i, rq_window_generation := g\<rparr>) (parse_id_pair v)
      else if key = ascii ''epoch'' then map_option (\<lambda>n. r\<lparr>rq_epoch := n\<rparr>) (parse_u64 v)
      else if key = ascii ''now_ns'' then map_option (\<lambda>n. r\<lparr>rq_now_ns := n\<rparr>) (parse_i64 v)
      else if key = ascii ''request_id'' then map_option (\<lambda>n. r\<lparr>rq_request_id := n\<rparr>) (parse_u64 v)
      else if key = ascii ''attempt'' then map_option (\<lambda>n. r\<lparr>rq_attempt := n\<rparr>) (parse_u32 v)
      else if key = ascii ''missing_unknown''
      then map_option (\<lambda>b. r\<lparr>rq_treat_missing_as_unknown := b\<rparr>) (parse_flag v)
      else None)"

section \<open>Directives\<close>

definition no_provenance :: Provenance where
  "no_provenance = \<lparr>pv_revision = 0, pv_source = [], pv_source_digest = 0, pv_captured_at_ns = 0\<rparr>"

definition default_policy :: FairnessPolicy where
  "default_policy = \<lparr>fp_id = 0, fp_generation = 0, fp_epoch = 0, fp_window_units = 0, fp_fair_band_units = 0,
     fp_correction_threshold_units = 1, fp_cooldown_windows = 0, fp_max_correction_units = 0,
     fp_max_correction_bps = 10000, fp_max_priority_modifier_bps = 0, fp_max_evidence_age_windows = 1,
     fp_max_evidence_age_ns = 0, fp_max_carry_units = kMaxCarryUnits, fp_enforce_guarantee_floors = True,
     fp_groups = [], fp_subjects = [], fp_provenance = no_provenance\<rparr>"

definition default_group :: FairnessGroup where
  "default_group = \<lparr>fg_id = 0, fg_generation = 0, fg_parent = 0, fg_share_weight = 1, fg_guarantee_floor = 0,
     fg_obligation_rank = 0, fg_protected_obligation = False, fg_label = []\<rparr>"

definition default_subject :: Subject where
  "default_subject = \<lparr>sb_id = 0, sb_generation = 0, sb_group = 0, sb_tenant = 0, sb_share_weight = 1,
     sb_guarantee_floor = 0, sb_starvation_windows = 0, sb_guarantee_starvation_windows = 0,
     sb_priority = \<lparr>pr_id = 0, pr_generation = 0\<rparr>, sb_qos = \<lparr>qos_id = 0, qos_generation = 0\<rparr>,
     sb_priority_modifier_bps = 0, sb_priority_rank = 0, sb_obligation_rank = 0, sb_protected_obligation = False,
     sb_max_reduce_units = 0, sb_max_augment_units = 0, sb_label = []\<rparr>"

definition default_snapshot :: EvidenceSnapshot where
  "default_snapshot = \<lparr>ev_id = 0, ev_generation = 0, ev_window = 0, ev_window_generation = 0, ev_epoch = 0,
     ev_captured_at_ns = 0, ev_sequence = 0, ev_producer = \<lparr>pd_name = [], pd_instance = 0, pd_version = 0\<rparr>,
     ev_provenance = no_provenance, ev_declared_digest = 0, ev_observations = []\<rparr>"

definition default_observation :: SubjectObservation where
  "default_observation = \<lparr>ob_id = 0, ob_generation = 0, ob_served_units = 0, ob_unserved_streak = 0,
     ob_below_floor_streak = 0, ob_priority = \<lparr>pr_id = 0, pr_generation = 0\<rparr>,
     ob_qos = \<lparr>qos_id = 0, qos_generation = 0\<rparr>\<rparr>"

definition default_request :: EvaluationRequest where
  "default_request = \<lparr>rq_policy_id = 0, rq_policy_generation = 0, rq_epoch = 0, rq_evidence_id = 0,
     rq_evidence_generation = 0, rq_window = 0, rq_window_generation = 0, rq_now_ns = 0, rq_request_id = 0,
     rq_attempt = 0, rq_treat_missing_as_unknown = True, rq_allow_stale_result = True\<rparr>"

record Scenario =
  sc_has_policy :: bool
  sc_policy :: FairnessPolicy
  sc_epoch :: Generation
  sc_evidence :: "EvidenceSnapshot list"
  sc_has_request :: bool
  sc_request :: EvaluationRequest
  sc_source_digest :: u64

text \<open>The variables of the parse; the evidence that observations are added to is an index into the vector.\<close>

record ParseState =
  ps_scenario :: Scenario
  ps_saw_version :: bool
  ps_saw_body :: bool
  ps_in_policy :: bool
  ps_in_evidence :: bool
  ps_current_evidence :: "nat option"

definition initial_parse :: ParseState where
  "initial_parse = \<lparr>ps_scenario = \<lparr>sc_has_policy = False, sc_policy = default_policy, sc_epoch = 0, sc_evidence = [],
       sc_has_request = False, sc_request = default_request, sc_source_digest = 0\<rparr>,
     ps_saw_version = False, ps_saw_body = False, ps_in_policy = False, ps_in_evidence = False,
     ps_current_evidence = None\<rparr>"

definition in_scenario :: "(Scenario \<Rightarrow> Scenario) \<Rightarrow> ParseState \<Rightarrow> ParseState" where
  "in_scenario f st = st\<lparr>ps_scenario := f (ps_scenario st)\<rparr>"

text \<open>Identity and generation, which most directives begin with.\<close>

definition identity_pair :: "bytes list \<Rightarrow> (u64 \<times> u64) option" where
  "identity_pair tokens =
     (if length tokens < 3 then None
      else Option.bind (parse_u64 (tokens ! 1)) (\<lambda>i. Option.bind (parse_u64 (tokens ! 2)) (\<lambda>g. Some (i, g))))"

definition parse_policy :: "bytes list \<Rightarrow> ParseState \<Rightarrow> ParseState option" where
  "parse_policy tokens st =
     Option.bind (identity_pair tokens) (\<lambda>(i, g).
     Option.bind (attributes policy_attribute False [] (drop 3 tokens)
       ((sc_policy (ps_scenario st))\<lparr>fp_id := i, fp_generation := g\<rparr>)) (\<lambda>p.
     Some ((in_scenario (\<lambda>sc. sc\<lparr>sc_policy := p, sc_has_policy := True\<rparr>) st)\<lparr>ps_in_policy := True,
       ps_in_evidence := False, ps_current_evidence := None\<rparr>)))"

definition parse_group :: "bytes list \<Rightarrow> bytes option \<Rightarrow> ParseState \<Rightarrow> ParseState option" where
  "parse_group tokens label st =
     (if \<not> ps_in_policy st then None
      else Option.bind (identity_pair tokens) (\<lambda>(i, g).
        Option.bind (attributes group_attribute True [] (drop 3 tokens)
          (default_group\<lparr>fg_id := i, fg_generation := g\<rparr>)) (\<lambda>grp.
        Some (in_scenario (\<lambda>sc. sc\<lparr>sc_policy := (sc_policy sc)\<lparr>fp_groups := fp_groups (sc_policy sc) @
          [case label of None \<Rightarrow> grp | Some l \<Rightarrow> grp\<lparr>fg_label := l\<rparr>]\<rparr>\<rparr>) st))))"

definition parse_subject :: "bytes list \<Rightarrow> bytes option \<Rightarrow> ParseState \<Rightarrow> ParseState option" where
  "parse_subject tokens label st =
     (if \<not> ps_in_policy st then None
      else Option.bind (identity_pair tokens) (\<lambda>(i, g).
        Option.bind (attributes subject_attribute True [] (drop 3 tokens)
          (default_subject\<lparr>sb_id := i, sb_generation := g\<rparr>)) (\<lambda>s.
        Some (in_scenario (\<lambda>sc. sc\<lparr>sc_policy := (sc_policy sc)\<lparr>fp_subjects := fp_subjects (sc_policy sc) @
          [case label of None \<Rightarrow> s | Some l \<Rightarrow> s\<lparr>sb_label := l\<rparr>]\<rparr>\<rparr>) st))))"

definition parse_evidence :: "bytes list \<Rightarrow> ParseState \<Rightarrow> ParseState option" where
  "parse_evidence tokens st =
     Option.bind (identity_pair tokens) (\<lambda>(i, g).
     Option.bind (attributes evidence_attribute True [] (drop 3 tokens)
       (default_snapshot\<lparr>ev_id := i, ev_generation := g\<rparr>)) (\<lambda>e.
     Some ((in_scenario (\<lambda>sc. sc\<lparr>sc_evidence := sc_evidence sc @ [e]\<rparr>) st)\<lparr>ps_in_policy := False,
       ps_in_evidence := True, ps_current_evidence := Some (length (sc_evidence (ps_scenario st)))\<rparr>)))"

definition parse_obs :: "bytes list \<Rightarrow> ParseState \<Rightarrow> ParseState option" where
  "parse_obs tokens st =
     (case ps_current_evidence st of
        None \<Rightarrow> None
      | Some k \<Rightarrow>
          (if \<not> ps_in_evidence st then None
           else Option.bind (identity_pair tokens) (\<lambda>(i, g).
             Option.bind (attributes obs_attribute True [] (drop 3 tokens)
               (default_observation\<lparr>ob_id := i, ob_generation := g\<rparr>)) (\<lambda>ob.
             Some (in_scenario (\<lambda>sc. sc\<lparr>sc_evidence := (sc_evidence sc)[k := (sc_evidence sc ! k)\<lparr>
               ev_observations := ev_observations (sc_evidence sc ! k) @ [ob]\<rparr>]\<rparr>) st)))))"

definition parse_request :: "bytes list \<Rightarrow> ParseState \<Rightarrow> ParseState option" where
  "parse_request tokens st =
     Option.bind (attributes request_attribute True [] (drop 1 tokens) default_request) (\<lambda>r.
     Some ((in_scenario (\<lambda>sc. sc\<lparr>sc_request := r, sc_has_request := True\<rparr>) st)\<lparr>ps_in_policy := False,
       ps_in_evidence := False, ps_current_evidence := None\<rparr>))"

definition parse_line :: "bytes list \<Rightarrow> bytes option \<Rightarrow> ParseState \<Rightarrow> ParseState option" where
  "parse_line tokens label st =
     (if tokens = [] then None
      else if hd tokens = ascii ''version''
      then (if ps_saw_version st \<or> length tokens \<noteq> 2 then None
            else if parse_u64 (tokens ! 1) \<noteq> Some 1 then None
            else Some (st\<lparr>ps_saw_version := True\<rparr>))
      else if \<not> ps_saw_version st then None
      else
        let st = st\<lparr>ps_saw_body := True\<rparr>
        in if hd tokens = ascii ''epoch''
           then (if length tokens \<noteq> 2 then None
                 else map_option (\<lambda>n. in_scenario (\<lambda>sc. sc\<lparr>sc_epoch := n\<rparr>) st) (parse_u64 (tokens ! 1)))
           else if hd tokens = ascii ''policy'' then parse_policy tokens st
           else if hd tokens = ascii ''group'' then parse_group tokens label st
           else if hd tokens = ascii ''subject'' then parse_subject tokens label st
           else if hd tokens = ascii ''evidence'' then parse_evidence tokens st
           else if hd tokens = ascii ''obs'' then parse_obs tokens st
           else if hd tokens = ascii ''request'' then parse_request tokens st
           else None)"

section \<open>Documents\<close>

text \<open>The loop over the lines, from the line with the given number; lines without content are skipped.\<close>

fun parse_lines :: "nat \<Rightarrow> bytes list \<Rightarrow> ParseState \<Rightarrow> nat + ParseState" where
  "parse_lines number [] st = Inr st"
| "parse_lines number (raw # raws) st =
     (case tokenize (strip_cr raw) of
        (tokens, label) \<Rightarrow>
          (if tokens = [] \<and> label = None then parse_lines (number + 1) raws st
           else case parse_line tokens label st of
                  None \<Rightarrow> Inl number
                | Some st \<Rightarrow> parse_lines (number + 1) raws st))"

text \<open>The epoch of a policy is that of the document, which may come from the policy.\<close>

definition settle_epoch :: "Scenario \<Rightarrow> Scenario" where
  "settle_epoch sc =
     (let sc = (if generation_valid (sc_epoch sc) then sc else sc\<lparr>sc_epoch := fp_epoch (sc_policy sc)\<rparr>)
      in sc\<lparr>sc_policy := (sc_policy sc)\<lparr>fp_epoch := sc_epoch sc\<rparr>\<rparr>)"

definition finish_parse :: "bytes \<Rightarrow> ParseState \<Rightarrow> nat + Scenario" where
  "finish_parse chars st =
     (if \<not> ps_saw_version st \<or> \<not> ps_saw_body st then Inl (length (raw_lines chars))
      else let sc = (if sc_has_policy (ps_scenario st) then settle_epoch (ps_scenario st) else ps_scenario st)
           in if sc_has_policy sc \<and> validate_policy (sc_policy sc) \<noteq> Ok then Inl 0
              else if \<exists>e\<in>set (sc_evidence sc). validate_evidence e \<noteq> Ok then Inl 0
              else Inr (sc\<lparr>sc_source_digest := checksum64 chars\<rparr>))"

definition parse_scenario :: "bytes \<Rightarrow> nat + Scenario" where
  "parse_scenario chars =
     (case parse_lines 1 (raw_lines chars) initial_parse of
        Inl number \<Rightarrow> Inl number
      | Inr st \<Rightarrow> finish_parse chars st)"

section \<open>What a number means\<close>

definition digit :: "u8 \<Rightarrow> bool" where "digit c \<longleftrightarrow> 48 \<le> c \<and> c \<le> 57"

definition decimal :: "bytes \<Rightarrow> nat" where
  "decimal chars = foldl (\<lambda>n c. 10 * n + unat (c - 48)) 0 chars"

lemma decimal_step_grows: "n \<le> foldl (\<lambda>n c. 10 * n + unat (c - 48)) n (cs :: bytes)"
proof (induction cs arbitrary: n)
  case (Cons c cs)
  show ?case using Cons [of "10 * n + unat (c - 48)"] by simp
qed simp

lemma number_loop_digits:
  "\<forall>c\<in>set cs. digit c \<Longrightarrow> number_loop cs v =
     (let n = foldl (\<lambda>n c. 10 * n + unat (c - 48)) (unat v) cs in if n < 2 ^ 64 then Some (of_nat n) else None)"
proof (induction cs arbitrary: v)
  case Nil
  then show ?case using unat_u64_bounded [of v] by (simp add: Let_def)
next
  case (Cons c cs)
  let ?d = "ucast (c - 48) :: u64" and ?f = "foldl (\<lambda>n c. 10 * n + unat (c - 48))"
  have d: "unat ?d = unat (c - 48)" by (rule unat_ucast_up) simp
  have c: "\<not> (c < 48 \<or> 57 < c)" "\<forall>c\<in>set cs. digit c" using Cons.prems by (auto simp: digit_def not_less)
  have big: "?f n cs < 2 ^ 64 \<Longrightarrow> n < 2 ^ 64" for n using decimal_step_grows [of n cs] by linarith
  show ?case
  proof (cases "10 * unat v + unat (c - 48) < 2 ^ 64")
    case True
    then have m: "checked_mul v 10 = Some (v * 10)" "unat (v * 10) = 10 * unat v"
      by (simp_all add: checked_mul_eq unat_times_exact)
    have a: "checked_add (v * 10) ?d = Some (v * 10 + ?d)" "unat (v * 10 + ?d) = 10 * unat v + unat (c - 48)"
      using True m(2) d by (simp_all add: checked_add_exact unat_plus_exact)
    show ?thesis using c(1) m(1) a Cons.IH [OF c(2), of "v * 10 + ?d"] by (simp add: Let_def)
  next
    case False
    have "number_loop (c # cs) v = None"
    proof (cases "checked_mul v 10")
      case (Some w)
      then have "unat w = 10 * unat v" by (auto dest: checked_mul_SomeD)
      then have "checked_add w ?d = None" using False d by (simp add: checked_add_eq)
      then show ?thesis using Some by simp
    qed simp
    moreover have "\<not> ?f (10 * unat v + unat (c - 48)) cs < 2 ^ 64" using False big by blast
    ultimately show ?thesis by (simp add: Let_def)
  qed
qed

lemma number_loop_other: "\<not> (\<forall>c\<in>set cs. digit c) \<Longrightarrow> number_loop cs v = None"
proof (induction cs arbitrary: v)
  case (Cons c cs)
  show ?case
  proof (cases "digit c")
    case True
    then have "\<not> (\<forall>c\<in>set cs. digit c)" using Cons.prems by simp
    from Cons.IH [OF this] show ?thesis by (auto simp: bind_eq_None_conv)
  next
    case False
    then show ?thesis by (auto simp: digit_def not_le)
  qed
qed simp

lemma parse_u64_eq:
  "parse_u64 chars = (if chars \<noteq> [] \<and> length chars \<le> 20 \<and> (\<forall>c\<in>set chars. digit c) \<and> decimal chars < 2 ^ 64
     then Some (of_nat (decimal chars)) else None)"
  by (cases "\<forall>c\<in>set chars. digit c")
    (simp_all add: parse_u64_def number_loop_digits number_loop_other decimal_def Let_def not_le not_less)

lemma parse_u64_Some:
  "parse_u64 chars = Some v \<longleftrightarrow> chars \<noteq> [] \<and> length chars \<le> 20 \<and> (\<forall>c\<in>set chars. digit c) \<and> decimal chars = unat v"
proof -
  have "unat (of_nat (decimal chars) :: u64) = decimal chars" if "decimal chars < 2 ^ 64"
    using that by (simp add: unat_of_nat_exact)
  then show ?thesis using unat_u64_bounded [of v] unfolding parse_u64_eq by auto
qed

lemma int_limits: "int n < 2 ^ 63 \<longleftrightarrow> n < 2 ^ 63" "int n \<le> 2 ^ 63 \<longleftrightarrow> n \<le> 2 ^ 63" "int n \<noteq> - (2 ^ 63)"
  by simp_all

lemma negative_word:
  assumes "(m :: u64) \<le> 2 ^ 63"
  shows "sint (if m = 2 ^ 63 then int64_min else - m) = - int (unat m)"
proof (cases "m = 2 ^ 63")
  case True
  then show ?thesis by (simp add: int64_limits)
next
  case False
  have "unat m \<noteq> unat (2 ^ 63 :: u64)" using False by (simp add: word_unat_eq_iff)
  then have "unat m < 2 ^ 63" using assms by (simp add: word_le_nat_alt)
  then have m: "sint m = int (unat m)" by (rule sint_small)
  have "m \<noteq> int64_min"
  proof
    assume "m = int64_min"
    then have "int (unat m) = - (2 ^ 63)" using m int64_limits(2) by metis
    then show False using int_limits(3) by blast
  qed
  then show ?thesis using False sint_uminus_exact m by simp
qed

lemma parse_i64_negative:
  "parse_i64 (45 # chars) = Some v \<longleftrightarrow> (\<exists>m. parse_u64 chars = Some m \<and> sint v = - int (unat m))"
proof
  assume "parse_i64 (45 # chars) = Some v"
  then obtain m where m: "parse_u64 chars = Some m" "m \<le> 2 ^ 63" "v = (if m = 2 ^ 63 then int64_min else - m)"
    by (auto simp: parse_i64_def not_less split: option.splits if_splits)
  then show "\<exists>m. parse_u64 chars = Some m \<and> sint v = - int (unat m)" using negative_word [OF m(2)] by auto
next
  assume "\<exists>m. parse_u64 chars = Some m \<and> sint v = - int (unat m)"
  then obtain m where m: "parse_u64 chars = Some m" "sint v = - int (unat m)" by blast
  have "int (unat m) \<le> 2 ^ 63" using m(2) sint_i64_range [of v] by linarith
  then have "unat m \<le> 2 ^ 63" by (simp only: int_limits)
  then have le: "m \<le> 2 ^ 63" by (simp add: word_le_nat_alt)
  then have "sint v = sint (if m = 2 ^ 63 then int64_min else - m)" using negative_word m(2) by simp
  then have "v = (if m = 2 ^ 63 then int64_min else - m)" by (rule signed_word_eqI)
  then show "parse_i64 (45 # chars) = Some v" using m(1) le by (simp add: parse_i64_def not_less)
qed

lemma parse_i64_plain:
  assumes "chars = [] \<or> hd chars \<noteq> 45"
  shows "parse_i64 chars = Some v \<longleftrightarrow> (\<exists>m. parse_u64 chars = Some m \<and> sint v = int (unat m))"
proof -
  have e: "parse_i64 chars = (case parse_u64 chars of None \<Rightarrow> None | Some w \<Rightarrow> (if 2 ^ 63 - 1 < w then None else Some w))"
    using assms by (auto simp: parse_i64_def parse_u64_def)
  have "\<not> 2 ^ 63 - 1 < w \<longleftrightarrow> unat w < 2 ^ 63" for w :: u64
    by (simp add: word_less_nat_alt not_less) linarith
  moreover have "sint w = int (unat w) \<longleftrightarrow> unat w < 2 ^ 63" for w :: u64
    using sint_small [of w] sint_i64_range [of w] int_limits(1) [of "unat w"] by metis
  moreover have "v = m" if "sint v = int (unat m)" for m
    using that calculation(2) [of m] sint_i64_range [of v] by (metis of_nat_less_iff of_nat_numeral of_nat_power signed_word_eqI)
  ultimately show ?thesis unfolding e by (auto split: option.split)
qed

section \<open>Lines of a text\<close>

lemma raw_lines_Nil [simp]: "raw_lines [] = []"
  by (simp add: raw_lines.simps)

lemma raw_lines_cons:
  assumes "10 \<notin> set l"
  shows "raw_lines (l @ 10 # rest) = l # raw_lines rest" "l \<noteq> [] \<Longrightarrow> raw_lines l = [l]"
proof -
  have t: "takeWhile (\<lambda>c. c \<noteq> 10) (l @ 10 # rest) = l" "takeWhile (\<lambda>c. c \<noteq> 10) l = l"
  proof -
    have "takeWhile (\<lambda>c. c \<noteq> 10) (l @ 10 # rest) = l @ takeWhile (\<lambda>c. c \<noteq> 10) (10 # rest)"
      by (rule takeWhile_append2) (use assms in auto)
    then show "takeWhile (\<lambda>c. c \<noteq> 10) (l @ 10 # rest) = l" by simp
    show "takeWhile (\<lambda>c. c \<noteq> 10) l = l" using assms by (auto simp: takeWhile_eq_all_conv)
  qed
  show "raw_lines (l @ 10 # rest) = l # raw_lines rest" by (subst raw_lines.simps) (simp add: t)
  show "raw_lines l = [l]" if "l \<noteq> []" using that by (subst raw_lines.simps) (simp add: t)
qed

lemma text_cases:
  obtains (empty) "chars = []" | (line) l rest where "(10 :: u8) \<notin> set l" "chars = l @ 10 # rest"
  | (last) "(10 :: u8) \<notin> set chars" "chars \<noteq> []"
proof (cases "(10 :: u8) \<in> set chars")
  case True
  then obtain l rest where "chars = l @ 10 # rest" "10 \<notin> set l" by (metis split_list_first)
  then show ?thesis using line by blast
next
  case False
  then show ?thesis using empty last by blast
qed

text \<open>The same text with carriage returns in front of the line feeds.\<close>

definition dos :: "bytes \<Rightarrow> bytes" where
  "dos chars = concat (map (\<lambda>c. if c = 10 then [13, 10] else [c]) chars)"

lemma dos_plain: "10 \<notin> set l \<Longrightarrow> dos l = l"
  by (induction l) (simp_all add: dos_def)

lemma dos_lines:
  "13 \<notin> set chars \<Longrightarrow> map strip_cr (raw_lines (dos chars)) = map strip_cr (raw_lines chars)"
proof (induction chars rule: measure_induct_rule [of length])
  case (less chars)
  show ?case
  proof (cases rule: text_cases [of chars])
    case (line l rest)
    have "dos chars = (l @ [13]) @ 10 # dos rest" using line dos_plain [of l] by (simp add: dos_def)
    moreover have "10 \<notin> set (l @ [13])" using line(1) by simp
    ultimately have "raw_lines (dos chars) = (l @ [13]) # raw_lines (dos rest)" using raw_lines_cons(1) by metis
    moreover have "strip_cr (l @ [13]) = strip_cr l" 
    proof -
      have "13 \<notin> set l" using less.prems line(2) by simp
      then have "l = [] \<or> last l \<noteq> 13" using last_in_set [of l] by metis
      then show ?thesis by (auto simp: strip_cr_def)
    qed
    moreover have "map strip_cr (raw_lines (dos rest)) = map strip_cr (raw_lines rest)"
      by (rule less.IH) (use less.prems line(2) in auto)
    ultimately show ?thesis using raw_lines_cons(1) [OF line(1)] line(2) by simp
  qed (simp_all add: dos_def dos_plain [unfolded dos_def])
qed

lemma parse_lines_stripped:
  "map strip_cr raws = map strip_cr raws' \<Longrightarrow> parse_lines number raws st = parse_lines number raws' st"
proof (induction raws arbitrary: raws' number st)
  case (Cons raw raws)
  then obtain raw' raws'' where r: "raws' = raw' # raws''" "strip_cr raw = strip_cr raw'"
    "map strip_cr raws = map strip_cr raws''" by (cases raws') auto
  show ?case unfolding r(1) using Cons.IH [OF r(3)] r(2) by (simp split: prod.split option.split)
qed simp

section \<open>The first error\<close>

lemma parse_lines_error:
  "parse_lines number raws st = Inl n \<Longrightarrow>
   number \<le> n \<and> n < number + length raws \<and>
   parse_lines number (take (n - number + 1) raws @ others) st = Inl n \<and>
   (\<exists>st'. parse_lines number (take (n - number) raws) st = Inr st')"
proof (induction raws arbitrary: number st)
  case (Cons raw raws)
  obtain tokens label where t: "tokenize (strip_cr raw) = (tokens, label)" by force
  define go where "go = (if tokens = [] \<and> label = None then Some st else parse_line tokens label st)"
  have step: "parse_lines k (raw # rest) st = (case go of None \<Rightarrow> Inl k | Some st \<Rightarrow> parse_lines (k + 1) rest st)" for k rest
    by (simp add: t go_def)
  show ?case
  proof (cases go)
    case None
    then have "n = number" using Cons.prems by (simp only: step) simp
    moreover have "take (number - number + 1) (raw # raws) @ others = raw # others" by simp
    ultimately show ?thesis using None by (simp only: step) simp
  next
    case (Some st')
    then have "parse_lines (number + 1) raws st' = Inl n" using Cons.prems by (simp only: step) simp
    note ih = Cons.IH [OF this]
    have k: "n - number = Suc (n - (number + 1))" using conjunct1 [OF ih] by linarith
    then show ?thesis using ih Some k by (simp add: step del: parse_lines.simps)
  qed
qed simp

section \<open>A document\<close>

definition sample_document :: bytes where
  "sample_document = ascii ''version 1'' @ [10] @ ascii ''epoch 1'' @ [10] @
     ascii ''policy 1 1 fair_band=2 correction_threshold=5 max_correction=100'' @ [10] @
     ascii ''group 1 1 weight=1 # the root'' @ [10] @ ascii ''subject 10 1 group=1 weight=2 label=first one'' @ [10] @
     ascii ''evidence 1 1 window=1 window_gen=1 epoch=1 sequence=1'' @ [10] @ ascii ''obs 10 1 served=60'' @ [10]"

section \<open>Properties\<close>

text \<open>What a text stands for as a number: one to twenty decimal digits, behind a minus sign where there is one.\<close>

definition numeral_text :: "bytes \<Rightarrow> bool" where
  "numeral_text chars \<longleftrightarrow> chars \<noteq> [] \<and> length chars \<le> 20 \<and> (\<forall>c\<in>set chars. digit c)"

definition number_of :: "bytes \<Rightarrow> int option" where
  "number_of chars =
     (case chars of
        [] \<Rightarrow> None
      | c # cs \<Rightarrow>
          (if c = 45 then if numeral_text cs then Some (- int (decimal cs)) else None
           else if numeral_text chars then Some (int (decimal chars)) else None))"

lemma number_of_digits: "numeral_text chars \<Longrightarrow> number_of chars = Some (int (decimal chars))"
  by (cases chars) (auto simp: number_of_def numeral_text_def digit_def)

lemma number_of_natural: "number_of chars = Some (int n) \<and> hd chars \<noteq> 45 \<longleftrightarrow> numeral_text chars \<and> decimal chars = n"
proof
  assume n: "numeral_text chars \<and> decimal chars = n"
  then have "hd chars \<noteq> 45" by (cases chars) (auto simp: numeral_text_def digit_def)
  then show "number_of chars = Some (int n) \<and> hd chars \<noteq> 45" using n number_of_digits by blast
qed (auto simp: number_of_def split: list.splits if_splits)

lemma parse_u64_number: "parse_u64 chars = Some v \<longleftrightarrow> number_of chars = Some (uint v) \<and> hd chars \<noteq> 45"
  unfolding parse_u64_Some uint_nat number_of_natural numeral_text_def by blast

lemma parse_i64_number: "parse_i64 chars = Some w \<longleftrightarrow> number_of chars = Some (sint w)"
proof (cases "chars \<noteq> [] \<and> hd chars = 45")
  case True
  then obtain cs where c: "chars = 45 # cs" by (cases chars) auto
  have n: "number_of chars = Some (sint w) \<longleftrightarrow> numeral_text cs \<and> sint w = - int (decimal cs)" by (auto simp: number_of_def c)
  have "\<exists>m :: u64. decimal cs = unat m" if w: "sint w = - int (decimal cs)"
  proof -
    have "int (decimal cs) \<le> 2 ^ 63" using w sint_i64_range [of w] by linarith
    then have "decimal cs < 2 ^ 64" unfolding int_limits by (rule le_less_trans) simp
    then have "unat (of_nat (decimal cs) :: u64) = decimal cs" by (simp add: unat_of_nat_exact)
    then show ?thesis by metis
  qed
  then show ?thesis unfolding n unfolding c parse_i64_negative parse_u64_Some numeral_text_def by metis
next
  case False
  then have n: "number_of chars = Some (sint w) \<longleftrightarrow> numeral_text chars \<and> sint w = int (decimal chars)"
    by (cases chars) (auto simp: number_of_def numeral_text_def)
  have "\<exists>m :: u64. decimal chars = unat m" if w: "sint w = int (decimal chars)"
  proof -
    have "int (decimal chars) < 2 ^ 63" using w sint_i64_range [of w] by linarith
    then have "decimal chars < 2 ^ 64" unfolding int_limits by (rule less_trans) simp
    then have "unat (of_nat (decimal chars) :: u64) = decimal chars" by (simp add: unat_of_nat_exact)
    then show ?thesis by metis
  qed
  moreover have "chars = [] \<or> hd chars \<noteq> 45" using False by blast
  ultimately show ?thesis unfolding n parse_i64_plain [OF \<open>chars = [] \<or> hd chars \<noteq> 45\<close>] parse_u64_Some numeral_text_def by metis
qed

lemma parse_u32_number: "parse_u32 chars = Some x \<longleftrightarrow> number_of chars = Some (uint x) \<and> hd chars \<noteq> 45"
proof -
  have u: "uint (ucast v :: u32) = uint v" if "\<not> 2 ^ 32 - 1 < v" for v :: u64
    using that by (simp add: word_less_alt uint_up_ucast unsigned_ucast_eq take_bit_int_eq_self)
  have "parse_u32 chars = Some x \<longleftrightarrow> (\<exists>v. parse_u64 chars = Some v \<and> uint v = uint x)"
  proof
    assume "parse_u32 chars = Some x"
    then show "\<exists>v. parse_u64 chars = Some v \<and> uint v = uint x"
      using u by (auto simp: parse_u32_def bind_eq_Some_conv split: if_splits)
  next
    assume "\<exists>v. parse_u64 chars = Some v \<and> uint v = uint x"
    then obtain v where v: "parse_u64 chars = Some v" "uint v = uint x" by blast
    have "uint v < 2 ^ 32" using v(2) unsigned_less [of x, where 'a = int] by simp
    then have "\<not> 2 ^ 32 - 1 < v" by (simp add: word_less_alt)
    then show "parse_u32 chars = Some x" using v u by (simp add: parse_u32_def word_uint_eq_iff)
  qed
  moreover have "\<exists>v :: u64. uint v = uint x"
    by (rule exI [of _ "ucast x"]) (simp add: uint_up_ucast is_up)
  ultimately show ?thesis unfolding parse_u64_number by metis
qed

lemma parse_i32_number: "parse_i32 chars = Some y \<longleftrightarrow> number_of chars = Some (sint y)"
proof -
  have s: "sint (ucast w :: i32) = sint w" if "\<not> (2 ^ 31 - 1 < sint w \<or> sint w < - (2 ^ 31))" for w :: i64
  proof -
    have "sint (scast w :: i32) = sint w" using that by (simp add: not_less signed_scast_eq signed_take_bit_int_eq_self)
    moreover have "(ucast w :: i32) = scast w" using down_cast_same [where 'a = 64 and 'b = 32] by (simp add: is_down)
    ultimately show ?thesis by simp
  qed
  have "parse_i32 chars = Some y \<longleftrightarrow> (\<exists>w. parse_i64 chars = Some w \<and> sint w = sint y)"
  proof
    assume "parse_i32 chars = Some y"
    then show "\<exists>w. parse_i64 chars = Some w \<and> sint w = sint y"
      using s by (auto simp: parse_i32_def bind_eq_Some_conv split: if_splits)
  next
    assume "\<exists>w. parse_i64 chars = Some w \<and> sint w = sint y"
    then obtain w where w: "parse_i64 chars = Some w" "sint w = sint y" by blast
    have r: "\<not> (2 ^ 31 - 1 < sint w \<or> sint w < - (2 ^ 31))"
      using w(2) sint_range_size [of y] by (simp add: word_size)
    then have "ucast w = y" using s [OF r] w(2) signed_word_eqI by metis
    then show "parse_i32 chars = Some y" using w(1) r by (simp add: parse_i32_def)
  qed
  moreover have "\<exists>w :: i64. sint w = sint y"
    by (rule exI [of _ "scast y"]) (simp add: sint_up_scast is_up)
  ultimately show ?thesis unfolding parse_i64_number by metis
qed

text \<open>C40: The numbers of a scenario are read exactly, at every width. A text stands for a number when it is one to
  twenty decimal digits, for a negative one behind a minus sign. It is read as an unsigned number of 64 or of 32
  bits exactly if it has no minus sign and the number fits, and as a signed number of 64 or of 32 bits exactly
  if the number fits, at both ends of the range; the result is always the number the text stands for.\<close>

theorem scenario_numbers_exact:
  "(parse_u64 chars = Some v \<longleftrightarrow> number_of chars = Some (uint v) \<and> hd chars \<noteq> 45) \<and>
   (parse_u32 chars = Some x \<longleftrightarrow> number_of chars = Some (uint x) \<and> hd chars \<noteq> 45) \<and>
   (parse_i64 chars = Some w \<longleftrightarrow> number_of chars = Some (sint w)) \<and>
   (parse_i32 chars = Some y \<longleftrightarrow> number_of chars = Some (sint y))"
  by (intro conjI parse_u64_number parse_u32_number parse_i64_number parse_i32_number)

text \<open>The largest signed number of 64 bits is read, the next one is not, nor is the next one of 32 bits.\<close>

theorem scenario_numbers_exact_witness:
  "parse_i64 (ascii ''9223372036854775807'') = Some (2 ^ 63 - 1) \<and>
   (\<nexists>w. parse_i64 (ascii ''9223372036854775808'') = Some w) \<and> parse_i32 (ascii ''-7'') = Some (- 7) \<and>
   (\<nexists>x. parse_u32 (ascii ''4294967296'') = Some x)"
proof (intro conjI notI)
  note i64 = scenario_numbers_exact [THEN conjunct2, THEN conjunct2, THEN conjunct1]
  have "number_of (ascii ''9223372036854775807'') = Some 9223372036854775807"
    by (simp add: number_of_def numeral_text_def digit_def decimal_def ascii_def of_char_def)
  then show "parse_i64 (ascii ''9223372036854775807'') = Some (2 ^ 63 - 1)" unfolding i64 by simp
  have big: "number_of (ascii ''9223372036854775808'') = Some (2 ^ 63)"
    "number_of (ascii ''4294967296'') = Some (2 ^ 32)" "number_of (ascii ''-7'') = Some (- 7)"
    by (simp_all add: number_of_def numeral_text_def digit_def decimal_def ascii_def of_char_def)
  show False if "\<exists>w. parse_i64 (ascii ''9223372036854775808'') = Some w"
    using that sint_i64_range unfolding i64 big(1) by (metis less_irrefl option.inject)
  show False if small: "\<exists>x. parse_u32 (ascii ''4294967296'') = Some x"
  proof -
    obtain x where "parse_u32 (ascii ''4294967296'') = Some x" using small by blast
    then have "uint x = 2 ^ 32" unfolding scenario_numbers_exact [THEN conjunct2, THEN conjunct1] big(2) by simp
    then show False using unsigned_less [of x, where 'a = int] by simp
  qed
  show "parse_i32 (ascii ''-7'') = Some (- 7)"
    unfolding scenario_numbers_exact [THEN conjunct2, THEN conjunct2, THEN conjunct2] big(3) by simp
qed

text \<open>Line endings do not matter: a document written with carriage returns in front of its line feeds gives the
  same scenario, digest of the source aside, or the same error in the same line.\<close>

theorem line_endings_do_not_matter:
  assumes "13 \<notin> set chars"
  shows "map_sum id (\<lambda>sc. sc\<lparr>sc_source_digest := 0\<rparr>) (parse_scenario (dos chars))
    = map_sum id (\<lambda>sc. sc\<lparr>sc_source_digest := 0\<rparr>) (parse_scenario chars)"
proof -
  note l = dos_lines [OF assms]
  have "length (raw_lines (dos chars)) = length (raw_lines chars)" using arg_cong [OF l, of length] by simp
  then show ?thesis
    unfolding parse_scenario_def parse_lines_stripped [OF l] by (simp add: finish_parse_def Let_def split: sum.split)
qed

theorem line_endings_do_not_matter_witness:
  "map_sum id sc_epoch (parse_scenario (ascii ''version 1'' @ [13, 10] @ ascii ''epoch 3'' @ [13, 10])) = Inr 3"
proof -
  let ?t = "ascii ''version 1'' @ [10] @ ascii ''epoch 3'' @ [10]"
  have c: "13 \<notin> set ?t" "dos ?t = ascii ''version 1'' @ [13, 10] @ ascii ''epoch 3'' @ [13, 10]"
    by code_simp+
  have "map_sum id sc_epoch (parse_scenario ?t) = Inr 3" by code_simp
  moreover have "map_sum id sc_epoch r = map_sum id sc_epoch (map_sum id (\<lambda>sc. sc\<lparr>sc_source_digest := 0\<rparr>) r)" for r :: "nat + Scenario"
    by (cases r) simp_all
  ultimately show ?thesis using line_endings_do_not_matter [OF c(1)] unfolding c(2) by metis
qed

text \<open>The error of a rejected document is its first one. When a line is rejected, all lines in front of it were
  accepted, its number is within the document, and whatever follows that line, the answer is the
  same.\<close>

theorem first_error_reported:
  assumes "parse_lines 1 (raw_lines chars) initial_parse = Inl n"
  shows "parse_scenario chars = Inl n \<and> 1 \<le> n \<and> n \<le> length (raw_lines chars) \<and>
    (\<exists>st. parse_lines 1 (take (n - 1) (raw_lines chars)) initial_parse = Inr st) \<and>
    parse_lines 1 (take n (raw_lines chars) @ others) initial_parse = Inl n"
proof -
  note e = parse_lines_error [OF assms, of others]
  have "n - 1 + 1 = n" using e by simp
  then show ?thesis using e assms by (auto simp: parse_scenario_def)
qed

theorem first_error_reported_witness:
  "parse_scenario (ascii ''version 1'' @ [10] @ ascii ''epoch x'' @ [10] @ ascii ''nonsense'') = Inl 2"
proof -
  have "parse_lines 1 (raw_lines (ascii ''version 1'' @ [10] @ ascii ''epoch x'' @ [10] @ ascii ''nonsense'')) initial_parse = Inl 2"
    by code_simp
  from first_error_reported [OF this] show ?thesis by blast
qed

end
