(* ===== verification/FG_Frame.thy ===== *)
theory FG_Frame
  imports FG_Record
begin

unbundle bit_operations_syntax

text \<open>
  The frames of the evidence link (\<open>link/frame.cpp\<close>): a header of 80 bytes with one FNV-1a checksum over
  its first 64 bytes and the payload, and the two acknowledgement payloads. A status travels as its
  number; a decoded number need not be one of the declared codes, so the acknowledgements hold the number.
\<close>

section \<open>Definitions\<close>

definition status_value :: "StatusCode \<Rightarrow> u16" where
  "status_value code =
     (case code of
        Ok \<Rightarrow> 0 | InvalidArgument \<Rightarrow> 1 | OutOfRange \<Rightarrow> 2 | NotFound \<Rightarrow> 3 | AlreadyExists \<Rightarrow> 4 | Duplicate \<Rightarrow> 5
      | Conflict \<Rightarrow> 6 | NotInitialized \<Rightarrow> 7 | Unsupported \<Rightarrow> 8 | Internal \<Rightarrow> 9
      | StaleGeneration \<Rightarrow> 20 | StaleEpoch \<Rightarrow> 21 | StaleIncarnation \<Rightarrow> 22 | StaleEvidence \<Rightarrow> 23
      | EvidenceMissing \<Rightarrow> 24 | EvidenceContradictory \<Rightarrow> 25 | AuthorityMismatch \<Rightarrow> 26 | IncarnationMismatch \<Rightarrow> 27
      | PolicyInvalid \<Rightarrow> 40 | PolicyGenerationMismatch \<Rightarrow> 41 | PolicyOvercommit \<Rightarrow> 42 | GroupCycle \<Rightarrow> 43
      | GroupDepthExceeded \<Rightarrow> 44 | SubjectGenerationMismatch \<Rightarrow> 45
      | ArithmeticOverflow \<Rightarrow> 60 | ArithmeticUnderflow \<Rightarrow> 61 | DivideByZero \<Rightarrow> 62 | LimitExceeded \<Rightarrow> 63
      | IoError \<Rightarrow> 80 | CorruptRecord \<Rightarrow> 81 | UnsupportedFormat \<Rightarrow> 82 | Truncated \<Rightarrow> 83 | ChecksumMismatch \<Rightarrow> 84
      | OversizedPayload \<Rightarrow> 85 | CommitRejected \<Rightarrow> 86 | RecoveryRequired \<Rightarrow> 87
      | TransportError \<Rightarrow> 100 | FrameInvalid \<Rightarrow> 101 | FrameTooLarge \<Rightarrow> 102 | HandshakeRejected \<Rightarrow> 103
      | SequenceViolation \<Rightarrow> 104 | LinkClosed \<Rightarrow> 105 | LinkBusy \<Rightarrow> 106 | IdleTimeout \<Rightarrow> 107
      | ShuttingDown \<Rightarrow> 120 | Cancelled \<Rightarrow> 121 | Busy \<Rightarrow> 122)"

datatype FrameKind = Frame_Hello | Frame_HelloAck | Frame_Evidence | Frame_EvidenceAck | Frame_Goodbye | Frame_Error

definition frame_kind_value :: "FrameKind \<Rightarrow> u16" where
  "frame_kind_value kind = (case kind of Frame_Hello \<Rightarrow> 1 | Frame_HelloAck \<Rightarrow> 2 | Frame_Evidence \<Rightarrow> 3
     | Frame_EvidenceAck \<Rightarrow> 4 | Frame_Goodbye \<Rightarrow> 5 | Frame_Error \<Rightarrow> 6)"

text \<open>\<open>known_kind\<close> and the cast that follows it.\<close>

definition known_kind :: "u16 \<Rightarrow> FrameKind option" where
  "known_kind raw =
     (if raw = 1 then Some Frame_Hello else if raw = 2 then Some Frame_HelloAck
      else if raw = 3 then Some Frame_Evidence else if raw = 4 then Some Frame_EvidenceAck
      else if raw = 5 then Some Frame_Goodbye else if raw = 6 then Some Frame_Error else None)"

definition kFrameFlagNone :: u16 where "kFrameFlagNone = 0"
definition kFrameFlagRequestShutdown :: u16 where "kFrameFlagRequestShutdown = push_bit 0 1"
definition kFrameFlagUnsupportedEncoding :: u16 where "kFrameFlagUnsupportedEncoding = push_bit 1 1"
definition kKnownFlags :: u16 where "kKnownFlags = kFrameFlagRequestShutdown OR kFrameFlagUnsupportedEncoding"
definition kFrameMagic :: u32 where "kFrameMagic = 0x4B4C4746"
definition kFrameHeaderSize :: nat where "kFrameHeaderSize = 80"
definition kFrameProtocolVersion :: u16 where "kFrameProtocolVersion = 1"
definition kMaxFrameDetailBytes :: u32 where "kMaxFrameDetailBytes = 512"

record FrameHeader =
  fh_kind :: FrameKind
  fh_flags :: u16
  fh_payload_length :: u32
  fh_session_id :: u64
  fh_epoch :: Generation
  fh_publisher :: Id
  fh_publisher_boot :: Id
  fh_publisher_ordinal :: u64
  fh_sequence :: u64
  fh_frame_checksum :: u64

text \<open>The first 64 bytes of a header, which the checksum covers, in the order of the offsets.\<close>

definition covered_header :: "FrameHeader \<Rightarrow> bytes" where
  "covered_header h =
     le_bytes 4 kFrameMagic @ le_bytes 2 kFrameProtocolVersion @ le_bytes 2 (frame_kind_value (fh_kind h)) @
     le_bytes 2 (fh_flags h) @ le_bytes 2 (0 :: u16) @ le_bytes 4 (fh_payload_length h) @
     le_bytes 8 (fh_session_id h) @ le_bytes 8 (fh_epoch h) @ le_bytes 8 (fh_publisher h) @
     le_bytes 8 (fh_publisher_boot h) @ le_bytes 8 (fh_publisher_ordinal h) @ le_bytes 8 (fh_sequence h)"

definition write_header :: "FrameHeader \<Rightarrow> bytes" where
  "write_header h = covered_header h @ le_bytes 8 (0 :: u64) @ le_bytes 8 (0 :: u64)"

definition frame_checksum :: "bytes \<Rightarrow> bytes \<Rightarrow> u64" where
  "frame_checksum header payload = fnv1a64 payload (fnv1a64 (take 64 header) kFnvOffsetBasis)"

definition encode_frame :: "FrameHeader \<Rightarrow> bytes \<Rightarrow> bytes" where
  "encode_frame header payload =
     (let effective = header\<lparr>fh_payload_length := of_nat (length payload)\<rparr>;
          frame = write_header effective @ payload
      in take 64 frame @ le_bytes 8 (frame_checksum frame payload) @ drop 72 frame)"

definition decode_frame_header :: "bytes \<Rightarrow> u32 \<Rightarrow> FrameHeader result" where
  "decode_frame_header data max_payload =
     (if length data \<noteq> kFrameHeaderSize then Inl FrameInvalid
      else if load_at 4 0 data \<noteq> kFrameMagic then Inl FrameInvalid
      else if load_at 2 4 data \<noteq> kFrameProtocolVersion then Inl UnsupportedFormat
      else case known_kind (load_at 2 6 data) of
             None \<Rightarrow> Inl FrameInvalid
           | Some kind \<Rightarrow>
               (let flags = load_at 2 8 data; len = load_at 4 12 data
                in if flags AND NOT kKnownFlags \<noteq> 0 then Inl FrameInvalid
                   else if flags AND kFrameFlagUnsupportedEncoding \<noteq> 0 then Inl Unsupported
                   else if load_at 2 10 data \<noteq> (0 :: u16) \<or> load_at 8 72 data \<noteq> (0 :: u64) then Inl FrameInvalid
                   else if max_payload < len then Inl FrameTooLarge
                   else Inr \<lparr>fh_kind = kind, fh_flags = flags, fh_payload_length = len,
                          fh_session_id = load_at 8 16 data, fh_epoch = load_at 8 24 data,
                          fh_publisher = load_at 8 32 data, fh_publisher_boot = load_at 8 40 data,
                          fh_publisher_ordinal = load_at 8 48 data, fh_sequence = load_at 8 56 data,
                          fh_frame_checksum = load_at 8 64 data\<rparr>))"

definition verify_frame_payload :: "FrameHeader \<Rightarrow> bytes \<Rightarrow> StatusCode" where
  "verify_frame_payload header payload =
     (if length payload \<noteq> unat (fh_payload_length header) then Truncated
      else if frame_checksum (covered_header header) payload \<noteq> fh_frame_checksum header then ChecksumMismatch
      else Ok)"

record HelloAck =
  ha_code :: u16
  ha_session_id :: u64
  ha_epoch :: Generation
  ha_max_payload :: u32
  ha_server_boot :: Id
  ha_server_ordinal :: u64
  ha_policy_id :: Id
  ha_policy_generation :: Generation
  ha_accounting_generation :: u64
  ha_detail :: bytes

record EvidenceAck =
  ea_code :: u16
  ea_snapshot :: Id
  ea_generation :: Generation
  ea_accounting_generation :: u64
  ea_disposition :: u8
  ea_detail :: bytes

definition encode_hello_ack :: "HelloAck \<Rightarrow> bytes" where
  "encode_hello_ack ack = put_u16 (ha_code ack) @ put_u64 (ha_session_id ack) @ put_u64 (ha_epoch ack) @
     put_u32 (ha_max_payload ack) @ put_u64 (ha_server_boot ack) @ put_u64 (ha_server_ordinal ack) @
     put_u64 (ha_policy_id ack) @ put_u64 (ha_policy_generation ack) @
     put_u64 (ha_accounting_generation ack) @ put_blob (ha_detail ack)"

definition get_hello_ack :: "bytes \<Rightarrow> (HelloAck \<times> bytes) option" where
  "get_hello_ack r = Option.bind (get_u16 r) (\<lambda>(code, r). Option.bind (get_u64 r) (\<lambda>(session, r).
     Option.bind (get_u64 r) (\<lambda>(epoch, r). Option.bind (get_u32 r) (\<lambda>(max_payload, r).
     Option.bind (get_u64 r) (\<lambda>(boot, r). Option.bind (get_u64 r) (\<lambda>(ordinal, r).
     Option.bind (get_u64 r) (\<lambda>(policy, r). Option.bind (get_u64 r) (\<lambda>(policy_generation, r).
     Option.bind (get_u64 r) (\<lambda>(accounting_generation, r).
     Option.bind (get_blob kMaxFrameDetailBytes r) (\<lambda>(detail, r).
       Some (\<lparr>ha_code = code, ha_session_id = session, ha_epoch = epoch, ha_max_payload = max_payload,
         ha_server_boot = boot, ha_server_ordinal = ordinal, ha_policy_id = policy,
         ha_policy_generation = policy_generation, ha_accounting_generation = accounting_generation,
         ha_detail = detail\<rparr>, r)))))))))))"

definition decode_hello_ack :: "bytes \<Rightarrow> HelloAck result" where
  "decode_hello_ack bytes =
     (case get_hello_ack bytes of
        None \<Rightarrow> Inl FrameInvalid
      | Some (ack, rest) \<Rightarrow>
          (if rest \<noteq> [] then Inl FrameInvalid
           else if status_value Busy < ha_code ack then Inl FrameInvalid
           else Inr ack))"

definition encode_evidence_ack :: "EvidenceAck \<Rightarrow> bytes" where
  "encode_evidence_ack ack = put_u16 (ea_code ack) @ put_u64 (ea_snapshot ack) @ put_u64 (ea_generation ack) @
     put_u64 (ea_accounting_generation ack) @ put_u8 (ea_disposition ack) @ put_blob (ea_detail ack)"

definition get_evidence_ack :: "bytes \<Rightarrow> (EvidenceAck \<times> bytes) option" where
  "get_evidence_ack r = Option.bind (get_u16 r) (\<lambda>(code, r). Option.bind (get_u64 r) (\<lambda>(snapshot, r).
     Option.bind (get_u64 r) (\<lambda>(generation, r). Option.bind (get_u64 r) (\<lambda>(accounting_generation, r).
     Option.bind (get_u8 r) (\<lambda>(disposition, r). Option.bind (get_blob kMaxFrameDetailBytes r) (\<lambda>(detail, r).
       Some (\<lparr>ea_code = code, ea_snapshot = snapshot, ea_generation = generation,
         ea_accounting_generation = accounting_generation, ea_disposition = disposition,
         ea_detail = detail\<rparr>, r)))))))"

definition decode_evidence_ack :: "bytes \<Rightarrow> EvidenceAck result" where
  "decode_evidence_ack bytes =
     (case get_evidence_ack bytes of
        None \<Rightarrow> Inl FrameInvalid
      | Some (ack, rest) \<Rightarrow>
          (if rest \<noteq> [] then Inl FrameInvalid
           else if status_value Busy < ea_code ack then Inl FrameInvalid
           else Inr ack))"

section \<open>Round trips\<close>

lemma covered_header_length [simp]: "length (covered_header h) = 64"
  by (simp add: covered_header_def)

lemma encode_frame_eq:
  "encode_frame header payload =
     covered_header (header\<lparr>fh_payload_length := of_nat (length payload)\<rparr>) @
     le_bytes 8 (frame_checksum (covered_header (header\<lparr>fh_payload_length := of_nat (length payload)\<rparr>)) payload) @
     le_bytes 8 (0 :: u64) @ payload"
  by (simp add: encode_frame_def write_header_def frame_checksum_def Let_def)

lemma encode_frame_split:
  "take 80 (encode_frame header payload) @ payload = encode_frame header payload"
  "drop 80 (encode_frame header payload) = payload" "length (encode_frame header payload) = 80 + length payload"
  by (simp_all add: encode_frame_eq)

lemma covered_fields:
  "load_at 4 0 (covered_header h @ r) = kFrameMagic" "load_at 2 4 (covered_header h @ r) = kFrameProtocolVersion"
  "load_at 2 6 (covered_header h @ r) = frame_kind_value (fh_kind h)" "load_at 2 8 (covered_header h @ r) = fh_flags h"
  "load_at 2 10 (covered_header h @ r) = (0 :: u16)" "load_at 4 12 (covered_header h @ r) = fh_payload_length h"
  "load_at 8 16 (covered_header h @ r) = fh_session_id h" "load_at 8 24 (covered_header h @ r) = fh_epoch h"
  "load_at 8 32 (covered_header h @ r) = fh_publisher h" "load_at 8 40 (covered_header h @ r) = fh_publisher_boot h"
  "load_at 8 48 (covered_header h @ r) = fh_publisher_ordinal h" "load_at 8 56 (covered_header h @ r) = fh_sequence h"
  by (simp_all add: covered_header_def load_at_skip load_le_bytes)

lemma known_kind_value [simp]: "known_kind (frame_kind_value kind) = Some kind"
  by (cases kind) (simp_all add: known_kind_def frame_kind_value_def)

text \<open>The header a receiver sees.\<close>

definition sealed :: "FrameHeader \<Rightarrow> bytes \<Rightarrow> FrameHeader" where
  "sealed header payload =
     header\<lparr>fh_payload_length := of_nat (length payload),
       fh_frame_checksum := frame_checksum (covered_header (header\<lparr>fh_payload_length := of_nat (length payload)\<rparr>)) payload\<rparr>"

lemma covered_checksum [simp]: "covered_header (h\<lparr>fh_frame_checksum := c\<rparr>) = covered_header h"
  by (simp add: covered_header_def)

lemma flags_known: "(f :: u16) \<in> {0, 1} \<Longrightarrow> f AND NOT kKnownFlags = 0 \<and> f AND kFrameFlagUnsupportedEncoding = 0"
  by (auto simp: kKnownFlags_def kFrameFlagRequestShutdown_def kFrameFlagUnsupportedEncoding_def)

lemma header_literal:
  "\<lparr>fh_kind = fh_kind h, fh_flags = fh_flags h, fh_payload_length = n, fh_session_id = fh_session_id h,
     fh_epoch = fh_epoch h, fh_publisher = fh_publisher h, fh_publisher_boot = fh_publisher_boot h,
     fh_publisher_ordinal = fh_publisher_ordinal h, fh_sequence = fh_sequence h, fh_frame_checksum = c\<rparr>
   = h\<lparr>fh_payload_length := n, fh_frame_checksum := c\<rparr>"
  by (cases h) simp

lemma decode_encode_frame:
  assumes "fh_flags header \<in> {0, 1}" "length payload \<le> unat max_payload"
  shows "decode_frame_header (take 80 (encode_frame header payload)) max_payload = Inr (sealed header payload)"
    "verify_frame_payload (sealed header payload) payload = Ok"
proof -
  let ?h = "header\<lparr>fh_payload_length := of_nat (length payload)\<rparr>"
  have n: "unat (of_nat (length payload) :: u32) = length payload"
    using assms(2) unat_bounded [of max_payload] by (intro unat_of_nat_exact) simp
  have le: "\<not> max_payload < of_nat (length payload)" using assms(2) n by (simp add: word_less_nat_alt)
  define c where "c = frame_checksum (covered_header ?h) payload"
  have t: "take 80 (encode_frame header payload) = covered_header ?h @ le_bytes 8 c @ le_bytes 8 (0 :: u64)"
    by (simp add: encode_frame_eq c_def)
  have tail: "load_at 8 64 (covered_header ?h @ le_bytes 8 c @ le_bytes 8 (0 :: u64)) = c"
      "load_at 8 72 (covered_header ?h @ le_bytes 8 c @ le_bytes 8 (0 :: u64)) = (0 :: u64)"
    using load_le_bytes [of 8 "0 :: u64" "[]"] by (simp_all add: load_at_skip load_le_bytes)
  show "decode_frame_header (take 80 (encode_frame header payload)) max_payload = Inr (sealed header payload)"
    unfolding t using flags_known [OF assms(1)] le
    by (simp add: decode_frame_header_def kFrameHeaderSize_def covered_fields tail Let_def sealed_def
        c_def [symmetric] header_literal)
  show "verify_frame_payload (sealed header payload) payload = Ok"
    by (simp add: verify_frame_payload_def sealed_def n)
qed


lemma decode_hello_ack_inverse:
  assumes "ha_code ack \<le> status_value Busy" "length (ha_detail ack) \<le> 512"
  shows "decode_hello_ack (encode_hello_ack ack) = Inr ack"
proof -
  have "get_hello_ack (encode_hello_ack ack) = Some (ack, [])"
    using assms(2) get_put_blob [of "ha_detail ack" kMaxFrameDetailBytes "[]"]
    by (simp add: get_hello_ack_def encode_hello_ack_def kMaxFrameDetailBytes_def
        wire_u16.get_put wire_u32.get_put wire_u64.get_put)
  then show ?thesis using assms(1) by (simp add: decode_hello_ack_def not_less)
qed

lemma decode_evidence_ack_inverse:
  assumes "ea_code ack \<le> status_value Busy" "length (ea_detail ack) \<le> 512"
  shows "decode_evidence_ack (encode_evidence_ack ack) = Inr ack"
proof -
  have "get_evidence_ack (encode_evidence_ack ack) = Some (ack, [])"
    using assms(2) get_put_blob [of "ea_detail ack" kMaxFrameDetailBytes "[]"]
    by (simp add: get_evidence_ack_def encode_evidence_ack_def kMaxFrameDetailBytes_def
        wire_u8.get_put wire_u16.get_put wire_u64.get_put)
  then show ?thesis using assms(1) by (simp add: decode_evidence_ack_def not_less)
qed

section \<open>Corruption of one byte\<close>

text \<open>A frame that is accepted as a whole.\<close>

definition accept_frame :: "bytes \<Rightarrow> u32 \<Rightarrow> FrameHeader result" where
  "accept_frame bytes max_payload =
     and_then (decode_frame_header (take 80 bytes) max_payload) (\<lambda>header.
       if verify_frame_payload header (drop 80 bytes) = Ok then Inr header
       else Inl (verify_frame_payload header (drop 80 bytes)))"

lemma known_kind_inj: "known_kind raw = Some kind \<Longrightarrow> frame_kind_value kind = raw"
  by (auto simp: known_kind_def frame_kind_value_def split: if_splits)

lemma le_bytes_load:
  fixes v :: "'a::len word"
  assumes "load_at n k data = v" "LENGTH('a) = 8 * n" "k + n \<le> length data"
  shows "le_bytes n v = take n (drop k data)"
proof -
  have "le_or 0 (le_bytes n v) 0 = (le_or 0 (take n (drop k data)) 0 :: 'a word)"
    using assms(1,2) le_round_trip [of n v] by (simp add: load_at_def)
  then show ?thesis by (rule le_or_injective) (use assms(2,3) in simp_all)
qed

text \<open>An accepted header is the header of its first 64 bytes.\<close>

lemma decoded_covered:
  assumes "decode_frame_header data max_payload = Inr header"
  shows "covered_header header = take 64 data" "take 8 (drop 72 data) = le_bytes 8 (0 :: u64)"
    "fh_frame_checksum header = load_at 8 64 data" "length data = 80"
proof -
  have len: "length data = 80" using assms by (auto simp: decode_frame_header_def kFrameHeaderSize_def split: if_splits)
  obtain kind where k: "load_at 4 0 data = kFrameMagic" "load_at 2 4 data = kFrameProtocolVersion"
    "known_kind (load_at 2 6 data) = Some kind" "load_at 2 10 data = (0 :: u16)" "load_at 8 72 data = (0 :: u64)"
    "header = \<lparr>fh_kind = kind, fh_flags = load_at 2 8 data, fh_payload_length = load_at 4 12 data,
                          fh_session_id = load_at 8 16 data, fh_epoch = load_at 8 24 data,
                          fh_publisher = load_at 8 32 data, fh_publisher_boot = load_at 8 40 data,
                          fh_publisher_ordinal = load_at 8 48 data, fh_sequence = load_at 8 56 data,
                          fh_frame_checksum = load_at 8 64 data\<rparr>"
    using assms by (auto simp: decode_frame_header_def Let_def split: if_splits option.splits)
  have f: "le_bytes 4 kFrameMagic = take 4 (drop 0 data)" "le_bytes 2 kFrameProtocolVersion = take 2 (drop 4 data)"
    "le_bytes 2 (frame_kind_value kind) = take 2 (drop 6 data)" "le_bytes 2 (fh_flags header) = take 2 (drop 8 data)"
    "le_bytes 2 (0 :: u16) = take 2 (drop 10 data)" "le_bytes 4 (fh_payload_length header) = take 4 (drop 12 data)"
    "le_bytes 8 (fh_session_id header) = take 8 (drop 16 data)" "le_bytes 8 (fh_epoch header) = take 8 (drop 24 data)"
    "le_bytes 8 (fh_publisher header) = take 8 (drop 32 data)" "le_bytes 8 (fh_publisher_boot header) = take 8 (drop 40 data)"
    "le_bytes 8 (fh_publisher_ordinal header) = take 8 (drop 48 data)" "le_bytes 8 (fh_sequence header) = take 8 (drop 56 data)"
    "le_bytes 8 (0 :: u64) = take 8 (drop 72 data)"
    by (rule le_bytes_load; use k known_kind_inj [OF k(3)] len in simp)+
  have "fh_kind header = kind" by (simp add: k(6))
  then have "covered_header header = take 4 (drop 0 data) @ take 2 (drop 4 data) @ take 2 (drop 6 data) @ take 2 (drop 8 data) @
      take 2 (drop 10 data) @ take 4 (drop 12 data) @ take 8 (drop 16 data) @ take 8 (drop 24 data) @
      take 8 (drop 32 data) @ take 8 (drop 40 data) @ take 8 (drop 48 data) @ take 8 (drop 56 data)"
    unfolding covered_header_def f by (simp add: f(3))
  also have "\<dots> = take 64 data"
  proof -
    have j: "take n (drop k data) @ take m (drop (k + n) data) = take (n + m) (drop k data)" for n k m
      unfolding take_add drop_drop by (simp only: add.commute)
    show ?thesis
      using j [of 8 48 8] j [of 8 40 16] j [of 8 32 24] j [of 8 24 32] j [of 8 16 40] j [of 4 12 48] j [of 2 10 52]
        j [of 2 8 54] j [of 2 6 56] j [of 2 4 58] j [of 4 0 60] by simp
  qed
  finally show "covered_header header = take 64 data" .
  show "take 8 (drop 72 data) = le_bytes 8 (0 :: u64)" using f(13) by simp
  show "fh_frame_checksum header = load_at 8 64 data" "length data = 80" using k(6) len by simp_all
qed


text \<open>An accepted frame is determined by its bytes in front of the checksum and its payload.\<close>

lemma accept_frameD:
  assumes "accept_frame bytes max_payload = Inr header"
  shows "load_at 8 64 (take 80 bytes) = fnv1a64 (drop 80 bytes) (fnv1a64 (take 64 bytes) kFnvOffsetBasis)"
    "take 8 (drop 72 bytes) = le_bytes 8 (0 :: u64)" "80 \<le> length bytes"
proof -
  have h: "decode_frame_header (take 80 bytes) max_payload = Inr header" "verify_frame_payload header (drop 80 bytes) = Ok"
    using assms by (auto simp: accept_frame_def and_then_Inr split: if_splits)
  note d = decoded_covered [OF h(1)]
  show "80 \<le> length bytes" using d(4) by simp
  then show "take 8 (drop 72 bytes) = le_bytes 8 (0 :: u64)" using d(2) by (simp add: drop_take)
  show "load_at 8 64 (take 80 bytes) = fnv1a64 (drop 80 bytes) (fnv1a64 (take 64 bytes) kFnvOffsetBasis)"
    using h(2) d(1,3) by (simp add: verify_frame_payload_def frame_checksum_def split: if_splits)
qed

lemma frame_byte_detected:
  assumes ok: "accept_frame bytes max_payload = Inr header" and i: "i < length bytes" and b: "b \<noteq> bytes ! i"
  shows "accept_frame (bytes[i := b]) max_payload' \<noteq> Inr header'"
proof
  assume c: "accept_frame (bytes[i := b]) max_payload' = Inr header'"
  note o = accept_frameD [OF ok] and n = accept_frameD [OF c]
  consider "i < 64" | "64 \<le> i" "i < 72" | "72 \<le> i" "i < 80" | "80 \<le> i" by linarith
  then show False
  proof cases
    case 1
    have "load_at 8 64 (take 80 (bytes[i := b])) = (load_at 8 64 (take 80 bytes) :: u64)"
      using 1 by (simp add: load_at_def drop_take drop_update_cancel)
    then have "fnv1a64 (take 64 (bytes[i := b])) kFnvOffsetBasis = fnv1a64 (take 64 bytes) kFnvOffsetBasis"
      using o(1) n(1) 1 fnv_seed_injective by simp
    moreover have "take 64 (bytes[i := b]) = (take 64 bytes)[i := b]" using 1 by (simp add: take_update_swap)
    ultimately show False using fnv_one_byte [of i "take 64 bytes" b kFnvOffsetBasis] 1 i b by simp
  next
    case 2
    have "load_at 8 64 (take 80 (bytes[i := b])) = (load_at 8 64 (take 80 bytes) :: u64)"
      using o(1) n(1) 2 by simp
    then have "take 8 (drop 64 (take 80 (bytes[i := b]))) = take 8 (drop 64 (take 80 bytes))"
      unfolding load_at_def by (rule le_or_injective [where n = 8]) (use o(3) in simp_all)
    then have "take 8 (drop 64 (take 80 (bytes[i := b]))) ! (i - 64) = take 8 (drop 64 (take 80 bytes)) ! (i - 64)" by simp
    then show False using 2 i b o(3) by simp
  next
    case 3
    have "take 8 (drop 72 (bytes[i := b])) ! (i - 72) = take 8 (drop 72 bytes) ! (i - 72)" using o(2) n(2) by simp
    then show False using 3 i b by simp
  next
    case 4
    have e: "load_at 8 64 (take 80 (bytes[i := b])) = (load_at 8 64 (take 80 bytes) :: u64)"
        "take 64 (bytes[i := b]) = take 64 bytes" "drop 80 (bytes[i := b]) = (drop 80 bytes)[i - 80 := b]"
      using 4 by (simp_all add: drop_update_swap)
    have "i - 80 < length (drop 80 bytes)" "b \<noteq> drop 80 bytes ! (i - 80)" using 4 i b by auto
    then have "fnv1a64 ((drop 80 bytes)[i - 80 := b]) (fnv1a64 (take 64 bytes) kFnvOffsetBasis)
        \<noteq> fnv1a64 (drop 80 bytes) (fnv1a64 (take 64 bytes) kFnvOffsetBasis)" by (rule fnv_one_byte)
    moreover have "fnv1a64 ((drop 80 bytes)[i - 80 := b]) (fnv1a64 (take 64 bytes) kFnvOffsetBasis)
        = fnv1a64 (drop 80 bytes) (fnv1a64 (take 64 bytes) kFnvOffsetBasis)"
      by (rule trans [OF n(1) [unfolded e, symmetric] o(1)])
    ultimately show False by (rule notE)
  qed
qed

lemma accept_encoded:
  assumes "fh_flags header \<in> {0, 1}" "length payload \<le> unat max_payload"
  shows "accept_frame (encode_frame header payload) max_payload = Inr (sealed header payload)"
  using decode_encode_frame [OF assms] by (simp add: accept_frame_def encode_frame_split)

section \<open>Properties\<close>

definition sample_frame :: FrameHeader where
  "sample_frame = \<lparr>fh_kind = Frame_Evidence, fh_flags = 0, fh_payload_length = 0, fh_session_id = 5, fh_epoch = 1,
     fh_publisher = 3, fh_publisher_boot = 8, fh_publisher_ordinal = 1, fh_sequence = 1, fh_frame_checksum = 0\<rparr>"

text \<open>A frame in which a single byte was changed on the way is never accepted, wherever the byte is: in the
  covered header, in the checksum, in the reserved tail or in the payload.\<close>

theorem corrupt_frame_rejected:
  assumes "accept_frame bytes max_payload = Inr header" "i < length bytes" "b \<noteq> bytes ! i"
  shows "\<exists>code. accept_frame (bytes[i := b]) max_payload = Inl code"
  using frame_byte_detected [OF assms, of max_payload] by (cases "accept_frame (bytes[i := b]) max_payload") auto

theorem corrupt_frame_rejected_witness:
  "\<exists>code. accept_frame ((encode_frame sample_frame [1, 2, 3])[81 := 9]) 100 = Inl code"
proof (rule corrupt_frame_rejected)
  show "accept_frame (encode_frame sample_frame [1, 2, 3]) 100 = Inr (sealed sample_frame [1, 2, 3])"
    by (rule accept_encoded) (simp_all add: sample_frame_def)
  show "81 < length (encode_frame sample_frame [1, 2, 3])" by (simp add: encode_frame_split)
  have "encode_frame sample_frame [1, 2, 3] ! 81 = 2" by (simp add: encode_frame_eq nth_append)
  then show "(9 :: u8) \<noteq> encode_frame sample_frame [1, 2, 3] ! 81" by simp
qed

end
