(* ===== verification/FG_Link.thy ===== *)
theory FG_Link
  imports FG_Frame FG_Runs
begin

unbundle bit_operations_syntax

text \<open>
  The evidence link (\<open>link/link.cpp\<close>): reading frames from a socket, serving one connection to a governor,
  and the publisher's side. What a socket answers to the successive calls is a list of events, an
  argument of the model, and so is what a write that returns reports (that a write need not return is the
  subject of \<open>FG_Sockets\<close> and \<open>FG_Shutdown\<close>, which runs these steps over the answers of the sockets); the texts of acknowledgements and errors, which
  carry the detail of a status, come from a function as well. One frame is served as one step: the
  interleaving of several connections is a sequence of such steps on one governor.
\<close>

section \<open>Receiving\<close>

text \<open>One look at the stop flag and one \<open>recv\<close>: it finds the flag set, data, the end of the stream, nothing
  in time, or an error. Data that is longer than what the call asks for stays in the stream.\<close>

datatype recv = Stop_seen | Arrived bytes | Peer_closed | Would_block | Recv_failed

datatype received = Received_all | Received_stop | Received_closed | Received_idle | Received_error

text \<open>The loop of \<open>read_exact\<close>, and that of \<open>read_frame\<close> over the header.\<close>

fun receive :: "u32 \<Rightarrow> nat \<Rightarrow> u32 \<Rightarrow> bytes \<Rightarrow> recv list \<Rightarrow> received \<times> bytes \<times> recv list" where
  "receive idle_polls wanted idle got [] = (if wanted \<le> length got then (Received_all, got, []) else (Received_closed, got, []))"
| "receive idle_polls wanted idle got (event # events) =
     (if wanted \<le> length got then (Received_all, got, event # events)
      else case event of
             Stop_seen \<Rightarrow> (Received_stop, got, event # events)
           | Peer_closed \<Rightarrow> (Received_closed, got, event # events)
           | Recv_failed \<Rightarrow> (Received_error, got, events)
           | Would_block \<Rightarrow>
               (if idle_polls < idle + 1 then (Received_idle, got, events)
                else receive idle_polls wanted (idle + 1) got events)
           | Arrived data \<Rightarrow>
               (let missing = wanted - length got
                in if data = [] then (Received_closed, got, events)
                   else if length data \<le> missing then receive idle_polls wanted 0 (got @ data) events
                   else (Received_all, got @ take missing data, Arrived (drop missing data) # events)))"

definition header_failure :: "received \<Rightarrow> bytes \<Rightarrow> StatusCode" where
  "header_failure outcome got =
     (case outcome of
        Received_closed \<Rightarrow> (if got = [] then LinkClosed else Truncated)
      | Received_stop \<Rightarrow> LinkClosed
      | Received_idle \<Rightarrow> IdleTimeout
      | Received_error \<Rightarrow> TransportError
      | Received_all \<Rightarrow> Ok)"

text \<open>A failure comes with the \<open>closed\<close> flag.\<close>

definition read_payload ::
    "u32 \<Rightarrow> FrameHeader \<Rightarrow> recv list \<Rightarrow> (StatusCode \<times> bool + FrameHeader \<times> bytes) \<times> recv list" where
  "read_payload idle_polls header events =
     (case receive idle_polls (unat (fh_payload_length header)) 0 [] events of
        (outcome, payload, events) \<Rightarrow>
          (if outcome \<noteq> Received_all
           then (Inl (if outcome = Received_idle then IdleTimeout else Truncated,
                      outcome = Received_stop \<or> outcome = Received_closed), events)
           else if verify_frame_payload header payload \<noteq> Ok
           then (Inl (verify_frame_payload header payload, False), events)
           else (Inr (header, payload), events)))"

definition read_frame ::
    "u32 \<Rightarrow> u32 \<Rightarrow> recv list \<Rightarrow> (StatusCode \<times> bool + FrameHeader \<times> bytes) \<times> recv list" where
  "read_frame max_payload idle_polls events =
     (case receive idle_polls kFrameHeaderSize 0 [] events of
        (outcome, got, events) \<Rightarrow>
          (if outcome \<noteq> Received_all then (Inl (header_failure outcome got, True), events)
           else case decode_frame_header got max_payload of
                  Inl code \<Rightarrow> (Inl (code, False), events)
                | Inr header \<Rightarrow> read_payload idle_polls header events))"

section \<open>The server\<close>

record LiveAuthority =
  la_policy_id :: Id
  la_policy_generation :: Generation
  la_epoch :: Generation
  la_accounting_generation :: u64
  la_last_committed_window :: Id
  la_governor :: Incarnation

definition governor_authority :: "Impl \<Rightarrow> LiveAuthority" where
  "governor_authority im =
     \<lparr>la_policy_id = fp_id (im_policy im), la_policy_generation = fp_generation (im_policy im),
      la_epoch = im_epoch im, la_accounting_generation = ac_generation (im_accounting im),
      la_last_committed_window = ac_last_window (im_accounting im), la_governor = im_incarnation im\<rparr>"

record LinkStats =
  ls_connections_accepted :: u64
  ls_connections_rejected :: u64
  ls_handshakes_completed :: u64
  ls_handshakes_rejected :: u64
  ls_frames_received :: u64
  ls_frames_rejected :: u64
  ls_evidence_accepted :: u64
  ls_evidence_duplicate :: u64
  ls_evidence_rejected :: u64
  ls_checksum_failures :: u64
  ls_oversized_frames :: u64
  ls_sequence_violations :: u64
  ls_windows_committed :: u64
  ls_evaluations_failed :: u64
  ls_bytes_received :: u64
  ls_bytes_sent :: u64
  ls_shutdown_requests :: u64
  ls_connections_idle_dropped :: u64

record LinkServerOptions =
  lo_max_connections :: u32
  lo_max_payload :: u32
  lo_idle_polls :: u32
  lo_evaluate_on_ingest :: bool

text \<open>The server with its governor; the frames written so far and the number of writes tried.\<close>

record Link =
  lk_governor :: Impl
  lk_stats :: LinkStats
  lk_stop :: bool
  lk_active :: u32
  lk_sent :: "bytes list"
  lk_writes :: nat

text \<open>What the server finds outside: what the n-th write reports when it returns, the text in the n-th reply, and the
  file system.\<close>

record LinkEnv =
  le_write_ok :: "nat \<Rightarrow> bool"
  le_text :: "nat \<Rightarrow> bytes"
  le_disk :: disk_io

definition count_stats :: "(LinkStats \<Rightarrow> LinkStats) \<Rightarrow> Link \<Rightarrow> Link" where
  "count_stats update link = link\<lparr>lk_stats := update (lk_stats link)\<rparr>"

abbreviation reject_frame :: "LinkStats \<Rightarrow> LinkStats" where
  "reject_frame s \<equiv> s\<lparr>ls_frames_rejected := ls_frames_rejected s + 1\<rparr>"

abbreviation reject_handshake :: "LinkStats \<Rightarrow> LinkStats" where
  "reject_handshake s \<equiv> s\<lparr>ls_handshakes_rejected := ls_handshakes_rejected s + 1\<rparr>"

abbreviation violate_sequence :: "LinkStats \<Rightarrow> LinkStats" where
  "violate_sequence s \<equiv> s\<lparr>ls_sequence_violations := ls_sequence_violations s + 1\<rparr>"

abbreviation fail_evaluation :: "LinkStats \<Rightarrow> LinkStats" where
  "fail_evaluation s \<equiv> s\<lparr>ls_evaluations_failed := ls_evaluations_failed s + 1\<rparr>"

definition make_request_for :: "EvidenceSnapshot \<Rightarrow> Impl \<Rightarrow> EvaluationRequest" where
  "make_request_for snapshot im =
     (let live = governor_authority im
      in \<lparr>rq_policy_id = la_policy_id live, rq_policy_generation = la_policy_generation live,
          rq_epoch = la_epoch live, rq_evidence_id = ev_id snapshot,
          rq_evidence_generation = ev_generation snapshot, rq_window = ev_window snapshot,
          rq_window_generation = ev_window_generation snapshot, rq_now_ns = ev_captured_at_ns snapshot,
          rq_request_id = ev_sequence snapshot, rq_attempt = 0, rq_treat_missing_as_unknown = True,
          rq_allow_stale_result = True\<rparr>)"

definition send_frame ::
    "LinkEnv \<Rightarrow> FrameKind \<Rightarrow> bytes \<Rightarrow> u64 \<Rightarrow> u64 \<Rightarrow> u16 \<Rightarrow> Link \<Rightarrow> StatusCode \<times> Link" where
  "send_frame env kind payload session sequence flags link =
     (let live = governor_authority (lk_governor link);
          frame = encode_frame \<lparr>fh_kind = kind, fh_flags = flags, fh_payload_length = 0, fh_session_id = session,
            fh_epoch = la_epoch live, fh_publisher = 0, fh_publisher_boot = inc_boot (la_governor live),
            fh_publisher_ordinal = inc_ordinal (la_governor live), fh_sequence = sequence,
            fh_frame_checksum = 0\<rparr> payload;
          sent = le_write_ok env (lk_writes link);
          link = link\<lparr>lk_writes := lk_writes link + 1\<rparr>
      in if sent
         then (Ok, count_stats (\<lambda>s. s\<lparr>ls_bytes_sent := ls_bytes_sent s + of_nat (length frame)\<rparr>)
                (link\<lparr>lk_sent := lk_sent link @ [frame]\<rparr>))
         else (TransportError, link))"

definition send_error :: "LinkEnv \<Rightarrow> u64 \<Rightarrow> StatusCode \<Rightarrow> Link \<Rightarrow> Link" where
  "send_error env session code link =
     (let detail = le_text env (lk_writes link);
          payload = put_u16 (status_value code) @
            put_blob (if unat kMaxFrameDetailBytes < length detail then take (unat kMaxFrameDetailBytes) detail else detail)
      in snd (send_frame env Frame_Error payload session 0 kFrameFlagNone link))"

text \<open>The counters of a frame that cannot be read, inside and before the handshake.\<close>

definition count_unreadable :: "bool \<Rightarrow> StatusCode \<Rightarrow> LinkStats \<Rightarrow> LinkStats" where
  "count_unreadable handshake code s =
     (let s = reject_frame s;
          s = (if handshake
               then if code = IdleTimeout
                    then s\<lparr>ls_connections_idle_dropped := ls_connections_idle_dropped s + 1\<rparr>
                    else if code \<noteq> LinkClosed then reject_handshake s else s
               else s)
      in if code = ChecksumMismatch then s\<lparr>ls_checksum_failures := ls_checksum_failures s + 1\<rparr>
         else if code = FrameTooLarge then s\<lparr>ls_oversized_frames := ls_oversized_frames s + 1\<rparr>
         else if code = IdleTimeout \<and> \<not> handshake
         then s\<lparr>ls_connections_idle_dropped := ls_connections_idle_dropped s + 1\<rparr>
         else s)"

section \<open>Handshake\<close>

definition session_of :: "FrameHeader \<Rightarrow> u64" where
  "session_of header =
     (let session = 0xF00D0000 XOR (fh_publisher header * 0x9E3779B97F4A7C15) XOR fh_sequence header XOR
            drop_bit 17 (fh_publisher_boot header)
      in if session = 0 then 1 else session)"

definition stale_ack :: "LinkEnv \<Rightarrow> Link \<Rightarrow> HelloAck" where
  "stale_ack env link =
     (let live = governor_authority (lk_governor link)
      in \<lparr>ha_code = status_value StaleEpoch, ha_session_id = 0, ha_epoch = la_epoch live,
          ha_max_payload = kMaxFramePayloadBytes, ha_server_boot = inc_boot (la_governor live),
          ha_server_ordinal = inc_ordinal (la_governor live), ha_policy_id = 0, ha_policy_generation = 0,
          ha_accounting_generation = 0, ha_detail = le_text env (lk_writes link)\<rparr>)"

definition accepting_ack :: "LinkEnv \<Rightarrow> LinkServerOptions \<Rightarrow> u64 \<Rightarrow> Link \<Rightarrow> HelloAck" where
  "accepting_ack env options session link =
     (let live = governor_authority (lk_governor link)
      in \<lparr>ha_code = status_value Ok, ha_session_id = session, ha_epoch = la_epoch live,
          ha_max_payload = lo_max_payload options, ha_server_boot = inc_boot (la_governor live),
          ha_server_ordinal = inc_ordinal (la_governor live), ha_policy_id = la_policy_id live,
          ha_policy_generation = la_policy_generation live,
          ha_accounting_generation = la_accounting_generation live,
          ha_detail = le_text env (lk_writes link)\<rparr>)"

text \<open>The answer to the first frame: the session, when the handshake is accepted and the answer was sent.\<close>

definition answer_hello :: "LinkEnv \<Rightarrow> LinkServerOptions \<Rightarrow> FrameHeader \<Rightarrow> Link \<Rightarrow> u64 option \<times> Link" where
  "answer_hello env options header link =
     (let rejected = count_stats reject_handshake link
      in if fh_kind header \<noteq> Frame_Hello then (None, send_error env 0 HandshakeRejected rejected)
         else if \<not> id_valid (fh_publisher header) \<or> \<not> id_valid (fh_publisher_boot header) \<or>
                 fh_publisher_ordinal header = 0
         then (None, send_error env 0 HandshakeRejected rejected)
         else if fh_epoch header \<noteq> im_epoch (lk_governor link)
         then (None, snd (send_frame env Frame_HelloAck (encode_hello_ack (stale_ack env rejected)) 0 0
                            kFrameFlagNone rejected))
         else if im_stopping (lk_governor link) then (None, send_error env 0 ShuttingDown rejected)
         else
           (let session = session_of header;
                (sent, link) = send_frame env Frame_HelloAck
                  (encode_hello_ack (accepting_ack env options session link)) session 0 kFrameFlagNone link;
                link = count_stats (\<lambda>s. s\<lparr>ls_handshakes_completed := ls_handshakes_completed s + 1\<rparr>) link
            in if sent \<noteq> Ok then (None, link) else (Some session, link)))"

definition handshake ::
    "LinkEnv \<Rightarrow> LinkServerOptions \<Rightarrow> Link \<Rightarrow> recv list \<Rightarrow> (u64 option \<times> Link) \<times> recv list" where
  "handshake env options link events =
     (case read_frame (lo_max_payload options) (lo_idle_polls options) events of
        (Inl (code, closed), events) \<Rightarrow> ((None, count_stats (count_unreadable True code) link), events)
      | (Inr (header, payload), events) \<Rightarrow>
          (answer_hello env options header
             (count_stats (\<lambda>s. s\<lparr>ls_frames_received := ls_frames_received s + 1\<rparr>) link), events))"

section \<open>Frames\<close>

text \<open>Staging and committing are separate steps: the decision is computed first and then committed.\<close>

definition evaluate_window :: "LinkEnv \<Rightarrow> EvaluationRequest \<Rightarrow> Link \<Rightarrow> Link" where
  "evaluate_window env request link =
     (case governor_evaluate request (lk_governor link) of
        Some (Inr decision) \<Rightarrow>
          (let (code, im) = governor_commit (le_disk env) decision (lk_governor link);
               link = link\<lparr>lk_governor := im\<rparr>
           in if code = Ok
              then count_stats (\<lambda>s. s\<lparr>ls_windows_committed := ls_windows_committed s + 1\<rparr>) link
              else count_stats fail_evaluation link)
      | _ \<Rightarrow> count_stats fail_evaluation link)"

text \<open>The acknowledgement of an evidence payload; identity and generation are those of the snapshot, or none.\<close>

definition ingest_payload :: "LinkEnv \<Rightarrow> LinkServerOptions \<Rightarrow> bytes \<Rightarrow> Link \<Rightarrow> EvidenceAck \<times> Link" where
  "ingest_payload env options payload link =
     (let text = le_text env (lk_writes link);
          refused = count_stats (\<lambda>s. s\<lparr>ls_evidence_rejected := ls_evidence_rejected s + 1\<rparr>);
          generation = ac_generation (im_accounting (lk_governor link))
      in case decode_evidence payload of
           Inl code \<Rightarrow>
             (\<lparr>ea_code = status_value code, ea_snapshot = 0, ea_generation = 0,
               ea_accounting_generation = generation, ea_disposition = 0, ea_detail = text\<rparr>, refused link)
         | Inr snapshot \<Rightarrow>
             (let request = make_request_for snapshot (lk_governor link)
              in case ingest_evidence snapshot (lk_governor link) of
                   (Inl code, im) \<Rightarrow>
                     (\<lparr>ea_code = status_value code, ea_snapshot = ev_id snapshot, ea_generation = ev_generation snapshot,
                       ea_accounting_generation = generation, ea_disposition = 0, ea_detail = text\<rparr>,
                      refused (link\<lparr>lk_governor := im\<rparr>))
                 | (Inr result, im) \<Rightarrow>
                     (let staged = ir_disposition result = Staged;
                          link = count_stats (\<lambda>s. if staged
                              then s\<lparr>ls_evidence_accepted := ls_evidence_accepted s + 1\<rparr>
                              else s\<lparr>ls_evidence_duplicate := ls_evidence_duplicate s + 1\<rparr>) (link\<lparr>lk_governor := im\<rparr>);
                          link = (if lo_evaluate_on_ingest options \<and> staged then evaluate_window env request link else link)
                      in (\<lparr>ea_code = status_value (if staged then Ok else Duplicate), ea_snapshot = ev_id snapshot,
                           ea_generation = ev_generation snapshot,
                           ea_accounting_generation = ac_generation (im_accounting (lk_governor link)),
                           ea_disposition = (if staged then 0 else 1), ea_detail = text\<rparr>, link))))"

text \<open>One frame after the handshake: the sequence number expected next, or nothing when the connection ends.\<close>

definition serve_evidence ::
    "LinkEnv \<Rightarrow> LinkServerOptions \<Rightarrow> u64 \<Rightarrow> u64 \<Rightarrow> FrameHeader \<Rightarrow> bytes \<Rightarrow> Link \<Rightarrow> u64 option \<times> Link" where
  "serve_evidence env options session expected header payload link =
     (if fh_sequence header \<noteq> expected
      then (None, send_error env session SequenceViolation (count_stats (\<lambda>s. violate_sequence (reject_frame s)) link))
      else
        (let (ack, link) = ingest_payload env options payload link;
             (sent, link) = send_frame env Frame_EvidenceAck (encode_evidence_ack ack) session (fh_sequence header)
               kFrameFlagNone link
         in if sent \<noteq> Ok then (None, link) else (Some (expected + 1), link)))"

definition serve_frame ::
    "LinkEnv \<Rightarrow> LinkServerOptions \<Rightarrow> u64 \<Rightarrow> u64 \<Rightarrow> FrameHeader \<Rightarrow> bytes \<Rightarrow> Link \<Rightarrow> u64 option \<times> Link" where
  "serve_frame env options session expected header payload link =
     (if fh_session_id header \<noteq> session
      then (None, send_error env session FrameInvalid (count_stats reject_frame link))
      else if fh_epoch header \<noteq> im_epoch (lk_governor link)
      then (None, send_error env session StaleEpoch (count_stats reject_frame link))
      else case fh_kind header of
             Frame_Goodbye \<Rightarrow>
               (if fh_flags header AND kFrameFlagRequestShutdown \<noteq> 0
                then (None, (snd (send_frame env Frame_Goodbye [] session expected kFrameFlagNone
                       (count_stats (\<lambda>s. s\<lparr>ls_shutdown_requests := ls_shutdown_requests s + 1\<rparr>) link)))\<lparr>lk_stop := True\<rparr>)
                else (None, link))
           | Frame_Evidence \<Rightarrow> serve_evidence env options session expected header payload link
           | _ \<Rightarrow> (None, send_error env session FrameInvalid (count_stats reject_frame link)))"

definition count_frame :: "bytes \<Rightarrow> LinkStats \<Rightarrow> LinkStats" where
  "count_frame payload s = s\<lparr>ls_frames_received := ls_frames_received s + 1,
     ls_bytes_received := ls_bytes_received s + of_nat (length payload + kFrameHeaderSize)\<rparr>"

text \<open>One turn of the frame loop.\<close>

definition serve_turn ::
    "LinkEnv \<Rightarrow> LinkServerOptions \<Rightarrow> u64 \<Rightarrow> u64 \<Rightarrow> Link \<Rightarrow> recv list \<Rightarrow> (u64 option \<times> Link) \<times> recv list" where
  "serve_turn env options session expected link events =
     (case read_frame (lo_max_payload options) (lo_idle_polls options) events of
        (Inl (code, closed), events) \<Rightarrow>
          ((None, if closed then link else send_error env session code (count_stats (count_unreadable False code) link)), events)
      | (Inr (header, payload), events) \<Rightarrow>
          (serve_frame env options session expected header payload (count_stats (count_frame payload) link), events))"

text \<open>Bytes and calls that are left.\<close>

fun pending :: "recv list \<Rightarrow> nat" where
  "pending [] = 0"
| "pending (Arrived data # events) = Suc (length data + pending events)"
| "pending (_ # events) = Suc (pending events)"

lemma receive_pending: "receive polls wanted idle got events = (outcome, data, rest) \<Longrightarrow>
    pending rest \<le> pending events \<and> (outcome = Received_all \<and> length got < wanted \<longrightarrow> pending rest < pending events)"
proof (induction polls wanted idle got events rule: receive.induct)
  case (2 polls wanted idle got event events)
  show ?case
  proof (cases "wanted \<le> length got")
    case True
    then show ?thesis using "2.prems" by auto
  next
    case False
    then show ?thesis using 2 by (cases event) (force simp: Let_def split: if_splits)+
  qed
qed (auto split: if_splits)

lemma read_frame_pending:
  assumes "read_frame max_payload polls events = (Inr frame, rest)"
  shows "pending rest < pending events"
proof -
  obtain got more where r: "receive polls kFrameHeaderSize 0 [] events = (Received_all, got, more)"
      "\<exists>header. read_payload polls header more = (Inr frame, rest)"
    using assms by (auto simp: read_frame_def split: prod.splits sum.splits if_splits)
  then obtain header where "read_payload polls header more = (Inr frame, rest)" by blast
  then obtain outcome data where "receive polls (unat (fh_payload_length header)) 0 [] more = (outcome, data, rest)"
    by (auto simp: read_payload_def split: prod.splits if_splits)
  then have "pending rest \<le> pending more" using receive_pending by blast
  moreover have "pending more < pending events" using receive_pending [OF r(1)] by (simp add: kFrameHeaderSize_def)
  ultimately show ?thesis by simp
qed

lemma serve_turn_pending:
  "serve_turn env options session expected link events = ((Some next_expected, link'), rest) \<Longrightarrow> pending rest < pending events"
  by (auto simp: serve_turn_def dest: read_frame_pending split: prod.splits sum.splits)

definition stop_seen :: "recv list \<Rightarrow> bool" where
  "stop_seen events = (case events of Stop_seen # _ \<Rightarrow> True | _ \<Rightarrow> False)"

text \<open>\<open>for (;;)\<close>: every turn that goes on consumes at least the bytes of a frame.\<close>

function serve_loop ::
    "LinkEnv \<Rightarrow> LinkServerOptions \<Rightarrow> u64 \<Rightarrow> u64 \<Rightarrow> Link \<Rightarrow> recv list \<Rightarrow> Link \<times> recv list" where
  "serve_loop env options session expected link events =
     (if lk_stop link \<or> stop_seen events then (link, events)
      else case serve_turn env options session expected link events of
             ((None, link), events) \<Rightarrow> (link, events)
           | ((Some expected, link), events) \<Rightarrow> serve_loop env options session expected link events)"
  by pat_completeness auto

termination
  by (relation "measure (\<lambda>(env, options, session, expected, link, events). pending events)")
    (auto dest: serve_turn_pending [OF sym])

declare serve_loop.simps [simp del]

definition serve_connection :: "LinkEnv \<Rightarrow> LinkServerOptions \<Rightarrow> Link \<Rightarrow> recv list \<Rightarrow> Link" where
  "serve_connection env options link events =
     (let link = link\<lparr>lk_active := lk_active link + 1\<rparr>;
          link = (case handshake env options link events of
                    ((None, link), events) \<Rightarrow> link
                  | ((Some session, link), events) \<Rightarrow> fst (serve_loop env options session 1 link events))
      in link\<lparr>lk_active := lk_active link - 1\<rparr>)"

text \<open>The accept loop, for one accepted socket.\<close>

definition accept_connection :: "LinkEnv \<Rightarrow> LinkServerOptions \<Rightarrow> Link \<Rightarrow> recv list \<Rightarrow> Link" where
  "accept_connection env options link events =
     (if lk_stop link then link
      else if lo_max_connections options \<le> lk_active link
      then send_error env 0 LinkBusy
             (count_stats (\<lambda>s. s\<lparr>ls_connections_rejected := ls_connections_rejected s + 1\<rparr>) link)
      else serve_connection env options
             (count_stats (\<lambda>s. s\<lparr>ls_connections_accepted := ls_connections_accepted s + 1\<rparr>) link) events)"

definition check_link_options :: "LinkServerOptions \<Rightarrow> StatusCode" where
  "check_link_options options =
     (if lo_max_payload options = 0 \<or> kMaxFramePayloadBytes < lo_max_payload options then OutOfRange
      else if lo_max_connections options = 0 \<or> 64 < lo_max_connections options then OutOfRange
      else Ok)"

section \<open>The publisher\<close>

record LinkClientOptions =
  co_port :: u16
  co_epoch :: Generation
  co_publisher :: Id
  co_publisher_boot :: Id
  co_publisher_ordinal :: u64

record LinkClient =
  lc_options :: LinkClientOptions
  lc_open :: bool
  lc_session :: u64
  lc_sequence :: u64

text \<open>A failure is a status number: the peer's number is passed on as it is. The fresh boot identity of the
  process is an argument.\<close>

definition client_options :: "Id \<Rightarrow> LinkClientOptions \<Rightarrow> LinkClientOptions" where
  "client_options fresh options =
     options\<lparr>co_publisher_boot := (if id_valid (co_publisher_boot options) then co_publisher_boot options else fresh),
       co_publisher_ordinal := (if co_publisher_ordinal options = 0 then 1 else co_publisher_ordinal options)\<rparr>"

definition client_frame :: "FrameKind \<Rightarrow> u16 \<Rightarrow> u64 \<Rightarrow> Generation \<Rightarrow> u64 \<Rightarrow> LinkClientOptions \<Rightarrow> bytes \<Rightarrow> bytes" where
  "client_frame kind flags session epoch sequence options payload =
     encode_frame \<lparr>fh_kind = kind, fh_flags = flags, fh_payload_length = 0, fh_session_id = session,
       fh_epoch = epoch, fh_publisher = co_publisher options, fh_publisher_boot = co_publisher_boot options,
       fh_publisher_ordinal = co_publisher_ordinal options, fh_sequence = sequence, fh_frame_checksum = 0\<rparr> payload"

definition check_client_options :: "LinkClientOptions \<Rightarrow> StatusCode" where
  "check_client_options options =
     (if co_port options = 0 then InvalidArgument
      else if \<not> generation_valid (co_epoch options) \<or> \<not> id_valid (co_publisher options) then InvalidArgument
      else Ok)"

definition client_hello :: "LinkClientOptions \<Rightarrow> bytes" where
  "client_hello options = client_frame Frame_Hello kFrameFlagNone 0 (co_epoch options) 0 options []"

text \<open>What follows the write of the hello frame; the acknowledgement is passed out even when it refuses.\<close>

definition client_connected :: "LinkClientOptions \<Rightarrow> recv list \<Rightarrow> (u16 + LinkClient) \<times> HelloAck option" where
  "client_connected options events =
     (case fst (read_frame kMaxFramePayloadBytes 8 events) of
        Inl (code, closed) \<Rightarrow> (Inl (status_value code), None)
      | Inr (header, payload) \<Rightarrow>
          (if fh_kind header \<noteq> Frame_HelloAck then (Inl (status_value HandshakeRejected), None)
           else case decode_hello_ack payload of
                  Inl code \<Rightarrow> (Inl (status_value code), None)
                | Inr ack \<Rightarrow>
                    (if ha_code ack \<noteq> status_value Ok then Inl (ha_code ack)
                     else Inr \<lparr>lc_options = options, lc_open = True, lc_session = ha_session_id ack,
                            lc_sequence = 0\<rparr>,
                     Some ack)))"

definition client_submission :: "EvidenceSnapshot \<Rightarrow> LinkClient \<Rightarrow> bytes \<times> LinkClient" where
  "client_submission snapshot client =
     (let client = client\<lparr>lc_sequence := lc_sequence client + 1\<rparr>
      in (client_frame Frame_Evidence kFrameFlagNone (lc_session client) (ev_epoch snapshot) (lc_sequence client)
            (lc_options client) (encode_evidence snapshot), client))"

definition client_acknowledged :: "recv list \<Rightarrow> u16 + EvidenceAck" where
  "client_acknowledged events =
     (case fst (read_frame kMaxFramePayloadBytes 8 events) of
        Inl (code, closed) \<Rightarrow> Inl (status_value code)
      | Inr (header, payload) \<Rightarrow>
          (if fh_kind header \<noteq> Frame_EvidenceAck
           then (case (if fh_kind header = Frame_Error then get_u16 payload else None) of
                   None \<Rightarrow> Inl (status_value FrameInvalid)
                 | Some (code, r) \<Rightarrow>
                     (case get_blob kMaxFrameDetailBytes r of
                        None \<Rightarrow> Inl (status_value FrameInvalid)
                      | Some _ \<Rightarrow> Inl code))
           else map_sum status_value id (decode_evidence_ack payload)))"

definition client_submit :: "bool \<Rightarrow> EvidenceSnapshot \<Rightarrow> LinkClient \<Rightarrow> recv list \<Rightarrow> (u16 + EvidenceAck) \<times> LinkClient" where
  "client_submit sent snapshot client events =
     (if \<not> lc_open client then (Inl (status_value LinkClosed), client)
      else let (frame, client) = client_submission snapshot client
           in (if \<not> sent then Inl (status_value TransportError) else client_acknowledged events, client))"

definition client_goodbye :: "bool \<Rightarrow> bool \<Rightarrow> LinkClient \<Rightarrow> StatusCode \<times> bytes option" where
  "client_goodbye sent request_shutdown client =
     (if \<not> lc_open client then (Ok, None)
      else (if sent then Ok else TransportError,
            Some (client_frame Frame_Goodbye (if request_shutdown then kFrameFlagRequestShutdown else kFrameFlagNone)
              (lc_session client) (co_epoch (lc_options client)) 0 (lc_options client) [])))"

definition client_close :: "LinkClient \<Rightarrow> LinkClient" where
  "client_close client = client\<lparr>lc_open := False\<rparr>"

section \<open>What serving does to the governor\<close>

lemma send_frame_governor [simp]: "lk_governor (snd (send_frame env kind payload session sequence flags link)) = lk_governor link"
  by (simp add: send_frame_def count_stats_def Let_def)

lemma send_error_governor [simp]: "lk_governor (send_error env session code link) = lk_governor link"
  by (simp add: send_error_def Let_def)

lemma count_stats_governor [simp]: "lk_governor (count_stats f link) = lk_governor link"
  by (simp add: count_stats_def)

lemma answer_hello_governor [simp]: "lk_governor (snd (answer_hello env options header link)) = lk_governor link"
proof -
  define session where "session = session_of header"
  obtain sent l where sf: "send_frame env Frame_HelloAck (encode_hello_ack (accepting_ack env options session link))
      session 0 kFrameFlagNone link = (sent, l)" by force
  have l: "lk_governor l = lk_governor link"
    using send_frame_governor [of env Frame_HelloAck "encode_hello_ack (accepting_ack env options session link)"
        session 0 kFrameFlagNone link] unfolding sf by simp
  consider "fh_kind header \<noteq> Frame_Hello"
    | "fh_kind header = Frame_Hello" "\<not> id_valid (fh_publisher header) \<or> \<not> id_valid (fh_publisher_boot header) \<or>
        fh_publisher_ordinal header = 0"
    | "fh_kind header = Frame_Hello" "id_valid (fh_publisher header)" "id_valid (fh_publisher_boot header)"
      "fh_publisher_ordinal header \<noteq> 0" by blast
  then show ?thesis
  proof cases
    case 3
    show ?thesis
    proof (cases "fh_epoch header = im_epoch (lk_governor link) \<and> \<not> im_stopping (lk_governor link)")
      case True
      then have "answer_hello env options header link = (if sent \<noteq> Ok then None else Some session,
          count_stats (\<lambda>s. s\<lparr>ls_handshakes_completed := ls_handshakes_completed s + 1\<rparr>) l)"
        using 3 sf by (simp add: answer_hello_def Let_def session_def)
      then show ?thesis using l by simp
    next
      case False
      then show ?thesis using 3
        by (cases "fh_epoch header = im_epoch (lk_governor link)") (simp_all add: answer_hello_def Let_def)
    qed
  qed (simp_all add: answer_hello_def)
qed

lemma handshake_governor: "lk_governor (snd (fst (handshake env options link events))) = lk_governor link"
  by (simp add: handshake_def split: prod.split sum.split)

lemma ingest_payload_cases:
  obtains (refused) "lk_governor (snd (ingest_payload env options payload link)) = lk_governor link"
  | (staged) snapshot where "decode_evidence payload = Inr snapshot"
      "ingest_evidence snapshot (lk_governor link)
        = (Inr (ingest_result Staged snapshot), stage_evidence snapshot (lk_governor link))"
      "\<exists>link'. lk_governor link' = stage_evidence snapshot (lk_governor link) \<and>
        snd (ingest_payload env options payload link) =
          (if lo_evaluate_on_ingest options
           then evaluate_window env (make_request_for snapshot (lk_governor link)) link' else link')"
proof (cases "decode_evidence payload")
  case (Inl code)
  then show ?thesis using refused by (simp add: ingest_payload_def Let_def)
next
  case (Inr snapshot)
  show ?thesis
  proof (cases rule: ingest_evidence_cases [of snapshot "lk_governor link"])
    case (refused code)
    then show ?thesis using that(1) Inr by (simp add: ingest_payload_def Let_def)
  next
    case duplicate
    then show ?thesis using that(1) Inr by (simp add: ingest_payload_def ingest_result_def Let_def)
  next
    case st: staged
    show ?thesis
      by (rule staged [OF Inr st(1)])
        (auto simp: ingest_payload_def Inr st(1) ingest_result_def Let_def count_stats_def intro!: exI)
  qed
qed

lemma serve_evidence_cases:
  obtains (refused) "fh_sequence header \<noteq> expected"
      "serve_evidence env options session expected header payload link
        = (None, send_error env session SequenceViolation (count_stats (\<lambda>s. violate_sequence (reject_frame s)) link))"
  | (ingested) more link' where "fh_sequence header = expected"
      "serve_evidence env options session expected header payload link = (more, link')"
      "more = None \<or> more = Some (expected + 1)"
      "lk_governor link' = lk_governor (snd (ingest_payload env options payload link))"
proof (cases "fh_sequence header = expected")
  case False
  then show ?thesis using refused by (simp add: serve_evidence_def)
next
  case True
  obtain ack l where i: "ingest_payload env options payload link = (ack, l)" by force
  obtain sent l' where s: "send_frame env Frame_EvidenceAck (encode_evidence_ack ack) session (fh_sequence header)
      kFrameFlagNone l = (sent, l')" by force
  have "lk_governor l' = lk_governor l"
    using send_frame_governor [of env Frame_EvidenceAck "encode_evidence_ack ack" session "fh_sequence header" kFrameFlagNone l]
    unfolding s by simp
  moreover have "serve_evidence env options session expected header payload link
      = (if sent \<noteq> Ok then None else Some (expected + 1), l')"
    using True i s by (simp add: serve_evidence_def Let_def)
  ultimately show ?thesis using ingested True i by simp
qed

text \<open>A frame that reaches the governor is evidence of the session, in the live epoch, with the expected number.\<close>

lemma serve_frame_cases:
  obtains (kept) "lk_governor (snd (serve_frame env options session expected header payload link)) = lk_governor link"
      "fst (serve_frame env options session expected header payload link) = None"
  | (ingested) "fh_session_id header = session" "fh_epoch header = im_epoch (lk_governor link)"
      "fh_kind header = Frame_Evidence" "fh_sequence header = expected"
      "fst (serve_frame env options session expected header payload link) \<in> {None, Some (expected + 1)}"
      "lk_governor (snd (serve_frame env options session expected header payload link))
        = lk_governor (snd (ingest_payload env options payload link))"
proof (cases "fh_session_id header = session \<and> fh_epoch header = im_epoch (lk_governor link)")
  case False
  then show ?thesis
    by (cases "fh_session_id header = session") (rule kept; simp add: serve_frame_def)+
next
  case True
  show ?thesis
  proof (cases "fh_kind header = Frame_Evidence")
    case False
    then show ?thesis using True
      by (cases "fh_kind header"; cases "fh_flags header AND kFrameFlagRequestShutdown = 0")
        (rule kept; simp add: serve_frame_def)+
  next
    case ev: True
    then have eq: "serve_frame env options session expected header payload link
        = serve_evidence env options session expected header payload link"
      using True by (simp add: serve_frame_def)
    show ?thesis
    proof (cases rule: serve_evidence_cases [of header expected env options session payload link])
      case refused
      then show ?thesis using kept by (simp add: eq)
    next
      case (ingested more link')
      then show ?thesis using that(2) True ev by (auto simp: eq)
    qed
  qed
qed

lemma serve_turn_cases:
  obtains (kept) "lk_governor (snd (fst (serve_turn env options session expected link events))) = lk_governor link"
  | (ingested) header payload rest where
      "read_frame (lo_max_payload options) (lo_idle_polls options) events = (Inr (header, payload), rest)"
      "fh_session_id header = session" "fh_epoch header = im_epoch (lk_governor link)"
      "fh_kind header = Frame_Evidence" "fh_sequence header = expected"
      "lk_governor (snd (fst (serve_turn env options session expected link events)))
        = lk_governor (snd (ingest_payload env options payload (count_stats (count_frame payload) link)))"
proof (cases "read_frame (lo_max_payload options) (lo_idle_polls options) events")
  case (Pair r rest)
  show ?thesis
  proof (cases r)
    case (Inl e)
    then show ?thesis using kept Pair by (cases e) (auto simp: serve_turn_def)
  next
    case (Inr f)
    obtain header payload where f: "f = (header, payload)" by force
    let ?l = "count_stats (count_frame payload) link"
    have eq: "serve_turn env options session expected link events
        = (serve_frame env options session expected header payload ?l, rest)"
      using Pair Inr f by (simp add: serve_turn_def)
    show ?thesis
    proof (cases rule: serve_frame_cases [of env options session expected header payload ?l])
      case a: kept
      then show ?thesis using kept by (simp add: eq)
    next
      case i: ingested
      show ?thesis
        by (rule ingested [of header payload rest]) (use Pair Inr f i in \<open>simp_all add: eq\<close>)
    qed
  qed
qed

section \<open>What a connection keeps of the governor\<close>

text \<open>What the link asks of the governor it serves: a predicate on the governor and the decisions its evaluations
  have returned, which intake and evaluation keep, and committing one of these decisions. The link calls
  nothing else that changes the governor, so a connection keeps the predicate whatever the peer
  sends.\<close>

definition serves_under :: "(Impl \<Rightarrow> FairnessDecision set \<Rightarrow> bool) \<Rightarrow> Link \<Rightarrow> bool" where
  "serves_under legal link \<longleftrightarrow> (\<exists>taken. legal (lk_governor link) taken)"

lemma serves_cong: "lk_governor link' = lk_governor link \<Longrightarrow> serves_under legal link' = serves_under legal link"
  by (simp add: serves_under_def)

locale governor_contract =
  fixes legal :: "Impl \<Rightarrow> FairnessDecision set \<Rightarrow> bool"
  assumes ingest_legal: "legal im taken \<Longrightarrow> legal (snd (ingest_evidence snapshot im)) taken"
    and evaluate_legal: "\<lbrakk>legal im taken; governor_evaluate request im = Some (Inr decision)\<rbrakk>
      \<Longrightarrow> legal im (insert decision taken)"
    and commit_legal: "\<lbrakk>legal im taken; decision \<in> taken\<rbrakk> \<Longrightarrow> legal (snd (governor_commit io decision im)) taken"
begin

lemma evaluate_window_serves:
  assumes "serves_under legal link"
  shows "serves_under legal (evaluate_window env request link)"
proof (cases "\<exists>decision. governor_evaluate request (lk_governor link) = Some (Inr decision)")
  case True
  then obtain decision where d: "governor_evaluate request (lk_governor link) = Some (Inr decision)" by blast
  obtain code im where c: "governor_commit (le_disk env) decision (lk_governor link) = (code, im)" by force
  obtain taken where "legal (lk_governor link) (insert decision taken)" 
    using assms evaluate_legal [OF _ d] unfolding serves_under_def by blast
  from commit_legal [OF this, of decision "le_disk env"] have "legal im (insert decision taken)" by (simp add: c)
  then show ?thesis by (auto simp: serves_under_def evaluate_window_def d c Let_def)
next
  case False
  then have "evaluate_window env request link = count_stats fail_evaluation link"
    by (auto simp: evaluate_window_def split: option.split sum.split)
  then show ?thesis using assms by (simp add: serves_under_def)
qed

lemma ingest_payload_serves:
  assumes "serves_under legal link"
  shows "serves_under legal (snd (ingest_payload env options payload link))"
proof (cases rule: ingest_payload_cases [of env options payload link])
  case refused
  then show ?thesis using assms serves_cong by blast
next
  case (staged snapshot)
  obtain link' where l: "lk_governor link' = stage_evidence snapshot (lk_governor link)"
    "snd (ingest_payload env options payload link) = (if lo_evaluate_on_ingest options
       then evaluate_window env (make_request_for snapshot (lk_governor link)) link' else link')"
    using staged(3) by blast
  have "serves_under legal link'" using assms ingest_legal [of "lk_governor link" _ snapshot] by (auto simp: serves_under_def staged(2) l(1))
  then show ?thesis unfolding l(2) using evaluate_window_serves by simp
qed

lemma serve_turn_serves:
  assumes "serves_under legal link"
  shows "serves_under legal (snd (fst (serve_turn env options session expected link events)))"
proof (cases rule: serve_turn_cases [of env options session expected link events])
  case kept
  then show ?thesis using assms serves_cong by blast
next
  case (ingested header payload rest)
  have "serves_under legal (count_stats (count_frame payload) link)" using assms by (simp add: serves_under_def)
  then show ?thesis using ingest_payload_serves serves_cong [OF ingested(6)] by blast
qed

lemma serve_loop_serves:
  "serves_under legal link \<Longrightarrow> serves_under legal (fst (serve_loop env options session expected link events))"
proof (induction env options session expected link events rule: serve_loop.induct)
  case (1 env options session expected link events)
  show ?case
  proof (cases "lk_stop link \<or> stop_seen events")
    case True
    then show ?thesis using "1.prems" by (simp add: serve_loop.simps [of env options session expected])
  next
    case False
    obtain more l rest where t: "serve_turn env options session expected link events = ((more, l), rest)"
      by (metis prod.collapse)
    have r: "serves_under legal l" using serve_turn_serves [OF "1.prems", of env options session expected events] by (simp add: t)
    show ?thesis
    proof (cases more)
      case None
      then show ?thesis using r False t by (simp add: serve_loop.simps [of env options session expected link])
    next
      case (Some e)
      have "serve_loop env options session expected link events = serve_loop env options session e l rest"
        using False t Some by (simp add: serve_loop.simps [of env options session expected link])
      then show ?thesis using "1.IH" [OF False t [symmetric] refl Some r] by simp
    qed
  qed
qed

lemma serve_connection_serves:
  assumes "serves_under legal link"
  shows "serves_under legal (serve_connection env options link events)"
proof -
  let ?l = "link\<lparr>lk_active := lk_active link + 1\<rparr>"
  obtain session l rest where h: "handshake env options ?l events = ((session, l), rest)" by (metis prod.collapse)
  have "lk_governor l = lk_governor link" using handshake_governor [of env options ?l events] by (simp add: h)
  then have l: "serves_under legal l" using assms serves_cong by blast
  then have "serves_under legal (case session of None \<Rightarrow> l | Some s \<Rightarrow> fst (serve_loop env options s 1 l rest))"
    using serve_loop_serves [OF l] by (simp split: option.split)
  then show ?thesis using h by (cases session) (simp_all add: serve_connection_def Let_def serves_under_def)
qed

lemma accept_connection_serves: "serves_under legal link \<Longrightarrow> serves_under legal (accept_connection env options link events)"
  using serve_connection_serves [of "count_stats (\<lambda>s. s\<lparr>ls_connections_accepted := ls_connections_accepted s + 1\<rparr>) link"]
  by (simp add: accept_connection_def serves_under_def)

end

text \<open>The governor of this development meets the contract for reachability and for the steps of a run.\<close>

interpretation reached: governor_contract reachable
  by unfold_locales (fact reach_ingest, fact reach_evaluate, fact reach_commit)

interpretation stepped: governor_contract "\<lambda>jm taken. governor_step\<^sup>*\<^sup>* im jm" for im
  by unfold_locales (blast intro: rtranclp.rtrancl_into_rtrancl governor_step.intros)+

end
