(* ===== verification/FG_Transport.thy ===== *)
theory FG_Transport
  imports FG_Link
begin

unbundle bit_operations_syntax

text \<open>
  What the evidence link delivers. The bytes of a frame arrive in any pieces, with timeouts between
  them, and the receiver reads that frame; only evidence of the session, in order, reaches the governor; both ends agree on a
  session; and a snapshot of the next window that a
  publisher submits is staged, evaluated and committed, and acknowledged.
\<close>

section \<open>Arrival in pieces\<close>

text \<open>The bytes of a stream, and a stream that never pauses for more than the polls that are allowed.\<close>

fun data_of :: "recv list \<Rightarrow> bytes" where
  "data_of [] = []"
| "data_of (Arrived data # events) = data @ data_of events"
| "data_of (_ # events) = data_of events"

fun steady :: "u32 \<Rightarrow> nat \<Rightarrow> recv list \<Rightarrow> bool" where
  "steady polls k [] = True"
| "steady polls k (Arrived data # events) = (data \<noteq> [] \<and> steady polls 0 events)"
| "steady polls k (Would_block # events) = (k < unat polls \<and> steady polls (k + 1) events)"
| "steady polls k (_ # events) = False"

lemma steady_less: "steady polls k events \<Longrightarrow> j \<le> k \<Longrightarrow> steady polls j events"
  by (induction polls k events arbitrary: j rule: steady.induct) auto

lemma polls_left:
  fixes polls :: u32
  assumes "k < unat polls"
  shows "\<not> polls < of_nat k + 1"
proof -
  have "unat (of_nat (k + 1) :: u32) = k + 1"
    using assms unat_bounded [of polls] by (intro unat_of_nat_exact) simp
  then show ?thesis using assms by (simp add: word_less_nat_alt add.commute)
qed

lemma receive_steady:
  "steady polls k events \<Longrightarrow> length got \<le> wanted \<Longrightarrow> wanted \<le> length got + length (data_of events) \<Longrightarrow>
   \<exists>rest. receive polls wanted (of_nat k) got events
       = (Received_all, got @ take (wanted - length got) (data_of events), rest) \<and>
     data_of rest = drop (wanted - length got) (data_of events) \<and> steady polls 0 rest"
proof (induction events arbitrary: k got)
  case (Cons event events)
  show ?case
  proof (cases "wanted \<le> length got")
    case True
    then show ?thesis using Cons.prems steady_less [of polls k "event # events" 0] by simp
  next
    case False
    show ?thesis
    proof (cases event)
      case (Arrived data)
      show ?thesis
      proof (cases "length data \<le> wanted - length got")
        case True
        have d: "data \<noteq> []" "steady polls 0 events" using Cons.prems(1) Arrived by simp_all
        have "length (got @ data) \<le> wanted" "wanted \<le> length (got @ data) + length (data_of events)"
          using True False Cons.prems(3) Arrived by simp_all
        from Cons.IH [OF d(2) this] show ?thesis using True False Arrived d by (simp add: Let_def)
      next
        case b: False
        then show ?thesis using False Cons.prems(1) Arrived by (simp add: Let_def)
      qed
    next
      case Would_block
      then have k: "k < unat polls" "steady polls (k + 1) events" using Cons.prems(1) by simp_all
      have "wanted \<le> length got + length (data_of events)" using Cons.prems(3) Would_block by simp
      from Cons.IH [OF k(2) Cons.prems(2) this] show ?thesis
        using Would_block False polls_left [OF k(1)] by (simp add: add.commute)
    qed (use Cons.prems(1) in simp_all)
  qed
qed simp

lemma receive_from_start:
  assumes "steady polls 0 events" "wanted \<le> length (data_of events)"
  obtains rest where "receive polls wanted 0 [] events = (Received_all, take wanted (data_of events), rest)"
    "data_of rest = drop wanted (data_of events)" "steady polls 0 rest"
  using receive_steady [OF assms(1), of "[]" wanted] assms(2) by auto

lemma read_frame_steady:
  assumes "steady polls 0 events" "data_of events = encode_frame header payload @ later"
    and "fh_flags header \<in> {0, 1}" "length payload \<le> unat max_payload"
  obtains rest where "read_frame max_payload polls events = (Inr (sealed header payload, payload), rest)"
    "data_of rest = later" "steady polls 0 rest"
proof -
  note d = decode_encode_frame [OF assms(3,4)]
  have n: "unat (fh_payload_length (sealed header payload)) = length payload"
    using d(2) by (simp add: verify_frame_payload_def split: if_splits)
  obtain mid where m: "receive polls 80 0 [] events = (Received_all, take 80 (encode_frame header payload), mid)"
    "data_of mid = payload @ later" "steady polls 0 mid"
    using receive_from_start [OF assms(1), of 80] assms(2) by (auto simp: encode_frame_split)
  obtain rest where r: "receive polls (length payload) 0 [] mid = (Received_all, payload, rest)"
    "data_of rest = later" "steady polls 0 rest"
    using receive_from_start [OF m(3), of "length payload"] m(2) by auto
  show ?thesis
    by (rule that [OF _ r(2,3)])
      (simp add: read_frame_def kFrameHeaderSize_def m(1) d read_payload_def n r(1))
qed

lemma encode_frame_nonempty [simp]: "encode_frame header payload \<noteq> []" "\<not> length (encode_frame header payload) \<le> 10"
  using encode_frame_split(3) [of header payload] by auto

section \<open>What reaches the governor\<close>

lemma read_frame_verified:
  assumes "read_frame max_payload polls events = (Inr (header, payload), rest)"
  shows "verify_frame_payload header payload = Ok" "fh_payload_length header \<le> max_payload"
proof -
  obtain got mid hd where g: "decode_frame_header got max_payload = Inr hd"
      "read_payload polls hd mid = (Inr (header, payload), rest)"
    using assms by (auto simp: read_frame_def split: prod.splits sum.splits if_splits)
  have p: "hd = header \<and> verify_frame_payload header payload = Ok"
    using g(2) by (auto simp: read_payload_def split: prod.splits if_splits)
  then show "verify_frame_payload header payload = Ok" by blast
  show "fh_payload_length header \<le> max_payload"
    using g(1) p by (auto simp: decode_frame_header_def Let_def not_less split: if_splits option.splits)
qed

section \<open>Delivery\<close>

lemma in_memory_commit:
  assumes ok: "impl_ok im" and "\<not> im_stopping im" "counters_spare (im_accounting im)" "next_window request im"
    and "im_store im = None"
  obtains decision jm where "governor_evaluate request im = Some (Inr decision)"
    "governor_commit io decision im = (Ok, jm)" "ac_last_window (im_accounting jm) = rq_window request"
    "ac_generation (im_accounting jm) = ac_generation (im_accounting im) + 1"
proof -
  obtain decision accounting where d: "governor_evaluate request im = Some (Inr decision)"
    "applied_accounting decision im = Inr accounting"
    "fst (governor_commit io decision im) = fst (commit_accounting io (im\<lparr>im_accounting := accounting\<rparr>))"
    by (rule commit_progress [OF assms(1-4)])
  then have c: "fst (governor_commit io decision im) = Ok" using assms(5) by (simp add: commit_accounting_def)
  have w: "av_window (fd_authority decision) = rq_window request"
    by (rule governor_evaluate_Inr [OF d(1)])
      (use decision_sealed(1) evaluation_context_simps in \<open>fastforce simp: decision_authority_def evaluation_context_def\<close>)
  obtain g where g: "checked_add (ac_generation (im_accounting im)) 1 = Some g" "ac_last_window accounting = rq_window request"
    "ac_generation accounting = g"
    using d(2) w by (auto simp: applied_accounting_def and_then_Inr Let_def split: option.splits)
  note a = g(2) g(3) [unfolded conjunct1 [OF checked_add_SomeD [OF g(1)]]]
  show ?thesis
  proof (cases rule: governor_commit_cases [of io decision im])
    case (refused code store)
    then show ?thesis using c by simp
  next
    case (accepted b store g)
    then show ?thesis using that [OF d(1) accepted(3)] a d(2) by simp
  qed
qed

lemma ingest_accepted:
  assumes "ingest_evidence snapshot im = (Inr result, jm)" "ir_disposition result = Staged"
  shows "jm = stage_evidence snapshot im" "result = ingest_result Staged snapshot" "validate_evidence snapshot = Ok"
    "ev_epoch snapshot = im_epoch im" "\<not> im_stopping im" "ac_last_window (im_accounting im) < ev_window snapshot"
proof -
  have g: "validate_evidence snapshot = Ok" "\<not> im_stopping im"
    "\<not> (id_valid (ac_last_window (im_accounting im)) \<and> ev_window snapshot \<le> ac_last_window (im_accounting im))"
    using assms(1) by (auto simp: ingest_evidence_def split: if_splits)
  then show "validate_evidence snapshot = Ok" "\<not> im_stopping im" by blast+
  have "ev_window snapshot \<noteq> 0" using g(1) by (simp add: validate_evidence_iff evidence_wf_def)
  then show "ac_last_window (im_accounting im) < ev_window snapshot"
    using g(3) by (cases "ac_last_window (im_accounting im) = 0") (auto simp: id_valid_def not_le word_neq_0_conv)
  show "jm = stage_evidence snapshot im" "result = ingest_result Staged snapshot" "ev_epoch snapshot = im_epoch im"
    by (rule ingest_evidence_cases [of snapshot im]; use assms in \<open>auto simp: ingest_result_def\<close>)+
qed

lemma staged_request:
  assumes "impl_ok im" "ingest_evidence snapshot im = (Inr result, jm)" "ir_disposition result = Staged"
  shows "impl_ok jm" "next_window (make_request_for snapshot im) jm" "im_accounting jm = im_accounting im"
    "im_stopping jm = False" "im_store jm = im_store im" "rq_window (make_request_for snapshot im) = ev_window snapshot"
proof -
  note a = ingest_accepted [OF assms(2,3)]
  have f: "im_accounting jm = im_accounting im" "im_stopping jm = im_stopping im" "im_store jm = im_store im"
    unfolding a(1) by (simp_all add: stage_evidence_def Let_def)
  then show "im_accounting jm = im_accounting im" "im_stopping jm = False" "im_store jm = im_store im"
    using a(5) by simp_all
  show "impl_ok jm" unfolding a(1) by (rule stage_evidence_ok [OF assms(1) a(3,4)])
  show w: "rq_window (make_request_for snapshot im) = ev_window snapshot" by (simp add: make_request_for_def Let_def)
  have "ev_window_generation snapshot \<noteq> 0" using a(3) by (simp add: validate_evidence_iff evidence_wf_def)
  then show "next_window (make_request_for snapshot im) jm"
    using a(6) f(1) w by (simp add: next_window_def generation_valid_def make_request_for_def Let_def)
qed

lemma ingest_commits:
  assumes ok: "impl_ok (lk_governor link)" and spare: "counters_spare (im_accounting (lk_governor link))"
    and store: "im_store (lk_governor link) = None" and eval: "lo_evaluate_on_ingest options"
    and staged: "ingest_evidence snapshot (lk_governor link) = (Inr result, jm)" "ir_disposition result = Staged"
  obtains ack link' decision where "ingest_payload env options (encode_evidence snapshot) link = (ack, link')"
    "ac_last_window (im_accounting (lk_governor link')) = ev_window snapshot"
    "ls_windows_committed (lk_stats link') = ls_windows_committed (lk_stats link) + 1"
    "lk_writes link' = lk_writes link" "lk_sent link' = lk_sent link"
    "ea_code ack = status_value Ok" "ea_snapshot ack = ev_id snapshot" "ea_detail ack = le_text env (lk_writes link)"
    "ea_accounting_generation ack = ac_generation (im_accounting (lk_governor link)) + 1" "ea_disposition ack = 0"
    "governor_evaluate (make_request_for snapshot (lk_governor link)) jm = Some (Inr decision)"
    "governor_commit (le_disk env) decision jm = (Ok, lk_governor link')"
proof -
  note a = ingest_accepted [OF staged] and r = staged_request [OF ok staged]
  have d: "decode_evidence (encode_evidence snapshot) = Inr snapshot" by (rule decode_evidence_inverse [OF a(3)])
  obtain decision km where c: "governor_evaluate (make_request_for snapshot (lk_governor link)) jm = Some (Inr decision)"
    "governor_commit (le_disk env) decision jm = (Ok, km)" "ac_last_window (im_accounting km) = ev_window snapshot"
    "ac_generation (im_accounting km) = ac_generation (im_accounting (lk_governor link)) + 1"
    using in_memory_commit [OF r(1) _ _ r(2), of "le_disk env"] spare store r(3-6) by auto
  show ?thesis
    by (rule that [OF surjective_pairing _ _ _ _ _ _ _ _ _ c(1)])
      (use eval c staged in \<open>simp_all add: ingest_payload_def d Let_def evaluate_window_def count_stats_def\<close>)
qed

text \<open>The reply, as the publisher reads it.\<close>

lemma evidence_ack_length: "length (encode_evidence_ack ack) = 31 + length (ea_detail ack)"
  by (simp add: encode_evidence_ack_def put_blob_def put_u16_def put_u64_def put_u32_def put_u8_def)

lemma acknowledged:
  assumes "fh_kind header = Frame_EvidenceAck" "fh_flags header \<in> {0, 1}" "ea_code ack \<le> status_value Busy"
    and "length (ea_detail ack) \<le> 512"
  shows "client_acknowledged [Arrived (encode_frame header (encode_evidence_ack ack))] = Inr ack"
proof -
  let ?e = "[Arrived (encode_frame header (encode_evidence_ack ack))]"
  have "length (encode_evidence_ack ack) \<le> unat kMaxFramePayloadBytes"
    using assms(4) by (simp add: evidence_ack_length kMaxFramePayloadBytes_def)
  then obtain rest where "read_frame kMaxFramePayloadBytes 8 ?e
      = (Inr (sealed header (encode_evidence_ack ack), encode_evidence_ack ack), rest)"
    using read_frame_steady [of 8 ?e header "encode_evidence_ack ack" "[]" kMaxFramePayloadBytes] assms(2) by auto
  then show ?thesis
    using assms(1) decode_evidence_ack_inverse [OF assms(3,4)] by (simp add: client_acknowledged_def sealed_def)
qed

lemma send_frame_sent:
  assumes "le_write_ok env (lk_writes link)"
  obtains header link' where "send_frame env kind payload session sequence flags link = (Ok, link')"
    "lk_sent link' = lk_sent link @ [encode_frame header payload]" "fh_kind header = kind" "fh_flags header = flags"
    "lk_governor link' = lk_governor link"
proof -
  let ?h = "\<lparr>fh_kind = kind, fh_flags = flags, fh_payload_length = 0, fh_session_id = session,
    fh_epoch = im_epoch (lk_governor link), fh_publisher = 0, fh_publisher_boot = inc_boot (im_incarnation (lk_governor link)),
    fh_publisher_ordinal = inc_ordinal (im_incarnation (lk_governor link)), fh_sequence = sequence, fh_frame_checksum = 0\<rparr>"
  show ?thesis
    by (rule that [of "snd (send_frame env kind payload session sequence flags link)" ?h, OF prod_eqI])
      (use assms in \<open>simp_all add: send_frame_def Let_def count_stats_def governor_authority_def\<close>)
qed

lemma submission_served:
  assumes ok: "impl_ok (lk_governor link)" and spare: "counters_spare (im_accounting (lk_governor link))"
    and store: "im_store (lk_governor link) = None" and eval: "lo_evaluate_on_ingest options"
    and staged: "ingest_evidence snapshot (lk_governor link) = (Inr result, jm)" "ir_disposition result = Staged"
    and reply: "le_write_ok env (lk_writes link)" "length (le_text env (lk_writes link)) \<le> 512"
    and fits: "length (encode_evidence snapshot) \<le> unat (lo_max_payload options)"
    and arrives: "steady (lo_idle_polls options) 0 events" "data_of events = fst (client_submission snapshot client) @ later"
  obtains link' rest ack decision where
    "serve_turn env options (lc_session client) (lc_sequence client + 1) link events
      = ((Some (lc_sequence client + 1 + 1), link'), rest)" "data_of rest = later"
    "ac_last_window (im_accounting (lk_governor link')) = ev_window snapshot"
    "client_acknowledged [Arrived (last (lk_sent link'))] = Inr ack" "ea_code ack = status_value Ok"
    "ea_snapshot ack = ev_id snapshot"
    "governor_evaluate (make_request_for snapshot (lk_governor link)) jm = Some (Inr decision)"
    "governor_commit (le_disk env) decision jm = (Ok, lk_governor link')"
proof -
  note a = ingest_accepted [OF staged]
  define sender where "sender = \<lparr>fh_kind = Frame_Evidence, fh_flags = kFrameFlagNone, fh_payload_length = 0,
    fh_session_id = lc_session client, fh_epoch = ev_epoch snapshot, fh_publisher = co_publisher (lc_options client),
    fh_publisher_boot = co_publisher_boot (lc_options client), fh_publisher_ordinal = co_publisher_ordinal (lc_options client),
    fh_sequence = lc_sequence client + 1, fh_frame_checksum = 0\<rparr>"
  have sub: "fst (client_submission snapshot client) = encode_frame sender (encode_evidence snapshot)"
    by (simp add: client_submission_def client_frame_def sender_def Let_def)
  define header where "header = sealed sender (encode_evidence snapshot)"
  have h: "fh_kind header = Frame_Evidence" "fh_session_id header = lc_session client"
      "fh_epoch header = im_epoch (lk_governor link)" "fh_sequence header = lc_sequence client + 1"
    by (simp_all add: header_def sealed_def sender_def a(4))
  obtain rest where f: "read_frame (lo_max_payload options) (lo_idle_polls options) events
      = (Inr (header, encode_evidence snapshot), rest)" "data_of rest = later"
    using read_frame_steady [OF arrives(1) arrives(2) [unfolded sub] _ fits]
    by (auto simp: header_def sender_def kFrameFlagNone_def)
  define l where "l = count_stats (count_frame (encode_evidence snapshot)) link"
  have l: "lk_governor l = lk_governor link" "lk_writes l = lk_writes link" by (simp_all add: l_def count_stats_def)
  obtain ack k decision where i: "ingest_payload env options (encode_evidence snapshot) l = (ack, k)"
    "ac_last_window (im_accounting (lk_governor k)) = ev_window snapshot" "lk_writes k = lk_writes l"
    "ea_code ack = status_value Ok" "ea_snapshot ack = ev_id snapshot" "ea_detail ack = le_text env (lk_writes l)"
    "governor_evaluate (make_request_for snapshot (lk_governor l)) jm = Some (Inr decision)"
    "governor_commit (le_disk env) decision jm = (Ok, lk_governor k)"
    by (rule ingest_commits [of l options snapshot result jm env]) (use ok spare store eval staged l in simp_all)
  obtain reply_header link' where s: "send_frame env Frame_EvidenceAck (encode_evidence_ack ack) (lc_session client)
      (fh_sequence header) kFrameFlagNone k = (Ok, link')"
    "lk_sent link' = lk_sent k @ [encode_frame reply_header (encode_evidence_ack ack)]"
    "fh_kind reply_header = Frame_EvidenceAck" "fh_flags reply_header = kFrameFlagNone" "lk_governor link' = lk_governor k"
    using reply(1) i(3) l(2) by (metis send_frame_sent)
  have "serve_turn env options (lc_session client) (lc_sequence client + 1) link events
      = ((Some (lc_sequence client + 1 + 1), link'), rest)"
    using s(1) by (simp add: serve_turn_def f(1) l_def [symmetric] serve_frame_def h l serve_evidence_def i(1))
  moreover have "client_acknowledged [Arrived (last (lk_sent link'))] = Inr ack"
    unfolding s(2) last_snoc
    by (rule acknowledged) (use s(3,4) i(4,6) reply(2) l(2) in \<open>simp_all add: kFrameFlagNone_def status_value_def\<close>)
  ultimately show ?thesis using that f(2) i(2,4,5,7,8) s(5) l(1) by simp
qed

text \<open>What the evaluation of a snapshot that is still staged works on.\<close>

lemma staged_evaluation:
  assumes staged: "ingest_evidence snapshot im = (Inr result, jm)" "ir_disposition result = Staged"
    and kept: "map_of (im_staged jm) (ev_window snapshot) = Some snapshot"
    and ev: "governor_evaluate (make_request_for snapshot im) jm = Some (Inr decision)"
  obtains raw where "evaluate_fairness \<lparr>ec_policy = Some (im_policy im), ec_accounting = Some (im_accounting im),
      ec_evidence = Some snapshot, ec_request = make_request_for snapshot im, ec_current_epoch = im_epoch im,
      ec_current_window = current_window jm, ec_last_committed_window = ac_last_window (im_accounting im)\<rparr>
      = Some (Inr raw)"
    "decision = stamp_decision (im_incarnation im) raw" "av_evidence_id (fd_authority raw) = ev_id snapshot"
    "av_evidence_generation (fd_authority raw) = ev_generation snapshot"
proof (rule governor_evaluate_Inr [OF ev])
  fix raw
  assume raw: "evaluate_fairness (evaluation_context (make_request_for snapshot im) jm) = Some (Inr raw)"
    and d: "decision = stamp_decision (im_incarnation jm) raw"
  note a = ingest_accepted [OF staged]
  have f: "im_policy jm = im_policy im" "im_accounting jm = im_accounting im" "im_epoch jm = im_epoch im"
    "im_incarnation jm = im_incarnation im" by (simp_all add: a(1) stage_evidence_def Let_def)
  have q: "rq_window (make_request_for snapshot im) = ev_window snapshot"
    "rq_evidence_id (make_request_for snapshot im) = ev_id snapshot"
    "rq_evidence_generation (make_request_for snapshot im) = ev_generation snapshot"
    by (simp_all add: make_request_for_def Let_def)
  have "fd_authority raw = decision_authority (im_policy jm) (im_accounting jm) (evaluation_context (make_request_for snapshot im) jm)"
    using decision_sealed(1) [OF raw] by simp
  then show thesis
    using that raw d kept by (simp add: evaluation_context_def f q decision_authority_def Let_def)
qed

section \<open>Handshake\<close>

lemma hello_ack_length: "length (encode_hello_ack ack) = 66 + length (ha_detail ack)"
  by (simp add: encode_hello_ack_def put_blob_def put_u16_def put_u64_def put_u32_def)

lemma greeted:
  assumes "fh_kind header = Frame_HelloAck" "fh_flags header \<in> {0, 1}" "ha_code ack = status_value Ok"
    and "length (ha_detail ack) \<le> 512"
  shows "client_connected options [Arrived (encode_frame header (encode_hello_ack ack))]
    = (Inr \<lparr>lc_options = options, lc_open = True, lc_session = ha_session_id ack, lc_sequence = 0\<rparr>, Some ack)"
proof -
  let ?e = "[Arrived (encode_frame header (encode_hello_ack ack))]"
  have "length (encode_hello_ack ack) \<le> unat kMaxFramePayloadBytes"
    using assms(4) by (simp add: hello_ack_length kMaxFramePayloadBytes_def)
  then obtain rest where "read_frame kMaxFramePayloadBytes 8 ?e
      = (Inr (sealed header (encode_hello_ack ack), encode_hello_ack ack), rest)"
    using read_frame_steady [of 8 ?e header "encode_hello_ack ack" "[]" kMaxFramePayloadBytes] assms(2) by auto
  moreover have "ha_code ack \<le> status_value Busy" using assms(3) by (simp add: status_value_def)
  ultimately show ?thesis
    using assms(1,3) decode_hello_ack_inverse [OF _ assms(4)] by (simp add: client_connected_def sealed_def)
qed

lemma session_of_valid: "session_of header \<noteq> 0"
  by (simp add: session_of_def Let_def)

lemma hello_answered:
  assumes hello: "fh_kind header = Frame_Hello" "id_valid (fh_publisher header)" "id_valid (fh_publisher_boot header)"
      "fh_publisher_ordinal header \<noteq> 0" "fh_epoch header = im_epoch (lk_governor link)" "\<not> im_stopping (lk_governor link)"
    and reply: "le_write_ok env (lk_writes link)" "length (le_text env (lk_writes link)) \<le> 512"
  obtains link' ack where "answer_hello env options header link = (Some (session_of header), link')"
    "client_connected copts [Arrived (last (lk_sent link'))]
      = (Inr \<lparr>lc_options = copts, lc_open = True, lc_session = session_of header, lc_sequence = 0\<rparr>, Some ack)"
    "ha_epoch ack = im_epoch (lk_governor link)" "ha_policy_generation ack = fp_generation (im_policy (lk_governor link))"
    "ha_max_payload ack = lo_max_payload options"
proof -
  define ack where "ack = accepting_ack env options (session_of header) link"
  obtain reply_header k where s: "send_frame env Frame_HelloAck (encode_hello_ack ack) (session_of header) 0 kFrameFlagNone link
      = (Ok, k)" "lk_sent k = lk_sent link @ [encode_frame reply_header (encode_hello_ack ack)]"
    "fh_kind reply_header = Frame_HelloAck" "fh_flags reply_header = kFrameFlagNone" "lk_governor k = lk_governor link"
    using reply(1) by (metis send_frame_sent)
  define link' where "link' = count_stats (\<lambda>s. s\<lparr>ls_handshakes_completed := ls_handshakes_completed s + 1\<rparr>) k"
  have a: "ha_code ack = status_value Ok" "ha_session_id ack = session_of header" "ha_detail ack = le_text env (lk_writes link)"
      "ha_epoch ack = im_epoch (lk_governor link)" "ha_policy_generation ack = fp_generation (im_policy (lk_governor link))"
      "ha_max_payload ack = lo_max_payload options"
    by (simp_all add: ack_def accepting_ack_def governor_authority_def Let_def)
  have "answer_hello env options header link = (Some (session_of header), link')"
    using hello s(1) by (simp add: answer_hello_def Let_def ack_def link'_def)
  moreover have "lk_sent link' = lk_sent link @ [encode_frame reply_header (encode_hello_ack ack)]"
    using s(2) by (simp add: link'_def count_stats_def)
  moreover have "client_connected copts [Arrived (encode_frame reply_header (encode_hello_ack ack))]
      = (Inr \<lparr>lc_options = copts, lc_open = True, lc_session = session_of header, lc_sequence = 0\<rparr>, Some ack)"
    using greeted [OF s(3) _ a(1), of copts] s(4) a(2,3) reply(2) by (simp add: kFrameFlagNone_def)
  ultimately show ?thesis using that a(4-6) by simp
qed

lemma hello_served:
  assumes opts: "check_client_options raw = Ok" "id_valid fresh" "opts = client_options fresh raw"
    and live: "co_epoch raw = im_epoch (lk_governor link)" "\<not> im_stopping (lk_governor link)"
    and reply: "le_write_ok env (lk_writes link)" "length (le_text env (lk_writes link)) \<le> 512"
    and arrives: "steady (lo_idle_polls options) 0 events" "data_of events = client_hello opts @ later"
  obtains link' rest client ack where "handshake env options link events = ((Some (lc_session client), link'), rest)"
    "data_of rest = later" "steady (lo_idle_polls options) 0 rest"
    "client_connected opts [Arrived (last (lk_sent link'))] = (Inr client, Some ack)"
    "lc_session client \<noteq> 0" "lc_sequence client = 0" "lc_options client = opts"
    "ha_epoch ack = im_epoch (lk_governor link)"
    "ha_policy_generation ack = fp_generation (im_policy (lk_governor link))" "ha_max_payload ack = lo_max_payload options"
proof -
  define sender where "sender = \<lparr>fh_kind = Frame_Hello, fh_flags = kFrameFlagNone, fh_payload_length = 0,
    fh_session_id = 0, fh_epoch = co_epoch opts, fh_publisher = co_publisher opts,
    fh_publisher_boot = co_publisher_boot opts, fh_publisher_ordinal = co_publisher_ordinal opts,
    fh_sequence = 0, fh_frame_checksum = 0\<rparr>"
  define header where "header = sealed sender []"
  have h: "fh_kind header = Frame_Hello" "id_valid (fh_publisher header)" "id_valid (fh_publisher_boot header)"
      "fh_publisher_ordinal header \<noteq> 0" "fh_epoch header = im_epoch (lk_governor link)"
    using opts live by (simp_all add: header_def sealed_def sender_def client_options_def check_client_options_def split: if_splits)
  have "client_hello opts = encode_frame sender []" by (simp add: client_hello_def client_frame_def sender_def)
  then obtain rest where f: "read_frame (lo_max_payload options) (lo_idle_polls options) events = (Inr (header, []), rest)"
    "data_of rest = later" "steady (lo_idle_polls options) 0 rest"
    using read_frame_steady [OF arrives(1), of sender "[]" later "lo_max_payload options"] arrives(2)
    by (auto simp: header_def sender_def kFrameFlagNone_def)
  define l where "l = count_stats (\<lambda>s. s\<lparr>ls_frames_received := ls_frames_received s + 1\<rparr>) link"
  have l: "lk_governor l = lk_governor link" "lk_writes l = lk_writes link" by (simp_all add: l_def count_stats_def)
  obtain link' ack where a: "answer_hello env options header l = (Some (session_of header), link')"
    "client_connected opts [Arrived (last (lk_sent link'))]
      = (Inr \<lparr>lc_options = opts, lc_open = True, lc_session = session_of header, lc_sequence = 0\<rparr>, Some ack)"
    "ha_epoch ack = im_epoch (lk_governor l)" "ha_policy_generation ack = fp_generation (im_policy (lk_governor l))"
    "ha_max_payload ack = lo_max_payload options"
    by (rule hello_answered [of header l env options opts]) (use h live(2) reply l in simp_all)
  have "handshake env options link events = ((Some (session_of header), link'), rest)"
    by (simp add: handshake_def f(1) l_def [symmetric] a(1))
  then show ?thesis
    using that [of "\<lparr>lc_options = opts, lc_open = True, lc_session = session_of header, lc_sequence = 0\<rparr>" link' rest ack]
      f(2,3) a(2-5) l session_of_valid by simp
qed

text \<open>Every valid snapshot fits in the largest frame.\<close>

lemma evidence_fits_frame:
  assumes "validate_evidence snapshot = Ok"
  shows "length (encode_evidence snapshot) \<le> unat kMaxFramePayloadBytes"
proof -
  have b: "length (pd_name (ev_producer snapshot)) \<le> 128" "length (pv_source (ev_provenance snapshot)) \<le> 128"
    "length (ev_observations snapshot) \<le> 4096"
    using assms by (auto simp: validate_evidence_iff evidence_wf_def)
  have "length (concat (map put_observation (ev_observations snapshot))) \<le> length (ev_observations snapshot) * 64"
    by (intro length_concat_bound) (simp add: length_put_records)
  then show ?thesis using b
    by (simp add: encode_evidence_def put_evidence_fields_def kMaxFramePayloadBytes_def del: length_concat)
qed

section \<open>A connection\<close>

definition sample_link :: Link where
  "sample_link = \<lparr>lk_governor = fresh_impl sample_config sample_incarnation,
     lk_stats = \<lparr>ls_connections_accepted = 0, ls_connections_rejected = 0, ls_handshakes_completed = 0,
       ls_handshakes_rejected = 0, ls_frames_received = 0, ls_frames_rejected = 0, ls_evidence_accepted = 0,
       ls_evidence_duplicate = 0, ls_evidence_rejected = 0, ls_checksum_failures = 0, ls_oversized_frames = 0,
       ls_sequence_violations = 0, ls_windows_committed = 0, ls_evaluations_failed = 0, ls_bytes_received = 0,
       ls_bytes_sent = 0, ls_shutdown_requests = 0, ls_connections_idle_dropped = 0\<rparr>,
     lk_stop = False, lk_active = 0, lk_sent = [], lk_writes = 0\<rparr>"

definition sample_env :: LinkEnv where
  "sample_env = \<lparr>le_write_ok = (\<lambda>_. True), le_text = (\<lambda>_. []), le_disk = silent_io\<rparr>"

definition sample_options :: LinkServerOptions where
  "sample_options = \<lparr>lo_max_connections = 4, lo_max_payload = kMaxFramePayloadBytes, lo_idle_polls = 8,
     lo_evaluate_on_ingest = True\<rparr>"

definition sample_client :: LinkClient where
  "sample_client = \<lparr>lc_options = \<lparr>co_port = 9000, co_epoch = 1, co_publisher = 3, co_publisher_boot = 8,
     co_publisher_ordinal = 1\<rparr>, lc_open = True, lc_session = 5, lc_sequence = 0\<rparr>"

definition sample_stream :: "recv list" where
  "sample_stream = [Arrived (take 10 (fst (client_submission sample_evidence sample_client))), Would_block,
     Arrived (drop 10 (fst (client_submission sample_evidence sample_client)))]"

lemma sample_submission_length: "80 \<le> length (fst (client_submission sample_evidence sample_client))"
  by (simp add: client_submission_def client_frame_def Let_def encode_frame_split)

lemma sample_stream_data: "data_of sample_stream = fst (client_submission sample_evidence sample_client) @ []"
  by (simp add: sample_stream_def)

lemma sample_stream_steady: "steady 8 0 sample_stream"
  using sample_submission_length by (auto simp: sample_stream_def)

lemma sample_evidence_bytes: "length (encode_evidence sample_evidence) \<le> unat kMaxFramePayloadBytes"
  using sample_evidence_valid by (intro evidence_fits_frame) simp

lemma sample_link_governor: "lk_governor sample_link = fresh_impl sample_config sample_incarnation"
  by (simp add: sample_link_def)

lemma sample_link_reachable: "reachable (lk_governor sample_link) {}"
  unfolding sample_link_governor by (rule reach_open [OF sample_opened [of "Inl IoError"]])

lemma sample_link_spare: "counters_spare (im_accounting (lk_governor sample_link))"
  by (simp add: sample_link_governor counters_spare_def fresh_impl_def default_accounting_def)

section \<open>Properties\<close>

text \<open>C38: Framing does not depend on how a stream is cut into segments. Whatever pieces the bytes of an encoded frame
  arrive in, with any pauses shorter than the idle budget between them and whatever follows, the receiver
  returns exactly that header (length and checksum filled in) and that payload, verified, and leaves the
  bytes behind the frame for the next read, which may begin at once.\<close>

theorem frames_survive_segmentation:
  assumes "steady polls 0 events" "data_of events = encode_frame header payload @ later"
    and "fh_flags header \<in> {kFrameFlagNone, kFrameFlagRequestShutdown}" "length payload \<le> unat max_payload"
  shows "\<exists>checksum rest. read_frame max_payload polls events
      = (Inr (header\<lparr>fh_payload_length := of_nat (length payload), fh_frame_checksum := checksum\<rparr>, payload), rest) \<and>
    data_of rest = later \<and> steady polls 0 rest"
proof -
  have "fh_flags header \<in> {0, 1}" using assms(3) by (simp add: kFrameFlagNone_def kFrameFlagRequestShutdown_def)
  then show ?thesis using read_frame_steady [OF assms(1,2) _ assms(4)] unfolding sealed_def by blast
qed

theorem frames_survive_segmentation_witness:
  "\<exists>received rest. read_frame 100 8 [Arrived (take 10 (encode_frame sample_frame [1, 2, 3])), Would_block,
      Arrived (drop 10 (encode_frame sample_frame [1, 2, 3]) @ [7])] = (Inr (received, [1, 2, 3]), rest) \<and> data_of rest = [7]"
proof -
  let ?e = "[Arrived (take 10 (encode_frame sample_frame [1, 2, 3])), Would_block,
      Arrived (drop 10 (encode_frame sample_frame [1, 2, 3]) @ [7])]"
  have "steady 8 0 ?e" "data_of ?e = encode_frame sample_frame [1, 2, 3] @ [7]"
    by (simp_all add: append_assoc [symmetric] del: append_assoc)
  moreover have "fh_flags sample_frame \<in> {kFrameFlagNone, kFrameFlagRequestShutdown}" "length [1, 2, 3 :: u8] \<le> unat (100 :: u32)"
    by (simp_all add: sample_frame_def kFrameFlagNone_def)
  ultimately show ?thesis using frames_survive_segmentation by blast
qed

text \<open>C31: The evidence gate. A turn of the frame loop changes the governor only when it read a whole frame whose
  checksum was verified, of kind evidence, of this session, in the live epoch, with exactly the expected
  sequence number, whose payload decodes to a snapshot that passes the validation, carries the live epoch
  and lies after the last committed window. Nothing else a peer can send reaches it, and the
  handshake never does.\<close>

theorem only_sequenced_evidence_reaches_governor:
  assumes "lk_governor (snd (fst (serve_turn env options session expected link events))) \<noteq> lk_governor link"
  shows "\<exists>header payload rest snapshot.
    read_frame (lo_max_payload options) (lo_idle_polls options) events = (Inr (header, payload), rest) \<and>
    verify_frame_payload header payload = Ok \<and> length payload \<le> unat (lo_max_payload options) \<and>
    fh_kind header = Frame_Evidence \<and> fh_session_id header = session \<and>
    fh_epoch header = im_epoch (lk_governor link) \<and> fh_sequence header = expected \<and>
    decode_evidence payload = Inr snapshot \<and> validate_evidence snapshot = Ok \<and>
    ev_epoch snapshot = im_epoch (lk_governor link) \<and> \<not> im_stopping (lk_governor link) \<and>
    ac_last_window (im_accounting (lk_governor link)) < ev_window snapshot"
proof (cases rule: serve_turn_cases [of env options session expected link events])
  case kept
  then show ?thesis using assms by simp
next
  case (ingested header payload rest)
  note v = read_frame_verified [OF ingested(1)]
  have len: "length payload \<le> unat (lo_max_payload options)"
    using v by (auto simp: verify_frame_payload_def word_le_nat_alt split: if_splits)
  show ?thesis
  proof (cases rule: ingest_payload_cases [of env options payload "count_stats (count_frame payload) link"])
    case refused
    then show ?thesis using assms ingested(6) by simp
  next
    case (staged snapshot)
    have "ingest_evidence snapshot (lk_governor link)
        = (Inr (ingest_result Staged snapshot), stage_evidence snapshot (lk_governor link))" using staged(2) by simp
    from ingest_accepted [OF this] show ?thesis
      using ingested(1-5) v(1) len staged(1) by (auto simp: ingest_result_def)
  qed
qed

text \<open>C37: Publisher and server agree on a session. When a publisher whose options pass its own check, in the live epoch
  of a governor that is not shutting down, sends its hello in any pieces, the server opens a session and the
  publisher reads from the reply the same non-zero session number, the live epoch, the policy generation
  in force and the server's payload bound; its next frame has the number the server expects.\<close>

theorem handshake_agrees_on_session:
  assumes "check_client_options raw = Ok" "id_valid fresh" "opts = client_options fresh raw"
    and "co_epoch raw = im_epoch (lk_governor link)" "\<not> im_stopping (lk_governor link)"
    and "le_write_ok env (lk_writes link)" "length (le_text env (lk_writes link)) \<le> 512"
    and "steady (lo_idle_polls options) 0 events" "data_of events = client_hello opts @ later"
  shows "\<exists>link' rest client ack. handshake env options link events = ((Some (lc_session client), link'), rest) \<and>
    data_of rest = later \<and> client_connected opts [Arrived (last (lk_sent link'))] = (Inr client, Some ack) \<and>
    lc_session client \<noteq> 0 \<and> lc_sequence client + 1 = 1 \<and> ha_epoch ack = im_epoch (lk_governor link) \<and>
    ha_policy_generation ack = fp_generation (im_policy (lk_governor link)) \<and>
    ha_max_payload ack = lo_max_payload options"
  by (rule hello_served [OF assms]) (intro exI conjI, simp_all)

theorem handshake_agrees_on_session_witness:
  "\<exists>link' rest client ack. handshake sample_env sample_options sample_link
      [Arrived (client_hello (client_options 77 (lc_options sample_client)))] = ((Some (lc_session client), link'), rest) \<and>
    client_connected (client_options 77 (lc_options sample_client)) [Arrived (last (lk_sent link'))] = (Inr client, Some ack)"
proof -
  have o: "check_client_options (lc_options sample_client) = Ok" "id_valid 77"
      "co_epoch (lc_options sample_client) = im_epoch (lk_governor sample_link)" "\<not> im_stopping (lk_governor sample_link)"
      "le_write_ok sample_env (lk_writes sample_link)" "length (le_text sample_env (lk_writes sample_link)) \<le> 512"
      "steady (lo_idle_polls sample_options) 0 [Arrived (client_hello (client_options 77 (lc_options sample_client)))]"
      "data_of [Arrived (client_hello (client_options 77 (lc_options sample_client)))]
        = client_hello (client_options 77 (lc_options sample_client)) @ []"
    by (simp_all add: sample_client_def check_client_options_def sample_link_governor fresh_impl_def sample_config_def
        sample_env_def client_hello_def client_frame_def id_valid_def generation_valid_def)
  from handshake_agrees_on_session [OF o(1,2) refl o(3-8)] show ?thesis by blast
qed

text \<open>C30: Submission is live from end to end. Take the server of an in-memory governor that evaluates on ingest, and a
  snapshot that the governor stages and that the bound on the staged snapshots does not evict in the same
  call. When a publisher submits it and the bytes of its frame arrive in any pieces, the server reads and
  stages it, evaluates exactly this snapshot under the policy in force and the current accounting, for the request
  that names it, and commits that decision, all in one turn: the governor that is left is the one that commit
  leaves, its last committed window is the snapshot's. The connection goes on with the next number and the
  bytes behind the frame, and the publisher reads an acknowledgement that accepts this snapshot.\<close>

theorem submitted_evidence_commits:
  assumes "reachable (lk_governor link) taken" "counters_spare (im_accounting (lk_governor link))"
    and "im_store (lk_governor link) = None" "lo_evaluate_on_ingest options"
    and "ingest_evidence snapshot (lk_governor link) = (Inr result, jm)" "ir_disposition result = Staged"
    and "map_of (im_staged jm) (ev_window snapshot) = Some snapshot"
    and "le_write_ok env (lk_writes link)" "length (le_text env (lk_writes link)) \<le> 512"
    and "length (encode_evidence snapshot) \<le> unat (lo_max_payload options)"
    and "steady (lo_idle_polls options) 0 events" "data_of events = fst (client_submission snapshot client) @ later"
  shows "\<exists>raw link' rest ack.
    serve_turn env options (lc_session client) (lc_sequence client + 1) link events
      = ((Some (lc_sequence client + 1 + 1), link'), rest) \<and> data_of rest = later \<and>
    evaluate_fairness
      \<lparr>ec_policy = Some (im_policy (lk_governor link)), ec_accounting = Some (im_accounting (lk_governor link)),
       ec_evidence = Some snapshot,
       ec_request =
         \<lparr>rq_policy_id = fp_id (im_policy (lk_governor link)),
          rq_policy_generation = fp_generation (im_policy (lk_governor link)), rq_epoch = im_epoch (lk_governor link),
          rq_evidence_id = ev_id snapshot, rq_evidence_generation = ev_generation snapshot,
          rq_window = ev_window snapshot, rq_window_generation = ev_window_generation snapshot,
          rq_now_ns = ev_captured_at_ns snapshot, rq_request_id = ev_sequence snapshot, rq_attempt = 0,
          rq_treat_missing_as_unknown = True, rq_allow_stale_result = True\<rparr>,
       ec_current_epoch = im_epoch (lk_governor link), ec_current_window = current_window jm,
       ec_last_committed_window = ac_last_window (im_accounting (lk_governor link))\<rparr> = Some (Inr raw) \<and>
    av_evidence_id (fd_authority raw) = ev_id snapshot \<and> av_evidence_generation (fd_authority raw) = ev_generation snapshot \<and>
    governor_commit (le_disk env) (stamp_decision (im_incarnation (lk_governor link)) raw) jm = (Ok, lk_governor link') \<and>
    ac_last_window (im_accounting (lk_governor link')) = ev_window snapshot \<and>
    client_acknowledged [Arrived (last (lk_sent link'))] = Inr ack \<and> ea_code ack = status_value Ok \<and>
    ea_snapshot ack = ev_id snapshot"
proof -
  have ok: "impl_ok (lk_governor link)" using reachable_ok [OF assms(1)] by blast
  obtain link' rest ack decision where s:
    "serve_turn env options (lc_session client) (lc_sequence client + 1) link events
      = ((Some (lc_sequence client + 1 + 1), link'), rest)" "data_of rest = later"
    "ac_last_window (im_accounting (lk_governor link')) = ev_window snapshot"
    "client_acknowledged [Arrived (last (lk_sent link'))] = Inr ack" "ea_code ack = status_value Ok"
    "ea_snapshot ack = ev_id snapshot"
    "governor_evaluate (make_request_for snapshot (lk_governor link)) jm = Some (Inr decision)"
    "governor_commit (le_disk env) decision jm = (Ok, lk_governor link')"
    by (rule submission_served [OF ok assms(2-6,8-12)])
  show ?thesis
    by (rule staged_evaluation [OF assms(5-7) s(7)], rule exI, rule exI [of _ link'], rule exI [of _ rest], rule exI [of _ ack])
      (use s in \<open>simp add: make_request_for_def governor_authority_def Let_def\<close>)
qed

theorem submitted_evidence_commits_witness:
  "\<exists>raw link' rest ack. serve_turn sample_env sample_options 5 1 sample_link sample_stream = ((Some 2, link'), rest) \<and>
    governor_commit (le_disk sample_env) (stamp_decision sample_incarnation raw) sample_impl = (Ok, lk_governor link') \<and>
    av_evidence_id (fd_authority raw) = ev_id sample_evidence \<and> ac_last_window (im_accounting (lk_governor link')) = 1 \<and>
    client_acknowledged [Arrived (last (lk_sent link'))] = Inr ack \<and> ea_code ack = 0"
proof -
  have o: "lo_evaluate_on_ingest sample_options" "le_write_ok sample_env (lk_writes sample_link)"
      "length (le_text sample_env (lk_writes sample_link)) \<le> 512" "im_store (lk_governor sample_link) = None"
      "length (encode_evidence sample_evidence) \<le> unat (lo_max_payload sample_options)"
      "steady (lo_idle_polls sample_options) 0 sample_stream"
    using sample_evidence_bytes sample_stream_steady
    by (simp_all add: sample_options_def sample_env_def sample_link_governor fresh_impl_def)
  have s: "ir_disposition (ingest_result Staged sample_evidence) = Staged"
    "map_of (im_staged sample_impl) (ev_window sample_evidence) = Some sample_evidence"
    by (simp_all add: ingest_result_def sample_impl_def stage_evidence_def Let_def fresh_impl_def sample_config_def trim_front_def)
  from submitted_evidence_commits [OF sample_link_reachable sample_link_spare o(4,1)
      sample_ingested [folded sample_link_governor] s o(2,3,5,6) sample_stream_data]
  obtain raw link' rest ack where
    t: "serve_turn sample_env sample_options (lc_session sample_client) (lc_sequence sample_client + 1) sample_link sample_stream
      = ((Some (lc_sequence sample_client + 1 + 1), link'), rest)"
    "ac_last_window (im_accounting (lk_governor link')) = ev_window sample_evidence"
    "client_acknowledged [Arrived (last (lk_sent link'))] = Inr ack" "ea_code ack = status_value Ok"
    "governor_commit (le_disk sample_env) (stamp_decision (im_incarnation (lk_governor sample_link)) raw) sample_impl
      = (Ok, lk_governor link')" "av_evidence_id (fd_authority raw) = ev_id sample_evidence" by blast
  have "im_incarnation (lk_governor sample_link) = sample_incarnation" by (simp add: sample_link_governor fresh_impl_def)
  note t = t(1-4) t(5) [unfolded this] t(6)
  have c: "lc_session sample_client = 5" "lc_sequence sample_client = 0" "ev_window sample_evidence = 1"
    by (simp_all add: sample_client_def sample_evidence_def)
  show ?thesis using t unfolding c by (auto simp: status_value_def)
qed

theorem only_sequenced_evidence_reaches_governor_witness:
  "\<exists>header payload rest. read_frame (lo_max_payload sample_options) (lo_idle_polls sample_options) sample_stream
     = (Inr (header, payload), rest) \<and> fh_kind header = Frame_Evidence \<and> fh_sequence header = 1"
proof -
  have o: "lo_evaluate_on_ingest sample_options" "le_write_ok sample_env (lk_writes sample_link)"
      "length (le_text sample_env (lk_writes sample_link)) \<le> 512" "im_store (lk_governor sample_link) = None"
      "length (encode_evidence sample_evidence) \<le> unat (lo_max_payload sample_options)"
      "steady (lo_idle_polls sample_options) 0 sample_stream"
    using sample_evidence_bytes sample_stream_steady
    by (simp_all add: sample_options_def sample_env_def sample_link_governor fresh_impl_def)
  have "impl_ok (lk_governor sample_link)" using reachable_ok [OF sample_link_reachable] by blast
  then obtain link' rest where t: "serve_turn sample_env sample_options (lc_session sample_client) (lc_sequence sample_client + 1)
      sample_link sample_stream = ((Some (lc_sequence sample_client + 1 + 1), link'), rest)"
    "ac_last_window (im_accounting (lk_governor link')) = ev_window sample_evidence"
    by (rule submission_served [OF _ sample_link_spare o(4,1) sample_ingested [folded sample_link_governor] _ o(2,3,5,6)
        sample_stream_data]) (simp_all add: ingest_result_def)
  have "ac_last_window (im_accounting (lk_governor sample_link)) = 0" "ev_window sample_evidence = 1"
    by (simp_all add: sample_link_governor fresh_impl_def default_accounting_def sample_evidence_def)
  then have "lk_governor (snd (fst (serve_turn sample_env sample_options (lc_session sample_client)
      (lc_sequence sample_client + 1) sample_link sample_stream))) \<noteq> lk_governor sample_link" using t by auto
  from only_sequenced_evidence_reaches_governor [OF this] show ?thesis by (auto simp: sample_client_def)
qed

end
