(* ===== verification/FG_Intake.thy ===== *)
theory FG_Intake
  imports FG_Scenario FG_Transport
begin

text \<open>
  From a scenario to a governor: what the parser accepts, the governor accepts.
\<close>

lemma parsed_valid:
  assumes "parse_scenario chars = Inr sc"
  shows "sc_has_policy sc \<Longrightarrow> validate_policy (sc_policy sc) = Ok"
    "sc_has_policy sc \<Longrightarrow> fp_epoch (sc_policy sc) = sc_epoch sc"
    "e \<in> set (sc_evidence sc) \<Longrightarrow> validate_evidence e = Ok"
proof -
  obtain st where st: "finish_parse chars st = Inr sc" using assms by (auto simp: parse_scenario_def split: sum.splits)
  define s where "s = (if sc_has_policy (ps_scenario st) then settle_epoch (ps_scenario st) else ps_scenario st)"
  have s: "sc = s\<lparr>sc_source_digest := checksum64 chars\<rparr>" "\<not> (sc_has_policy s \<and> validate_policy (sc_policy s) \<noteq> Ok)"
    "\<forall>e\<in>set (sc_evidence s). validate_evidence e = Ok"
    using st unfolding finish_parse_def Let_def s_def [symmetric] by (auto split: if_splits)
  have "sc_has_policy s \<Longrightarrow> fp_epoch (sc_policy s) = sc_epoch s"
    by (cases "sc_has_policy (ps_scenario st)") (simp_all add: s_def settle_epoch_def Let_def)
  then show "sc_has_policy sc \<Longrightarrow> validate_policy (sc_policy sc) = Ok"
    "sc_has_policy sc \<Longrightarrow> fp_epoch (sc_policy sc) = sc_epoch sc"
    "e \<in> set (sc_evidence sc) \<Longrightarrow> validate_evidence e = Ok" using s by auto
qed

text \<open>The configuration of a governor in memory that serves a scenario.\<close>

definition scenario_config :: "IngestionLimits \<Rightarrow> Scenario \<Rightarrow> GovernorConfig" where
  "scenario_config limits sc = \<lparr>gc_policy = sc_policy sc, gc_has_store_path = False, gc_epoch = sc_epoch sc,
     gc_limits = limits, gc_require_durability = False\<rparr>"

lemma fresh_staged:
  assumes "validate_evidence e = Ok" "ev_epoch e = gc_epoch config"
    "length (ev_observations e) \<le> unat (il_max_observations_per_snapshot (gc_limits config))"
  shows "fst (ingest_evidence e (fresh_impl config incarnation)) = Inr (ingest_result Staged e)"
  using assms by (simp add: ingest_evidence_def) (simp add: fresh_impl_def default_accounting_def id_valid_def)

text \<open>What the sample document parses to, as far as a governor in its epoch cares.\<close>

lemma sample_parsed:
  obtains sc e where "parse_scenario sample_document = Inr sc" "sc_has_policy sc" "\<not> sc_has_request sc" "sc_epoch sc = 1"
    "sc_evidence sc = [e]" "ev_epoch e = 1" "length (ev_observations e) = 1" "ev_window e = 1" "ev_window_generation e = 1"
proof -
  have "map_sum id (\<lambda>sc. (sc_has_policy sc, sc_has_request sc, sc_epoch sc,
      map (\<lambda>e. (ev_epoch e, length (ev_observations e), ev_window e, ev_window_generation e)) (sc_evidence sc)))
    (parse_scenario sample_document) = Inr (True, False, 1, [(1, 1, 1, 1)])" by code_simp
  then show ?thesis using that by (auto simp: map_sum_Inr)
qed

text \<open>A scenario that parses is a scenario the engine accepts. A governor configured with the policy and the epoch of a
  parsed document opens, serves that policy in that epoch, and stages every snapshot of the document that is
  of that epoch and within its observation limit.\<close>

theorem parsed_scenario_is_accepted:
  assumes "parse_scenario chars = Inr sc" "sc_has_policy sc"
    and "il_max_staged_snapshots limits \<noteq> 0" "il_max_history_windows limits \<noteq> 0"
      "il_max_observations_per_snapshot limits \<noteq> 0"
  shows "\<exists>im. fst (governor_open io incarnation (scenario_config limits sc) opened) = Inr im \<and>
    im_policy im = sc_policy sc \<and> im_epoch im = sc_epoch sc \<and>
    (\<forall>e\<in>set (sc_evidence sc). ev_epoch e = sc_epoch sc \<and>
       length (ev_observations e) \<le> unat (il_max_observations_per_snapshot limits) \<longrightarrow>
       fst (ingest_evidence e im) = Inr (ingest_result Staged e))"
proof -
  let ?c = "scenario_config limits sc"
  note v = parsed_valid [OF assms(1)]
  have "generation_valid (fp_epoch (sc_policy sc))"
    using v(1) assms(2) by (simp add: validate_policy_iff policy_wf_def header_wf_def generation_valid_def)
  then have "check_config ?c = Ok"
    using v(1,2) assms(2-5) by (simp add: check_config_def scenario_config_def)
  then have "fst (governor_open io incarnation ?c opened) = Inr (fresh_impl ?c incarnation)"
    by (simp add: governor_open_def) (simp add: scenario_config_def)
  moreover have "im_policy (fresh_impl ?c incarnation) = sc_policy sc" "im_epoch (fresh_impl ?c incarnation) = sc_epoch sc"
    by (simp_all add: fresh_impl_def scenario_config_def)
  ultimately show ?thesis using v(3) fresh_staged [of _ ?c incarnation] by (auto simp: scenario_config_def)
qed

theorem parsed_scenario_is_accepted_witness:
  "\<exists>sc im. parse_scenario sample_document = Inr sc \<and>
    fst (governor_open silent_io sample_incarnation (scenario_config (gc_limits sample_config) sc) (Inl IoError)) = Inr im \<and>
    im_policy im = sc_policy sc"
proof -
  obtain sc where sc: "parse_scenario sample_document = Inr sc" "sc_has_policy sc" by (rule sample_parsed)
  have "il_max_staged_snapshots (gc_limits sample_config) \<noteq> 0" "il_max_history_windows (gc_limits sample_config) \<noteq> 0"
      "il_max_observations_per_snapshot (gc_limits sample_config) \<noteq> 0" by (simp_all add: sample_config_def)
  from parsed_scenario_is_accepted [OF sc this] sc(1) show ?thesis by blast
qed

end
