(* ===== verification/FG_Explain.thy ===== *)
theory FG_Explain
  imports FG_Scenario
begin

text \<open>
  The explanation of a decision (\<open>eval/explain.cpp\<close>): decimal numbers (\<open>to_decimal\<close>), the names of the codes, one
  line per object, and the text with its hard cap. The detail texts of the notes, which the decision of this
  development does not carry, are an argument.
\<close>

section \<open>Numbers and names\<close>

text \<open>The digits go in front of those already written; the buffer of 21 characters holds every value.\<close>

function decimal_loop :: "u64 \<Rightarrow> bytes \<Rightarrow> bytes" where
  "decimal_loop v digits = (if v = 0 then digits else decimal_loop (v div 10) ((48 + ucast (v mod 10)) # digits))"
  by pat_completeness auto

termination
  by (relation "measure (\<lambda>(v, digits). unat v)") (simp_all add: unat_div_distrib unat_gt_0 div_less_dividend)

declare decimal_loop.simps [simp del]

definition to_decimal :: "u64 \<Rightarrow> bytes" where
  "to_decimal v = (if v = 0 then ascii ''0'' else decimal_loop v [])"

definition status_name :: "StatusCode \<Rightarrow> bytes" where
  "status_name x = ascii (case x of
     Ok \<Rightarrow> ''OK'' | InvalidArgument \<Rightarrow> ''INVALID_ARGUMENT''
     | OutOfRange \<Rightarrow> ''OUT_OF_RANGE'' | NotFound \<Rightarrow> ''NOT_FOUND''
     | AlreadyExists \<Rightarrow> ''ALREADY_EXISTS'' | Duplicate \<Rightarrow> ''DUPLICATE''
     | Conflict \<Rightarrow> ''CONFLICT'' | NotInitialized \<Rightarrow> ''NOT_INITIALIZED''
     | Unsupported \<Rightarrow> ''UNSUPPORTED'' | Internal \<Rightarrow> ''INTERNAL''
     | StaleGeneration \<Rightarrow> ''STALE_GENERATION'' | StaleEpoch \<Rightarrow> ''STALE_EPOCH''
     | StaleIncarnation \<Rightarrow> ''STALE_INCARNATION''
     | StaleEvidence \<Rightarrow> ''STALE_EVIDENCE''
     | EvidenceMissing \<Rightarrow> ''EVIDENCE_MISSING''
     | EvidenceContradictory \<Rightarrow> ''EVIDENCE_CONTRADICTORY''
     | AuthorityMismatch \<Rightarrow> ''AUTHORITY_MISMATCH''
     | IncarnationMismatch \<Rightarrow> ''INCARNATION_MISMATCH''
     | PolicyInvalid \<Rightarrow> ''POLICY_INVALID''
     | PolicyGenerationMismatch \<Rightarrow> ''POLICY_GENERATION_MISMATCH''
     | PolicyOvercommit \<Rightarrow> ''POLICY_OVERCOMMIT'' | GroupCycle \<Rightarrow> ''GROUP_CYCLE''
     | GroupDepthExceeded \<Rightarrow> ''GROUP_DEPTH_EXCEEDED''
     | SubjectGenerationMismatch \<Rightarrow> ''SUBJECT_GENERATION_MISMATCH''
     | ArithmeticOverflow \<Rightarrow> ''ARITHMETIC_OVERFLOW''
     | ArithmeticUnderflow \<Rightarrow> ''ARITHMETIC_UNDERFLOW''
     | DivideByZero \<Rightarrow> ''DIVIDE_BY_ZERO'' | LimitExceeded \<Rightarrow> ''LIMIT_EXCEEDED''
     | IoError \<Rightarrow> ''IO_ERROR'' | CorruptRecord \<Rightarrow> ''CORRUPT_RECORD''
     | UnsupportedFormat \<Rightarrow> ''UNSUPPORTED_FORMAT'' | Truncated \<Rightarrow> ''TRUNCATED''
     | ChecksumMismatch \<Rightarrow> ''CHECKSUM_MISMATCH''
     | OversizedPayload \<Rightarrow> ''OVERSIZED_PAYLOAD''
     | CommitRejected \<Rightarrow> ''COMMIT_REJECTED''
     | RecoveryRequired \<Rightarrow> ''RECOVERY_REQUIRED''
     | TransportError \<Rightarrow> ''TRANSPORT_ERROR'' | FrameInvalid \<Rightarrow> ''FRAME_INVALID''
     | FrameTooLarge \<Rightarrow> ''FRAME_TOO_LARGE''
     | HandshakeRejected \<Rightarrow> ''HANDSHAKE_REJECTED''
     | SequenceViolation \<Rightarrow> ''SEQUENCE_VIOLATION'' | LinkClosed \<Rightarrow> ''LINK_CLOSED''
     | LinkBusy \<Rightarrow> ''LINK_BUSY'' | IdleTimeout \<Rightarrow> ''IDLE_TIMEOUT''
     | ShuttingDown \<Rightarrow> ''SHUTTING_DOWN'' | Cancelled \<Rightarrow> ''CANCELLED''
     | Busy \<Rightarrow> ''BUSY'')"

definition outcome_name :: "Outcome \<Rightarrow> bytes" where
  "outcome_name x = ascii (case x of
     Fair \<Rightarrow> ''FAIR'' | OverServed \<Rightarrow> ''OVER_SERVED''
     | UnderServed \<Rightarrow> ''UNDER_SERVED'' | StarvationRisk \<Rightarrow> ''STARVATION_RISK''
     | CorrectionRequired \<Rightarrow> ''CORRECTION_REQUIRED''
     | BlockedByStrongerObligation \<Rightarrow> ''BLOCKED_BY_STRONGER_OBLIGATION''
     | Unknown \<Rightarrow> ''UNKNOWN'' | Stale \<Rightarrow> ''STALE'')"

definition reason_name :: "ReasonCode \<Rightarrow> bytes" where
  "reason_name x = ascii (case x of
     Reason_None \<Rightarrow> ''NONE'' | Reason_WithinFairBand \<Rightarrow> ''WITHIN_FAIR_BAND''
     | Reason_WeightedShareDeficit \<Rightarrow> ''WEIGHTED_SHARE_DEFICIT''
     | Reason_WeightedShareSurplus \<Rightarrow> ''WEIGHTED_SHARE_SURPLUS''
     | Reason_GuaranteeFloorDeficit \<Rightarrow> ''GUARANTEE_FLOOR_DEFICIT''
     | Reason_GuaranteeFloorSurplus \<Rightarrow> ''GUARANTEE_FLOOR_SURPLUS''
     | Reason_StarvationUnserved \<Rightarrow> ''STARVATION_UNSERVED''
     | Reason_StarvationBelowFloor \<Rightarrow> ''STARVATION_BELOW_FLOOR''
     | Reason_EvidenceAbsent \<Rightarrow> ''EVIDENCE_ABSENT''
     | Reason_EvidenceStaleGeneration \<Rightarrow> ''EVIDENCE_STALE_GENERATION''
     | Reason_EvidenceStaleWindow \<Rightarrow> ''EVIDENCE_STALE_WINDOW''
     | Reason_EvidenceStaleEpoch \<Rightarrow> ''EVIDENCE_STALE_EPOCH''
     | Reason_EvidenceStaleAge \<Rightarrow> ''EVIDENCE_STALE_AGE''
     | Reason_SubjectGenerationMismatch \<Rightarrow> ''SUBJECT_GENERATION_MISMATCH''
     | Reason_PolicyGenerationMismatch \<Rightarrow> ''POLICY_GENERATION_MISMATCH''
     | Reason_PriorityReferenceMismatch \<Rightarrow> ''PRIORITY_REFERENCE_MISMATCH''
     | Reason_CorrectiveBudgetExhausted \<Rightarrow> ''CORRECTIVE_BUDGET_EXHAUSTED''
     | Reason_CorrectiveCooldown \<Rightarrow> ''CORRECTIVE_COOLDOWN''
     | Reason_ProtectedObligationHeld \<Rightarrow> ''PROTECTED_OBLIGATION_HELD''
     | Reason_SubjectCapReached \<Rightarrow> ''SUBJECT_CAP_REACHED''
     | Reason_PolicyBoundReached \<Rightarrow> ''POLICY_BOUND_REACHED''
     | Reason_NoCorrectionAvailable \<Rightarrow> ''NO_CORRECTION_AVAILABLE''
     | Reason_OvercommitDetected \<Rightarrow> ''OVERCOMMIT_DETECTED'')"

definition bound_name :: "CorrectionBound \<Rightarrow> bytes" where
  "bound_name x = ascii (case x of
     Bound_None \<Rightarrow> ''NONE'' | Bound_SubjectAugmentCap \<Rightarrow> ''SUBJECT_AUGMENT_CAP''
     | Bound_SubjectReduceCap \<Rightarrow> ''SUBJECT_REDUCE_CAP''
     | Bound_PolicyTotalBudget \<Rightarrow> ''POLICY_TOTAL_BUDGET''
     | Bound_PolicyBasisPoints \<Rightarrow> ''POLICY_BASIS_POINTS''
     | Bound_ProtectedObligation \<Rightarrow> ''PROTECTED_OBLIGATION''
     | Bound_Cooldown \<Rightarrow> ''COOLDOWN''
     | Bound_BudgetExhausted \<Rightarrow> ''BUDGET_EXHAUSTED''
     | Bound_DemandSatisfied \<Rightarrow> ''DEMAND_SATISFIED''
     | Bound_AuthorityMissing \<Rightarrow> ''AUTHORITY_MISSING'')"

definition direction_name :: "CorrectionDirection \<Rightarrow> bytes" where
  "direction_name x = ascii (case x of
     Augment \<Rightarrow> ''AUGMENT'' | Reduce \<Rightarrow> ''REDUCE'')"

section \<open>Bounded text\<close>

record BoundedText =
  bt_limit :: u64
  bt_size :: u64
  bt_truncated :: bool
  bt_buffer :: bytes

definition bounded_text :: "u64 \<Rightarrow> BoundedText" where
  "bounded_text limit = \<lparr>bt_limit = limit, bt_size = 0, bt_truncated = False, bt_buffer = []\<rparr>"

definition truncation_notice :: bytes where
  "truncation_notice = 10 # ascii ''[explanation truncated]'' @ [10]"

definition text_append :: "bytes \<Rightarrow> BoundedText \<Rightarrow> BoundedText" where
  "text_append chars t =
     (if bt_truncated t then t
      else if bt_limit t < bt_size t + of_nat (length chars)
      then t\<lparr>bt_buffer := bt_buffer t @ take (unat (if bt_size t < bt_limit t then bt_limit t - bt_size t else 0)) chars @
               truncation_notice,
             bt_truncated := True, bt_size := bt_limit t\<rparr>
      else t\<lparr>bt_buffer := bt_buffer t @ chars, bt_size := bt_size t + of_nat (length chars)\<rparr>)"

definition text_line :: "bytes \<Rightarrow> BoundedText \<Rightarrow> BoundedText" where
  "text_line chars t = text_append [10] (text_append chars t)"

section \<open>Lines\<close>

definition field :: "string \<Rightarrow> u64 \<Rightarrow> bytes" where
  "field name v = 32 # ascii name @ [61] @ to_decimal v"

definition signed_field :: "string \<Rightarrow> i64 \<Rightarrow> bytes" where
  "signed_field name v = 32 # ascii name @ [61] @ (if v <s 0 then [45] else []) @ to_decimal (magnitude v)"

abbreviation flag_field :: "string \<Rightarrow> bool \<Rightarrow> bytes" where
  "flag_field name b \<equiv> field name (if b then 1 else 0)"

abbreviation label_text :: "string \<Rightarrow> bytes \<Rightarrow> bytes" where
  "label_text name chars \<equiv> (if chars \<noteq> [] then 32 # ascii name @ [61] @ chars else [])"

definition outcome_line :: "FairnessDecision \<Rightarrow> bytes" where
  "outcome_line d = ascii ''outcome '' @ outcome_name (fd_outcome d)"

definition authority_line :: "AuthorityVector \<Rightarrow> bytes" where
  "authority_line a =
     ascii ''authority policy='' @ to_decimal (av_policy_id a) @ [58] @ to_decimal (av_policy_generation a) @
     field ''epoch'' (av_epoch a) @
     ascii '' evidence='' @ to_decimal (av_evidence_id a) @ [58] @ to_decimal (av_evidence_generation a) @
     ascii '' window='' @ to_decimal (av_window a) @ [58] @ to_decimal (av_window_generation a) @
     field ''accounting_generation'' (av_accounting_generation a) @
     field ''governor_boot'' (inc_boot (av_governor a)) @ field ''governor_ordinal'' (inc_ordinal (av_governor a)) @
     field ''request'' (av_request_id a) @ field ''attempt'' (ucast (av_attempt a))"

definition counts_line :: "OutcomeCounts \<Rightarrow> bytes" where
  "counts_line c =
     ascii ''counts'' @ field ''fair'' (ucast (oc_fair c)) @ field ''over_served'' (ucast (oc_over_served c)) @
     field ''under_served'' (ucast (oc_under_served c)) @ field ''starvation_risk'' (ucast (oc_starvation_risk c)) @
     field ''correction_required'' (ucast (oc_correction_required c)) @
     field ''blocked_by_stronger_obligation'' (ucast (oc_blocked_by_stronger_obligation c)) @
     field ''unknown'' (ucast (oc_unknown c)) @ field ''stale'' (ucast (oc_stale c))"

definition correction_line :: "CorrectionSummary \<Rightarrow> bytes" where
  "correction_line s =
     ascii ''correction'' @ field ''pool'' (cs_reducible_pool_units s) @ field ''demand'' (cs_demand_units s) @
     field ''authorized'' (cs_authorized_budget_units s) @ field ''augment'' (cs_augment_units s) @
     field ''reduce'' (cs_reduce_units s) @ field ''withheld'' (cs_withheld_units s) @
     field ''unsatisfied'' (cs_unsatisfied_demand_units s) @
     field ''cooldown_suppressed'' (ucast (cs_cooldown_suppressed s)) @
     flag_field ''bounded_by_total'' (cs_bounded_by_policy_total s) @
     flag_field ''bounded_by_bps'' (cs_bounded_by_policy_bps s) @
     flag_field ''protected_blocked'' (cs_protected_obligation_blocked s) @
     flag_field ''authority_missing'' (cs_authority_missing s)"

definition group_line :: "GroupFairnessState \<Rightarrow> bytes" where
  "group_line g =
     ascii ''group id='' @ to_decimal (gs_id g) @ [58] @ to_decimal (gs_generation g) @
     ascii '' parent='' @ to_decimal (gs_parent g) @ field ''depth'' (ucast (gs_depth g)) @
     field ''entitlement'' (gs_entitlement_units g) @ field ''served'' (gs_served_units g) @
     signed_field ''deviation'' (gs_deviation_units g) @ field ''floor'' (gs_guarantee_floor_units g) @
     flag_field ''protected'' (gs_is_protected_obligation g) @
     field ''obligation_rank'' (ucast (gs_obligation_rank g)) @
     flag_field ''withheld_correction'' (gs_withheld_correction g) @ label_text ''label'' (gs_label g)"

definition subject_line :: "SubjectFairnessState \<Rightarrow> bytes" where
  "subject_line s =
     ascii ''subject id='' @ to_decimal (ss_id s) @ [58] @ to_decimal (ss_generation s) @
     ascii '' outcome='' @ outcome_name (ss_outcome s) @ ascii '' reason='' @ reason_name (ss_reason s) @
     flag_field ''authority'' (ss_has_authority s) @ field ''group'' (ss_group s) @
     field ''group_entitlement'' (ss_group_entitlement_units s) @ field ''entitlement'' (ss_entitlement_units s) @
     field ''base_entitlement'' (ss_base_entitlement_units s) @ field ''floor'' (ss_guarantee_floor_units s) @
     signed_field ''priority_delta'' (ss_priority_delta_units s) @
     signed_field ''modifier_bps'' (scast (ss_applied_modifier_bps s)) @
     flag_field ''modifier_clipped'' (ss_modifier_clipped s) @ field ''served'' (ss_served_units s) @
     signed_field ''deviation'' (ss_deviation_units s) @ field ''deficit'' (ss_deficit_units s) @
     field ''surplus'' (ss_surplus_units s) @ field ''carry_deficit'' (ss_cumulative_deficit_after s) @
     field ''carry_surplus'' (ss_cumulative_surplus_after s) @
     field ''unserved_streak'' (ucast (ss_unserved_streak s)) @
     field ''unserved_limit'' (ucast (ss_starvation_limit_windows s)) @
     field ''below_floor_streak'' (ucast (ss_below_floor_streak s)) @
     field ''below_floor_limit'' (ucast (ss_guarantee_starvation_limit_windows s)) @
     flag_field ''protected'' (ss_is_protected_obligation s) @
     field ''obligation_rank'' (ucast (ss_obligation_rank s)) @ field ''augment'' (ss_proposed_augment_units s) @
     field ''reduce'' (ss_proposed_reduce_units s) @ field ''unsatisfied'' (ss_unsatisfied_demand_units s) @
     (if priority_present (ss_expected_priority s)
      then field ''priority_ref'' (pr_id (ss_expected_priority s)) else []) @
     (if priority_present (ss_observed_priority s)
      then field ''observed_priority_ref'' (pr_id (ss_observed_priority s)) else []) @
     label_text ''label'' (ss_label s)"

definition intent_line :: "CorrectiveIntent \<Rightarrow> bytes" where
  "intent_line i =
     ascii ''intent id='' @ to_decimal (ci_id i) @ [58] @ to_decimal (ci_generation i) @
     ascii '' direction='' @ direction_name (ci_direction i) @ field ''subject'' (ci_subject i) @
     field ''group'' (ci_group i) @ field ''units'' (ci_units i) @
     ascii '' bound='' @ bound_name (ci_bound i) @ ascii '' reason='' @ reason_name (ci_reason i) @
     flag_field ''starvation'' (ci_from_starvation i) @
     flag_field ''protected'' (ci_from_protected_obligation i) @
     field ''obligation_rank'' (ucast (ci_obligation_rank i))"

definition note_line :: "bytes \<Rightarrow> DiagnosticNote \<Rightarrow> bytes" where
  "note_line detail n =
     ascii ''note code='' @ status_name (dn_code n) @ ascii '' reason='' @ reason_name (dn_reason n) @
     field ''subject'' (dn_subject n) @ label_text ''detail'' detail"

definition digest_line :: "FairnessDecision \<Rightarrow> bytes" where
  "digest_line d = ascii ''digest='' @ to_decimal (fd_content_digest d)"

section \<open>The explanation\<close>

record ExplainOptions =
  xo_include_subjects :: bool
  xo_include_groups :: bool
  xo_include_intents :: bool
  xo_include_notes :: bool
  xo_max_bytes :: u64

definition kMaxExplanationBytes :: u64 where "kMaxExplanationBytes = push_bit 20 1"

definition default_explain_options :: ExplainOptions where
  "default_explain_options = \<lparr>xo_include_subjects = True, xo_include_groups = True, xo_include_intents = True,
     xo_include_notes = True, xo_max_bytes = kMaxExplanationBytes\<rparr>"

text \<open>The lines in the order they are written; \<open>details\<close> gives the text of each note.\<close>

definition explanation_lines :: "(nat \<Rightarrow> bytes) \<Rightarrow> FairnessDecision \<Rightarrow> ExplainOptions \<Rightarrow> bytes list" where
  "explanation_lines details d options =
     [outcome_line d, authority_line (fd_authority d), counts_line (fd_counts d), correction_line (fd_correction d)] @
     (if xo_include_groups options then map group_line (fd_groups d) else []) @
     (if xo_include_subjects options then map subject_line (fd_subjects d) else []) @
     (if xo_include_intents options then map intent_line (fd_intents d) else []) @
     (if xo_include_notes options
      then map (\<lambda>i. note_line (details i) (fd_notes d ! i)) [0..<length (fd_notes d)] else []) @
     [digest_line d]"

definition explain :: "(nat \<Rightarrow> bytes) \<Rightarrow> FairnessDecision \<Rightarrow> ExplainOptions \<Rightarrow> bytes" where
  "explain details d options =
     bt_buffer (fold text_line (explanation_lines details d options) (bounded_text (xo_max_bytes options)))"

definition summarize :: "FairnessDecision \<Rightarrow> bytes" where
  "summarize d =
     (let c = fd_counts d
      in outcome_name (fd_outcome d) @ field ''fair'' (ucast (oc_fair c)) @ field ''under'' (ucast (oc_under_served c)) @
         field ''over'' (ucast (oc_over_served c)) @ field ''starve'' (ucast (oc_starvation_risk c)) @
         field ''correct'' (ucast (oc_correction_required c)) @
         field ''blocked'' (ucast (oc_blocked_by_stronger_obligation c)) @
         field ''unknown'' (ucast (oc_unknown c)) @ field ''stale'' (ucast (oc_stale c)) @
         field ''augment'' (cs_augment_units (fd_correction d)) @ field ''reduce'' (cs_reduce_units (fd_correction d)))"

definition format_result :: "(nat \<Rightarrow> bytes) \<Rightarrow> FairnessDecision \<Rightarrow> bytes" where
  "format_result details d =
     explain details d default_explain_options @ ascii ''summary '' @ summarize d @ [10]"

section \<open>The text with its cap\<close>

lemma append_open:
  assumes "\<not> bt_truncated t" "unat (bt_size t) = length (bt_buffer t)"
    and "length (bt_buffer t) + length chars < 2 ^ 64"
  shows "text_append chars t =
    (if length (bt_buffer t @ chars) \<le> unat (bt_limit t)
     then t\<lparr>bt_buffer := bt_buffer t @ chars, bt_size := of_nat (length (bt_buffer t @ chars))\<rparr>
     else t\<lparr>bt_buffer := bt_buffer t @ take (unat (bt_limit t) - length (bt_buffer t)) chars @ truncation_notice,
        bt_truncated := True, bt_size := bt_limit t\<rparr>)"
proof -
  have n: "unat (of_nat (length chars) :: u64) = length chars" using assms(3) by (simp add: unat_of_nat_exact)
  then have s: "unat (bt_size t + of_nat (length chars)) = length (bt_buffer t @ chars)"
    using assms by (simp add: unat_plus_exact)
  have of_nat_unat_word: "of_nat (unat w) = w" for w :: u64 by simp
  from s have e: "bt_size t + of_nat (length chars) = of_nat (length (bt_buffer t @ chars))" by (metis of_nat_unat_word)
  have l: "bt_limit t < bt_size t + of_nat (length chars) \<longleftrightarrow> \<not> length (bt_buffer t @ chars) \<le> unat (bt_limit t)"
    by (simp only: word_less_nat_alt s not_le)
  have k: "unat (if bt_size t < bt_limit t then bt_limit t - bt_size t else 0) = unat (bt_limit t) - length (bt_buffer t)"
    using assms(2) by (simp add: word_less_nat_alt unat_minus_exact word_le_nat_alt)
  show ?thesis unfolding text_append_def k l using assms(1) e by simp
qed

definition rendered :: "bytes list \<Rightarrow> bytes" where
  "rendered lines = concat (map (\<lambda>l. l @ [10]) lines)"

definition capped :: "nat \<Rightarrow> bytes \<Rightarrow> bytes" where
  "capped limit chars = (if length chars \<le> limit then chars else take limit chars @ truncation_notice)"

lemma append_pieces:
  assumes "length (concat pieces) + length before < 2 ^ 64"
    and "t = \<lparr>bt_limit = limit, bt_size = of_nat (length before), bt_truncated = False, bt_buffer = before\<rparr>"
    and "length before \<le> unat limit"
  shows "bt_buffer (fold text_append pieces t) = capped (unat limit) (before @ concat pieces)"
  using assms
proof (induction pieces arbitrary: before t)
  case Nil
  then show ?case by (simp add: capped_def)
next
  case (Cons p pieces)
  have u: "unat (of_nat (length before) :: u64) = length before" using Cons.prems(1) by (simp add: unat_of_nat_exact)
  note a = append_open [of t p, unfolded Cons.prems(2), simplified, OF u]
  show ?case
  proof (cases "length (before @ p) \<le> unat limit")
    case True
    then have "text_append p t = \<lparr>bt_limit = limit, bt_size = of_nat (length (before @ p)), bt_truncated = False, bt_buffer = before @ p\<rparr>"
      using a Cons.prems by simp
    from Cons.IH [OF _ this True] show ?thesis using Cons.prems(1) by simp
  next
    case False
    have stays: "bt_truncated t \<Longrightarrow> fold text_append ps t = t" for ps t
      by (induction ps) (simp_all add: text_append_def)
    have "text_append p t = \<lparr>bt_limit = limit, bt_size = limit, bt_truncated = True,
        bt_buffer = before @ take (unat limit - length before) p @ truncation_notice\<rparr>"
      using a Cons.prems False by simp
    then show ?thesis using False Cons.prems(3) by (simp add: stays capped_def)
  qed
qed

lemma fold_lines: "fold text_line lines t = fold text_append (concat (map (\<lambda>l. [l, [10]]) lines)) t"
  by (induction lines arbitrary: t) (simp_all add: text_line_def)

lemma concat_pieces: "concat (concat (map (\<lambda>l. [l, [10]]) lines)) = rendered lines"
  by (induction lines) (simp_all add: rendered_def)

section \<open>Decimal numbers\<close>

lemma decimal_loop_digits:
  "\<exists>ds. decimal_loop v digits = ds @ digits \<and> (\<forall>c\<in>set ds. digit c) \<and> decimal ds = unat v \<and>
     (v \<noteq> 0 \<longrightarrow> ds \<noteq> [] \<and> 10 ^ (length ds - 1) \<le> unat v)"
proof (induction v digits rule: decimal_loop.induct)
  case (1 v digits)
  show ?case
  proof (cases "v = 0")
    case True
    then show ?thesis by (intro exI [of _ "[]"]) (simp add: decimal_loop.simps [of 0] decimal_def)
  next
    case False
    let ?c = "48 + ucast (v mod 10) :: u8"
    have m: "unat (v mod 10) < 10" by (simp add: unat_mod_distrib)
    have u: "unat (ucast (v mod 10) :: u8) = unat v mod 10"
      by (simp add: unsigned_ucast_eq unat_mod_distrib take_bit_eq_mod)
    have c: "digit ?c" "unat (?c - 48) = unat v mod 10"
    proof -
      have "unat ?c = 48 + unat v mod 10" using u by (simp add: unat_plus_exact)
      then show "digit ?c" by (simp add: digit_def word_le_nat_alt)
      show "unat (?c - 48) = unat v mod 10" using u by simp
    qed
    obtain ds where d: "decimal_loop (v div 10) (?c # digits) = ds @ ?c # digits" "\<forall>c\<in>set ds. digit c"
      "decimal ds = unat v div 10" "v div 10 \<noteq> 0 \<longrightarrow> ds \<noteq> [] \<and> 10 ^ (length ds - 1) \<le> unat v div 10"
      using "1.IH" [OF False] by (auto simp: unat_div_distrib)
    have l: "10 ^ length ds \<le> unat v"
    proof (cases "v div 10 = 0")
      case True
      then have "unat (v div 10) = 0" by simp
      then have "unat v div 10 = 0" by (simp add: unat_div_distrib)
      then have "decimal ds = 0" using d(3) by simp
      have "decimal_loop 0 (?c # digits) = ?c # digits" by (simp add: decimal_loop.simps [of 0])
      then have "ds = []" using d(1) True by simp
      then show ?thesis using False by (simp add: Suc_le_eq unat_gt_0)
    next
      case nz: False
      then obtain k where "length ds = Suc k" using d(4) by (cases ds) auto
      then show ?thesis using d(4) nz by (simp add: less_eq_div_iff_mult_less_eq mult.commute)
    qed
    have "decimal (ds @ [?c]) = unat v" using d(3) c(2) by (simp add: decimal_def)
    then show ?thesis using False d(1,2) c(1) l
      by (intro exI [of _ "ds @ [?c]"]) (simp add: decimal_loop.simps [of v])
  qed
qed

lemma to_decimal_digits:
  "to_decimal v \<noteq> [] \<and> length (to_decimal v) \<le> 20 \<and> (\<forall>c\<in>set (to_decimal v). digit c) \<and> decimal (to_decimal v) = unat v"
proof (cases "v = 0")
  case True
  then show ?thesis by (simp add: to_decimal_def ascii_def of_char_def digit_def decimal_def)
next
  case False
  obtain ds where d: "to_decimal v = ds" "\<forall>c\<in>set ds. digit c" "decimal ds = unat v" "ds \<noteq> []"
      "10 ^ (length ds - 1) \<le> unat v"
    using decimal_loop_digits [of v "[]"] False by (auto simp: to_decimal_def)
  have "(10 :: nat) ^ (length ds - 1) < 10 ^ 20" using d(5) unat_u64_bounded [of v] by simp
  then have "length ds - 1 < 20" by (rule power_less_imp_less_exp [rotated]) simp
  then show ?thesis using d by simp
qed

section \<open>Properties\<close>

text \<open>Numbers that the program writes it reads back: the scenario parser reads the decimal text of every 64-bit value
  as that value.\<close>

theorem decimal_round_trip: "parse_u64 (to_decimal v) = Some v"
  using to_decimal_digits [of v] by (simp add: parse_u64_Some)

text \<open>An explanation is the text of its lines or, beyond the cap, exactly the first \<open>max_bytes\<close> characters of that
  text followed by the truncation notice: nothing is reordered, dropped from the middle or written behind
  the notice, and the result is at most 25 characters longer than the cap.\<close>

theorem explanation_is_capped_prefix:
  assumes "length (rendered (explanation_lines details d options)) < 2 ^ 64"
  shows "explain details d options
      = capped (unat (xo_max_bytes options)) (rendered (explanation_lines details d options)) \<and>
    length (explain details d options) \<le> unat (xo_max_bytes options) + 25"
proof -
  let ?l = "explanation_lines details d options"
  let ?ps = "concat (map (\<lambda>l. [l, [10]]) ?l)"
  have "explain details d options = capped (unat (xo_max_bytes options)) ([] @ concat ?ps)"
    unfolding explain_def fold_lines
    by (rule append_pieces) (use assms in \<open>simp_all add: concat_pieces bounded_text_def\<close>)
  then have e: "explain details d options = capped (unat (xo_max_bytes options)) (rendered ?l)"
    by (simp add: concat_pieces)
  have "length truncation_notice = 25" by (simp add: truncation_notice_def ascii_def)
  then show ?thesis unfolding e by (simp add: capped_def)
qed

definition sample_intent :: CorrectiveIntent where
  "sample_intent = \<lparr>ci_id = 1, ci_generation = 1, ci_direction = Augment, ci_subject = 10, ci_subject_generation = 1,
     ci_group = 1, ci_units = 7, ci_bound = Bound_DemandSatisfied, ci_reason = Reason_WeightedShareDeficit,
     ci_from_starvation = False, ci_from_protected_obligation = False, ci_obligation_rank = 0\<rparr>"

definition sample_decision :: FairnessDecision where
  "sample_decision = \<lparr>fd_authority = \<lparr>av_policy_id = 1, av_policy_generation = 1, av_epoch = 1, av_evidence_id = 1,
       av_evidence_generation = 1, av_window = 1, av_window_generation = 1, av_accounting_generation = 0,
       av_governor = \<lparr>inc_boot = 7, inc_ordinal = 1\<rparr>, av_request_id = 1, av_attempt = 0\<rparr>,
     fd_outcome = UnderServed,
     fd_counts = \<lparr>oc_fair = 0, oc_over_served = 0, oc_under_served = 1, oc_starvation_risk = 0,
       oc_correction_required = 0, oc_blocked_by_stronger_obligation = 0, oc_unknown = 0, oc_stale = 0\<rparr>,
     fd_subjects = [], fd_groups = [], fd_intents = [sample_intent],
     fd_correction = \<lparr>cs_reducible_pool_units = 7, cs_demand_units = 7, cs_authorized_budget_units = 7,
       cs_augment_units = 7, cs_reduce_units = 7, cs_withheld_units = 0, cs_unsatisfied_demand_units = 0,
       cs_cooldown_suppressed = 0, cs_bounded_by_policy_total = False, cs_bounded_by_policy_bps = False,
       cs_protected_obligation_blocked = False, cs_authority_missing = False\<rparr>,
     fd_notes = [], fd_content_digest = 42\<rparr>"

lemma ascii_simps: "length (ascii s) = length s" "ascii s = [] \<longleftrightarrow> s = []"
  by (simp_all add: ascii_def)

lemma small_decimals: "to_decimal 0 = [48]" "to_decimal 1 = [49]" "to_decimal 7 = [55]" "to_decimal 10 = [49, 48]" "to_decimal 42 = [52, 50]"
  by (simp_all add: to_decimal_def ascii_def of_char_def decimal_loop.simps)

theorem explanation_is_capped_prefix_witness:
  "explain (\<lambda>_. []) sample_decision (default_explain_options\<lparr>xo_max_bytes := 20\<rparr>)
    = ascii ''outcome '' @ ascii ''UNDER_SERVED'' @ truncation_notice"
proof -
  let ?o = "default_explain_options\<lparr>xo_max_bytes := 20\<rparr>"
  let ?r = "rendered (explanation_lines (\<lambda>_. []) sample_decision ?o)"
  have l: "length (authority_line (fd_authority sample_decision)) < 1000" "length (counts_line (fd_counts sample_decision)) < 1000"
      "length (correction_line (fd_correction sample_decision)) < 1000" "length (intent_line sample_intent) < 1000"
      "length (digest_line sample_decision) < 1000"
    by (simp_all add: authority_line_def counts_line_def correction_line_def intent_line_def digest_line_def field_def
        sample_decision_def sample_intent_def ascii_simps small_decimals direction_name_def bound_name_def reason_name_def)
  have o: "outcome_line sample_decision = ascii ''outcome '' @ ascii ''UNDER_SERVED''"
    by (simp add: outcome_line_def outcome_name_def sample_decision_def)
  have r: "?r = outcome_line sample_decision @ [10] @ authority_line (fd_authority sample_decision) @ [10] @
      counts_line (fd_counts sample_decision) @ [10] @ correction_line (fd_correction sample_decision) @ [10] @
      intent_line sample_intent @ [10] @ digest_line sample_decision @ [10]"
    by (simp add: rendered_def explanation_lines_def default_explain_options_def)
      (simp add: sample_decision_def)
  have n: "length ?r < 2 ^ 64" "20 < length ?r" "take 20 ?r = ascii ''outcome '' @ ascii ''UNDER_SERVED''"
    using l unfolding r o by (simp_all add: ascii_simps)
  from explanation_is_capped_prefix [OF n(1)] show ?thesis
    using n(2,3) by (simp add: capped_def)
qed

end
