(* ===== verification/FG_Workers.thy ===== *)
theory FG_Workers
  imports FG_Transport
begin

text \<open>
  The server with its workers (\<open>serve\<close>, \<open>run_worker\<close> and \<open>serve_connection\<close> of \<open>link/link.cpp\<close>) as a step
  relation. The accept loop, the workers, a request to stop and the operator's calls on the governor interleave
  in any order. Every call that changes the governor is a step of its own, as is the evaluation, so a worker may
  find the governor changed between the intake of a snapshot, its evaluation, the commit and the reply. A read of
  the governor that only fills a reply or a request is taken together with the step in front of it.
\<close>

section \<open>Workers\<close>

text \<open>Where a worker is. The accept loop counts the connection accepted, then registers it unless the server was asked
  to stop meanwhile; the worker counts itself active when its thread starts. The session, the number of the frame it serves or expects, and what is left of its stream go along.\<close>

datatype worker =
  is_accepted: Accepted "recv list"
| Spawned "recv list"
| Greeting "recv list"
| Serving u64 u64 "recv list"
| Ingesting u64 u64 EvidenceSnapshot EvaluationRequest u64 "recv list"
| Evaluating u64 u64 EvaluationRequest EvidenceAck "recv list"
| Committing u64 u64 FairnessDecision EvidenceAck "recv list"
| Replying u64 u64 bool EvidenceAck "recv list"
| Finished

definition leave :: "Link \<Rightarrow> Link" where
  "leave link = link\<lparr>lk_active := lk_active link - 1\<rparr>"

text \<open>A receive that begins after the stop flag was set sees it first.\<close>

definition seen_by :: "Link \<Rightarrow> recv list \<Rightarrow> recv list" where
  "seen_by link events = (if lk_stop link then Stop_seen # events else events)"

definition evidence_ack :: "LinkEnv \<Rightarrow> StatusCode \<Rightarrow> Id \<Rightarrow> Generation \<Rightarrow> u64 \<Rightarrow> u8 \<Rightarrow> Link \<Rightarrow> EvidenceAck" where
  "evidence_ack env code snapshot generation accounting_generation disposition link =
     \<lparr>ea_code = status_value code, ea_snapshot = snapshot, ea_generation = generation,
      ea_accounting_generation = accounting_generation, ea_disposition = disposition,
      ea_detail = le_text env (lk_writes link)\<rparr>"

abbreviation reject_evidence :: "LinkStats \<Rightarrow> LinkStats" where
  "reject_evidence s \<equiv> s\<lparr>ls_evidence_rejected := ls_evidence_rejected s + 1\<rparr>"

text \<open>A frame was read: evidence in order goes on to its intake, everything else ends the connection.\<close>

definition frame_step ::
    "LinkEnv \<Rightarrow> LinkServerOptions \<Rightarrow> u64 \<Rightarrow> u64 \<Rightarrow> FrameHeader \<Rightarrow> bytes \<Rightarrow> recv list \<Rightarrow> Link \<Rightarrow> worker \<times> Link" where
  "frame_step env options session expected header payload events link =
     (if fh_session_id header = session \<and> fh_epoch header = im_epoch (lk_governor link) \<and>
         fh_kind header = Frame_Evidence \<and> fh_sequence header = expected
      then
        (let generation = ac_generation (im_accounting (lk_governor link))
         in case decode_evidence payload of
              Inl code \<Rightarrow> (Replying session expected False (evidence_ack env code 0 0 generation 0 link) events,
                count_stats reject_evidence link)
            | Inr snapshot \<Rightarrow> (Ingesting session expected snapshot (make_request_for snapshot (lk_governor link))
                generation events, link))
      else (Finished, leave (snd (serve_frame env options session expected header payload link))))"

definition serving_step ::
    "LinkEnv \<Rightarrow> LinkServerOptions \<Rightarrow> u64 \<Rightarrow> u64 \<Rightarrow> recv list \<Rightarrow> Link \<Rightarrow> worker \<times> Link" where
  "serving_step env options session expected events link =
     (if lk_stop link \<or> stop_seen events then (Finished, leave link)
      else case read_frame (lo_max_payload options) (lo_idle_polls options) events of
             (Inl (code, closed), events) \<Rightarrow>
               (Finished, leave (if closed then link
                  else send_error env session code (count_stats (count_unreadable False code) link)))
           | (Inr (header, payload), events) \<Rightarrow>
               frame_step env options session expected header payload events (count_stats (count_frame payload) link))"

definition ingest_step ::
    "LinkEnv \<Rightarrow> LinkServerOptions \<Rightarrow> u64 \<Rightarrow> u64 \<Rightarrow> EvidenceSnapshot \<Rightarrow> EvaluationRequest \<Rightarrow> u64 \<Rightarrow> recv list \<Rightarrow>
     Link \<Rightarrow> worker \<times> Link" where
  "ingest_step env options session expected snapshot request generation events link =
     (case ingest_evidence snapshot (lk_governor link) of
        (Inl code, im) \<Rightarrow>
          (Replying session expected False
             (evidence_ack env code (ev_id snapshot) (ev_generation snapshot) generation 0 link) events,
           count_stats reject_evidence (link\<lparr>lk_governor := im\<rparr>))
      | (Inr result, im) \<Rightarrow>
          (let staged = ir_disposition result = Staged;
               ack = evidence_ack env (if staged then Ok else Duplicate) (ev_id snapshot) (ev_generation snapshot)
                 generation (if staged then 0 else 1) link;
               link = count_stats (\<lambda>s. if staged
                   then s\<lparr>ls_evidence_accepted := ls_evidence_accepted s + 1\<rparr>
                   else s\<lparr>ls_evidence_duplicate := ls_evidence_duplicate s + 1\<rparr>) (link\<lparr>lk_governor := im\<rparr>)
           in (if lo_evaluate_on_ingest options \<and> staged then Evaluating session expected request ack events
               else Replying session expected True ack events, link)))"

definition worker_step :: "LinkEnv \<Rightarrow> LinkServerOptions \<Rightarrow> worker \<Rightarrow> Link \<Rightarrow> worker \<times> Link" where
  "worker_step env options w link =
     (case w of
        Accepted events \<Rightarrow> (if lk_stop link then Finished else Spawned events, link)
      | Spawned events \<Rightarrow> (Greeting events, link\<lparr>lk_active := lk_active link + 1\<rparr>)
      | Greeting events \<Rightarrow>
          (case handshake env options link (seen_by link events) of
             ((None, link), events) \<Rightarrow> (Finished, leave link)
           | ((Some session, link), events) \<Rightarrow> (Serving session 1 events, link))
      | Serving session expected events \<Rightarrow> serving_step env options session expected events link
      | Ingesting session expected snapshot request generation events \<Rightarrow>
          ingest_step env options session expected snapshot request generation events link
      | Evaluating session expected request ack events \<Rightarrow>
          (case governor_evaluate request (lk_governor link) of
             Some (Inr decision) \<Rightarrow> (Committing session expected decision ack events, link)
           | _ \<Rightarrow> (Replying session expected True ack events, count_stats fail_evaluation link))
      | Committing session expected decision ack events \<Rightarrow>
          (let (code, im) = governor_commit (le_disk env) decision (lk_governor link);
               link = link\<lparr>lk_governor := im\<rparr>
           in (Replying session expected True ack events,
               if code = Ok
               then count_stats (\<lambda>s. s\<lparr>ls_windows_committed := ls_windows_committed s + 1\<rparr>) link
               else count_stats fail_evaluation link))
      | Replying session expected refresh ack events \<Rightarrow>
          (let ack = (if refresh then ack\<lparr>ea_accounting_generation := ac_generation (im_accounting (lk_governor link))\<rparr>
                 else ack);
               (sent, link) = send_frame env Frame_EvidenceAck (encode_evidence_ack ack) session expected
                 kFrameFlagNone link
           in if sent \<noteq> Ok then (Finished, leave link) else (Serving session (expected + 1) events, link))
      | Finished \<Rightarrow> (Finished, link))"

section \<open>The server\<close>

type_synonym server = "Link \<times> worker list"

text \<open>The accept loop with an accepted socket.\<close>

definition accept_step :: "LinkEnv \<Rightarrow> LinkServerOptions \<Rightarrow> recv list \<Rightarrow> server \<Rightarrow> server" where
  "accept_step env options events = (\<lambda>(link, workers).
     if lk_stop link then (link, workers)
     else if lo_max_connections options \<le> lk_active link
     then (send_error env 0 LinkBusy
             (count_stats (\<lambda>s. s\<lparr>ls_connections_rejected := ls_connections_rejected s + 1\<rparr>) link), workers)
     else (count_stats (\<lambda>s. s\<lparr>ls_connections_accepted := ls_connections_accepted s + 1\<rparr>) link,
           workers @ [Accepted events]))"

text \<open>Between two connections the accept loop takes the workers that have ended out of the registry.\<close>

definition prune_workers :: "worker list \<Rightarrow> worker list" where
  "prune_workers workers = filter (\<lambda>w. w \<noteq> Finished) workers"

inductive server_step :: "LinkEnv \<Rightarrow> LinkServerOptions \<Rightarrow> server \<Rightarrow> server \<Rightarrow> bool" for env options where
  accepts: "\<not> list_ex is_accepted workers
    \<Longrightarrow> server_step env options (link, workers) (accept_step env options events (link, workers))"
| works: "\<lbrakk>i < length workers; worker_step env options (workers ! i) link = (w, link')\<rbrakk>
    \<Longrightarrow> server_step env options (link, workers) (link', workers[i := w])"
| prunes: "server_step env options (link, workers) (link, prune_workers workers)"
| stops: "server_step env options (link, workers) (link\<lparr>lk_stop := True\<rparr>, workers)"
| installs: "server_step env options (link, workers)
    (link\<lparr>lk_governor := snd (install_policy io policy (lk_governor link))\<rparr>, workers)"
| epoch_moves: "server_step env options (link, workers)
    (link\<lparr>lk_governor := snd (advance_epoch io next_epoch (lk_governor link))\<rparr>, workers)"

section \<open>One worker alone\<close>

text \<open>What a worker does when nobody interferes.\<close>

definition works_on :: "LinkEnv \<Rightarrow> LinkServerOptions \<Rightarrow> worker \<times> Link \<Rightarrow> worker \<times> Link \<Rightarrow> bool" where
  "works_on env options = (\<lambda>s t. worker_step env options (fst s) (snd s) = t)"

lemma works_onI: "worker_step env options w link = t \<Longrightarrow> (works_on env options)\<^sup>*\<^sup>* t u \<Longrightarrow> (works_on env options)\<^sup>*\<^sup>* (w, link) u"
  by (rule converse_rtranclp_into_rtranclp) (simp_all add: works_on_def)

lemma works_on_schedule:
  assumes "(works_on env options)\<^sup>*\<^sup>* s t" "i < length workers"
  shows "(server_step env options)\<^sup>*\<^sup>* (snd s, workers[i := fst s]) (snd t, workers[i := fst t])"
  using assms(1)
proof (induction rule: rtranclp_induct)
  case (step t u)
  have "server_step env options (snd t, workers[i := fst t]) (snd u, workers[i := fst t, i := fst u])"
    by (rule works) (use step(2) assms(2) in \<open>simp_all add: works_on_def\<close>)
  then show ?case using step(3) by simp
qed simp

lemma works_on_one: "worker_step env options w link = t \<Longrightarrow> (works_on env options)\<^sup>*\<^sup>* (w, link) t"
  by (erule works_onI) (rule rtranclp.rtrancl_refl)

lemma evaluation_worked:
  "(works_on env options)\<^sup>*\<^sup>* (Evaluating session expected request ack events, link)
     (Replying session expected True ack events, evaluate_window env request link)"
proof (cases "\<exists>decision. governor_evaluate request (lk_governor link) = Some (Inr decision)")
  case True
  then obtain decision where d: "governor_evaluate request (lk_governor link) = Some (Inr decision)" by blast
  obtain code im where c: "governor_commit (le_disk env) decision (lk_governor link) = (code, im)" by force
  have "evaluate_window env request link = (if code = Ok
      then count_stats (\<lambda>s. s\<lparr>ls_windows_committed := ls_windows_committed s + 1\<rparr>) (link\<lparr>lk_governor := im\<rparr>)
      else count_stats fail_evaluation (link\<lparr>lk_governor := im\<rparr>))" by (simp add: evaluate_window_def d c Let_def)
  then have "worker_step env options (Committing session expected decision ack events) link
      = (Replying session expected True ack events, evaluate_window env request link)"
    by (simp add: worker_step_def c)
  from works_on_one [OF this] show ?thesis
    by (rule works_onI [rotated]) (simp add: worker_step_def d)
next
  case False
  then have "evaluate_window env request link = count_stats fail_evaluation link"
    by (auto simp: evaluate_window_def split: option.split sum.split)
  moreover have "worker_step env options (Evaluating session expected request ack events) link
      = (Replying session expected True ack events, count_stats fail_evaluation link)"
  proof (cases "governor_evaluate request (lk_governor link)")
    case None
    then show ?thesis by (simp add: worker_step_def)
  next
    case (Some r)
    then show ?thesis using False by (cases r) (simp_all add: worker_step_def)
  qed
  ultimately show ?thesis by (intro works_on_one) simp
qed

text \<open>An intake from decoding to the reply.\<close>

lemma intake_worked:
  assumes "ingest_payload env options payload link = (ack, link')"
  obtains (bad) code where "decode_evidence payload = Inl code"
      "link' = count_stats reject_evidence link"
      "ack = evidence_ack env code 0 0 (ac_generation (im_accounting (lk_governor link))) 0 link"
  | (worked) snapshot ack' refresh where "decode_evidence payload = Inr snapshot"
      "(works_on env options)\<^sup>*\<^sup>* (Ingesting session expected snapshot (make_request_for snapshot (lk_governor link))
          (ac_generation (im_accounting (lk_governor link))) events, link) (Replying session expected refresh ack' events, link')"
      "ack = (if refresh then ack'\<lparr>ea_accounting_generation := ac_generation (im_accounting (lk_governor link'))\<rparr> else ack')"
proof (cases "decode_evidence payload")
  case (Inl code)
  then show ?thesis using assms bad by (simp add: ingest_payload_def Let_def evidence_ack_def)
next
  case (Inr snapshot)
  define request where "request = make_request_for snapshot (lk_governor link)"
  define generation where "generation = ac_generation (im_accounting (lk_governor link))"
  obtain r im where i: "ingest_evidence snapshot (lk_governor link) = (r, im)" by force
  let ?w = "Ingesting session expected snapshot request generation events"
  show ?thesis
  proof (cases r)
    case (Inl code)
    have st: "worker_step env options ?w link = (Replying session expected False
        (evidence_ack env code (ev_id snapshot) (ev_generation snapshot) generation 0 link) events, link')"
      and a: "ack = evidence_ack env code (ev_id snapshot) (ev_generation snapshot) generation 0 link"
      using assms Inr i Inl by (simp_all add: worker_step_def ingest_step_def ingest_payload_def Let_def evidence_ack_def generation_def)
    show ?thesis
      by (rule worked [OF Inr works_on_one [OF st [unfolded request_def generation_def]]])
        (simp add: a generation_def)
  next
    case res: (Inr result)
    define staged where "staged = (ir_disposition result = Staged)"
    define ack' where "ack' = evidence_ack env (if staged then Ok else Duplicate) (ev_id snapshot) (ev_generation snapshot)
        generation (if staged then 0 else 1) link"
    define l where "l = count_stats (\<lambda>s. if staged then s\<lparr>ls_evidence_accepted := ls_evidence_accepted s + 1\<rparr>
        else s\<lparr>ls_evidence_duplicate := ls_evidence_duplicate s + 1\<rparr>) (link\<lparr>lk_governor := im\<rparr>)"
    have st: "worker_step env options ?w link = (if lo_evaluate_on_ingest options \<and> staged
        then Evaluating session expected request ack' events else Replying session expected True ack' events, l)"
      by (simp add: worker_step_def ingest_step_def i res Let_def ack'_def l_def staged_def)
    have l': "link' = (if lo_evaluate_on_ingest options \<and> staged then evaluate_window env request l else l)"
      using assms by (cases "ir_disposition result = Staged"; cases "lo_evaluate_on_ingest options") (auto simp: ingest_payload_def Inr i res Let_def l_def staged_def request_def)
    have a: "ack = ack'\<lparr>ea_accounting_generation := ac_generation (im_accounting (lk_governor link'))\<rparr>"
      using assms unfolding l' by (cases "ir_disposition result = Staged"; cases "lo_evaluate_on_ingest options")
        (auto simp: ingest_payload_def Inr i res Let_def l_def staged_def request_def ack'_def evidence_ack_def)
    have "(works_on env options)\<^sup>*\<^sup>* (?w, link) (Replying session expected True ack' events, link')"
      by (rule works_onI [OF st]) (simp add: l' evaluation_worked)
    then show ?thesis using a by (intro worked [OF Inr, where refresh = True]) (simp_all add: request_def generation_def)
  qed
qed

lemma reply_worked:
  assumes "ack = (if refresh then ack'\<lparr>ea_accounting_generation := ac_generation (im_accounting (lk_governor link))\<rparr> else ack')"
    and "send_frame env Frame_EvidenceAck (encode_evidence_ack ack) session expected kFrameFlagNone link = (sent, link')"
  shows "(works_on env options)\<^sup>*\<^sup>* (Replying session expected refresh ack' events, link)
    (if sent \<noteq> Ok then (Finished, leave link') else (Serving session (expected + 1) events, link'))"
  by (rule works_on_one) (use assms in \<open>simp add: worker_step_def Let_def\<close>)

text \<open>A turn of the frame loop.\<close>

lemma turn_worked:
  assumes go: "\<not> (lk_stop link \<or> stop_seen events)"
    and turn: "serve_turn env options session expected link events = ((onward, link'), rest)"
  shows "(works_on env options)\<^sup>*\<^sup>* (Serving session expected events, link)
    (case onward of None \<Rightarrow> (Finished, leave link') | Some e \<Rightarrow> (Serving session e rest, link'))"
proof (cases "read_frame (lo_max_payload options) (lo_idle_polls options) events")
  case (Pair r tail)
  have first: "worker_step env options (Serving session expected events) link
      = serving_step env options session expected events link" by (simp add: worker_step_def)
  show ?thesis
  proof (cases r)
    case (Inl e)
    obtain code closed where e: "e = (code, closed)" by force
    have "onward = None" "link' = (if closed then link
        else send_error env session code (count_stats (count_unreadable False code) link))"
      using turn Pair Inl e by (simp_all add: serve_turn_def)
    then show ?thesis using go Pair Inl e
      by (intro works_on_one) (simp add: first serving_step_def)
  next
    case (Inr f)
    obtain header payload where f: "f = (header, payload)" by force
    define l where "l = count_stats (count_frame payload) link"
    have t: "serve_frame env options session expected header payload l = (onward, link')" "rest = tail"
      using turn Pair Inr f by (simp_all add: serve_turn_def l_def)
    have st: "worker_step env options (Serving session expected events) link
        = frame_step env options session expected header payload rest l"
      using go Pair Inr f t(2) by (simp add: first serving_step_def l_def)
    define ev where "ev \<longleftrightarrow> fh_session_id header = session \<and> fh_epoch header = im_epoch (lk_governor l) \<and>
        fh_kind header = Frame_Evidence \<and> fh_sequence header = expected"
    show ?thesis
    proof (cases ev)
      case False
      have "onward = None"
      proof (cases rule: serve_frame_cases [of env options session expected header payload l])
        case kept
        then show ?thesis using t(1) by simp
      next
        case ingested
        then show ?thesis using False by (simp add: ev_def)
      qed
      moreover have "frame_step env options session expected header payload rest l = (Finished, leave link')"
        using False t(1) by (simp add: frame_step_def ev_def [symmetric])
      ultimately show ?thesis by (intro works_on_one) (simp add: st)
    next
      case True
      obtain ack k where i: "ingest_payload env options payload l = (ack, k)" by force
      obtain sent k' where s: "send_frame env Frame_EvidenceAck (encode_evidence_ack ack) session expected kFrameFlagNone k = (sent, k')"
        by force
      have out: "(case onward of None \<Rightarrow> (Finished, leave link') | Some e \<Rightarrow> (Serving session e rest, link'))
          = (if sent \<noteq> Ok then (Finished, leave k') else (Serving session (expected + 1) rest, k'))"
        using t(1) True i s by (auto simp: serve_frame_def serve_evidence_def ev_def Let_def split: if_splits)
      show ?thesis
      proof (cases rule: intake_worked [OF i, where session = session and expected = expected and events = rest, case_names bad worked])
        case (bad code)
        have "worker_step env options (Serving session expected events) link = (Replying session expected False ack rest, k)"
          using True bad by (simp add: st frame_step_def ev_def [symmetric])
        then show ?thesis unfolding out by (rule works_onI) (rule reply_worked [OF _ s], simp)
      next
        case (worked snapshot ack' refresh)
        have "worker_step env options (Serving session expected events) link
            = (Ingesting session expected snapshot (make_request_for snapshot (lk_governor l))
                 (ac_generation (im_accounting (lk_governor l))) rest, l)"
          using True worked(1) by (simp add: st frame_step_def ev_def [symmetric])
        then show ?thesis unfolding out
          by (rule works_onI) (rule rtranclp_trans [OF worked(2) reply_worked [OF worked(3) s]])
      qed
    qed
  qed
qed

lemma loop_worked:
  "(works_on env options)\<^sup>*\<^sup>* (Serving session expected events, link)
     (Finished, leave (fst (serve_loop env options session expected link events)))"
proof (induction env options session expected link events rule: serve_loop.induct)
  case (1 env options session expected link events)
  show ?case
  proof (cases "lk_stop link \<or> stop_seen events")
    case True
    then show ?thesis
      by (intro works_on_one) (simp add: worker_step_def serving_step_def serve_loop.simps [of env options session expected])
  next
    case False
    obtain more l rest where t: "serve_turn env options session expected link events = ((more, l), rest)"
      by (metis prod.collapse)
    note w = turn_worked [OF False t]
    show ?thesis
    proof (cases more)
      case None
      then show ?thesis using w False t by (simp add: serve_loop.simps [of env options session expected link])
    next
      case (Some e)
      have "serve_loop env options session expected link events = serve_loop env options session e l rest"
        using False t Some by (simp add: serve_loop.simps [of env options session expected link])
      then show ?thesis using rtranclp_trans [OF w [unfolded Some option.case]] "1.IH" [OF False t [symmetric] refl Some] by simp
    qed
  qed
qed

lemma connection_worked:
  assumes "\<not> lk_stop link"
  shows "(works_on env options)\<^sup>*\<^sup>* (Spawned events, link) (Finished, serve_connection env options link events)"
proof -
  let ?l = "link\<lparr>lk_active := lk_active link + 1\<rparr>"
  obtain session l rest where h: "handshake env options ?l events = ((session, l), rest)" by (metis prod.collapse)
  have g: "worker_step env options (Greeting events) ?l
      = (case session of None \<Rightarrow> (Finished, leave l) | Some s \<Rightarrow> (Serving s 1 rest, l))"
    using assms h by (simp add: worker_step_def seen_by_def split: option.split)
  have "(works_on env options)\<^sup>*\<^sup>* (Greeting events, ?l) (Finished, serve_connection env options link events)"
    using works_onI [OF g] loop_worked [of env options _ 1 rest l] h
    by (cases session) (simp_all add: serve_connection_def Let_def leave_def)
  then show ?thesis by (rule works_onI [rotated]) (simp add: worker_step_def)
qed

section \<open>What a step of a worker does\<close>

text \<open>Replies and counters other than that of the commits leave the governor and the count of active workers alone.\<close>

definition undisturbed :: "Link \<Rightarrow> Link \<Rightarrow> bool" where
  "undisturbed link link' \<longleftrightarrow> lk_governor link' = lk_governor link \<and> lk_active link' = lk_active link \<and>
     ls_windows_committed (lk_stats link') = ls_windows_committed (lk_stats link)"

lemma undisturbed_refl [simp]: "undisturbed link link"
  by (simp add: undisturbed_def)

lemma undisturbed_trans: "\<lbrakk>undisturbed link k; undisturbed k l\<rbrakk> \<Longrightarrow> undisturbed link l"
  by (simp add: undisturbed_def)

lemma undisturbed_stop [simp]: "undisturbed link (k\<lparr>lk_stop := b\<rparr>) = undisturbed link k"
  by (simp add: undisturbed_def)

lemma undisturbed_count [simp]:
  "ls_windows_committed (f (lk_stats k)) = ls_windows_committed (lk_stats k) \<Longrightarrow> undisturbed link (count_stats f k) = undisturbed link k"
  by (simp add: undisturbed_def count_stats_def)

lemma count_unreadable_committed [simp]: "ls_windows_committed (count_unreadable b code s) = ls_windows_committed s"
  by (simp add: count_unreadable_def Let_def)

lemma count_frame_committed [simp]: "ls_windows_committed (count_frame payload s) = ls_windows_committed s"
  by (simp add: count_frame_def)

lemma undisturbed_send [simp]: "undisturbed link (snd (send_frame env kind payload session sequence flags k)) = undisturbed link k"
  by (simp add: send_frame_def count_stats_def undisturbed_def Let_def)

lemma undisturbed_error [simp]: "undisturbed link (send_error env session code k) = undisturbed link k"
  by (simp add: send_error_def Let_def)

lemma answer_hello_undisturbed: "undisturbed link (snd (answer_hello env options header link))"
proof -
  obtain sent l where sf: "send_frame env Frame_HelloAck (encode_hello_ack (accepting_ack env options (session_of header) link))
      (session_of header) 0 kFrameFlagNone link = (sent, l)" by force
  have "undisturbed link l"
    using undisturbed_send [of link env Frame_HelloAck "encode_hello_ack (accepting_ack env options (session_of header) link)"
        "session_of header" 0 kFrameFlagNone link] by (simp add: sf)
  then show ?thesis by (simp add: answer_hello_def Let_def sf)
qed

lemma handshake_undisturbed: "undisturbed link (snd (fst (handshake env options link events)))"
proof -
  have "undisturbed link (snd (answer_hello env options header (count_stats (\<lambda>s. s\<lparr>ls_frames_received := ls_frames_received s + 1\<rparr>) link)))"
    for header by (rule undisturbed_trans [OF _ answer_hello_undisturbed]) simp
  then show ?thesis by (simp add: handshake_def split: prod.split sum.split)
qed

lemma serve_frame_undisturbed:
  assumes "\<not> (fh_session_id header = session \<and> fh_epoch header = im_epoch (lk_governor link) \<and>
    fh_kind header = Frame_Evidence \<and> fh_sequence header = expected)"
  shows "undisturbed link (snd (serve_frame env options session expected header payload link))"
  using assms by (cases "fh_kind header") (auto simp: serve_frame_def serve_evidence_def)

text \<open>The decision a worker holds between its evaluation and its commit, and whether it has been counted.\<close>

definition held :: "worker \<Rightarrow> FairnessDecision set" where
  "held w = (case w of Committing session expected decision ack events \<Rightarrow> {decision} | _ \<Rightarrow> {})"

definition running :: "worker \<Rightarrow> bool" where
  "running w = (case w of Accepted events \<Rightarrow> False | Spawned events \<Rightarrow> False | Finished \<Rightarrow> False | _ \<Rightarrow> True)"

lemma held_simps [simp]:
  "held (Accepted events) = {}" "held (Spawned events) = {}" "held (Greeting events) = {}"
  "held (Serving session expected events) = {}" "held (Ingesting session expected snapshot request generation events) = {}"
  "held (Evaluating session expected request ack events) = {}"
  "held (Committing session expected decision ack events) = {decision}"
  "held (Replying session expected refresh ack events) = {}" "held Finished = {}"
  by (simp_all add: held_def)

lemma running_simps [simp]:
  "\<not> running (Accepted events)" "\<not> running (Spawned events)" "running (Greeting events)"
  "running (Serving session expected events)" "running (Ingesting session expected snapshot request generation events)"
  "running (Evaluating session expected request ack events)"
  "running (Committing session expected decision ack events)"
  "running (Replying session expected refresh ack events)" "\<not> running Finished"
  by (simp_all add: running_def)

definition committed_windows :: "Link \<Rightarrow> u64" where
  "committed_windows link = ls_windows_committed (lk_stats link)"

text \<open>A step of a worker is one call of the governor or none.\<close>

definition worker_effect :: "LinkEnv \<Rightarrow> worker \<times> Link \<Rightarrow> worker \<times> Link \<Rightarrow> bool" where
  "worker_effect env = (\<lambda>(w, link) (w', link').
     lk_active link' + of_bool (running w) = lk_active link + of_bool (running w') \<and>
     (lk_governor link' = lk_governor link \<and> committed_windows link' = committed_windows link \<and> held w' = {} \<or>
      (\<exists>snapshot. lk_governor link' = snd (ingest_evidence snapshot (lk_governor link)) \<and>
         committed_windows link' = committed_windows link \<and> held w' = {}) \<or>
      (\<exists>request decision. governor_evaluate request (lk_governor link) = Some (Inr decision) \<and>
         lk_governor link' = lk_governor link \<and> committed_windows link' = committed_windows link \<and> held w' = {decision}) \<or>
      (\<exists>decision. decision \<in> held w \<and>
         lk_governor link' = snd (governor_commit (le_disk env) decision (lk_governor link)) \<and>
         committed_windows link' = committed_windows link
           + (if fst (governor_commit (le_disk env) decision (lk_governor link)) = Ok then 1 else 0) \<and> held w' = {})))"

lemma undisturbed_effect:
  "\<lbrakk>undisturbed link link'; running w; running w'; held w' = {}\<rbrakk> \<Longrightarrow> worker_effect env (w, link) (w', link')"
  "\<lbrakk>undisturbed link link'; running w; \<not> running w'; held w' = {}\<rbrakk> \<Longrightarrow> worker_effect env (w, link) (w', leave link')"
  by (simp_all add: worker_effect_def undisturbed_def committed_windows_def leave_def)

lemma frame_step_effect:
  assumes "undisturbed link link'" "running w"
  shows "worker_effect env (w, link) (frame_step env options session expected header payload events link')"
proof (cases "fh_session_id header = session \<and> fh_epoch header = im_epoch (lk_governor link') \<and>
    fh_kind header = Frame_Evidence \<and> fh_sequence header = expected")
  case True
  then show ?thesis using assms
    by (cases "decode_evidence payload") (simp_all add: frame_step_def Let_def undisturbed_effect(1))
next
  case False
  have "frame_step env options session expected header payload events link'
      = (Finished, leave (snd (serve_frame env options session expected header payload link')))"
    unfolding frame_step_def by (rule if_not_P [OF False])
  then show ?thesis using undisturbed_trans [OF assms(1) serve_frame_undisturbed [OF False]] assms(2)
    by (simp add: undisturbed_effect(2))
qed

lemma serving_step_effect:
  assumes "running w"
  shows "worker_effect env (w, link) (serving_step env options session expected events link)"
proof (cases "lk_stop link \<or> stop_seen events")
  case True
  then show ?thesis using assms by (simp add: serving_step_def undisturbed_effect(2))
next
  case False
  obtain r rest where r: "read_frame (lo_max_payload options) (lo_idle_polls options) events = (r, rest)" by force
  show ?thesis
  proof (cases r)
    case (Inl e)
    then show ?thesis using assms False r by (cases e) (auto simp: serving_step_def intro!: undisturbed_effect(2))
  next
    case (Inr f)
    then show ?thesis using assms False r by (cases f) (simp add: serving_step_def frame_step_effect)
  qed
qed

lemma ingest_step_effect:
  "worker_effect env (Ingesting session expected snapshot request generation events, link)
     (ingest_step env options session expected snapshot request generation events link)"
proof -
  let ?w = "Ingesting session expected snapshot request generation events"
  obtain r im where i: "ingest_evidence snapshot (lk_governor link) = (r, im)" by force
  obtain w' f where s: "ingest_step env options session expected snapshot request generation events link
      = (w', count_stats f (link\<lparr>lk_governor := im\<rparr>))" "running w'" "held w' = {}"
      "\<And>s. ls_windows_committed (f s) = ls_windows_committed s"
  proof (cases r)
    case (Inl code)
    then show ?thesis using i by (intro that [of _ reject_evidence]) (auto simp: ingest_step_def)
  next
    case (Inr result)
    then show ?thesis using i
      by (intro that [of _ "\<lambda>s. if ir_disposition result = Staged then s\<lparr>ls_evidence_accepted := ls_evidence_accepted s + 1\<rparr>
          else s\<lparr>ls_evidence_duplicate := ls_evidence_duplicate s + 1\<rparr>"]) (auto simp: ingest_step_def Let_def split: if_splits)
  qed
  then show ?thesis using i
    by (auto simp: worker_effect_def committed_windows_def count_stats_def intro!: exI [of _ snapshot])
qed

lemma commit_step_effect:
  "worker_effect env (Committing session expected decision ack events, link)
     (worker_step env options (Committing session expected decision ack events) link)"
proof -
  obtain code im where c: "governor_commit (le_disk env) decision (lk_governor link) = (code, im)" by force
  show ?thesis by (simp add: worker_step_def c worker_effect_def committed_windows_def count_stats_def)
qed

lemma evaluate_step_effect:
  "worker_effect env (Evaluating session expected request ack events, link)
     (worker_step env options (Evaluating session expected request ack events) link)"
proof (cases "\<exists>decision. governor_evaluate request (lk_governor link) = Some (Inr decision)")
  case True
  then obtain decision where "governor_evaluate request (lk_governor link) = Some (Inr decision)" by blast
  then show ?thesis by (auto simp: worker_step_def worker_effect_def)
next
  case False
  then show ?thesis
    by (auto simp: worker_step_def undisturbed_effect(1) split: option.split sum.split)
qed

lemma reply_step_effect:
  "worker_effect env (Replying session expected refresh ack events, link)
     (worker_step env options (Replying session expected refresh ack events) link)"
proof -
  define a where "a = (if refresh then ack\<lparr>ea_accounting_generation := ac_generation (im_accounting (lk_governor link))\<rparr> else ack)"
  obtain sent l where s: "send_frame env Frame_EvidenceAck (encode_evidence_ack a) session expected kFrameFlagNone link = (sent, l)"
    by force
  have "undisturbed link l"
    using undisturbed_send [of link env Frame_EvidenceAck "encode_evidence_ack a" session expected kFrameFlagNone link]
    by (simp add: s)
  then show ?thesis by (simp add: worker_step_def a_def [symmetric] s undisturbed_effect)
qed

lemma greeting_step_effect:
  "worker_effect env (Greeting events, link) (worker_step env options (Greeting events) link)"
proof -
  obtain session l rest where h: "handshake env options link (seen_by link events) = ((session, l), rest)"
    by (metis prod.collapse)
  have "undisturbed link l" using handshake_undisturbed [of link env options "seen_by link events"] by (simp add: h)
  then show ?thesis by (cases session) (simp_all add: worker_step_def h undisturbed_effect)
qed

lemma worker_step_effect: "worker_effect env (w, link) (worker_step env options w link)"
proof (cases w)
  case (Accepted events)
  then show ?thesis by (simp add: worker_step_def worker_effect_def)
next
  case (Spawned events)
  then show ?thesis by (simp add: worker_step_def worker_effect_def committed_windows_def)
next
  case (Serving session expected events)
  then show ?thesis using serving_step_effect [of w env] by (simp add: worker_step_def)
next
  case (Ingesting session expected snapshot request generation events)
  then show ?thesis using ingest_step_effect by (simp add: worker_step_def)
next
  case Finished
  then show ?thesis by (simp add: worker_step_def worker_effect_def)
qed (simp_all add: greeting_step_effect evaluate_step_effect commit_step_effect reply_step_effect)

lemma accept_step_effect:
  "undisturbed link (fst (accept_step env options events (link, workers))) \<and>
   snd (accept_step env options events (link, workers)) \<in> {workers, workers @ [Accepted events]}"
  by (simp add: accept_step_def)

section \<open>Any schedule\<close>

definition server_legal :: "(Impl \<Rightarrow> FairnessDecision set \<Rightarrow> bool) \<Rightarrow> server \<Rightarrow> bool" where
  "server_legal legal = (\<lambda>(link, workers). \<exists>taken. legal (lk_governor link) taken \<and> (\<forall>w\<in>set workers. held w \<subseteq> taken))"

text \<open>The contract of the governor with its operator: the calls of the workers and those of whoever owns the
  governor keep the same laws. A decision that was taken stays one whatever happens before its commit.\<close>

locale operated_governor = governor_contract +
  assumes install_legal: "legal im taken \<Longrightarrow> legal (snd (install_policy io policy im)) taken"
    and epoch_legal: "legal im taken \<Longrightarrow> legal (snd (advance_epoch io next_epoch im)) taken"
begin

lemma worker_serves:
  assumes "worker_effect env (w, link) (w', link')" "legal (lk_governor link) taken" "held w \<subseteq> taken"
  obtains taken' where "legal (lk_governor link') taken'" "taken \<subseteq> taken'" "held w' \<subseteq> taken'"
proof -
  consider (same) "lk_governor link' = lk_governor link" "held w' = {}"
    | (intake) snapshot where "lk_governor link' = snd (ingest_evidence snapshot (lk_governor link))" "held w' = {}"
    | (evaluated) request decision where "governor_evaluate request (lk_governor link) = Some (Inr decision)"
        "lk_governor link' = lk_governor link" "held w' = {decision}"
    | (committed) decision where "decision \<in> held w" "held w' = {}"
        "lk_governor link' = snd (governor_commit (le_disk env) decision (lk_governor link))"
    using assms(1) unfolding worker_effect_def by auto
  then show ?thesis
  proof cases
    case same
    then show ?thesis using assms(2) that by simp
  next
    case intake
    show ?thesis by (rule that [of taken]) (simp_all add: intake ingest_legal [OF assms(2)])
  next
    case evaluated
    then show ?thesis using evaluate_legal [OF assms(2) evaluated(1)] that [of "insert decision taken"] by auto
  next
    case committed
    then show ?thesis using commit_legal [OF assms(2), of decision] assms(3) that by auto
  qed
qed

lemma step_serves: "\<lbrakk>server_step env options s t; server_legal legal s\<rbrakk> \<Longrightarrow> server_legal legal t"
proof (induction rule: server_step.induct)
  case (accepts workers link events)
  obtain link' workers' where a: "accept_step env options events (link, workers) = (link', workers')" by force
  then show ?case using accepts accept_step_effect [of link env options events workers]
    by (auto simp: server_legal_def undisturbed_def)
next
  case (works i workers link w link')
  obtain taken where t: "legal (lk_governor link) taken" "\<forall>w\<in>set workers. held w \<subseteq> taken"
    using works(3) unfolding server_legal_def by blast
  have "worker_effect env (workers ! i, link) (w, link')" using worker_step_effect [of env "workers ! i" link options] works(2) by simp
  from worker_serves [OF this t(1)] obtain taken' where
    t': "legal (lk_governor link') taken'" "taken \<subseteq> taken'" "held w \<subseteq> taken'" using t(2) works(1) nth_mem by blast
  have "\<forall>v\<in>set (workers[i := w]). held v \<subseteq> taken'"
    using t(2) t'(2,3) set_update_subset_insert [of workers i w] by blast
  then show ?case using t'(1) unfolding server_legal_def by blast
next
  case (prunes link workers)
  then show ?case by (auto simp: server_legal_def prune_workers_def)
next
  case (stops link workers)
  then show ?case by (simp add: server_legal_def)
qed (simp add: server_legal_def, blast intro: install_legal epoch_legal)+

lemma schedule_serves: "(server_step env options)\<^sup>*\<^sup>* s t \<Longrightarrow> server_legal legal s \<Longrightarrow> server_legal legal t"
  by (induction rule: rtranclp_induct) (auto intro: step_serves)

lemma schedule_legal:
  assumes "(server_step env options)\<^sup>*\<^sup>* (link, []) (link', workers)" "legal (lk_governor link) taken"
  shows "\<exists>taken'. legal (lk_governor link') taken'"
  using schedule_serves [OF assms(1)] assms(2) by (auto simp: server_legal_def)

end

text \<open>The governor of this development meets it, for reachability and for the steps of a run.\<close>

interpretation reached_by_server: operated_governor reachable
  by unfold_locales (fact reach_install, fact reach_epoch)

interpretation stepped_by_server: operated_governor "\<lambda>jm taken. governor_step\<^sup>*\<^sup>* im jm" for im
  by unfold_locales (blast intro: rtranclp.rtrancl_into_rtrancl governor_step.intros)+

text \<open>The count of active workers is that of the workers between their start and their end.\<close>

definition active_matches :: "server \<Rightarrow> bool" where
  "active_matches = (\<lambda>(link, workers). lk_active link = of_nat (length (filter running workers)))"

lemma filter_update:
  "i < length xs \<Longrightarrow> length (filter P (xs[i := x])) + of_bool (P (xs ! i)) = length (filter P xs) + of_bool (P x)"
proof (induction xs arbitrary: i)
  case (Cons y ys)
  show ?case
  proof (cases i)
    case (Suc j)
    then show ?thesis using Cons.IH [of j] Cons.prems by simp
  qed simp
qed simp

lemma running_pruned: "filter running (prune_workers workers) = filter running workers"
  by (auto simp: prune_workers_def intro!: filter_cong)

lemma step_active: "\<lbrakk>server_step env options s t; active_matches s\<rbrakk> \<Longrightarrow> active_matches t"
proof (induction rule: server_step.induct)
  case (accepts workers link events)
  then show ?case using accept_step_effect [of link env options events workers]
    by (cases "accept_step env options events (link, workers)") (auto simp: active_matches_def undisturbed_def)
next
  case (works i workers link w link')
  have e: "lk_active link' + of_bool (running (workers ! i)) = lk_active link + of_bool (running w)"
    using worker_step_effect [of env "workers ! i" link options] works(2) by (simp add: worker_effect_def)
  have "(of_nat (length (filter running (workers[i := w])) + of_bool (running (workers ! i))) :: u32)
      = of_nat (length (filter running workers) + of_bool (running w))" by (simp only: filter_update [OF works(1)])
  then have "lk_active link' + of_bool (running (workers ! i))
      = of_nat (length (filter running (workers[i := w]))) + of_bool (running (workers ! i))"
    using e works(3) by (simp add: active_matches_def)
  then show ?case by (simp add: active_matches_def)
qed (simp_all add: active_matches_def running_pruned)

text \<open>The counter of the commits grows only when the last window does.\<close>

definition windows_paid :: "u64 \<Rightarrow> Link \<Rightarrow> bool" where
  "windows_paid start link \<longleftrightarrow>
     unat (committed_windows link) + unat start \<le> unat (ac_last_window (im_accounting (lk_governor link)))"

lemma accepted_commit_moves_window:
  assumes "governor_commit io decision im = (Ok, jm)"
  shows "ac_last_window (im_accounting im) < ac_last_window (im_accounting jm)"
proof (cases rule: governor_commit_cases [of io decision im])
  case (refused code store)
  then show ?thesis using assms by simp
next
  case (accepted accounting store g)
  then show ?thesis using assms check_decision_window(2) [OF accepted(1)] applied_accounting_fields(1) [OF accepted(2)] by auto
qed

lemma windows_paid_mono:
  assumes "windows_paid start link" "committed_windows link' = committed_windows link"
    "advanced (lk_governor link) (lk_governor link')"
  shows "windows_paid start link'"
  using assms by (auto simp: windows_paid_def advanced_def word_le_nat_alt)

lemma windows_paid_commit:
  assumes "windows_paid start link" "committed_windows link' = committed_windows link + 1"
    "ac_last_window (im_accounting (lk_governor link)) < ac_last_window (im_accounting (lk_governor link'))"
  shows "windows_paid start link'"
proof -
  have "unat (committed_windows link) + 1 \<le> unat (ac_last_window (im_accounting (lk_governor link')))"
    using assms(1,3) by (simp add: windows_paid_def word_less_nat_alt)
  also have "\<dots> < 2 ^ 64" using unsigned_less [of "ac_last_window (im_accounting (lk_governor link'))"] by simp
  finally have "unat (committed_windows link + 1) = unat (committed_windows link) + 1"
    by (simp add: unat_word_ariths)
  then show ?thesis using assms by (simp add: windows_paid_def word_less_nat_alt)
qed

lemma step_pays: "\<lbrakk>server_step env options s t; windows_paid start (fst s)\<rbrakk> \<Longrightarrow> windows_paid start (fst t)"
proof (induction rule: server_step.induct)
  case (accepts workers link events)
  then show ?case using accept_step_effect [of link env options events workers]
    by (auto simp: undisturbed_def windows_paid_def committed_windows_def)
next
  case (works i workers link w link')
  have p: "windows_paid start link" using works(3) by simp
  have "worker_effect env (workers ! i, link) (w, link')"
    using worker_step_effect [of env "workers ! i" link options] works(2) by simp
  then consider (calm) "committed_windows link' = committed_windows link" "advanced (lk_governor link) (lk_governor link')"
    | (paid) decision where "governor_commit (le_disk env) decision (lk_governor link) = (Ok, lk_governor link')"
        "committed_windows link' = committed_windows link + 1"
    unfolding worker_effect_def
    by (auto simp: ingest_advances commit_advances prod_eq_iff split: if_splits)
  then have "windows_paid start link'"
  proof cases
    case calm
    then show ?thesis by (rule windows_paid_mono [OF p])
  next
    case paid
    then show ?thesis using windows_paid_commit [OF p paid(2)] accepted_commit_moves_window [OF paid(1)] by blast
  qed
  then show ?case by simp
next
  case (installs link workers io policy)
  then show ?case
    using windows_paid_mono [of start link "link\<lparr>lk_governor := snd (install_policy io policy (lk_governor link))\<rparr>"]
    by (simp add: committed_windows_def install_advances)
next
  case (epoch_moves link workers io next_epoch)
  then show ?case
    using windows_paid_mono [of start link "link\<lparr>lk_governor := snd (advance_epoch io next_epoch (lk_governor link))\<rparr>"]
    by (simp add: committed_windows_def epoch_advances)
qed (simp_all add: windows_paid_def committed_windows_def)

lemma schedule_invariant:
  "\<lbrakk>r\<^sup>*\<^sup>* s t; \<And>x y. \<lbrakk>r x y; P x\<rbrakk> \<Longrightarrow> P y; P s\<rbrakk> \<Longrightarrow> P t"
  by (induction rule: rtranclp_induct) auto

section \<open>Admission\<close>

text \<open>Any number of connections passes the admission before the first of their threads has counted itself.\<close>

lemma register_step:
  assumes "\<not> list_ex is_accepted workers" "\<not> lk_stop link" "\<not> lo_max_connections options \<le> lk_active link"
  shows "\<exists>link'. (server_step env options)\<^sup>*\<^sup>* (link, workers) (link', workers @ [Spawned []]) \<and>
    \<not> lk_stop link' \<and> lk_active link' = lk_active link"
proof -
  let ?l = "count_stats (\<lambda>s. s\<lparr>ls_connections_accepted := ls_connections_accepted s + 1\<rparr>) link"
  have a: "server_step env options (link, workers) (?l, workers @ [Accepted []])"
    using accepts [OF assms(1), of env options link "[]"] assms(2,3) by (simp add: accept_step_def)
  have "server_step env options (?l, workers @ [Accepted []]) (?l, (workers @ [Accepted []])[length workers := Spawned []])"
    by (rule works) (use assms(2) in \<open>simp_all add: worker_step_def count_stats_def\<close>)
  then have "server_step env options (?l, workers @ [Accepted []]) (?l, workers @ [Spawned []])" by simp
  then have "(server_step env options)\<^sup>*\<^sup>* (link, workers) (?l, workers @ [Spawned []])"
    by (rule rtranclp.rtrancl_into_rtrancl [OF r_into_rtranclp [of "server_step env options", OF a]])
  then show ?thesis using assms(2) by (intro exI [of _ ?l] conjI) (simp_all add: count_stats_def)
qed

lemma spawn_many:
  assumes "\<not> lk_stop link" "\<not> lo_max_connections options \<le> lk_active link"
  shows "\<exists>link'. (server_step env options)\<^sup>*\<^sup>* (link, []) (link', replicate n (Spawned [])) \<and>
    \<not> lk_stop link' \<and> lk_active link' = lk_active link"
proof (induction n)
  case 0
  then show ?case using assms by auto
next
  case (Suc n)
  then obtain k where k: "(server_step env options)\<^sup>*\<^sup>* (link, []) (k, replicate n (Spawned []))"
    "\<not> lk_stop k" "lk_active k = lk_active link" by blast
  have "\<not> list_ex is_accepted (replicate n (Spawned []))" by (simp add: list_ex_iff)
  from register_step [OF this k(2), of options env] assms(2) obtain l where
    l: "(server_step env options)\<^sup>*\<^sup>* (k, replicate n (Spawned [])) (l, replicate n (Spawned []) @ [Spawned []])"
      "\<not> lk_stop l" "lk_active l = lk_active k" unfolding k(3) by blast
  have "replicate n (Spawned []) @ [Spawned []] = replicate (Suc n) (Spawned [])" by (simp add: replicate_append_same)
  with rtranclp_trans [OF k(1) l(1)] l(2,3) k(3) show ?case by (intro exI [of _ l]) simp
qed

lemma start_many:
  "\<exists>link'. (server_step env options)\<^sup>*\<^sup>* (link, replicate (n + m) (Spawned []))
     (link', replicate n (Greeting []) @ replicate m (Spawned [])) \<and> lk_active link' = lk_active link + of_nat n"
proof (induction n arbitrary: m)
  case 0
  then show ?case by (intro exI [of _ link]) simp
next
  case (Suc n)
  obtain k where k: "(server_step env options)\<^sup>*\<^sup>* (link, replicate (n + Suc m) (Spawned []))
      (k, replicate n (Greeting []) @ replicate (Suc m) (Spawned []))"
    "lk_active k = lk_active link + of_nat n" using Suc.IH [of "Suc m"] by blast
  have "server_step env options (k, replicate n (Greeting []) @ replicate (Suc m) (Spawned []))
      (k\<lparr>lk_active := lk_active k + 1\<rparr>, (replicate n (Greeting []) @ replicate (Suc m) (Spawned []))[n := Greeting []])"
    by (rule works) (simp_all add: worker_step_def nth_append)
  moreover have "(replicate n (Greeting []) @ replicate (Suc m) (Spawned []))[n := Greeting []]
      = replicate (Suc n) (Greeting []) @ replicate m (Spawned [])"
    by (simp add: list_update_append replicate_app_Cons_same)
  ultimately have "server_step env options (k, replicate n (Greeting []) @ replicate (Suc m) (Spawned []))
      (k\<lparr>lk_active := lk_active k + 1\<rparr>, replicate (Suc n) (Greeting []) @ replicate m (Spawned []))" by (simp only:)
  from rtranclp.rtrancl_into_rtrancl [OF k(1) this] show ?case using k(2)
    by (intro exI [of _ "k\<lparr>lk_active := lk_active k + 1\<rparr>"]) simp
qed

section \<open>A connection as a schedule\<close>

lemma connection_scheduled:
  assumes "\<not> list_ex is_accepted workers" "\<not> lk_stop link"
  shows "(server_step env options)\<^sup>*\<^sup>* (link, workers) (accept_connection env options link events,
    workers @ (if lo_max_connections options \<le> lk_active link then [] else [Finished]))"
proof (cases "lo_max_connections options \<le> lk_active link")
  case True
  have "server_step env options (link, workers) (accept_connection env options link events, workers)"
    using accepts [OF assms(1), of env options link events] assms(2) True by (simp add: accept_step_def accept_connection_def)
  then show ?thesis using True by (simp add: r_into_rtranclp)
next
  case False
  let ?l = "count_stats (\<lambda>s. s\<lparr>ls_connections_accepted := ls_connections_accepted s + 1\<rparr>) link"
  have a: "server_step env options (link, workers) (?l, workers @ [Accepted events])"
    using accepts [OF assms(1), of env options link events] assms(2) False by (simp add: accept_step_def)
  have go: "\<not> lk_stop ?l" using assms(2) by (simp add: count_stats_def)
  have "(works_on env options)\<^sup>*\<^sup>* (Accepted events, ?l) (Finished, serve_connection env options ?l events)"
    by (rule works_onI [OF _ connection_worked [OF go]]) (use go in \<open>simp add: worker_step_def\<close>)
  from works_on_schedule [OF this, of "length workers" "workers @ [Accepted events]"]
  have "(server_step env options)\<^sup>*\<^sup>* (?l, workers @ [Accepted events]) (accept_connection env options link events, workers @ [Finished])"
    using False assms(2) by (simp add: accept_connection_def)
  with converse_rtranclp_into_rtranclp [of "server_step env options", OF a] show ?thesis using False by simp
qed

lemma sample_schedule:
  "(server_step sample_env sample_options)\<^sup>*\<^sup>* (sample_link, [])
     (accept_connection sample_env sample_options sample_link sample_stream, [Finished])"
  using connection_scheduled [of "[]" sample_link sample_env sample_options sample_stream]
  by (simp add: sample_link_def sample_options_def)

section \<open>Properties\<close>

text \<open>C32: No schedule of the server harms the governor. However many connections are accepted, whatever they
  send, and however their workers, a request to stop and the operator's installs of policies and changes of epoch
  interleave, with every call that changes the governor a step of its own, the governor ends with a valid policy,
  accounting within the durable domain aligned with it, and valid staged evidence of its epoch within its
  limit; no window, generation or epoch has gone back.\<close>

theorem schedules_keep_governor_legal:
  assumes "reachable (lk_governor link) taken" "(server_step env options)\<^sup>*\<^sup>* (link, []) (link', workers)"
  shows "validate_policy (im_policy (lk_governor link')) = Ok \<and> accounting_storable (im_accounting (lk_governor link')) \<and>
    ac_policy_generation (im_accounting (lk_governor link')) = fp_generation (im_policy (lk_governor link')) \<and>
    ac_epoch (im_accounting (lk_governor link')) = im_epoch (lk_governor link') \<and>
    (\<forall>(w, s)\<in>set (im_staged (lk_governor link')). w = ev_window s \<and> validate_evidence s = Ok \<and>
       ev_epoch s = im_epoch (lk_governor link')) \<and>
    length (im_staged (lk_governor link')) \<le> unat (il_max_staged_snapshots (gc_limits (im_config (lk_governor link')))) \<and>
    ac_last_window (im_accounting (lk_governor link)) \<le> ac_last_window (im_accounting (lk_governor link')) \<and>
    ac_generation (im_accounting (lk_governor link)) \<le> ac_generation (im_accounting (lk_governor link')) \<and>
    im_epoch (lk_governor link) \<le> im_epoch (lk_governor link')"
proof -
  obtain taken' where "reachable (lk_governor link') taken'"
    using reached_by_server.schedule_legal [OF assms(2,1)] by blast
  then have "impl_ok (lk_governor link')" using reachable_ok by blast
  moreover have "governor_step\<^sup>*\<^sup>* (lk_governor link) (lk_governor link')"
    using stepped_by_server.schedule_legal [OF assms(2)] by blast
  then have "advanced (lk_governor link) (lk_governor link')" by (rule run_advances)
  ultimately show ?thesis unfolding impl_ok_def aligned_def staged_ok_def advanced_def by auto
qed

theorem schedules_keep_governor_legal_witness:
  "validate_policy (im_policy (lk_governor (accept_connection sample_env sample_options sample_link sample_stream))) = Ok"
  using schedules_keep_governor_legal [OF sample_link_reachable sample_schedule] by blast

text \<open>Serving one connection is one schedule of the server: the accept loop and a worker that nobody
  interferes with do, step by step, exactly what the function that accepts and serves a whole connection
  computes, busy replies included, and the worker ends finished.\<close>

theorem connection_is_a_schedule:
  assumes "\<not> list_ex is_accepted workers" "\<not> lk_stop link"
  shows "(server_step env options)\<^sup>*\<^sup>* (link, workers) (accept_connection env options link events,
    workers @ (if lo_max_connections options \<le> lk_active link then [] else [Finished]))"
  by (rule connection_scheduled [OF assms])

theorem connection_is_a_schedule_witness:
  "(server_step sample_env sample_options)\<^sup>*\<^sup>* (sample_link, [])
     (accept_connection sample_env sample_options sample_link sample_stream, [Finished])"
proof -
  have "\<not> list_ex is_accepted []" "\<not> lk_stop sample_link" by (simp_all add: sample_link_def)
  from connection_is_a_schedule [OF this, of sample_env sample_options sample_stream]
  show ?thesis by (simp add: sample_link_def sample_options_def)
qed

text \<open>C34: The bound on concurrent connections is not a bound. The accept loop compares the counter of active
  workers before it starts a thread, but the thread counts itself only once it runs: from a server below
  its bound, whatever the bound is, a schedule leads to any number of workers that serve at once, all of
  them counted.\<close>

theorem connection_bound_can_be_exceeded:
  assumes "\<not> lk_stop link" "lk_active link < lo_max_connections options"
  shows "\<exists>link' workers. (server_step env options)\<^sup>*\<^sup>* (link, []) (link', workers) \<and>
    length (filter running workers) = n \<and> lk_active link' = lk_active link + of_nat n"
proof -
  obtain k where k: "(server_step env options)\<^sup>*\<^sup>* (link, []) (k, replicate n (Spawned []))" "lk_active k = lk_active link"
    using spawn_many [OF assms(1), of options env n] assms(2) by (auto simp: not_le)
  obtain l where l: "(server_step env options)\<^sup>*\<^sup>* (k, replicate n (Spawned [])) (l, replicate n (Greeting []))"
    "lk_active l = lk_active k + of_nat n"
    using start_many [of env options k n 0] by auto
  have "length (filter running (replicate n (Greeting []))) = n" by (simp add: filter_replicate)
  then show ?thesis using rtranclp_trans [OF k(1) l(1)] l(2) k(2)
    by (intro exI [of _ l] exI [of _ "replicate n (Greeting [])"]) simp
qed

theorem connection_bound_can_be_exceeded_witness:
  "\<exists>link' workers. (server_step sample_env (sample_options\<lparr>lo_max_connections := 1\<rparr>))\<^sup>*\<^sup>* (sample_link, []) (link', workers) \<and>
     length (filter running workers) = 2 \<and> lk_active link' = 2"
proof -
  have "\<not> lk_stop sample_link" "lk_active sample_link < lo_max_connections (sample_options\<lparr>lo_max_connections := 1\<rparr>)"
    by (simp_all add: sample_link_def sample_options_def)
  from connection_bound_can_be_exceeded [OF this, of sample_env 2] show ?thesis by (simp add: sample_link_def)
qed

text \<open>C33: Concurrent workers never commit a window twice. In any schedule of a server that starts with its
  counters at zero, the number of commits its workers report is at most the number of windows the
  accounting moved forward, although the evidence, the evaluation and the commit of each are separate
  steps; and the counter of active workers is exactly the number of those between start and end.\<close>

theorem concurrent_commits_are_distinct:
  assumes "(server_step env options)\<^sup>*\<^sup>* (link, []) (link', workers)"
    and "ls_windows_committed (lk_stats link) = 0" "lk_active link = 0"
  shows "unat (ls_windows_committed (lk_stats link')) + unat (ac_last_window (im_accounting (lk_governor link)))
      \<le> unat (ac_last_window (im_accounting (lk_governor link'))) \<and>
    lk_active link' = of_nat (length (filter running workers))"
proof
  have "windows_paid (ac_last_window (im_accounting (lk_governor link))) (fst (link, []))"
    using assms(2) by (simp add: windows_paid_def committed_windows_def)
  from schedule_invariant [where P = "\<lambda>s. windows_paid (ac_last_window (im_accounting (lk_governor link))) (fst s)",
      OF assms(1) step_pays this] show
    "unat (ls_windows_committed (lk_stats link')) + unat (ac_last_window (im_accounting (lk_governor link)))
      \<le> unat (ac_last_window (im_accounting (lk_governor link')))"
    by (simp add: windows_paid_def committed_windows_def)
  have "active_matches (link, [])" using assms(3) by (simp add: active_matches_def)
  from schedule_invariant [where P = active_matches, OF assms(1) step_active this] show "lk_active link' = of_nat (length (filter running workers))"
    by (simp add: active_matches_def)
qed

theorem concurrent_commits_are_distinct_witness:
  "unat (ls_windows_committed (lk_stats (accept_connection sample_env sample_options sample_link sample_stream)))
     \<le> unat (ac_last_window (im_accounting (lk_governor (accept_connection sample_env sample_options sample_link sample_stream)))) \<and>
   lk_active (accept_connection sample_env sample_options sample_link sample_stream) = 0"
proof -
  have "ls_windows_committed (lk_stats sample_link) = 0" "lk_active sample_link = 0" by (simp_all add: sample_link_def)
  from concurrent_commits_are_distinct [OF sample_schedule this] show ?thesis by simp
qed

end
