(* ===== verification/FG_Sockets.thy ===== *)
theory FG_Sockets
  imports FG_Workers
begin

text \<open>
  The loops of the evidence link around the calls of the socket library (\<open>write_all\<close>, the opening of a
  listener and of a connection, the raw session of the transport drivers; \<open>link/link.cpp\<close>). What each call
  answers is an argument. A loop that need not end returns an option: \<open>None\<close> is a call that never returns.
\<close>

section \<open>Writing\<close>

text \<open>One \<open>send\<close>: it takes at least one byte (the number is one less than what it would take), asks to be
  called again, or fails.\<close>

datatype send_answer = Sent nat | Send_blocked | Send_failed

text \<open>The answers are numbered; \<open>wire\<close> is what the kernel has taken so far.\<close>

partial_function (option) write_loop ::
    "(nat \<Rightarrow> send_answer) \<Rightarrow> bytes \<Rightarrow> nat \<Rightarrow> nat \<Rightarrow> bytes \<Rightarrow> (StatusCode \<times> nat \<times> bytes) option" where
  "write_loop answers data k offset wire =
     (if offset < length data
      then (case answers k of
              Sent n \<Rightarrow>
                (let sent = min (Suc n) (length data - offset)
                 in write_loop answers data (Suc k) (offset + sent) (wire @ take sent (drop offset data)))
            | Send_blocked \<Rightarrow> write_loop answers data (Suc k) offset wire
            | Send_failed \<Rightarrow> Some (TransportError, Suc k, wire))
      else Some (Ok, k, wire))"

definition write_all :: "(nat \<Rightarrow> send_answer) \<Rightarrow> nat \<Rightarrow> bytes \<Rightarrow> (StatusCode \<times> nat \<times> bytes) option" where
  "write_all answers k data = write_loop answers data k 0 []"

text \<open>How much the calls from the k-th on would take, counted over n of them.\<close>

definition taken_by :: "(nat \<Rightarrow> send_answer) \<Rightarrow> nat \<Rightarrow> nat \<Rightarrow> nat" where
  "taken_by answers k n = (\<Sum>i<n. case answers (k + i) of Sent m \<Rightarrow> Suc m | _ \<Rightarrow> 0)"

definition fails_within :: "(nat \<Rightarrow> send_answer) \<Rightarrow> nat \<Rightarrow> nat \<Rightarrow> bool" where
  "fails_within answers k n \<longleftrightarrow> (\<exists>i<n. answers (k + i) = Send_failed)"

lemma taken_by_simps [simp]:
  "taken_by answers k 0 = 0"
  "taken_by answers k (Suc n) = (case answers k of Sent m \<Rightarrow> Suc m | _ \<Rightarrow> 0) + taken_by answers (Suc k) n"
  by (simp_all add: taken_by_def sum.lessThan_Suc_shift del: sum.lessThan_Suc)

lemma fails_within_simps [simp]:
  "\<not> fails_within answers k 0"
  "fails_within answers k (Suc n) \<longleftrightarrow> answers k = Send_failed \<or> fails_within answers (Suc k) n"
  by (auto simp: fails_within_def less_Suc_eq_0_disj)

lemma write_loop_returns:
  "length data - offset \<le> taken_by answers k n \<or> fails_within answers k n \<Longrightarrow>
   \<exists>r. write_loop answers data k offset wire = Some r"
proof (induction n arbitrary: k offset wire)
  case 0
  then show ?case by (simp add: write_loop.simps)
next
  case (Suc n)
  show ?case
  proof (cases "offset < length data")
    case True
    show ?thesis
    proof (cases "answers k")
      case (Sent m)
      let ?s = "min (Suc m) (length data - offset)"
      have "length data - (offset + ?s) \<le> taken_by answers (Suc k) n \<or> fails_within answers (Suc k) n"
        using Suc.prems Sent by auto
      from Suc.IH [OF this] show ?thesis using True Sent by (simp add: write_loop.simps [of answers data k] Let_def)
    next
      case Send_blocked
      then have "length data - offset \<le> taken_by answers (Suc k) n \<or> fails_within answers (Suc k) n" using Suc.prems by simp
      from Suc.IH [OF this] show ?thesis using True Send_blocked by (simp add: write_loop.simps [of answers data k])
    next
      case Send_failed
      then show ?thesis using True by (simp add: write_loop.simps [of answers data k])
    qed
  qed (simp add: write_loop.simps)
qed

lemma write_loop_returned:
  assumes ret: "write_loop answers data k offset wire = Some r"
  shows "\<exists>n. length data - offset \<le> taken_by answers k n \<or> fails_within answers k n"
proof (rule write_loop.raw_induct [where P = "\<lambda>answers data k offset wire r.
    \<exists>n. length data - offset \<le> taken_by answers k n \<or> fails_within answers k n", OF _ ret])
  fix f answers data k offset wire r
  assume IH: "\<And>answers data k offset wire r. f answers data k offset wire = Some r \<Longrightarrow>
      \<exists>n. length data - offset \<le> taken_by answers k n \<or> fails_within answers k n"
    and eq: "(if offset < length data
      then (case answers k of
              Sent n \<Rightarrow> (let sent = min (Suc n) (length data - offset)
                 in f answers data (Suc k) (offset + sent) (wire @ take sent (drop offset data)))
            | Send_blocked \<Rightarrow> f answers data (Suc k) offset wire
            | Send_failed \<Rightarrow> Some (TransportError, Suc k, wire))
      else Some (Ok, k, wire)) = Some r"
  show "\<exists>n. length data - offset \<le> taken_by answers k n \<or> fails_within answers k n"
  proof (cases "offset < length data")
    case True
    show ?thesis
    proof (cases "answers k")
      case (Sent m)
      let ?s = "min (Suc m) (length data - offset)"
      have "f answers data (Suc k) (offset + ?s) (wire @ take ?s (drop offset data)) = Some r"
        using eq True Sent by (simp add: Let_def)
      from IH [OF this] obtain n where
        "length data - (offset + ?s) \<le> taken_by answers (Suc k) n \<or> fails_within answers (Suc k) n" by blast
      then show ?thesis using Sent by (intro exI [of _ "Suc n"]) auto
    next
      case Send_blocked
      then have "f answers data (Suc k) offset wire = Some r" using eq True by simp
      from IH [OF this] obtain n where "length data - offset \<le> taken_by answers (Suc k) n \<or> fails_within answers (Suc k) n"
        by blast
      then show ?thesis using Send_blocked by (intro exI [of _ "Suc n"]) auto
    next
      case Send_failed
      then show ?thesis by (intro exI [of _ 1]) simp
    qed
  next
    case False
    then show ?thesis by (intro exI [of _ 0]) simp
  qed
qed

text \<open>What is on the wire when the loop returns.\<close>

lemma write_loop_wire:
  assumes ret: "write_loop answers data k offset wire = Some r" and "wire = take offset data"
  shows "fst r = Ok \<and> snd (snd r) = data \<or>
    fst r = TransportError \<and> (\<exists>m<length data. snd (snd r) = take m data)"
proof -
  have "wire = take offset data \<longrightarrow> fst r = Ok \<and> snd (snd r) = data \<or>
      fst r = TransportError \<and> (\<exists>m<length data. snd (snd r) = take m data)"
  proof (rule write_loop.raw_induct [where P = "\<lambda>answers data k offset wire r. wire = take offset data \<longrightarrow>
      fst r = Ok \<and> snd (snd r) = data \<or>
      fst r = TransportError \<and> (\<exists>m<length data. snd (snd r) = take m data)", OF _ ret])
    fix f answers data k offset wire r
    assume IH: "\<And>answers data k offset wire r. f answers data k offset wire = Some r \<Longrightarrow> wire = take offset data \<longrightarrow>
        fst r = Ok \<and> snd (snd r) = data \<or> fst r = TransportError \<and> (\<exists>m<length data. snd (snd r) = take m data)"
      and eq: "(if offset < length data
        then (case answers k of
                Sent n \<Rightarrow> (let sent = min (Suc n) (length data - offset)
                   in f answers data (Suc k) (offset + sent) (wire @ take sent (drop offset data)))
              | Send_blocked \<Rightarrow> f answers data (Suc k) offset wire
              | Send_failed \<Rightarrow> Some (TransportError, Suc k, wire))
        else Some (Ok, k, wire)) = Some r"
    show "wire = take offset data \<longrightarrow> fst r = Ok \<and> snd (snd r) = data \<or>
        fst r = TransportError \<and> (\<exists>m<length data. snd (snd r) = take m data)"
    proof
      assume w: "wire = take offset data"
      show "fst r = Ok \<and> snd (snd r) = data \<or>
          fst r = TransportError \<and> (\<exists>m<length data. snd (snd r) = take m data)"
      proof (cases "offset < length data")
        case True
        show ?thesis
        proof (cases "answers k")
          case (Sent n)
          let ?s = "min (Suc n) (length data - offset)"
          have "wire @ take ?s (drop offset data) = take (offset + ?s) data" by (simp add: w take_add)
          moreover have "f answers data (Suc k) (offset + ?s) (wire @ take ?s (drop offset data)) = Some r"
            using eq True Sent by (simp add: Let_def)
          ultimately show ?thesis using IH by blast
        next
          case Send_blocked
          then have "f answers data (Suc k) offset wire = Some r" using eq True by simp
          then show ?thesis using IH w by blast
        next
          case Send_failed
          then have "r = (TransportError, Suc k, take offset data)" using eq True w by simp
          then show ?thesis using True by auto
        qed
      next
        case False
        then show ?thesis using eq w by auto
      qed
    qed
  qed
  then show ?thesis using assms(2) by simp
qed

section \<open>Opening the listener\<close>

text \<open>The answers of the calls in their order: socket, the text of an address, bind, listen and the port that
  was bound.\<close>

record ListenAnswers =
  sk_socket :: bool
  sk_address_ok :: "bytes \<Rightarrow> bool"
  sk_bind :: bool
  sk_listen :: bool
  sk_bound :: "u16 option"

record Listener =
  ln_options :: LinkServerOptions
  ln_receive_poll :: u32
  ln_port :: u16
  ln_address :: bytes

text \<open>The two names of the loopback device.\<close>

definition loopback_literal :: bytes where
  "loopback_literal = [49, 50, 55, 46, 48, 46, 48, 46, 49]"

definition localhost_literal :: bytes where
  "localhost_literal = [108, 111, 99, 97, 108, 104, 111, 115, 116]"

definition is_loopback :: "bytes \<Rightarrow> bool" where
  "is_loopback address \<longleftrightarrow> address = [] \<or> address = loopback_literal \<or> address = localhost_literal"

text \<open>The result and whether a socket is left open.\<close>

definition start_server ::
    "ListenAnswers \<Rightarrow> bytes \<Rightarrow> u32 \<Rightarrow> LinkServerOptions \<Rightarrow> (StatusCode + Listener) \<times> bool" where
  "start_server answers bind_address receive_poll options =
     (if check_link_options options \<noteq> Ok then (Inl (check_link_options options), False)
      else if \<not> sk_socket answers then (Inl TransportError, False)
      else if \<not> is_loopback bind_address \<and> \<not> sk_address_ok answers bind_address then (Inl InvalidArgument, False)
      else if \<not> sk_bind answers then (Inl TransportError, False)
      else if \<not> sk_listen answers then (Inl TransportError, False)
      else case sk_bound answers of
             None \<Rightarrow> (Inl TransportError, False)
           | Some port \<Rightarrow>
               (Inr \<lparr>ln_options = options, ln_receive_poll = max receive_poll 20, ln_port = port,
                  ln_address = (if bind_address = [] then loopback_literal else bind_address)\<rparr>, True))"

section \<open>The publisher's connection\<close>

text \<open>Each attempt opens a socket and connects it; the answers of an attempt are a pair.\<close>

fun connect_attempts :: "(nat \<Rightarrow> bool \<times> bool) \<Rightarrow> nat \<Rightarrow> nat \<Rightarrow> StatusCode" where
  "connect_attempts answers attempt 0 = TransportError"
| "connect_attempts answers attempt (Suc left) =
     (if \<not> fst (answers attempt) then TransportError
      else if snd (answers attempt) then Ok
      else connect_attempts answers (Suc attempt) left)"

definition connect_socket :: "(nat \<Rightarrow> bool \<times> bool) \<Rightarrow> u32 \<Rightarrow> StatusCode" where
  "connect_socket answers attempts = connect_attempts answers 0 (unat (max attempts 1))"

definition client_connect ::
    "(nat \<Rightarrow> bool \<times> bool) \<Rightarrow> (nat \<Rightarrow> send_answer) \<Rightarrow> recv list \<Rightarrow> Id \<Rightarrow> u32 \<Rightarrow> LinkClientOptions \<Rightarrow>
     ((u16 + LinkClient) \<times> HelloAck option) option" where
  "client_connect sockets sends events fresh attempts raw =
     (if check_client_options raw \<noteq> Ok then Some (Inl (status_value (check_client_options raw)), None)
      else
        (let options = client_options fresh raw; connected = connect_socket sockets attempts
         in if connected \<noteq> Ok then Some (Inl (status_value connected), None)
            else case write_all sends 0 (client_hello options) of
                   None \<Rightarrow> None
                 | Some (code, _, _) \<Rightarrow>
                     (if code \<noteq> Ok then Some (Inl (status_value code), None)
                      else Some (client_connected options events))))"

section \<open>The raw session\<close>

text \<open>The loop over the header ends in idleness only in front of the first byte; when no further event
  comes it does not return.\<close>

fun raw_header :: "bytes \<Rightarrow> recv list \<Rightarrow> (StatusCode \<times> bytes \<times> recv list) option" where
  "raw_header got [] = (if kFrameHeaderSize \<le> length got then Some (Ok, got, []) else None)"
| "raw_header got (event # events) =
     (if kFrameHeaderSize \<le> length got then Some (Ok, got, event # events)
      else case event of
             Stop_seen \<Rightarrow> raw_header got events
           | Peer_closed \<Rightarrow> Some (LinkClosed, got, event # events)
           | Recv_failed \<Rightarrow> Some (TransportError, got, events)
           | Would_block \<Rightarrow> (if got = [] then Some (TransportError, got, events) else raw_header got events)
           | Arrived data \<Rightarrow>
               (let missing = kFrameHeaderSize - length got
                in if data = [] then Some (LinkClosed, got, events)
                   else if length data \<le> missing then raw_header (got @ data) events
                   else Some (Ok, got @ take missing data, Arrived (drop missing data) # events)))"

definition raw_receive :: "recv list \<Rightarrow> ((StatusCode + bytes) \<times> recv list) option" where
  "raw_receive events =
     (case raw_header [] events of
        None \<Rightarrow> None
      | Some (code, got, events) \<Rightarrow>
          Some (if code \<noteq> Ok then (Inl code, events)
            else case decode_frame_header got kMaxFramePayloadBytes of
                   Inl code \<Rightarrow> (Inl code, events)
                 | Inr header \<Rightarrow>
                     (case receive 4 (unat (fh_payload_length header)) 0 [] events of
                        (outcome, payload, events) \<Rightarrow>
                          (if outcome \<noteq> Received_all then Inl Truncated
                           else if verify_frame_payload header payload \<noteq> Ok
                           then Inl (verify_frame_payload header payload)
                           else Inr payload, events))))"

text \<open>All frames are written one after the other, then up to a limit of responses is read; a response that does
  not come ends the session without an error.\<close>

fun raw_writes :: "(nat \<Rightarrow> send_answer) \<Rightarrow> nat \<Rightarrow> bytes list \<Rightarrow> (StatusCode \<times> bytes) option" where
  "raw_writes answers k [] = Some (Ok, [])"
| "raw_writes answers k (frame # frames) =
     (case write_all answers k frame of
        None \<Rightarrow> None
      | Some (code, k, wire) \<Rightarrow>
          (if code \<noteq> Ok then Some (code, wire)
           else map_option (\<lambda>(code, rest). (code, wire @ rest)) (raw_writes answers k frames)))"

fun raw_responses :: "nat \<Rightarrow> recv list \<Rightarrow> bytes list option" where
  "raw_responses 0 events = Some []"
| "raw_responses (Suc limit) events =
     (case raw_receive events of
        None \<Rightarrow> None
      | Some (Inl code, events) \<Rightarrow> Some []
      | Some (Inr payload, events) \<Rightarrow> map_option (\<lambda>rest. payload # rest) (raw_responses limit events))"

definition send_raw_frames ::
    "bool \<times> bool \<Rightarrow> (nat \<Rightarrow> send_answer) \<Rightarrow> recv list \<Rightarrow> bytes list \<Rightarrow> nat \<Rightarrow> (StatusCode \<times> bytes list) option" where
  "send_raw_frames socket answers events frames limit =
     (if \<not> fst socket \<or> \<not> snd socket then Some (TransportError, [])
      else case raw_writes answers 0 frames of
             None \<Rightarrow> None
           | Some (code, wire) \<Rightarrow>
               (if code \<noteq> Ok then Some (code, [])
                else map_option (\<lambda>responses. (Ok, responses)) (raw_responses limit events)))"

definition raw_send :: "bool \<times> bool \<Rightarrow> (nat \<Rightarrow> send_answer) \<Rightarrow> recv list \<Rightarrow> bytes \<Rightarrow> nat \<Rightarrow> (StatusCode \<times> bytes option) option" where
  "raw_send socket answers events data limit =
     map_option (\<lambda>(code, responses). (code, if code = Ok then case responses of [] \<Rightarrow> None | r # _ \<Rightarrow> Some r else None))
       (send_raw_frames socket answers events [data] limit)"

section \<open>Property\<close>

text \<open>A peer that never takes anything holds its writer for ever.\<close>

lemma blocked_peer_hangs:
  assumes "\<And>i. answers (k + i) = Send_blocked" "data \<noteq> []"
  shows "write_all answers k data = None"
proof (rule ccontr)
  assume "write_all answers k data \<noteq> None"
  then obtain r where "write_loop answers data k 0 [] = Some r" by (auto simp: write_all_def)
  from write_loop_returned [OF this] obtain n where "length data \<le> taken_by answers k n \<or> fails_within answers k n" by auto
  moreover have "taken_by answers k n = 0" "\<not> fails_within answers k n"
    using assms(1) by (simp_all add: taken_by_def fails_within_def)
  ultimately show False using assms(2) by simp
qed

text \<open>C36: Writing to a socket delivers everything, fails, or never returns, and it is exact which. For any
  answers of the successive sends, a write that returns has put all of the data on the wire, in order and
  once, and reports success, or has put a proper prefix there and reports a transport error; and it does
  not return exactly when no send fails and the sends together never take the whole data: nothing
  bounds how often it asks a peer that does not read.\<close>

theorem writes_deliver_or_hang:
  "case write_all answers k data of
     None \<Rightarrow> \<forall>n. taken_by answers k n < length data \<and> \<not> fails_within answers k n
   | Some (code, k', wire) \<Rightarrow>
       (code = Ok \<and> wire = data \<or> code = TransportError \<and> (\<exists>m<length data. wire = take m data)) \<and>
       (\<exists>n. length data \<le> taken_by answers k n \<or> fails_within answers k n)"
proof (cases "write_all answers k data")
  case None
  have "taken_by answers k n < length data \<and> \<not> fails_within answers k n" for n
    using write_loop_returns [of data 0 answers k n "[]"] None by (auto simp: write_all_def not_le [symmetric])
  then show ?thesis by (simp add: None)
next
  case (Some r)
  then have w: "write_loop answers data k 0 [] = Some r" by (simp add: write_all_def)
  show ?thesis using write_loop_wire [OF w] write_loop_returned [OF w] by (cases r) (auto simp: Some)
qed

end
