(* ===== verification/FG_Shutdown.thy ===== *)
theory FG_Shutdown
  imports FG_Sockets
begin

text \<open>
  The end of a server (\<open>request_stop\<close>, \<open>shutdown\<close> and the worker registry of \<open>link/link.cpp\<close>): once the stop
  flag is set no connection is registered any more and every worker is a bounded number of its own steps away
  from its end, whatever the others do. A step that writes goes through the loop of \<open>write_all\<close> over the
  answers of the worker's socket, and that loop need not return: then neither does the join, nor \<open>shutdown\<close>.
\<close>

section \<open>Work that is left\<close>

text \<open>The number of steps a worker of a stopped server can still take.\<close>

definition work_left :: "worker \<Rightarrow> nat" where
  "work_left w = (case w of
      Accepted events \<Rightarrow> 1
    | Spawned events \<Rightarrow> 2
    | Greeting events \<Rightarrow> 1
    | Serving session expected events \<Rightarrow> 1
    | Ingesting session expected snapshot request generation events \<Rightarrow> 5
    | Evaluating session expected request ack events \<Rightarrow> 4
    | Committing session expected decision ack events \<Rightarrow> 3
    | Replying session expected refresh ack events \<Rightarrow> 2
    | Finished \<Rightarrow> 0)"

definition total_left :: "worker list \<Rightarrow> nat" where
  "total_left workers = sum_list (map work_left workers)"

lemma work_left_simps [simp]:
  "work_left (Accepted events) = 1" "work_left (Spawned events) = 2" "work_left (Greeting events) = 1"
  "work_left (Serving session expected events) = 1"
  "work_left (Ingesting session expected snapshot request generation events) = 5"
  "work_left (Evaluating session expected request ack events) = 4"
  "work_left (Committing session expected decision ack events) = 3"
  "work_left (Replying session expected refresh ack events) = 2" "work_left Finished = 0"
  by (simp_all add: work_left_def)

lemma work_left_0 [simp]: "work_left w = 0 \<longleftrightarrow> w = Finished"
  by (cases w) simp_all

section \<open>A worker of a stopped server\<close>

lemma stop_count [simp]: "lk_stop (count_stats f link) = lk_stop link"
  by (simp add: count_stats_def)

lemma stop_leave [simp]: "lk_stop (leave link) = lk_stop link"
  by (simp add: leave_def)

lemma stop_send [simp]: "lk_stop (snd (send_frame env kind payload session sequence flags link)) = lk_stop link"
  by (simp add: send_frame_def count_stats_def Let_def)

text \<open>A receive that sees the flag first reads nothing and reports the link closed.\<close>

lemma stopped_read: "read_frame max_payload idle_polls (Stop_seen # events) = (Inl (LinkClosed, True), Stop_seen # events)"
  by (simp add: read_frame_def header_failure_def kFrameHeaderSize_def)

lemma stopped_greeting:
  assumes "lk_stop link"
  shows "worker_step env options (Greeting events) link = (Finished, leave (count_stats (count_unreadable True LinkClosed) link))"
  using assms by (simp add: worker_step_def seen_by_def handshake_def stopped_read)

lemma stopped_ingest:
  assumes "lk_stop link"
  shows "lk_stop (snd (worker_step env options (Ingesting session expected snapshot request generation events) link)) \<and>
    work_left (fst (worker_step env options (Ingesting session expected snapshot request generation events) link)) < 5"
proof -
  obtain r im where i: "ingest_evidence snapshot (lk_governor link) = (r, im)" by force
  show ?thesis using assms by (cases r) (simp_all add: worker_step_def ingest_step_def i Let_def)
qed

lemma stopped_evaluate:
  assumes "lk_stop link"
  shows "lk_stop (snd (worker_step env options (Evaluating session expected request ack events) link)) \<and>
    work_left (fst (worker_step env options (Evaluating session expected request ack events) link)) < 4"
proof (cases "governor_evaluate request (lk_governor link)")
  case None
  then show ?thesis using assms by (simp add: worker_step_def)
next
  case (Some r)
  then show ?thesis using assms by (cases r) (simp_all add: worker_step_def)
qed

lemma stopped_commit:
  assumes "lk_stop link"
  shows "lk_stop (snd (worker_step env options (Committing session expected decision ack events) link)) \<and>
    work_left (fst (worker_step env options (Committing session expected decision ack events) link)) < 3"
proof -
  obtain code im where "governor_commit (le_disk env) decision (lk_governor link) = (code, im)" by force
  then show ?thesis using assms by (simp add: worker_step_def Let_def)
qed

lemma stopped_reply:
  assumes "lk_stop link"
  shows "lk_stop (snd (worker_step env options (Replying session expected refresh ack events) link)) \<and>
    work_left (fst (worker_step env options (Replying session expected refresh ack events) link)) < 2"
proof -
  define a where "a = (if refresh then ack\<lparr>ea_accounting_generation := ac_generation (im_accounting (lk_governor link))\<rparr> else ack)"
  obtain sent l where s: "send_frame env Frame_EvidenceAck (encode_evidence_ack a) session expected kFrameFlagNone link = (sent, l)"
    by force
  have "lk_stop l" using stop_send [of env Frame_EvidenceAck "encode_evidence_ack a" session expected kFrameFlagNone link] assms
    by (simp add: s)
  then show ?thesis by (simp add: worker_step_def a_def [symmetric] s)
qed

lemma stopped_worker:
  assumes "lk_stop link"
  shows "lk_stop (snd (worker_step env options w link)) \<and>
    (w = Finished \<and> fst (worker_step env options w link) = Finished \<or>
     work_left (fst (worker_step env options w link)) < work_left w)"
proof (cases w)
  case (Greeting events)
  then show ?thesis using stopped_greeting [OF assms] assms by simp
next
  case (Serving session expected events)
  then show ?thesis using assms by (simp add: worker_step_def serving_step_def)
next
  case (Ingesting session expected snapshot request generation events)
  then show ?thesis using stopped_ingest [OF assms] by simp
next
  case (Evaluating session expected request ack events)
  then show ?thesis using stopped_evaluate [OF assms] by simp
next
  case (Committing session expected decision ack events)
  then show ?thesis using stopped_commit [OF assms] by simp
next
  case (Replying session expected refresh ack events)
  then show ?thesis using stopped_reply [OF assms] by simp
qed (use assms in \<open>simp_all add: worker_step_def\<close>)

section \<open>A stopped server\<close>

text \<open>A step of the server where any of the writes go through.\<close>

definition answered_step :: "LinkEnv \<Rightarrow> LinkServerOptions \<Rightarrow> server \<Rightarrow> server \<Rightarrow> bool" where
  "answered_step env options s t \<longleftrightarrow> (\<exists>ok. server_step (env\<lparr>le_write_ok := ok\<rparr>) options s t)"

lemma answered_same: "server_step env options s t \<Longrightarrow> answered_step env options s t"
  unfolding answered_step_def by (rule exI [of _ "le_write_ok env"]) simp

lemma answered_schedule: "(server_step env options)\<^sup>*\<^sup>* s t \<Longrightarrow> (answered_step env options)\<^sup>*\<^sup>* s t"
  by (induction rule: rtranclp_induct) (auto dest: answered_same intro: rtranclp.rtrancl_into_rtrancl)

lemma answered_active: "\<lbrakk>(answered_step env options)\<^sup>*\<^sup>* s t; active_matches s\<rbrakk> \<Longrightarrow> active_matches t"
  by (induction rule: rtranclp_induct) (auto simp: answered_step_def dest: step_active)

lemma total_left_update:
  "i < length workers \<Longrightarrow> total_left (workers[i := w]) + work_left (workers ! i) = total_left workers + work_left w"
proof (induction workers arbitrary: i)
  case (Cons v vs)
  show ?case
  proof (cases i)
    case (Suc j)
    then show ?thesis using Cons.IH [of j] Cons.prems by (simp add: total_left_def)
  qed (simp add: total_left_def)
qed simp

lemma total_left_pruned: "total_left (prune_workers workers) = total_left workers"
  by (induction workers) (auto simp: total_left_def prune_workers_def)

lemma stopped_step:
  "\<lbrakk>server_step env options s t; lk_stop (fst s)\<rbrakk> \<Longrightarrow>
   lk_stop (fst t) \<and> total_left (snd t) \<le> total_left (snd s) \<and> length (snd t) \<le> length (snd s)"
proof (induction rule: server_step.induct)
  case (accepts workers link events)
  then show ?case by (simp add: accept_step_def)
next
  case (works i workers link w link')
  have "lk_stop link' \<and> (workers ! i = Finished \<and> w = Finished \<or> work_left w < work_left (workers ! i))"
    using stopped_worker [of link env options "workers ! i"] works(2,3) by simp
  then show ?case using total_left_update [OF works(1), of w] by auto
next
  case (prunes link workers)
  then show ?case by (simp add: total_left_pruned) (simp add: prune_workers_def)
qed simp_all

lemma stopped_schedule:
  "\<lbrakk>(answered_step env options)\<^sup>*\<^sup>* s t; lk_stop (fst s)\<rbrakk> \<Longrightarrow>
   lk_stop (fst t) \<and> total_left (snd t) \<le> total_left (snd s) \<and> length (snd t) \<le> length (snd s)"
proof (induction rule: rtranclp_induct)
  case (step t u)
  then obtain ok where "server_step (env\<lparr>le_write_ok := ok\<rparr>) options t u" by (auto simp: answered_step_def)
  then show ?case using stopped_step [of "env\<lparr>le_write_ok := ok\<rparr>" options t u] step by auto
qed simp

section \<open>Writing while the server stops\<close>

text \<open>The frame that a worker's step puts on its socket: what it adds to the sent frames when the write goes
  through.\<close>

definition frames_written :: "LinkEnv \<Rightarrow> LinkServerOptions \<Rightarrow> worker \<Rightarrow> Link \<Rightarrow> bytes list" where
  "frames_written env options w link =
     drop (length (lk_sent link)) (lk_sent (snd (worker_step (env\<lparr>le_write_ok := \<lambda>_. True\<rparr>) options w link)))"

text \<open>A worker with the number of the next \<open>send\<close> on its socket. Its step waits until its write returns, and goes
  on by what the write reports; \<open>None\<close> is a step that never ends.\<close>

type_synonym connection = "worker \<times> nat"

definition socket_turn ::
    "LinkEnv \<Rightarrow> LinkServerOptions \<Rightarrow> (nat \<Rightarrow> send_answer) \<Rightarrow> connection \<Rightarrow> Link \<Rightarrow> (connection \<times> Link) option" where
  "socket_turn env options answers c link =
     (case frames_written env options (fst c) link of
        [] \<Rightarrow> (case worker_step env options (fst c) link of (w, link) \<Rightarrow> Some ((w, snd c), link))
      | frame # _ \<Rightarrow>
          (case write_all answers (snd c) frame of
             None \<Rightarrow> None
           | Some (code, k, wire) \<Rightarrow>
               (case worker_step (env\<lparr>le_write_ok := \<lambda>_. code = Ok\<rparr>) options (fst c) link of
                  (w, link) \<Rightarrow> Some ((w, k), link))))"

text \<open>The turns that were under way when the flag was raised, in the order in which they take effect.\<close>

fun early_turns ::
    "LinkEnv \<Rightarrow> LinkServerOptions \<Rightarrow> (nat \<Rightarrow> nat \<Rightarrow> send_answer) \<Rightarrow> nat list \<Rightarrow> Link \<times> connection list \<Rightarrow>
     (Link \<times> connection list) option" where
  "early_turns env options sends [] s = Some s"
| "early_turns env options sends (i # order) (link, conns) =
     (if i < length conns
      then (case socket_turn env options (sends i) (conns ! i) link of
              None \<Rightarrow> None
            | Some (c, link) \<Rightarrow> early_turns env options sends order (link, conns[i := c]))
      else early_turns env options sends order (link, conns))"

section \<open>Shutting down\<close>

text \<open>The wait for the accept loop: as long as it is seen serving, at most 2000 times.\<close>

fun accept_wait :: "(nat \<Rightarrow> bool) \<Rightarrow> nat \<Rightarrow> nat \<Rightarrow> nat" where
  "accept_wait serving spin 0 = spin"
| "accept_wait serving spin (Suc left) = (if serving spin then accept_wait serving (Suc spin) left else spin)"

text \<open>A join lets the worker run to its end; the counter of its own steps is enough as fuel.\<close>

fun run_worker ::
    "LinkEnv \<Rightarrow> LinkServerOptions \<Rightarrow> (nat \<Rightarrow> send_answer) \<Rightarrow> nat \<Rightarrow> connection \<Rightarrow> Link \<Rightarrow> Link option" where
  "run_worker env options answers 0 c link = Some link"
| "run_worker env options answers (Suc fuel) c link =
     (case socket_turn env options answers c link of
        None \<Rightarrow> None
      | Some (c, link) \<Rightarrow> run_worker env options answers fuel c link)"

fun join_workers ::
    "LinkEnv \<Rightarrow> LinkServerOptions \<Rightarrow> (nat \<Rightarrow> nat \<Rightarrow> send_answer) \<Rightarrow> nat \<Rightarrow> connection list \<Rightarrow> Link \<Rightarrow> Link option" where
  "join_workers env options sends i [] link = Some link"
| "join_workers env options sends i (c # conns) link =
     (case run_worker env options (sends i) (work_left (fst c)) c link of
        None \<Rightarrow> None
      | Some link \<Rightarrow> join_workers env options sends (Suc i) conns link)"

text \<open>The result is the number of waits and the server that is left; \<open>None\<close> when the call never returns. The workers
  run beside each other and are joined in the order of the registry; the joins take their steps in that
  order, as one of the schedules that end with the same workers. The descriptor of the listener, which is closed
  last, is not part of the state.\<close>

definition server_shutdown ::
    "LinkEnv \<Rightarrow> LinkServerOptions \<Rightarrow> (nat \<Rightarrow> nat \<Rightarrow> send_answer) \<Rightarrow> nat list \<Rightarrow> (nat \<Rightarrow> bool) \<Rightarrow> server \<Rightarrow>
     (nat \<times> server) option" where
  "server_shutdown env options sends order serving = (\<lambda>(link, workers).
     case early_turns env options sends order (link, map (\<lambda>w. (w, 0)) workers) of
       None \<Rightarrow> None
     | Some (link, conns) \<Rightarrow>
         (let waited = accept_wait serving 0 2000
          in case join_workers env options sends 0 conns (link\<lparr>lk_stop := True\<rparr>) of
               None \<Rightarrow> None
             | Some link \<Rightarrow> Some (waited, link, [])))"

lemma accept_wait_bound: "spin \<le> accept_wait serving spin left \<and> accept_wait serving spin left \<le> spin + left \<and>
    (accept_wait serving spin left = spin + left \<or> \<not> serving (accept_wait serving spin left))"
proof (induction left arbitrary: spin)
  case (Suc left)
  have "Suc spin \<le> accept_wait serving (Suc spin) left" using Suc.IH by blast
  then show ?case using Suc.IH [of "Suc spin"] by simp
qed simp

text \<open>A write that a registered worker tries and that never returns.\<close>

definition write_hangs :: "LinkEnv \<Rightarrow> LinkServerOptions \<Rightarrow> (nat \<Rightarrow> send_answer) \<Rightarrow> bool" where
  "write_hangs env options answers \<longleftrightarrow> (\<exists>w link frame k. frame \<in> set (frames_written env options w link) \<and>
     (\<forall>n. taken_by answers k n < length frame \<and> \<not> fails_within answers k n))"

lemma write_all_none:
  assumes "write_all answers k data = None"
  shows "taken_by answers k n < length data \<and> \<not> fails_within answers k n"
  using write_loop_returns [of data 0 answers k n "[]"] assms by (auto simp: write_all_def not_le [symmetric])

lemma socket_turn_hangs: "socket_turn env options answers c link = None \<Longrightarrow> write_hangs env options answers"
proof -
  assume none: "socket_turn env options answers c link = None"
  then obtain frame rest where f: "frames_written env options (fst c) link = frame # rest"
    by (auto simp: socket_turn_def split: list.splits prod.splits)
  then have "write_all answers (snd c) frame = None"
    using none by (auto simp: socket_turn_def split: option.splits prod.splits)
  from write_all_none [OF this] show ?thesis unfolding write_hangs_def
    by (intro exI [of _ "fst c"] exI [of _ link] exI [of _ frame] exI [of _ "snd c"]) (simp add: f)
qed

lemma socket_turn_step:
  assumes "socket_turn env options answers c link = Some (c', link')"
  obtains ok where "worker_step (env\<lparr>le_write_ok := ok\<rparr>) options (fst c) link = (fst c', link')"
proof (cases "frames_written env options (fst c) link")
  case Nil
  then have "worker_step (env\<lparr>le_write_ok := le_write_ok env\<rparr>) options (fst c) link = (fst c', link')"
    using assms by (auto simp: socket_turn_def split: prod.splits)
  then show ?thesis by (rule that)
next
  case (Cons frame rest)
  then obtain code k wire where "worker_step (env\<lparr>le_write_ok := \<lambda>_. code = Ok\<rparr>) options (fst c) link = (fst c', link')"
    using assms by (auto simp: socket_turn_def split: prod.splits option.splits)
  then show ?thesis by (rule that)
qed

lemma turn_answered:
  assumes "i < length workers" "socket_turn env options answers (workers ! i, k) link = Some (c, link')"
  shows "answered_step env options (link, workers) (link', workers[i := fst c])"
proof -
  obtain ok where "worker_step (env\<lparr>le_write_ok := ok\<rparr>) options (workers ! i) link = (fst c, link')"
    using socket_turn_step [OF assms(2)] by auto
  then show ?thesis unfolding answered_step_def by (blast intro: works [OF assms(1)])
qed

lemma early_turns_hang: "early_turns env options sends order (link, conns) = None \<Longrightarrow>
    \<exists>i<length conns. write_hangs env options (sends i)"
proof (induction order arbitrary: link conns)
  case (Cons i order)
  show ?case
  proof (cases "i < length conns")
    case True
    show ?thesis
    proof (cases "socket_turn env options (sends i) (conns ! i) link")
      case None
      then show ?thesis using socket_turn_hangs True by blast
    next
      case (Some t)
      then show ?thesis using Cons.IH [of "snd t" "conns[i := fst t]"] Cons.prems True by (cases t) simp
    qed
  next
    case False
    then show ?thesis using Cons by simp
  qed
qed simp

lemma early_turns_schedule: "early_turns env options sends order (link, conns) = Some (link', conns') \<Longrightarrow>
    (answered_step env options)\<^sup>*\<^sup>* (link, map fst conns) (link', map fst conns') \<and> length conns' = length conns"
proof (induction order arbitrary: link conns)
  case (Cons i order)
  show ?case
  proof (cases "i < length conns")
    case True
    then obtain c l where t: "socket_turn env options (sends i) (conns ! i) link = Some (c, l)"
      using Cons.prems by (auto split: option.splits prod.splits)
    have "answered_step env options (link, map fst conns) (l, (map fst conns)[i := fst c])"
      by (rule turn_answered [where k = "snd (conns ! i)"]) (use True t in simp_all)
    moreover have "(answered_step env options)\<^sup>*\<^sup>* (l, (map fst conns)[i := fst c]) (link', map fst conns') \<and>
        length conns' = length conns"
      using Cons.IH [of l "conns[i := c]"] Cons.prems True t by (simp add: map_update)
    ultimately show ?thesis by (auto intro: converse_rtranclp_into_rtranclp)
  next
    case False
    then show ?thesis using Cons by simp
  qed
qed simp

lemma run_worker_hangs: "run_worker env options answers fuel c link = None \<Longrightarrow> write_hangs env options answers"
  by (induction fuel arbitrary: c link) (auto split: option.splits dest: socket_turn_hangs)

lemma run_worker_finishes:
  "\<lbrakk>run_worker env options answers fuel c link = Some link'; i < length workers; workers ! i = fst c; lk_stop link;
    work_left (fst c) \<le> fuel\<rbrakk> \<Longrightarrow>
   (answered_step env options)\<^sup>*\<^sup>* (link, workers) (link', workers[i := Finished]) \<and> lk_stop link'"
proof (induction fuel arbitrary: c link workers)
  case 0
  then show ?case by (metis le_zero_eq list_update_id option.inject rtranclp.rtrancl_refl run_worker.simps(1) work_left_0)
next
  case (Suc fuel)
  then obtain c' l where t: "socket_turn env options answers c link = Some (c', l)"
      "run_worker env options answers fuel c' l = Some link'" by (auto split: option.splits prod.splits)
  obtain ok where w: "worker_step (env\<lparr>le_write_ok := ok\<rparr>) options (fst c) link = (fst c', l)"
    using socket_turn_step [OF t(1)] by blast
  have k: "lk_stop l" "work_left (fst c') \<le> fuel"
    using stopped_worker [OF Suc.prems(4), of "env\<lparr>le_write_ok := ok\<rparr>" options "fst c"] Suc.prems(5) w by auto
  have "answered_step env options (link, workers) (l, workers[i := fst c'])"
    by (rule turn_answered [where k = "snd c"]) (use Suc.prems(2,3) t(1) in simp_all)
  moreover have "(answered_step env options)\<^sup>*\<^sup>* (l, workers[i := fst c']) (link', workers[i := Finished]) \<and> lk_stop link'"
    using Suc.IH [OF t(2), of "workers[i := fst c']"] Suc.prems(2) k by simp
  ultimately show ?case by (auto intro: converse_rtranclp_into_rtranclp)
qed

lemma join_workers_hang: "join_workers env options sends i conns link = None \<Longrightarrow>
    \<exists>j<i + length conns. write_hangs env options (sends j)"
proof (induction conns arbitrary: i link)
  case (Cons c conns)
  show ?case
  proof (cases "run_worker env options (sends i) (work_left (fst c)) c link")
    case None
    then show ?thesis using run_worker_hangs by (intro exI [of _ i]) auto
  next
    case (Some l)
    then show ?thesis using Cons.IH [of "Suc i" l] Cons.prems by auto
  qed
qed simp

lemma joined:
  "\<lbrakk>join_workers env options sends i conns link = Some link'; lk_stop link\<rbrakk> \<Longrightarrow>
   (answered_step env options)\<^sup>*\<^sup>* (link, ended @ map fst conns) (link', ended @ replicate (length conns) Finished) \<and>
   lk_stop link'"
proof (induction conns arbitrary: i link ended)
  case (Cons c conns)
  then obtain l where r: "run_worker env options (sends i) (work_left (fst c)) c link = Some l"
      "join_workers env options sends (Suc i) conns l = Some link'" by (auto split: option.splits)
  have s: "(answered_step env options)\<^sup>*\<^sup>* (link, ended @ map fst (c # conns)) (l, (ended @ [Finished]) @ map fst conns)"
      "lk_stop l"
    using run_worker_finishes [OF r(1), of "length ended" "ended @ map fst (c # conns)"] Cons.prems(2) by simp_all
  from Cons.IH [OF r(2) s(2), of "ended @ [Finished]"] rtranclp_trans [OF s(1)] show ?case by simp
qed simp

lemma answered_stop: "answered_step env options (link, workers) (link\<lparr>lk_stop := True\<rparr>, workers)"
  by (rule answered_same, rule stops)

lemma shutdown_scheduled:
  assumes "server_shutdown env options sends order serving (link, workers) = Some (waited, link', left)"
  shows "(answered_step env options)\<^sup>*\<^sup>* (link, workers) (link', []) \<and> left = [] \<and> lk_stop link' \<and>
    waited = accept_wait serving 0 2000"
proof -
  obtain l conns where e: "early_turns env options sends order (link, map (\<lambda>w. (w, 0)) workers) = Some (l, conns)"
      "join_workers env options sends 0 conns (l\<lparr>lk_stop := True\<rparr>) = Some link'"
      "left = []" "waited = accept_wait serving 0 2000"
    using assms by (auto simp: server_shutdown_def Let_def split: option.splits prod.splits)
  have a: "(answered_step env options)\<^sup>*\<^sup>* (link, workers) (l\<lparr>lk_stop := True\<rparr>, map fst conns)"
    using early_turns_schedule [OF e(1)] answered_stop by (auto simp: comp_def intro: rtranclp.rtrancl_into_rtrancl)
  have j: "(answered_step env options)\<^sup>*\<^sup>* (l\<lparr>lk_stop := True\<rparr>, map fst conns) (link', replicate (length conns) Finished)"
      "lk_stop link'"
    using joined [OF e(2), of "[]"] by simp_all
  have "answered_step env options (link', replicate (length conns) Finished) (link', [])"
    using answered_same [OF prunes [of env options link' "replicate (length conns) Finished"]]
    by (simp add: prune_workers_def)
  then show ?thesis using rtranclp_trans [OF a j(1)] j(2) e(3,4) by (simp add: rtranclp.rtrancl_into_rtrancl)
qed

lemma shutdown_hangs:
  assumes "server_shutdown env options sends order serving (link, workers) = None"
  shows "\<exists>i<length workers. write_hangs env options (sends i)"
proof (cases "early_turns env options sends order (link, map (\<lambda>w. (w, 0)) workers)")
  case None
  from early_turns_hang [OF None] show ?thesis by simp
next
  case (Some s)
  obtain l conns where s: "s = (l, conns)" by force
  then have "join_workers env options sends 0 conns (l\<lparr>lk_stop := True\<rparr>) = None"
    using assms Some by (auto simp: server_shutdown_def Let_def split: option.splits)
  from join_workers_hang [OF this] early_turns_schedule [OF Some [unfolded s]] show ?thesis by simp
qed

section \<open>A peer that does not read\<close>

definition is_replying :: "worker \<Rightarrow> bool" where
  "is_replying w = (case w of Replying session expected refresh ack events \<Rightarrow> True | _ \<Rightarrow> False)"

lemma send_frame_appends:
  "\<exists>frame. frame \<noteq> [] \<and>
     lk_sent (snd (send_frame (env\<lparr>le_write_ok := \<lambda>_. True\<rparr>) kind payload session sequence flags link)) = lk_sent link @ [frame]"
  by (simp add: send_frame_def count_stats_def Let_def encode_frame_nonempty)

lemma leave_sent [simp]: "lk_sent (leave link) = lk_sent link"
  by (simp add: leave_def)

lemma reply_written:
  assumes "is_replying w"
  shows "\<exists>frame. frame \<noteq> [] \<and> frames_written env options w link = [frame]"
proof -
  obtain session expected refresh ack events where w: "w = Replying session expected refresh ack events"
    using assms by (cases w) (simp_all add: is_replying_def)
  define a where "a = (if refresh then ack\<lparr>ea_accounting_generation := ac_generation (im_accounting (lk_governor link))\<rparr> else ack)"
  let ?env = "env\<lparr>le_write_ok := \<lambda>_. True\<rparr>"
  obtain sent l where s: "send_frame ?env Frame_EvidenceAck (encode_evidence_ack a) session expected kFrameFlagNone link = (sent, l)"
    by force
  obtain frame where f: "frame \<noteq> []" "lk_sent l = lk_sent link @ [frame]"
    using send_frame_appends [of env Frame_EvidenceAck "encode_evidence_ack a" session expected kFrameFlagNone link] by (auto simp: s)
  have "lk_sent (snd (worker_step ?env options w link)) = lk_sent l"
    by (simp add: w worker_step_def a_def [symmetric] s)
  then show ?thesis using f by (simp add: frames_written_def)
qed

lemma silent_peer_turn:
  assumes "is_replying (fst c)" "\<And>k. answers k = Send_blocked"
  shows "socket_turn env options answers c link = None"
proof -
  obtain frame where f: "frame \<noteq> []" "frames_written env options (fst c) link = [frame]"
    using reply_written [OF assms(1)] by blast
  then show ?thesis using blocked_peer_hangs [of answers "snd c" frame] assms(2) by (simp add: socket_turn_def)
qed

lemma silent_peer_early:
  assumes "i < length conns" "is_replying (fst (conns ! i))" "\<And>k. sends i k = Send_blocked"
    and "early_turns env options sends order (link, conns) = Some (link', conns')"
  shows "is_replying (fst (conns' ! i))"
  using assms(1,2,4)
proof (induction order arbitrary: link conns)
  case (Cons j order)
  show ?case
  proof (cases "j < length conns")
    case True
    then obtain c l where t: "socket_turn env options (sends j) (conns ! j) link = Some (c, l)"
      using Cons.prems(3) by (auto split: option.splits prod.splits)
    have "j \<noteq> i" using t silent_peer_turn [of "conns ! i" "sends i", OF Cons.prems(2) assms(3)] by auto
    then show ?thesis using Cons.IH [of "conns[j := c]" l] Cons.prems True t by simp
  next
    case False
    then show ?thesis using Cons by simp
  qed
qed simp

lemma silent_peer_join:
  assumes "i < length conns" "is_replying (fst (conns ! i))" "\<And>k. sends (first + i) k = Send_blocked"
  shows "join_workers env options sends first conns link = None"
  using assms
proof (induction conns arbitrary: i first link)
  case (Cons c conns)
  show ?case
  proof (cases i)
    case 0
    then obtain fuel where "work_left (fst c) = Suc fuel"
      using Cons.prems(2) by (cases "fst c") (simp_all add: is_replying_def)
    then have "run_worker env options (sends first) (work_left (fst c)) c link = None"
      using silent_peer_turn [of c "sends first"] Cons.prems 0 by simp
    then show ?thesis by simp
  next
    case (Suc j)
    then have "join_workers env options sends (Suc first) conns l = None" for l
      using Cons.IH [of j "Suc first" l] Cons.prems by simp
    then show ?thesis by (simp split: option.split)
  qed
qed simp

lemma silent_peer_shutdown:
  assumes "i < length workers" "is_replying (workers ! i)" "\<And>k. sends i k = Send_blocked"
  shows "server_shutdown env options sends order serving (link, workers) = None"
proof (cases "early_turns env options sends order (link, map (\<lambda>w. (w, 0)) workers)")
  case None
  then show ?thesis by (simp add: server_shutdown_def)
next
  case (Some s)
  obtain l conns where s: "s = (l, conns)" by force
  note e = Some [unfolded s]
  have "is_replying (fst (conns ! i))"
    by (rule silent_peer_early [where sends = sends, OF _ _ assms(3) e]) (use assms(1,2) in simp_all)
  moreover have "i < length conns" using early_turns_schedule [OF e] assms(1) by simp
  ultimately have "join_workers env options sends 0 conns (l\<lparr>lk_stop := True\<rparr>) = None"
    using silent_peer_join [of i conns sends 0] assms(3) by simp
  then show ?thesis by (simp add: server_shutdown_def e Let_def)
qed

section \<open>Property\<close>

lemma total_left_bound: "total_left workers \<le> 5 * length workers"
proof (induction workers)
  case (Cons w workers)
  have "work_left w \<le> 5" by (cases w) simp_all
  then show ?case using Cons by (simp add: total_left_def)
qed (simp add: total_left_def)



end
