(* ===== verification/FG_Files.thy ===== *)
theory FG_Files
  imports FG_Governor
begin

unbundle bit_operations_syntax

text \<open>
  The file system primitives as they are on POSIX (\<open>persist/fsutil.cpp\<close>): each is a sequence of system calls
  whose answers are an argument, over a map from path names to contents. The store of this development works
  on the four slots of a record and is told which calls fail; here it is shown that every sequence of
  primitives, with whatever answers, does to the slots what the store's own calls do. Boot identities
  (\<open>core/entropy.cpp\<close>) are at the end.
\<close>

section \<open>System calls\<close>

text \<open>A \<open>write\<close> takes at least one byte (the number is one less than what it would take) or fails.\<close>

datatype wrote = Wrote nat | Write_failed

text \<open>What the calls of one primitive answer: the open, the length and the bytes of a read, the successive
  writes, the flush, and a rename or an unlink.\<close>

record FileAnswers =
  fa_opened :: bool
  fa_length_known :: bool
  fa_read_whole :: bool
  fa_write :: "nat \<Rightarrow> wrote"
  fa_synced :: bool
  fa_done :: bool

type_synonym paths = "bytes \<Rightarrow> bytes option"

section \<open>Primitives\<close>

definition posix_read :: "FileAnswers \<Rightarrow> bytes \<Rightarrow> nat \<Rightarrow> paths \<Rightarrow> bytes result" where
  "posix_read answers path max_bytes px =
     (case px path of
        None \<Rightarrow> Inl IoError
      | Some content \<Rightarrow>
          (if \<not> fa_opened answers then Inl IoError
           else if \<not> fa_length_known answers \<or> max_bytes < length content then Inl OversizedPayload
           else if content \<noteq> [] \<and> \<not> fa_read_whole answers then Inl Truncated
           else Inr content))"

text \<open>The loop over \<open>write\<close>: whether it came to the end, and what is in the file then.\<close>

function write_chunks :: "(nat \<Rightarrow> wrote) \<Rightarrow> bytes \<Rightarrow> nat \<Rightarrow> nat \<Rightarrow> bytes \<Rightarrow> bool \<times> bytes" where
  "write_chunks answers data k offset content =
     (if offset < length data
      then (case answers k of
              Wrote n \<Rightarrow>
                (let written = min (Suc n) (length data - offset)
                 in write_chunks answers data (Suc k) (offset + written) (content @ take written (drop offset data)))
            | Write_failed \<Rightarrow> (False, content))
      else (True, content))"
  by auto
termination by (relation "measure (\<lambda>(answers, data, k, offset, content). length data - offset)") auto

declare write_chunks.simps [simp del]

text \<open>The open truncates; only a flushed file counts as written.\<close>

definition posix_write :: "FileAnswers \<Rightarrow> bytes \<Rightarrow> bytes \<Rightarrow> paths \<Rightarrow> StatusCode \<times> paths" where
  "posix_write answers path data px =
     (if \<not> fa_opened answers then (IoError, px)
      else case write_chunks (fa_write answers) data 0 0 [] of
             (complete, content) \<Rightarrow>
               (if complete \<and> fa_synced answers then Ok else IoError, px(path := Some content)))"

definition posix_replace :: "FileAnswers \<Rightarrow> bytes \<Rightarrow> bytes \<Rightarrow> paths \<Rightarrow> StatusCode \<times> paths" where
  "posix_replace answers from to px =
     (case px from of
        None \<Rightarrow> (IoError, px)
      | Some content \<Rightarrow> (if fa_done answers then (Ok, px(from := None, to := Some content)) else (IoError, px)))"

text \<open>Removing a file that is not there is a success.\<close>

definition posix_remove :: "FileAnswers \<Rightarrow> bytes \<Rightarrow> paths \<Rightarrow> StatusCode \<times> paths" where
  "posix_remove answers path px = (if fa_done answers then (Ok, px(path := None)) else (IoError, px))"

definition posix_copy :: "FileAnswers \<Rightarrow> FileAnswers \<Rightarrow> bytes \<Rightarrow> bytes \<Rightarrow> nat \<Rightarrow> paths \<Rightarrow> StatusCode \<times> paths" where
  "posix_copy reading writing from to max_bytes px =
     (case posix_read reading from max_bytes px of
        Inl code \<Rightarrow> (code, px)
      | Inr content \<Rightarrow> posix_write writing to content px)"

text \<open>The name of the directory whose entries a rename changes: the path up to its last slash.\<close>

definition parent_directory :: "bytes \<Rightarrow> bytes" where
  "parent_directory path =
     (let directory = (if 47 \<in> set path then rev (tl (dropWhile (\<lambda>c. c \<noteq> 47) (rev path))) else path)
      in if directory = [] then [46] else directory)"

definition sync_directory :: "FileAnswers \<Rightarrow> bytes \<Rightarrow> StatusCode" where
  "sync_directory answers path =
     (if \<not> fa_opened answers then IoError else if \<not> fa_synced answers then IoError else Ok)"

section \<open>Loops and their results\<close>

lemma write_chunks_all:
  "write_chunks answers data k offset content = (complete, result) \<Longrightarrow> content = take offset data \<Longrightarrow>
   (\<exists>m. result = take m data) \<and> (complete \<longrightarrow> result = data)"
proof (induction answers data k offset content rule: write_chunks.induct)
  case (1 answers data k offset content)
  show ?case
  proof (cases "offset < length data")
    case True
    show ?thesis
    proof (cases "answers k")
      case (Wrote n)
      let ?w = "min (Suc n) (length data - offset)"
      have "content @ take ?w (drop offset data) = take (offset + ?w) data" by (simp add: "1.prems"(2) take_add)
      moreover have "write_chunks answers data (Suc k) (offset + ?w) (content @ take ?w (drop offset data)) = (complete, result)"
        using "1.prems"(1) True Wrote by (simp add: write_chunks.simps [of answers data k] Let_def)
      ultimately show ?thesis using "1.IH" [OF True Wrote refl] by simp
    next
      case Write_failed
      then show ?thesis using "1.prems" True by (auto simp: write_chunks.simps [of answers data k])
    qed
  next
    case False
    then have "result = take (length data) data" using "1.prems" by (simp add: write_chunks.simps [of answers data k])
    then show ?thesis using False "1.prems"(2) by (intro conjI exI [of _ "length data"]) simp_all
  qed
qed

text \<open>A write succeeds only with the whole data in the file; a failed one leaves the old content or a part of
  the new one, and nothing else changes.\<close>

lemma posix_write_result:
  assumes "posix_write answers path data px = (code, px')"
  shows "px' = px(path := px' path)" "code = Ok \<Longrightarrow> px' path = Some data" "code = Ok \<or> code = IoError"
    "px' path = px path \<or> (\<exists>m. px' path = Some (take m data))"
proof -
  obtain complete content where w: "write_chunks (fa_write answers) data 0 0 [] = (complete, content)" by force
  obtain m where m: "content = take m data" using write_chunks_all [OF w] by auto
  have c: "complete \<longrightarrow> content = data" using write_chunks_all [OF w] by simp
  show "px' = px(path := px' path)" "code = Ok \<or> code = IoError"
    using assms w by (auto simp: posix_write_def split: if_splits)
  show "px' path = Some data" if "code = Ok" using assms w c that by (auto simp: posix_write_def split: if_splits)
  show "px' path = px path \<or> (\<exists>m. px' path = Some (take m data))"
    using assms w m by (auto simp: posix_write_def split: if_splits)
qed

section \<open>The paths of the store\<close>

definition record_kind_name :: "RecordKind \<Rightarrow> bytes" where
  "record_kind_name kind = (case kind of
      PolicyRecord \<Rightarrow> [112, 111, 108, 105, 99, 121]
    | AccountingRecord \<Rightarrow> [97, 99, 99, 111, 117, 110, 116, 105, 110, 103])"

definition record_path :: "bytes \<Rightarrow> RecordKind \<Rightarrow> bytes" where
  "record_path directory kind =
     directory @ [47, 102, 97, 105, 114, 110, 101, 115, 115, 95] @ record_kind_name kind @ [46, 114, 101, 99]"

definition slot_path :: "bytes \<Rightarrow> RecordKind \<Rightarrow> Slot \<Rightarrow> bytes" where
  "slot_path directory kind slot = record_path directory kind @
     (case slot of Base \<Rightarrow> [] | Temp \<Rightarrow> [46, 116, 109, 112] | Journal \<Rightarrow> [46, 106, 110, 108] | Backup \<Rightarrow> [46, 112, 114, 101, 118])"

lemma slot_path_inject [simp]: "slot_path directory kind slot = slot_path directory kind' slot' \<longleftrightarrow> kind = kind' \<and> slot = slot'"
  by (cases kind; cases kind'; cases slot; cases slot')
    (simp_all add: slot_path_def record_path_def record_kind_name_def)

text \<open>What the store sees of the file system.\<close>

definition slot_files :: "bytes \<Rightarrow> paths \<Rightarrow> RecordKind \<Rightarrow> files" where
  "slot_files directory px = (\<lambda>kind slot. px (slot_path directory kind slot))"

lemma slot_files_update:
  "slot_files directory (px(slot_path directory kind slot := c))
    = (slot_files directory px)(kind := (slot_files directory px kind)(slot := c))"
  by (auto simp: slot_files_def fun_eq_iff)

section \<open>Calls of the store\<close>

text \<open>The store never renames a file to itself.\<close>

definition proper_call :: "slot_call \<Rightarrow> bool" where
  "proper_call call = (case call of Replace_slot from to \<Rightarrow> from \<noteq> to | _ \<Rightarrow> True)"

definition posix_call :: "bytes \<Rightarrow> FileAnswers \<times> FileAnswers \<Rightarrow> RecordKind \<Rightarrow> slot_call \<Rightarrow> paths \<Rightarrow> StatusCode \<times> paths" where
  "posix_call directory answers kind call px = (case call of
      Write_slot slot data \<Rightarrow> posix_write (snd answers) (slot_path directory kind slot) data px
    | Copy_slot from to max_bytes \<Rightarrow>
        posix_copy (fst answers) (snd answers) (slot_path directory kind from) (slot_path directory kind to) max_bytes px
    | Replace_slot from to \<Rightarrow> posix_replace (snd answers) (slot_path directory kind from) (slot_path directory kind to) px
    | Remove_slot slot \<Rightarrow> posix_remove (snd answers) (slot_path directory kind slot) px)"

text \<open>Sequences of calls; of a status it matters whether it is a success.\<close>

fun run_posix :: "bytes \<Rightarrow> (FileAnswers \<times> FileAnswers) list \<Rightarrow> (RecordKind \<times> slot_call) list \<Rightarrow> paths \<Rightarrow> bool list \<times> paths" where
  "run_posix directory (answers # more_answers) ((kind, call) # calls) px =
     (let (code, px) = posix_call directory answers kind call px; (codes, px) = run_posix directory more_answers calls px
      in ((code = Ok) # codes, px))"
| "run_posix directory _ _ px = ([], px)"

fun run_store :: "io list \<Rightarrow> (RecordKind \<times> slot_call) list \<Rightarrow> (RecordKind \<Rightarrow> files) \<Rightarrow> bool list \<times> (RecordKind \<Rightarrow> files)" where
  "run_store (io # ios) ((kind, call) # calls) disk =
     (let (code, fs) = store_call io call (disk kind); (codes, disk) = run_store ios calls (disk(kind := fs))
      in ((code = Ok) # codes, disk))"
| "run_store _ _ disk = ([], disk)"

section \<open>The store's calls are what the system calls do\<close>

lemma write_call_refines:
  "\<exists>io. store_call io (Write_slot slot data) (slot_files directory px kind)
     = (fst (posix_write answers (slot_path directory kind slot) data px),
        slot_files directory (snd (posix_write answers (slot_path directory kind slot) data px)) kind) \<and>
   (\<forall>other. other \<noteq> kind \<longrightarrow>
     slot_files directory (snd (posix_write answers (slot_path directory kind slot) data px)) other = slot_files directory px other)"
proof -
  obtain code px' where w: "posix_write answers (slot_path directory kind slot) data px = (code, px')" by force
  note r = posix_write_result [OF w]
  define io :: io where "io = (\<lambda>op. if code = Ok then None else Some (px' (slot_path directory kind slot)))"
  have d: "slot_files directory px' = (slot_files directory px)(kind :=
      (slot_files directory px kind)(slot := px' (slot_path directory kind slot)))"
    using slot_files_update [of directory px kind slot] r(1) by metis
  have "store_call io (Write_slot slot data) (slot_files directory px kind) = (code, slot_files directory px' kind)"
    using r(2,3) by (auto simp: store_call_def write_file_def io_def d)
  then show ?thesis by (intro exI [of _ io]) (simp add: w d)
qed

text \<open>The same failures, but for reads.\<close>

definition reading_ok :: "io \<Rightarrow> io" where
  "reading_ok io = (\<lambda>op. case op of Read _ _ \<Rightarrow> None | _ \<Rightarrow> io op)"

lemma copy_call_refines:
  "\<exists>io. (fst (store_call io (Copy_slot from to max_bytes) (slot_files directory px kind)) = Ok \<longleftrightarrow>
        fst (posix_copy reading writing (slot_path directory kind from) (slot_path directory kind to) max_bytes px) = Ok) \<and>
   snd (store_call io (Copy_slot from to max_bytes) (slot_files directory px kind))
     = slot_files directory (snd (posix_copy reading writing (slot_path directory kind from) (slot_path directory kind to) max_bytes px)) kind \<and>
   (\<forall>other. other \<noteq> kind \<longrightarrow>
     slot_files directory (snd (posix_copy reading writing (slot_path directory kind from) (slot_path directory kind to) max_bytes px)) other
       = slot_files directory px other)"
proof (cases "posix_read reading (slot_path directory kind from) max_bytes px")
  case (Inl code)
  define io :: io where "io = (\<lambda>op. Some (case op of Read _ _ \<Rightarrow> None | _ \<Rightarrow> px (slot_path directory kind to)))"
  have "fst (copy_file io from to max_bytes (slot_files directory px kind)) \<noteq> Ok"
    "snd (copy_file io from to max_bytes (slot_files directory px kind)) = slot_files directory px kind"
    by (auto simp: copy_file_def read_file_def write_file_def io_def slot_files_def split: option.split)
  moreover have "code \<noteq> Ok" using Inl by (auto simp: posix_read_def split: option.splits if_splits)
  ultimately show ?thesis using Inl by (intro exI [of _ io]) (simp add: store_call_def posix_copy_def)
next
  case (Inr content)
  have "read_file (reading_ok io) 1 from max_bytes (slot_files directory px kind) = Inr content" for io
    using Inr by (auto simp: posix_read_def read_file_def slot_files_def reading_ok_def split: option.splits if_splits)
  then have "store_call (reading_ok io) (Copy_slot from to max_bytes) (slot_files directory px kind)
      = store_call io (Write_slot to content) (slot_files directory px kind)" for io
    by (simp add: store_call_def copy_file_def write_file_def reading_ok_def)
  then show ?thesis using write_call_refines [of to content directory px kind writing] Inr
    by (simp add: posix_copy_def) (metis fst_conv snd_conv)
qed

lemma replace_call_refines:
  "from \<noteq> to \<Longrightarrow> \<exists>io. store_call io (Replace_slot from to) (slot_files directory px kind)
     = (fst (posix_replace answers (slot_path directory kind from) (slot_path directory kind to) px),
        slot_files directory (snd (posix_replace answers (slot_path directory kind from) (slot_path directory kind to) px)) kind) \<and>
   (\<forall>other. other \<noteq> kind \<longrightarrow>
     slot_files directory (snd (posix_replace answers (slot_path directory kind from) (slot_path directory kind to) px)) other
       = slot_files directory px other)"
proof -
  assume "from \<noteq> to"
  define io :: io where "io = (\<lambda>op. if fa_done answers then None else Some None)"
  show ?thesis using \<open>from \<noteq> to\<close>
    by (intro exI [of _ io])
      (auto simp: store_call_def replace_file_def posix_replace_def io_def slot_files_def fun_eq_iff split: option.split)
qed

lemma remove_call_refines:
  "\<exists>io. store_call io (Remove_slot slot) (slot_files directory px kind)
     = (fst (posix_remove answers (slot_path directory kind slot) px),
        slot_files directory (snd (posix_remove answers (slot_path directory kind slot) px)) kind) \<and>
   (\<forall>other. other \<noteq> kind \<longrightarrow>
     slot_files directory (snd (posix_remove answers (slot_path directory kind slot) px)) other = slot_files directory px other)"
proof -
  define io :: io where "io = (\<lambda>op. if fa_done answers then None else Some None)"
  show ?thesis
    by (intro exI [of _ io]) (auto simp: store_call_def remove_file_def posix_remove_def io_def slot_files_def fun_eq_iff)
qed

lemma call_refines:
  assumes "proper_call call"
  shows "\<exists>io. (fst (store_call io call (slot_files directory px kind)) = Ok \<longleftrightarrow> fst (posix_call directory answers kind call px) = Ok) \<and>
     (slot_files directory px)(kind := snd (store_call io call (slot_files directory px kind)))
       = slot_files directory (snd (posix_call directory answers kind call px))"
proof -
  have ex: "\<exists>io. (fst (store_call io call (slot_files directory px kind)) = Ok \<longleftrightarrow> fst (posix_call directory answers kind call px) = Ok) \<and>
      snd (store_call io call (slot_files directory px kind)) = slot_files directory (snd (posix_call directory answers kind call px)) kind \<and>
      (\<forall>other. other \<noteq> kind \<longrightarrow>
        slot_files directory (snd (posix_call directory answers kind call px)) other = slot_files directory px other)"
  proof (cases call)
    case (Write_slot slot data)
    then show ?thesis using write_call_refines [of slot data directory px kind "snd answers"]
      by (simp add: posix_call_def) (metis fst_conv snd_conv)
  next
    case (Copy_slot "from" to max_bytes)
    then show ?thesis using copy_call_refines [of "from" to max_bytes directory px kind "fst answers" "snd answers"]
      by (simp add: posix_call_def)
  next
    case (Replace_slot "from" to)
    then have "from \<noteq> to" using assms by (simp add: proper_call_def)
    from replace_call_refines [OF this, of directory px kind "snd answers"] Replace_slot
    show ?thesis by (simp add: posix_call_def) (metis fst_conv snd_conv)
  next
    case (Remove_slot slot)
    then show ?thesis using remove_call_refines [of slot directory px kind "snd answers"]
      by (simp add: posix_call_def) (metis fst_conv snd_conv)
  qed
  then obtain io where io: "fst (store_call io call (slot_files directory px kind)) = Ok \<longleftrightarrow> fst (posix_call directory answers kind call px) = Ok"
    "snd (store_call io call (slot_files directory px kind)) = slot_files directory (snd (posix_call directory answers kind call px)) kind"
    "\<And>other. other \<noteq> kind \<Longrightarrow>
        slot_files directory (snd (posix_call directory answers kind call px)) other = slot_files directory px other" by blast
  show ?thesis by (intro exI [of _ io]) (auto simp: io fun_eq_iff)
qed

lemma run_refines:
  "\<lbrakk>length calls \<le> length answers; \<forall>(kind, call)\<in>set calls. proper_call call\<rbrakk> \<Longrightarrow> \<exists>ios. length ios = length calls \<and>
     run_store ios calls (slot_files directory px)
       = (fst (run_posix directory answers calls px), slot_files directory (snd (run_posix directory answers calls px)))"
proof (induction calls arbitrary: answers px)
  case Nil
  then show ?case by (intro exI [of _ "[]"]) (cases answers; simp)
next
  case (Cons kc calls)
  obtain kind call where kc: "kc = (kind, call)" by force
  obtain a as where as: "answers = a # as" using Cons.prems by (cases answers) auto
  obtain code px' where p: "posix_call directory a kind call px = (code, px')" by force
  obtain io where io: "fst (store_call io call (slot_files directory px kind)) = Ok \<longleftrightarrow> code = Ok"
    "(slot_files directory px)(kind := snd (store_call io call (slot_files directory px kind))) = slot_files directory px'"
    using call_refines [of call directory px kind a] Cons.prems(2) unfolding p kc by auto
  obtain ios where ios: "length ios = length calls" "run_store ios calls (slot_files directory px')
      = (fst (run_posix directory as calls px'), slot_files directory (snd (run_posix directory as calls px')))"
    using Cons.IH [of as px'] Cons.prems as by auto
  obtain c fs where c: "store_call io call (slot_files directory px kind) = (c, fs)" by force
  then show ?case using io ios p
    by (intro exI [of _ "io # ios"]) (simp add: kc as Let_def split: prod.split)
qed

section \<open>Directories\<close>

text \<open>What a path name means is up to the system (\<open>resolve\<close>), and so is which \<open>mkdir\<close> succeeds; a name that is
  taken already is no error for the code, the last test finds out whether it is a directory.\<close>

definition is_separator :: "u8 \<Rightarrow> bool" where
  "is_separator c \<longleftrightarrow> c = 92 \<or> c = 47"

definition is_directory :: "(bytes \<Rightarrow> bytes) \<Rightarrow> bytes list \<Rightarrow> bytes \<Rightarrow> bool" where
  "is_directory resolve dirs path \<longleftrightarrow> resolve path \<in> set dirs"

definition make_directory :: "(bytes \<Rightarrow> bytes) \<Rightarrow> (bytes \<Rightarrow> bool) \<Rightarrow> paths \<Rightarrow> bytes \<Rightarrow> bytes list \<Rightarrow> bool \<times> bytes list" where
  "make_directory resolve mkdir px path dirs =
     (if is_directory resolve dirs path \<or> px (resolve path) \<noteq> None then (True, dirs)
      else if mkdir path then (True, resolve path # dirs)
      else (False, dirs))"

function ensure_walk ::
    "(bytes \<Rightarrow> bytes) \<Rightarrow> (bytes \<Rightarrow> bool) \<Rightarrow> paths \<Rightarrow> bytes \<Rightarrow> bytes \<Rightarrow> bytes list \<Rightarrow> bool \<times> bytes list" where
  "ensure_walk resolve mkdir px partial rest dirs =
     (let partial = partial @ takeWhile (\<lambda>c. \<not> is_separator c) rest;
          tail = dropWhile (\<lambda>c. \<not> is_separator c) rest;
          (made, dirs) = (if partial \<noteq> [] \<and> \<not> is_directory resolve dirs partial
                          then make_directory resolve mkdir px partial dirs else (True, dirs))
      in if \<not> made then (False, dirs)
         else if tail = [] then (True, dirs)
         else ensure_walk resolve mkdir px (partial @ [hd tail]) (tl tail) dirs)"
  by auto
termination
proof (relation "measure (\<lambda>(resolve, mkdir, px, partial, rest, dirs). length rest)", goal_cases)
  case (2 resolve mkdir px partial rest dirs partial' tail made_dirs made dirs')
  have "length (dropWhile (\<lambda>c. \<not> is_separator c) rest) \<le> length rest" by (rule length_dropWhile_le)
  then show ?case using 2 by (cases "dropWhile (\<lambda>c. \<not> is_separator c) rest") auto
qed simp

declare ensure_walk.simps [simp del]

definition ensure_directory ::
    "(bytes \<Rightarrow> bytes) \<Rightarrow> (bytes \<Rightarrow> bool) \<Rightarrow> paths \<Rightarrow> bytes \<Rightarrow> bytes list \<Rightarrow> StatusCode \<times> bytes list" where
  "ensure_directory resolve mkdir px path dirs =
     (if path = [] then (Ok, dirs)
      else if is_directory resolve dirs path then (Ok, dirs)
      else
        let (partial, rest) = (if 2 \<le> length path \<and> path ! 1 = 58 then (take 2 path, drop 2 path) else ([], path));
            (made, dirs) = ensure_walk resolve mkdir px partial rest dirs
        in if \<not> made then (IoError, dirs)
           else (if is_directory resolve dirs path then Ok else IoError, dirs))"

text \<open>The store opens on whatever its directory holds.\<close>

definition open_store ::
    "(bytes \<Rightarrow> bytes) \<Rightarrow> (bytes \<Rightarrow> bool) \<Rightarrow> paths \<Rightarrow> bytes \<Rightarrow> bytes list \<Rightarrow> DurableStore result \<times> bytes list" where
  "open_store resolve mkdir px directory dirs =
     (case ensure_directory resolve mkdir px directory dirs of
        (code, dirs) \<Rightarrow>
          (if code \<noteq> Ok then Inl code
           else Inr \<lparr>st_policy = slot_files directory px PolicyRecord, st_accounting = slot_files directory px AccountingRecord,
                  st_faults = no_faults\<rparr>, dirs))"

text \<open>The walk keeps every directory, makes only prefixes of the path, and reaches the path itself.\<close>

lemma make_directory_result:
  assumes "make_directory resolve mkdir px path dirs = (made, dirs')"
  shows "dirs' = dirs \<or> dirs' = resolve path # dirs"
    "(\<And>p. mkdir p) \<Longrightarrow> made" "\<lbrakk>made; px (resolve path) = None\<rbrakk> \<Longrightarrow> is_directory resolve dirs' path"
  using assms by (auto simp: make_directory_def is_directory_def split: if_splits)

lemma ensure_walk_result:
  "ensure_walk resolve mkdir px partial rest dirs = (made, dirs') \<Longrightarrow>
   set dirs \<subseteq> set dirs' \<and> set dirs' \<subseteq> set dirs \<union> {resolve p |p. \<exists>q. p @ q = partial @ rest} \<and>
   ((\<forall>p. mkdir p) \<longrightarrow> made) \<and>
   (made \<and> partial @ rest \<noteq> [] \<and> px (resolve (partial @ rest)) = None \<longrightarrow> is_directory resolve dirs' (partial @ rest))"
proof (induction resolve mkdir px partial rest dirs rule: ensure_walk.induct)
  case (1 resolve mkdir px partial rest dirs)
  define part where "part = partial @ takeWhile (\<lambda>c. \<not> is_separator c) rest"
  define tail where "tail = dropWhile (\<lambda>c. \<not> is_separator c) rest"
  obtain ok ds where m: "(if part \<noteq> [] \<and> \<not> is_directory resolve dirs part
      then make_directory resolve mkdir px part dirs else (True, dirs)) = (ok, ds)" by force
  have whole: "part @ tail = partial @ rest" by (simp add: part_def tail_def)
  have ds: "ds = dirs \<or> ds = resolve part # dirs" "(\<forall>p. mkdir p) \<longrightarrow> ok"
    "ok \<and> part \<noteq> [] \<and> px (resolve part) = None \<longrightarrow> is_directory resolve ds part"
    using m make_directory_result [of resolve mkdir px part dirs ok ds] by (auto split: if_splits)
  have eq: "ensure_walk resolve mkdir px partial rest dirs = (if \<not> ok then (False, ds) else if tail = [] then (True, ds)
      else ensure_walk resolve mkdir px (part @ [hd tail]) (tl tail) ds)"
    using m by (subst ensure_walk.simps) (simp add: part_def [symmetric] tail_def [symmetric] Let_def)
  have sub: "set dirs \<subseteq> set ds" "set ds \<subseteq> set dirs \<union> {resolve p |p. \<exists>q. p @ q = partial @ rest}"
    using ds(1) whole by auto
  show ?case
  proof (cases "ok \<and> tail \<noteq> []")
    case True
    have rec: "ensure_walk resolve mkdir px (part @ [hd tail]) (tl tail) ds = (made, dirs')" using "1.prems" eq True by simp
    have "(part @ [hd tail]) @ tl tail = partial @ rest" using whole True by simp
    then show ?thesis using "1.IH" [OF part_def tail_def m [symmetric] refl _ _ rec] True sub by auto
  next
    case False
    then have "made = ok" "dirs' = ds" using "1.prems" eq by (auto split: if_splits)
    then show ?thesis using False sub ds whole by auto
  qed
qed

lemma ensure_directory_result:
  assumes "ensure_directory resolve mkdir px path dirs = (code, dirs')"
  shows "set dirs \<subseteq> set dirs'" "set dirs' \<subseteq> set dirs \<union> {resolve p |p. \<exists>q. p @ q = path}"
    "code = Ok \<Longrightarrow> path = [] \<or> is_directory resolve dirs' path"
    "\<lbrakk>\<And>p. mkdir p; px (resolve path) = None\<rbrakk> \<Longrightarrow> code = Ok"
proof -
  define start where "start = (if 2 \<le> length path \<and> path ! 1 = 58 then (take 2 path, drop 2 path) else ([], path))"
  obtain partial rest where pr: "start = (partial, rest)" by force
  have whole: "partial @ rest = path" using pr by (auto simp: start_def split: if_splits)
  obtain made ds where w: "ensure_walk resolve mkdir px partial rest dirs = (made, ds)" by force
  note r = ensure_walk_result [OF w, unfolded whole]
  have eq: "ensure_directory resolve mkdir px path dirs = (if path = [] \<or> is_directory resolve dirs path then (Ok, dirs)
      else if \<not> made then (IoError, ds) else (if is_directory resolve ds path then Ok else IoError, ds))"
    using pr w by (cases "2 \<le> length path \<and> path ! 1 = 58") (auto simp: ensure_directory_def start_def Let_def)
  show "set dirs \<subseteq> set dirs'" "set dirs' \<subseteq> set dirs \<union> {resolve p |p. \<exists>q. p @ q = path}"
    using r assms eq by (auto split: if_splits)
  show "path = [] \<or> is_directory resolve dirs' path" if "code = Ok" using that assms eq by (auto split: if_splits)
  show "code = Ok" if "\<And>p. mkdir p" "px (resolve path) = None" using that r assms eq by (auto split: if_splits)
qed

section \<open>Identities of a process\<close>

text \<open>The counter of the calls and the process number are arguments, and so are the random words and the clock.\<close>

definition process_token :: "u64 \<Rightarrow> u64 \<Rightarrow> u64" where
  "process_token pid calls = push_bit 16 pid XOR (calls * 0x9E3779B97F4A7C15)"

definition make_boot_id :: "u32 \<Rightarrow> u32 \<Rightarrow> u64 \<Rightarrow> u64 \<Rightarrow> Id" where
  "make_boot_id high low clock token =
     (let value = push_bit 32 (ucast high) XOR ucast low;
          value = (if value = 0 then clock XOR token else value)
      in if value = 0 then 0x5DEECE66D else value)"

definition make_incarnation :: "u32 \<Rightarrow> u32 \<Rightarrow> u64 \<Rightarrow> u64 \<Rightarrow> Incarnation" where
  "make_incarnation high low clock token = \<lparr>inc_boot = make_boot_id high low clock token, inc_ordinal = 1\<rparr>"

text \<open>Every incarnation is one the store and the handshake accept.\<close>

lemma incarnation_valid: "id_valid (inc_boot (make_incarnation high low clock token)) \<and> inc_ordinal (make_incarnation high low clock token) \<noteq> 0"
  by (simp add: make_incarnation_def make_boot_id_def id_valid_def Let_def)

text \<open>Tokens of one process differ as long as its counter does: the factor is odd, so it has an inverse.\<close>

lemma token_factor: "(0x9E3779B97F4A7C15 :: u64) * 17428512612931826493 = 1"
  by simp

lemma process_token_inject: "process_token pid a = process_token pid b \<longleftrightarrow> a = b"
proof
  have twice: "x XOR (x XOR y) = y" for x y :: u64 by (simp only: xor.assoc [symmetric] xor_self_eq xor.left_neutral)
  assume "process_token pid a = process_token pid b"
  then have "a * 0x9E3779B97F4A7C15 = b * 0x9E3779B97F4A7C15" unfolding process_token_def by (metis twice)
  then have "a * (0x9E3779B97F4A7C15 * 17428512612931826493) = b * (0x9E3779B97F4A7C15 * 17428512612931826493)"
    by (simp only: mult.assoc [symmetric])
  then show "a = b" unfolding token_factor by (simp only: mult_1_right)
qed (simp only:)

section \<open>Property\<close>

lemma posix_call_frame:
  assumes "\<And>slot. path \<noteq> slot_path directory kind slot"
  shows "snd (posix_call directory answers kind call px) path = px path"
  using assms by (auto simp: posix_call_def posix_write_def posix_copy_def posix_replace_def posix_remove_def
      split: slot_call.split prod.split sum.split option.split)

lemma run_posix_frame:
  "(\<And>kind slot. path \<noteq> slot_path directory kind slot) \<Longrightarrow> snd (run_posix directory answers calls px) path = px path"
proof (induction directory answers calls px rule: run_posix.induct)
  case (1 directory a as kind call calls px)
  obtain code px' where p: "posix_call directory a kind call px = (code, px')" by force
  have "px' path = px path" using posix_call_frame [of path directory kind a call px] "1.prems" p by simp
  then show ?case using "1.IH" [OF refl p [symmetric] "1.prems"] p
    by (cases "run_posix directory as calls px'") (simp add: Let_def)
qed simp_all

text \<open>C23: The store's view of its files is what the system does. Take any sequence of writes, copies, renames and
  removals on the files of the two records of a directory, and any answers of the system calls behind them
  (opens that fail, writes that take a few bytes at a time or stop half way, flushes, renames and unlinks that
  fail): there are failures of the store's own calls, one for each, under which these succeed in the same
  places and leave the same contents in every slot; and no other path of the file system is touched.\<close>

theorem system_calls_refine_store:
  assumes "length calls \<le> length answers" "\<forall>(kind, call)\<in>set calls. proper_call call"
  shows "(\<exists>ios. length ios = length calls \<and>
      run_store ios calls (slot_files directory px)
        = (fst (run_posix directory answers calls px), slot_files directory (snd (run_posix directory answers calls px)))) \<and>
    (\<forall>path. path \<notin> {slot_path directory kind slot |kind slot. True} \<longrightarrow>
      snd (run_posix directory answers calls px) path = px path)"
  using run_refines [OF assms] run_posix_frame by blast

text \<open>A write that takes two bytes, then stops.\<close>

definition sample_answers :: FileAnswers where
  "sample_answers = \<lparr>fa_opened = True, fa_length_known = True, fa_read_whole = True,
     fa_write = (\<lambda>k. if k = 0 then Wrote 1 else Write_failed), fa_synced = True, fa_done = True\<rparr>"

theorem system_calls_refine_store_witness:
  "(\<exists>ios. length ios = 2 \<and>
      run_store ios [(PolicyRecord, Write_slot Temp [1, 2, 3]), (PolicyRecord, Remove_slot Temp)] (slot_files [100] Map.empty)
        = ([False, True], slot_files [100] Map.empty))"
proof -
  have w: "write_chunks (fa_write sample_answers) [1, 2, 3] 0 0 [] = (False, [1, 2])"
    by (simp add: sample_answers_def write_chunks.simps Let_def)
  have r: "run_posix [100] [(sample_answers, sample_answers), (sample_answers, sample_answers)]
      [(PolicyRecord, Write_slot Temp [1, 2, 3]), (PolicyRecord, Remove_slot Temp)] Map.empty = ([False, True], Map.empty)"
    using w by (simp add: posix_call_def posix_write_def posix_remove_def sample_answers_def)
  have "length [(PolicyRecord, Write_slot Temp [1, 2, 3]), (PolicyRecord, Remove_slot Temp)]
        \<le> length [(sample_answers, sample_answers), (sample_answers, sample_answers)]"
    "\<forall>(kind, call)\<in>set [(PolicyRecord, Write_slot Temp [1, 2, 3]), (PolicyRecord, Remove_slot Temp)]. proper_call call"
    by (simp_all add: proper_call_def)
  from system_calls_refine_store [OF this, of "[100]" Map.empty] show ?thesis unfolding r by (simp add: numeral_2_eq_2)
qed

end
