(* ===== verification/FG_Tools.thy ===== *)
theory FG_Tools
  imports FG_Intake FG_Explain FG_Shutdown FG_Files
begin

unbundle bit_operations_syntax

text \<open>
  The programs around the library (\<open>tools/\<close>): the command line governor, the link server process and the
  publisher with its modes of malformed traffic. Arguments are lists of byte strings; what the environment
  answers (the contents of files, the state of a store, the socket calls, the boot identity) is a record.
  A run gives the exit code, the lines on the standard output, and the governor at its end; the texts of usage
  and of errors on the standard error are left out.
\<close>

section \<open>Shared pieces\<close>

definition default_limits :: IngestionLimits where
  "default_limits = \<lparr>il_max_staged_snapshots = 64, il_max_history_windows = kMaxHistoryWindows,
     il_max_observations_per_snapshot = kMaxEvidenceRecords\<rparr>"

definition tool_config :: "bytes \<Rightarrow> Scenario \<Rightarrow> GovernorConfig" where
  "tool_config store_path sc = \<lparr>gc_policy = sc_policy sc, gc_has_store_path = (store_path \<noteq> []),
     gc_epoch = sc_epoch sc, gc_limits = default_limits, gc_require_durability = False\<rparr>"

record ToolEnv =
  te_file :: "bytes \<Rightarrow> bytes option"
  te_store :: "bytes \<Rightarrow> DurableStore result"
  te_disk :: disk_io
  te_incarnation :: Incarnation
  te_details :: "nat \<Rightarrow> bytes"

record ToolRun =
  tr_exit :: nat
  tr_out :: "bytes list"
  tr_governor :: "Impl option"

definition stopped_at :: "nat \<Rightarrow> ToolRun" where
  "stopped_at code = \<lparr>tr_exit = code, tr_out = [], tr_governor = None\<rparr>"

text \<open>A file that is read, parsed and found to hold a policy.\<close>

definition load_scenario :: "(bytes \<Rightarrow> bytes option) \<Rightarrow> bytes \<Rightarrow> Scenario option" where
  "load_scenario file path =
     (case file path of
        None \<Rightarrow> None
      | Some chars \<Rightarrow>
          (case parse_scenario chars of
             Inl number \<Rightarrow> None
           | Inr sc \<Rightarrow> (if sc_has_policy sc then Some sc else None)))"

definition open_governor :: "ToolEnv \<Rightarrow> bytes \<Rightarrow> Scenario \<Rightarrow> Impl result" where
  "open_governor env store_path sc =
     fst (governor_open (te_disk env) (te_incarnation env) (tool_config store_path sc) (te_store env store_path))"

section \<open>The command line governor\<close>

record CliOptions =
  cl_commit :: bool
  cl_result :: bool
  cl_latest :: bool
  cl_recovery :: bool
  cl_quiet :: bool
  cl_store :: bytes

definition no_options :: CliOptions where
  "no_options = \<lparr>cl_commit = False, cl_result = False, cl_latest = False, cl_recovery = False, cl_quiet = False, cl_store = []\<rparr>"

fun cli_options :: "bytes list \<Rightarrow> CliOptions \<Rightarrow> CliOptions option" where
  "cli_options [] opts = Some opts"
| "cli_options (argument # arguments) opts =
     (if argument = ascii ''--commit'' then cli_options arguments (opts\<lparr>cl_commit := True\<rparr>)
      else if argument = ascii ''--result'' then cli_options arguments (opts\<lparr>cl_result := True\<rparr>)
      else if argument = ascii ''--latest'' then cli_options arguments (opts\<lparr>cl_latest := True\<rparr>)
      else if argument = ascii ''--recovery'' then cli_options arguments (opts\<lparr>cl_recovery := True\<rparr>)
      else if argument = ascii ''--quiet'' then cli_options arguments (opts\<lparr>cl_quiet := True\<rparr>)
      else if argument = ascii ''--store''
      then (case arguments of [] \<Rightarrow> None | path # arguments \<Rightarrow> cli_options arguments (opts\<lparr>cl_store := path\<rparr>))
      else None)"

definition latest_request :: "Scenario \<Rightarrow> EvaluationRequest" where
  "latest_request sc =
     (let request = default_request\<lparr>rq_policy_id := fp_id (sc_policy sc), rq_policy_generation := fp_generation (sc_policy sc),
            rq_epoch := sc_epoch sc\<rparr>;
          request = (if sc_evidence sc = [] then request
            else let newest = last (sc_evidence sc)
                 in request\<lparr>rq_evidence_id := ev_id newest, rq_evidence_generation := ev_generation newest,
                      rq_window := ev_window newest, rq_window_generation := ev_window_generation newest,
                      rq_now_ns := ev_captured_at_ns newest\<rparr>)
      in request\<lparr>rq_request_id := 1, rq_attempt := 0\<rparr>)"

definition recovery_line :: "RecoveryReport \<Rightarrow> bytes" where
  "recovery_line r = ascii ''recovery'' @ flag_field ''store'' (rr_store_present r) @
     flag_field ''policy_loaded'' (rr_policy_loaded r) @ flag_field ''accounting_loaded'' (rr_accounting_loaded r) @
     flag_field ''foreign_incarnation'' (rr_foreign_incarnation r) @
     flag_field ''unfinished_attempt_discarded'' (rr_unfinished_attempt_discarded r) @
     flag_field ''backup_recovered'' (rr_backup_recovered r) @ flag_field ''corruption_detected'' (rr_corruption_detected r) @
     flag_field ''evidence_authority_restored'' (rr_evidence_authority_restored r) @
     flag_field ''publisher_authority_restored'' (rr_publisher_authority_restored r) @
     field ''accounting_generation'' (rr_loaded_accounting_generation r)"

definition check_line :: "Scenario \<Rightarrow> bytes" where
  "check_line sc = ascii ''scenario ok'' @ field ''subjects'' (of_nat (length (fp_subjects (sc_policy sc)))) @
     field ''groups'' (of_nat (length (fp_groups (sc_policy sc)))) @ field ''evidence'' (of_nat (length (sc_evidence sc))) @
     flag_field ''request'' (sc_has_request sc)"

definition committed_line :: "Impl \<Rightarrow> bytes" where
  "committed_line im = ascii ''committed'' @ field ''accounting_generation'' (ac_generation (im_accounting im)) @
     field ''last_window'' (ac_last_window (im_accounting im))"

text \<open>The snapshots in the order of the document, up to the first that is rejected.\<close>

fun ingest_all :: "EvidenceSnapshot list \<Rightarrow> Impl \<Rightarrow> StatusCode \<times> Impl" where
  "ingest_all [] im = (Ok, im)"
| "ingest_all (snapshot # snapshots) im =
     (case ingest_evidence snapshot im of
        (Inl code, im) \<Rightarrow> (code, im)
      | (Inr result, im) \<Rightarrow> ingest_all snapshots im)"

definition decision_text :: "ToolEnv \<Rightarrow> CliOptions \<Rightarrow> FairnessDecision \<Rightarrow> bytes" where
  "decision_text env opts decision =
     (if cl_quiet opts then summarize decision
      else if cl_result opts then format_result (te_details env) decision
      else explain (te_details env) decision default_explain_options)"

text \<open>From the decision on: print it, commit it when asked, shut down.\<close>

definition cli_finish :: "ToolEnv \<Rightarrow> CliOptions \<Rightarrow> bytes list \<Rightarrow> FairnessDecision \<Rightarrow> Impl \<Rightarrow> ToolRun" where
  "cli_finish env opts out decision im =
     (let out = out @ [decision_text env opts decision];
          (code, im) = (if cl_commit opts then governor_commit (te_disk env) decision im else (Ok, im));
          out = (if cl_commit opts \<and> code = Ok then out @ [committed_line im] else out)
      in if code \<noteq> Ok then \<lparr>tr_exit = 4, tr_out = out, tr_governor = Some im\<rparr>
         else if fst (governor_shutdown im) \<noteq> Ok then \<lparr>tr_exit = 5, tr_out = out, tr_governor = Some im\<rparr>
         else \<lparr>tr_exit = 0, tr_out = out, tr_governor = Some (snd (governor_shutdown im))\<rparr>)"

definition cli_evaluate :: "ToolEnv \<Rightarrow> CliOptions \<Rightarrow> Scenario \<Rightarrow> ToolRun option" where
  "cli_evaluate env opts sc =
     (case open_governor env (cl_store opts) sc of
        Inl code \<Rightarrow> Some (stopped_at 3)
      | Inr im \<Rightarrow>
          (let out = (if cl_recovery opts then [recovery_line (im_recovery im)] else []);
               (ingested, im) = ingest_all (sc_evidence sc) im
           in if ingested \<noteq> Ok then Some \<lparr>tr_exit = 3, tr_out = out, tr_governor = Some im\<rparr>
              else if \<not> sc_has_request sc \<and> \<not> cl_latest opts then Some \<lparr>tr_exit = 2, tr_out = out, tr_governor = Some im\<rparr>
              else case governor_evaluate (if sc_has_request sc then sc_request sc else latest_request sc) im of
                     None \<Rightarrow> None
                   | Some (Inl code) \<Rightarrow> Some \<lparr>tr_exit = 3, tr_out = out, tr_governor = Some im\<rparr>
                   | Some (Inr decision) \<Rightarrow> Some (cli_finish env opts out decision im)))"

definition version_string :: bytes where
  "version_string = ascii ''1.0.0''"

definition library_name :: bytes where
  "library_name = ascii ''Fairness Governor''"

definition vendor_name :: bytes where
  "vendor_name = ascii ''Summon Software Labs''"

definition version_line :: bytes where
  "version_line = library_name @ ascii '' '' @ version_string @ ascii '' by '' @ vendor_name"

definition cli_main :: "ToolEnv \<Rightarrow> bytes list \<Rightarrow> ToolRun option" where
  "cli_main env arguments =
     (case arguments of
        [] \<Rightarrow> Some (stopped_at 0)
      | command # rest \<Rightarrow>
          (if command = ascii ''--help'' \<or> command = ascii ''-h'' then Some (stopped_at 0)
           else if command = ascii ''version'' then Some ((stopped_at 0)\<lparr>tr_out := [version_line]\<rparr>)
           else if command \<noteq> ascii ''check'' \<and> command \<noteq> ascii ''evaluate'' then Some (stopped_at 2)
           else case rest of
                  [] \<Rightarrow> Some (stopped_at 2)
                | path # options \<Rightarrow>
                    (case cli_options options no_options of
                       None \<Rightarrow> Some (stopped_at 2)
                     | Some opts \<Rightarrow>
                         (case load_scenario (te_file env) path of
                            None \<Rightarrow> Some (stopped_at 2)
                          | Some sc \<Rightarrow>
                              (if command = ascii ''check'' then Some ((stopped_at 0)\<lparr>tr_out := [check_line sc]\<rparr>)
                               else cli_evaluate env opts sc)))))"

section \<open>Numbers of the command line\<close>

text \<open>\<open>strtoul\<close> and \<open>strtoull\<close> with base ten and an unsigned long of 64 bits: white space, a sign, digits up to the
  first other character; too large a number is the largest, a minus negates.\<close>

definition is_space :: "u8 \<Rightarrow> bool" where
  "is_space c \<longleftrightarrow> c = 32 \<or> 9 \<le> c \<and> c \<le> 13"

definition strtoull :: "bytes \<Rightarrow> u64" where
  "strtoull chars =
     (let chars = dropWhile is_space chars;
          negative = (chars \<noteq> [] \<and> hd chars = 45);
          chars = (if chars \<noteq> [] \<and> (hd chars = 45 \<or> hd chars = 43) then tl chars else chars);
          value = decimal (takeWhile digit chars)
      in if 2 ^ 64 \<le> value then - 1 else if negative then - of_nat value else of_nat value)"

section \<open>The link server process\<close>

record LinkArgs =
  lk_args_scenario :: bytes
  lk_args_store :: bytes
  lk_args_port :: u32
  lk_args_quiet :: bool

fun link_arguments :: "bytes list \<Rightarrow> LinkArgs \<Rightarrow> LinkArgs option" where
  "link_arguments [] opts = Some opts"
| "link_arguments [argument] opts =
     (if argument = ascii ''--quiet'' then Some (opts\<lparr>lk_args_quiet := True\<rparr>) else None)"
| "link_arguments (argument # value # arguments) opts =
     (if argument = ascii ''--scenario'' then link_arguments arguments (opts\<lparr>lk_args_scenario := value\<rparr>)
      else if argument = ascii ''--store'' then link_arguments arguments (opts\<lparr>lk_args_store := value\<rparr>)
      else if argument = ascii ''--port'' then link_arguments arguments (opts\<lparr>lk_args_port := ucast (strtoull value)\<rparr>)
      else if argument = ascii ''--quiet'' then link_arguments (value # arguments) (opts\<lparr>lk_args_quiet := True\<rparr>)
      else None)"

definition default_server_options :: LinkServerOptions where
  "default_server_options = \<lparr>lo_max_connections = 4, lo_max_payload = kMaxFramePayloadBytes, lo_idle_polls = 50,
     lo_evaluate_on_ingest = True\<rparr>"

definition ready_line :: "Listener \<Rightarrow> Impl \<Rightarrow> bytes" where
  "ready_line listener im = ascii ''FG-LINK-READY address='' @ ln_address listener @ field ''port'' (ucast (ln_port listener)) @
     field ''epoch'' (im_epoch im) @ ascii '' policy='' @ to_decimal (fp_id (im_policy im)) @ [58] @
     to_decimal (fp_generation (im_policy im)) @ field ''boot'' (inc_boot (im_incarnation im)) @
     field ''ordinal'' (inc_ordinal (im_incarnation im))"

definition stopped_line :: "LinkStats \<Rightarrow> bytes" where
  "stopped_line s = ascii ''FG-LINK-STOPPED'' @ field ''connections'' (ls_connections_accepted s) @
     field ''rejected_connections'' (ls_connections_rejected s) @ field ''frames'' (ls_frames_received s) @
     field ''rejected_frames'' (ls_frames_rejected s) @ field ''evidence'' (ls_evidence_accepted s) @
     field ''duplicates'' (ls_evidence_duplicate s) @ field ''rejected_evidence'' (ls_evidence_rejected s) @
     field ''checksum_failures'' (ls_checksum_failures s) @ field ''oversized'' (ls_oversized_frames s) @
     field ''sequence_violations'' (ls_sequence_violations s) @ field ''handshakes'' (ls_handshakes_completed s) @
     field ''rejected_handshakes'' (ls_handshakes_rejected s) @ field ''windows_committed'' (ls_windows_committed s) @
     field ''evaluation_failures'' (ls_evaluations_failed s) @ field ''idle_dropped'' (ls_connections_idle_dropped s)"

definition accounting_line :: "FairnessAccounting \<Rightarrow> bytes" where
  "accounting_line a = ascii ''FG-LINK-ACCOUNTING'' @ field ''generation'' (ac_generation a) @
     field ''last_window'' (ac_last_window a) @ field ''subjects'' (of_nat (length (ac_subjects a)))"

text \<open>Up to the moment the server serves: an exit code, or the listener and the link to serve with.\<close>

definition fresh_stats :: LinkStats where
  "fresh_stats = \<lparr>ls_connections_accepted = 0, ls_connections_rejected = 0, ls_handshakes_completed = 0,
     ls_handshakes_rejected = 0, ls_frames_received = 0, ls_frames_rejected = 0, ls_evidence_accepted = 0,
     ls_evidence_duplicate = 0, ls_evidence_rejected = 0, ls_checksum_failures = 0, ls_oversized_frames = 0,
     ls_sequence_violations = 0, ls_windows_committed = 0, ls_evaluations_failed = 0, ls_bytes_received = 0,
     ls_bytes_sent = 0, ls_shutdown_requests = 0, ls_connections_idle_dropped = 0\<rparr>"

definition link_setup :: "ToolEnv \<Rightarrow> ListenAnswers \<Rightarrow> bytes list \<Rightarrow> nat + Listener \<times> Link" where
  "link_setup env answers arguments =
     (case link_arguments arguments \<lparr>lk_args_scenario = [], lk_args_store = [], lk_args_port = 0, lk_args_quiet = False\<rparr> of
        None \<Rightarrow> Inl 2
      | Some opts \<Rightarrow>
          (if lk_args_scenario opts = [] then Inl 2
           else case load_scenario (te_file env) (lk_args_scenario opts) of
                  None \<Rightarrow> Inl 2
                | Some sc \<Rightarrow>
                    (case open_governor env (lk_args_store opts) sc of
                       Inl code \<Rightarrow> Inl 3
                     | Inr im \<Rightarrow>
                         (case fst (start_server answers loopback_literal 200 default_server_options) of
                            Inl code \<Rightarrow> Inl 3
                          | Inr listener \<Rightarrow>
                              Inr (listener, \<lparr>lk_governor = im, lk_stats = fresh_stats, lk_stop = False, lk_active = 0,
                                lk_sent = [], lk_writes = 0\<rparr>)))))"

text \<open>When the server has stopped: the counters are read before the workers are joined. The accept loop has ended, so
  the shutdown finds it not serving; \<open>None\<close> is a run that never ends, for a worker's write may hold its join.\<close>

definition link_finish ::
    "LinkEnv \<Rightarrow> LinkServerOptions \<Rightarrow> (nat \<Rightarrow> nat \<Rightarrow> send_answer) \<Rightarrow> nat list \<Rightarrow> bool \<Rightarrow> server \<Rightarrow> ToolRun option" where
  "link_finish env options sends order quiet state =
     (let stats = lk_stats (fst state)
      in case server_shutdown env options sends order (\<lambda>_. False) state of
           None \<Rightarrow> None
         | Some (waited, link, workers) \<Rightarrow>
             Some \<lparr>tr_exit = 0,
               tr_out = [stopped_line stats, accounting_line (im_accounting (lk_governor link))] @
                 (if quiet then [] else [ascii ''FG-LINK-EXIT ok'']),
               tr_governor = Some (snd (governor_shutdown (lk_governor link)))\<rparr>)"

section \<open>The publisher\<close>

record PublisherArgs =
  pa_port :: u32
  pa_epoch :: u64
  pa_publisher :: u64
  pa_scenario :: bytes
  pa_mode :: bytes
  pa_announce_split :: bool

definition publisher_defaults :: PublisherArgs where
  "publisher_defaults = \<lparr>pa_port = 0, pa_epoch = 0, pa_publisher = 0, pa_scenario = [], pa_mode = ascii ''normal'',
     pa_announce_split = False\<rparr>"

fun publisher_arguments :: "bytes list \<Rightarrow> PublisherArgs \<Rightarrow> PublisherArgs option" where
  "publisher_arguments [] opts = Some opts"
| "publisher_arguments [argument] opts =
     (if argument = ascii ''--announce-split'' then Some (opts\<lparr>pa_announce_split := True\<rparr>) else None)"
| "publisher_arguments (argument # value # arguments) opts =
     (if argument = ascii ''--host'' then publisher_arguments arguments opts
      else if argument = ascii ''--port'' then publisher_arguments arguments (opts\<lparr>pa_port := ucast (strtoull value)\<rparr>)
      else if argument = ascii ''--epoch'' then publisher_arguments arguments (opts\<lparr>pa_epoch := strtoull value\<rparr>)
      else if argument = ascii ''--publisher'' then publisher_arguments arguments (opts\<lparr>pa_publisher := strtoull value\<rparr>)
      else if argument = ascii ''--scenario'' then publisher_arguments arguments (opts\<lparr>pa_scenario := value\<rparr>)
      else if argument = ascii ''--mode'' then publisher_arguments arguments (opts\<lparr>pa_mode := value\<rparr>)
      else if argument = ascii ''--announce-split'' then publisher_arguments (value # arguments) (opts\<lparr>pa_announce_split := True\<rparr>)
      else None)"

text \<open>The traffic of the malformed modes, from a snapshot.\<close>

definition malformed_header :: "Generation \<Rightarrow> Id \<Rightarrow> FrameHeader" where
  "malformed_header epoch publisher = \<lparr>fh_kind = Frame_Evidence, fh_flags = kFrameFlagNone, fh_payload_length = 0,
     fh_session_id = 0, fh_epoch = epoch, fh_publisher = publisher, fh_publisher_boot = 0, fh_publisher_ordinal = 0,
     fh_sequence = 1, fh_frame_checksum = 0\<rparr>"

definition malformed_frame :: "bytes \<Rightarrow> Generation \<Rightarrow> Id \<Rightarrow> EvidenceSnapshot \<Rightarrow> bytes" where
  "malformed_frame mode epoch publisher snapshot =
     (let frame = encode_frame (malformed_header epoch publisher) (encode_evidence snapshot)
      in if mode = ascii ''badsum''
         then (let frame = frame[kFrameHeaderSize := frame ! kFrameHeaderSize XOR 0xFF]
               in frame[kFrameHeaderSize + 1 := frame ! (kFrameHeaderSize + 1) XOR 0x5A])
         else if mode = ascii ''short'' then take (length frame div 2) frame
         else take 12 frame @ le_bytes 4 kMaxFramePayloadBytes @ drop 16 frame)"

text \<open>The publisher's own writer of raw bytes gives up at the first send that takes nothing. The result is what
  the peer is sent; the first answer says whether a connection came about.\<close>

definition tool_raw_send :: "bool \<Rightarrow> (nat \<Rightarrow> wrote) \<Rightarrow> bytes \<Rightarrow> bytes" where
  "tool_raw_send connected answers data = (if connected then snd (write_chunks answers data 0 0 []) else [])"

lemma tool_raw_send_prefix: "\<exists>m. tool_raw_send connected answers data = take m data"
proof -
  obtain complete content where w: "write_chunks answers data 0 0 [] = (complete, content)" by force
  then have "\<exists>m. content = take m data" using write_chunks_all [OF w] by simp
  then show ?thesis using take_0 [of data] by (cases connected) (auto simp: tool_raw_send_def w intro: exI [of _ 0])
qed

text \<open>What each submission finds: whether its write succeeds and what comes back.\<close>

fun publish_all :: "(nat \<Rightarrow> bool \<times> recv list) \<Rightarrow> nat \<Rightarrow> EvidenceSnapshot list \<Rightarrow> LinkClient \<Rightarrow> nat \<times> nat \<times> LinkClient" where
  "publish_all answers k [] client = (0, 0, client)"
| "publish_all answers k (snapshot # snapshots) client =
     (case client_submit (fst (answers k)) snapshot client (snd (answers k)) of
        (outcome, client) \<Rightarrow>
          (case publish_all answers (Suc k) snapshots client of
             (accepted, rejected, client) \<Rightarrow>
               (case outcome of
                  Inl code \<Rightarrow> (accepted, Suc rejected, client)
                | Inr ack \<Rightarrow> (if ea_code ack \<in> {status_value Ok, status_value Duplicate} then (Suc accepted, rejected, client)
                    else (accepted, Suc rejected, client)))))"

lemma publish_all_counts:
  "publish_all answers k snapshots client = (accepted, rejected, client') \<Longrightarrow> accepted + rejected = length snapshots"
proof (induction snapshots arbitrary: k client accepted rejected client')
  case (Cons snapshot snapshots)
  obtain outcome client1 where s: "client_submit (fst (answers k)) snapshot client (snd (answers k)) = (outcome, client1)" by force
  obtain a r client2 where p: "publish_all answers (Suc k) snapshots client1 = (a, r, client2)" by (metis prod.collapse)
  show ?case using Cons.prems Cons.IH [OF p] s p by (cases outcome) (auto split: if_splits)
qed simp

record PublisherEnv =
  pe_file :: "bytes \<Rightarrow> bytes option"
  pe_fresh :: Id
  pe_sockets :: "nat \<Rightarrow> bool \<times> bool"
  pe_sends :: "nat \<Rightarrow> send_answer"
  pe_hello :: "recv list"
  pe_submissions :: "nat \<Rightarrow> bool \<times> recv list"
  pe_goodbye :: bool
  pe_raw_connected :: bool
  pe_raw_writes :: "nat \<Rightarrow> wrote"

text \<open>The exit code, the raw bytes that were sent, and what was accepted and rejected.\<close>

record PublisherRun =
  pr_exit :: nat
  pr_raw :: bytes
  pr_accepted :: nat
  pr_rejected :: nat

definition published :: "nat \<Rightarrow> PublisherRun" where
  "published code = \<lparr>pr_exit = code, pr_raw = [], pr_accepted = 0, pr_rejected = 0\<rparr>"

definition publisher_evidence :: "PublisherEnv \<Rightarrow> bytes \<Rightarrow> EvidenceSnapshot list option" where
  "publisher_evidence env path =
     (if path = [] then Some []
      else case pe_file env path of
             None \<Rightarrow> None
           | Some chars \<Rightarrow> (case parse_scenario chars of Inl number \<Rightarrow> None | Inr sc \<Rightarrow> Some (sc_evidence sc)))"

text \<open>A connected publisher, by its mode.\<close>

definition publisher_session :: "PublisherEnv \<Rightarrow> PublisherArgs \<Rightarrow> EvidenceSnapshot list \<Rightarrow> LinkClient \<Rightarrow> PublisherRun" where
  "publisher_session env opts evidence client =
     (if pa_mode opts = ascii ''shutdown''
      then published (if fst (client_goodbye (pe_goodbye env) True client) = Ok then 0 else 4)
      else if pa_mode opts = ascii ''split''
      then (published 0)\<lparr>pr_raw := tool_raw_send (pe_raw_connected env) (pe_raw_writes env) (take (kFrameHeaderSize div 2)
             (encode_frame ((malformed_header (pa_epoch opts) (pa_publisher opts))\<lparr>fh_session_id := lc_session client,
                fh_sequence := lc_sequence client + 1\<rparr>) []))\<rparr>
      else case publish_all (pe_submissions env) 0 evidence client of
             (accepted, rejected, client) \<Rightarrow> (published 0)\<lparr>pr_accepted := accepted, pr_rejected := rejected\<rparr>)"

definition publisher_main :: "PublisherEnv \<Rightarrow> bytes list \<Rightarrow> PublisherRun option" where
  "publisher_main env arguments =
     (case publisher_arguments arguments publisher_defaults of
        None \<Rightarrow> Some (published 2)
      | Some opts \<Rightarrow>
          (if pa_port opts = 0 \<or> pa_epoch opts = 0 \<or> pa_publisher opts = 0 then Some (published 2)
           else case publisher_evidence env (pa_scenario opts) of
                  None \<Rightarrow> Some (published 2)
                | Some evidence \<Rightarrow>
                    (if pa_mode opts \<in> {ascii ''short'', ascii ''badsum'', ascii ''oversize''}
                     then Some ((published 0)\<lparr>pr_raw := tool_raw_send (pe_raw_connected env) (pe_raw_writes env)
                            (malformed_frame (pa_mode opts) (pa_epoch opts) (pa_publisher opts)
                              (case evidence of [] \<Rightarrow> default_snapshot | snapshot # _ \<Rightarrow> snapshot))\<rparr>)
                     else case client_connect (pe_sockets env) (pe_sends env) (pe_hello env) (pe_fresh env) 100
                            \<lparr>co_port = ucast (pa_port opts), co_epoch = pa_epoch opts, co_publisher = pa_publisher opts,
                              co_publisher_boot = 0, co_publisher_ordinal = 1\<rparr> of
                            None \<Rightarrow> None
                          | Some (Inl code, ack) \<Rightarrow> Some (published 3)
                          | Some (Inr client, ack) \<Rightarrow> Some (publisher_session env opts evidence client))))"

section \<open>Malformed traffic\<close>

text \<open>A stream that ends before all wanted bytes came.\<close>

lemma receive_ends_early:
  "steady polls k events \<Longrightarrow> length got + length (data_of events) < wanted \<Longrightarrow>
   receive polls wanted (of_nat k) got events = (Received_closed, got @ data_of events, [])"
proof (induction events arbitrary: k got)
  case (Cons event events)
  show ?case
  proof (cases event)
    case (Arrived data)
    have "data \<noteq> []" "steady polls 0 events" using Cons.prems(1) Arrived by simp_all
    then show ?thesis using Cons.IH [of 0 "got @ data"] Cons.prems(2) Arrived by (simp add: Let_def)
  next
    case Would_block
    then have k: "k < unat polls" "steady polls (k + 1) events" using Cons.prems(1) by simp_all
    then show ?thesis using Cons.IH [OF k(2), of got] Cons.prems(2) Would_block polls_left [OF k(1)] by (simp add: add.commute)
  qed (use Cons.prems(1) in simp_all)
qed simp

lemma short_frame_read:
  assumes "steady polls 0 events" "data_of events = take n (encode_frame header payload)"
    and "0 < n" "n < length (encode_frame header payload)"
    and "fh_flags header \<in> {0, 1}" "length payload \<le> unat max_payload"
  shows "fst (read_frame max_payload polls events) = Inl (Truncated, True)"
proof -
  have len: "length (encode_frame header payload) = 80 + length payload" by (rule encode_frame_split)
  show ?thesis
  proof (cases "n < 80")
    case True
    then have "receive polls 80 0 [] events = (Received_closed, data_of events, [])"
      using receive_ends_early [OF assms(1), of "[]" 80] assms(2) by simp
    moreover have "data_of events \<noteq> []" using assms(2,3) len by auto
    ultimately show ?thesis by (simp add: read_frame_def kFrameHeaderSize_def header_failure_def)
  next
    case False
    note d = decode_encode_frame [OF assms(5,6)]
    have pl: "unat (fh_payload_length (sealed header payload)) = length payload"
      using d(2) by (simp add: verify_frame_payload_def split: if_splits)
    obtain mid where m: "receive polls 80 0 [] events = (Received_all, take 80 (data_of events), mid)"
      "data_of mid = drop 80 (data_of events)" "steady polls 0 mid"
      using receive_from_start [OF assms(1), of 80] assms(2,4) False by auto
    have "n - 80 < length payload" using assms(4) len False by linarith
    then have "receive polls (length payload) 0 [] mid = (Received_closed, data_of mid, [])"
      using receive_ends_early [OF m(3), of "[]" "length payload"] m(2) assms(2) len by simp
    moreover have "take 80 (data_of events) = take 80 (encode_frame header payload)" using assms(2) False by simp
    ultimately show ?thesis
      using m(1) d(1) by (simp add: read_frame_def kFrameHeaderSize_def read_payload_def pl)
  qed
qed

text \<open>A header whose length field is overwritten decodes to a header with that length.\<close>

lemma decode_covered:
  assumes "fh_flags h \<in> {0, 1}" "fh_payload_length h \<le> max_payload"
  shows "decode_frame_header (covered_header h @ le_bytes 8 c @ le_bytes 8 (0 :: u64)) max_payload = Inr (h\<lparr>fh_frame_checksum := c\<rparr>)"
proof -
  have tail: "load_at 8 64 (covered_header h @ le_bytes 8 c @ le_bytes 8 (0 :: u64)) = c"
      "load_at 8 72 (covered_header h @ le_bytes 8 c @ le_bytes 8 (0 :: u64)) = (0 :: u64)"
    using load_le_bytes [of 8 "0 :: u64" "[]"] by (simp_all add: load_at_skip load_le_bytes)
  have "h\<lparr>fh_payload_length := fh_payload_length h\<rparr> = h" by (cases h) simp
  then show ?thesis using flags_known [OF assms(1)] assms(2)
    by (simp add: decode_frame_header_def kFrameHeaderSize_def covered_fields tail Let_def header_literal not_less)
qed

lemma covered_length:
  "take 12 (covered_header h @ r) @ le_bytes 4 n @ drop 16 (covered_header h @ r) = covered_header (h\<lparr>fh_payload_length := n\<rparr>) @ r"
  by (simp add: covered_header_def)

lemma overlong_frame_read:
  assumes "steady polls 0 events" "length payload < unat n" "n \<le> max_payload" "fh_flags header \<in> {0, 1}"
    and "data_of events = take 12 (encode_frame header payload) @ le_bytes 4 n @ drop 16 (encode_frame header payload)"
  shows "fst (read_frame max_payload polls events) = Inl (Truncated, True)"
proof -
  define h where "h = header\<lparr>fh_payload_length := of_nat (length payload)\<rparr>"
  define c where "c = frame_checksum (covered_header h) payload"
  let ?hd = "covered_header (h\<lparr>fh_payload_length := n\<rparr>) @ le_bytes 8 c @ le_bytes 8 (0 :: u64)"
  have d: "data_of events = ?hd @ payload"
    unfolding assms(5) encode_frame_eq h_def [symmetric] c_def [symmetric]
    using covered_length [of h "le_bytes 8 c @ le_bytes 8 (0 :: u64) @ payload" n] by simp
  have l: "length ?hd = 80" by simp
  obtain mid where m: "receive polls 80 0 [] events = (Received_all, ?hd, mid)" "data_of mid = payload" "steady polls 0 mid"
    using receive_from_start [OF assms(1), of 80] unfolding d by auto
  have "decode_frame_header ?hd max_payload = Inr (h\<lparr>fh_payload_length := n, fh_frame_checksum := c\<rparr>)"
    using decode_covered [of "h\<lparr>fh_payload_length := n\<rparr>" max_payload c] assms(3,4) by (simp add: h_def)
  moreover have "receive polls (unat n) 0 [] mid = (Received_closed, payload, [])"
    using receive_ends_early [OF m(3), of "[]" "unat n"] m(2) assms(2) by simp
  ultimately show ?thesis using m(1) by (simp add: read_frame_def kFrameHeaderSize_def read_payload_def)
qed

text \<open>Two neighbouring bytes whose changes differ in parity never cancel in the checksum.\<close>

lemma even_byte: "even (ucast (b :: u8) :: u64) \<longleftrightarrow> even b"
  by transfer simp

lemma fnv_two_bytes:
  assumes "odd (a XOR a' :: u8)" "even (b XOR b' :: u8)"
  shows "fnv1a64 (a' # b' # r) seed \<noteq> fnv1a64 (a # b # r) seed"
proof
  assume "fnv1a64 (a' # b' # r) seed = fnv1a64 (a # b # r) seed"
  then have "fnv1a64 r ((((seed XOR ucast a') * 1099511628211) XOR ucast b') * 1099511628211)
      = fnv1a64 r ((((seed XOR ucast a) * 1099511628211) XOR ucast b) * 1099511628211)" by (simp add: fnv1a64_def)
  then have "((seed XOR ucast a') * 1099511628211) XOR ucast b' = ((seed XOR ucast a) * 1099511628211) XOR ucast b"
    by (simp only: fnv_seed_injective fnv_prime_injective)
  then have "even (((seed XOR ucast a') * 1099511628211) XOR ucast b') \<longleftrightarrow> even (((seed XOR ucast a) * 1099511628211) XOR ucast b)"
    by simp
  then show False using assms by (simp add: even_xor_iff even_byte) blast
qed

lemma corrupt_payload_read:
  assumes "steady polls 0 events" "data_of events = take 80 (encode_frame header payload) @ payload'"
    and "fh_flags header \<in> {0, 1}" "length payload \<le> unat max_payload" "length payload' = length payload"
    and "\<And>seed. fnv1a64 payload' seed \<noteq> fnv1a64 payload seed"
  shows "fst (read_frame max_payload polls events) = Inl (ChecksumMismatch, False)"
proof -
  note d = decode_encode_frame [OF assms(3,4)]
  have pl: "unat (fh_payload_length (sealed header payload)) = length payload"
    using d(2) by (simp add: verify_frame_payload_def split: if_splits)
  have l: "length (take 80 (encode_frame header payload)) = 80" by (simp add: encode_frame_split)
  obtain mid where m: "receive polls 80 0 [] events = (Received_all, take 80 (encode_frame header payload), mid)"
    "data_of mid = payload'" "steady polls 0 mid"
    using receive_from_start [OF assms(1), of 80] unfolding assms(2) using l by auto
  obtain rest where r: "receive polls (length payload) 0 [] mid = (Received_all, payload', rest)"
    using receive_from_start [OF m(3), of "length payload"] m(2) assms(5) by auto
  have "frame_checksum (covered_header (sealed header payload)) payload = fh_frame_checksum (sealed header payload)"
    using d(2) by (simp add: verify_frame_payload_def split: if_splits)
  then have "verify_frame_payload (sealed header payload) payload' = ChecksumMismatch"
    using assms(5,6) by (simp add: verify_frame_payload_def pl) (metis frame_checksum_def)
  then show ?thesis using m(1) d(1) r by (simp add: read_frame_def kFrameHeaderSize_def read_payload_def pl)
qed

lemma encoded_evidence_long: "2 \<le> length (encode_evidence snapshot)"
  by (simp add: encode_evidence_def put_evidence_fields_def del: length_concat)

lemma malformed_read:
  assumes mode: "mode \<in> {ascii ''badsum'', ascii ''short'', ascii ''oversize''}"
    and ev: "steady polls 0 events" "data_of events = malformed_frame mode epoch publisher snapshot"
    and len: "length (encode_evidence snapshot) < unat kMaxFramePayloadBytes"
  shows "fst (read_frame kMaxFramePayloadBytes polls events)
    = Inl (if mode = ascii ''badsum'' then (ChecksumMismatch, False) else (Truncated, True))"
proof -
  let ?h = "malformed_header epoch publisher"
  let ?p = "encode_evidence snapshot"
  have f: "fh_flags ?h \<in> {0, 1}" by (simp add: malformed_header_def kFrameFlagNone_def)
  have ne: "ascii ''short'' \<noteq> ascii ''badsum''" "ascii ''oversize'' \<noteq> ascii ''badsum''" "ascii ''oversize'' \<noteq> ascii ''short''"
    by (simp_all add: ascii_def)
  consider "mode = ascii ''badsum''" | "mode = ascii ''short''" | "mode = ascii ''oversize''" using mode by blast
  then show ?thesis
  proof cases
    case 1
    obtain a b r where p: "?p = a # b # r" using encoded_evidence_long [of snapshot] by (cases ?p rule: list.exhaust; cases "tl ?p") auto
    define xs where "xs = take 80 (encode_frame ?h ?p)"
    have fr: "encode_frame ?h ?p = xs @ a # b # r" using encode_frame_split(1) [of ?h ?p] p by (simp add: xs_def)
    have l: "length xs = 80" by (simp add: xs_def encode_frame_split)
    have "malformed_frame mode epoch publisher snapshot = xs @ (a XOR 0xFF) # (b XOR 0x5A) # r"
      unfolding malformed_frame_def Let_def fr kFrameHeaderSize_def by (simp add: 1 l list_update_append nth_append)
    then have d: "data_of events = take 80 (encode_frame ?h ?p) @ (a XOR 0xFF) # (b XOR 0x5A) # r" using ev(2) by (simp add: xs_def)
    have c: "fnv1a64 ((a XOR 0xFF) # (b XOR 0x5A) # r) seed \<noteq> fnv1a64 ?p seed" for seed
      unfolding p by (rule fnv_two_bytes) (simp_all add: xor.assoc [symmetric] even_xor_iff)
    have n: "length ?p \<le> unat kMaxFramePayloadBytes" "length ((a XOR 0xFF) # (b XOR 0x5A) # r) = length ?p"
      using len by (simp_all add: p)
    have "fst (read_frame kMaxFramePayloadBytes polls events) = Inl (ChecksumMismatch, False)"
      by (rule corrupt_payload_read [OF ev(1) d f n c])
    then show ?thesis by (simp add: 1)
  next
    case 2
    have l: "length (encode_frame ?h ?p) = 80 + length ?p" by (rule encode_frame_split)
    then show ?thesis
      using short_frame_read [OF ev(1) _ _ _ f, of "length (encode_frame ?h ?p) div 2" ?p kMaxFramePayloadBytes] ev(2) len 2 ne
      by (simp add: malformed_frame_def Let_def)
  next
    case 3
    then show ?thesis
      using overlong_frame_read [OF ev(1) len order_refl f] ev(2) ne by (simp add: malformed_frame_def Let_def)
  qed
qed

section \<open>A run of the command line governor\<close>

lemma load_scenarioD:
  assumes "load_scenario file path = Some sc"
  obtains chars where "file path = Some chars" "parse_scenario chars = Inr sc" "sc_has_policy sc"
  using assms by (auto simp: load_scenario_def split: option.splits sum.splits if_splits)

lemma tool_config_accepted:
  assumes "parse_scenario chars = Inr sc" "sc_has_policy sc"
  shows "check_config (tool_config store_path sc) = Ok"
proof -
  note v = parsed_valid [OF assms(1)]
  have "generation_valid (fp_epoch (sc_policy sc))"
    using v(1) assms(2) by (simp add: validate_policy_iff policy_wf_def header_wf_def generation_valid_def)
  then show ?thesis using v(1,2) assms(2)
    by (simp add: check_config_def tool_config_def default_limits_def kMaxHistoryWindows_def kMaxEvidenceRecords_def)
qed

text \<open>Without a store the governor opens on what the document says.\<close>

lemma opens_in_memory:
  assumes "load_scenario file path = Some sc"
  shows "open_governor env [] sc = Inr (fresh_impl (tool_config [] sc) (te_incarnation env))"
proof -
  obtain chars where "parse_scenario chars = Inr sc" "sc_has_policy sc" using load_scenarioD [OF assms] by blast
  from tool_config_accepted [OF this, of "[]"] show ?thesis
    by (simp add: open_governor_def governor_open_def) (simp add: tool_config_def)
qed

lemma ingest_all_keeps:
  "reachable im taken \<Longrightarrow> reachable (snd (ingest_all snapshots im)) taken \<and>
   im_accounting (snd (ingest_all snapshots im)) = im_accounting im \<and> im_stopping (snd (ingest_all snapshots im)) = im_stopping im \<and>
   im_store (snd (ingest_all snapshots im)) = im_store im"
proof (induction snapshots arbitrary: im)
  case (Cons snapshot snapshots)
  have r: "reachable (snd (ingest_evidence snapshot im)) taken" by (rule reach_ingest [OF Cons.prems])
  have f: "im_accounting (stage_evidence snapshot im) = im_accounting im" "im_stopping (stage_evidence snapshot im) = im_stopping im"
    "im_store (stage_evidence snapshot im) = im_store im"
    by (simp_all add: stage_evidence_def Let_def)
  show ?case
  proof (cases rule: ingest_evidence_cases [of snapshot im])
    case (refused code)
    then show ?thesis using Cons.prems by simp
  next
    case duplicate
    then show ?thesis using Cons.IH [OF Cons.prems] by simp
  next
    case staged
    then show ?thesis using Cons.IH [of "stage_evidence snapshot im"] r f by simp
  qed
qed simp

lemma fresh_is_spare: "counters_spare (im_accounting (fresh_impl config incarnation))"
  by (simp add: counters_spare_def fresh_impl_def default_accounting_def)

lemma committed_text:
  "committed_line im = ascii ''committed accounting_generation='' @ to_decimal (ac_generation (im_accounting im)) @
     ascii '' last_window='' @ to_decimal (ac_last_window (im_accounting im))"
  by (simp add: committed_line_def field_def ascii_def)

text \<open>What the options without a value do, whatever their order and number.\<close>

lemma cli_options_flags:
  "set options \<subseteq> {ascii ''--commit'', ascii ''--result'', ascii ''--latest'', ascii ''--recovery'', ascii ''--quiet''} \<Longrightarrow>
   cli_options options opts = Some (opts\<lparr>cl_commit := cl_commit opts \<or> ascii ''--commit'' \<in> set options,
     cl_result := cl_result opts \<or> ascii ''--result'' \<in> set options, cl_latest := cl_latest opts \<or> ascii ''--latest'' \<in> set options,
     cl_recovery := cl_recovery opts \<or> ascii ''--recovery'' \<in> set options,
     cl_quiet := cl_quiet opts \<or> ascii ''--quiet'' \<in> set options\<rparr>)"
proof (induction options arbitrary: opts)
  case (Cons argument options)
  have "argument \<in> {ascii ''--commit'', ascii ''--result'', ascii ''--latest'', ascii ''--recovery'', ascii ''--quiet''}"
    and sub: "set options \<subseteq> {ascii ''--commit'', ascii ''--result'', ascii ''--latest'', ascii ''--recovery'', ascii ''--quiet''}"
    using Cons.prems by simp_all
  moreover have "ascii ''--commit'' \<noteq> ascii ''--result''" "ascii ''--commit'' \<noteq> ascii ''--latest''"
    "ascii ''--commit'' \<noteq> ascii ''--recovery''" "ascii ''--commit'' \<noteq> ascii ''--quiet''"
    "ascii ''--result'' \<noteq> ascii ''--latest''" "ascii ''--result'' \<noteq> ascii ''--recovery''" "ascii ''--result'' \<noteq> ascii ''--quiet''"
    "ascii ''--latest'' \<noteq> ascii ''--recovery''" "ascii ''--latest'' \<noteq> ascii ''--quiet''" "ascii ''--recovery'' \<noteq> ascii ''--quiet''"
    by (simp_all add: ascii_def)
  ultimately show ?case using Cons.IH [OF sub] by (elim insertE emptyE) simp_all
qed simp

abbreviation ingested :: "EvidenceSnapshot list \<Rightarrow> Impl \<Rightarrow> Impl" where
  "ingested snapshots im \<equiv> fold (\<lambda>snapshot im. snd (ingest_evidence snapshot im)) snapshots im"

lemma ingest_all_accepted:
  "\<forall>k<length snapshots. \<exists>result. fst (ingest_evidence (snapshots ! k) (ingested (take k snapshots) im)) = Inr result \<Longrightarrow>
   ingest_all snapshots im = (Ok, ingested snapshots im)"
proof (induction snapshots arbitrary: im)
  case (Cons snapshot snapshots)
  have "\<exists>result. fst (ingest_evidence snapshot im) = Inr result" using Cons.prems [rule_format, of 0] by simp
  then obtain result jm where i: "ingest_evidence snapshot im = (Inr result, jm)" by (metis prod.collapse)
  have "\<exists>result. fst (ingest_evidence (snapshots ! k) (ingested (take k snapshots) jm)) = Inr result"
    if "k < length snapshots" for k using Cons.prems [rule_format, of "Suc k"] that i by simp
  then show ?case using Cons.IH [of jm] i by simp
qed simp

lemma memory_recovery_line:
  "recovery_line default_report = ascii ''recovery store=0 policy_loaded=0 accounting_loaded=0 foreign_incarnation=0'' @
     ascii '' unfinished_attempt_discarded=0 backup_recovered=0 corruption_detected=0 evidence_authority_restored=0'' @
     ascii '' publisher_authority_restored=0 accounting_generation=0''"
proof -
  have "to_decimal 0 = [48]" by code_simp
  then show ?thesis by (simp add: recovery_line_def default_report_def field_def ascii_def)
qed


definition sample_tool_env :: ToolEnv where
  "sample_tool_env = \<lparr>te_file = (\<lambda>_. Some sample_document), te_store = (\<lambda>_. Inl IoError), te_disk = silent_io,
     te_incarnation = sample_incarnation, te_details = (\<lambda>_. [])\<rparr>"


text \<open>C39: The publisher's malformed modes are refused, and it is exact how. Whatever snapshot the frame is made from and in
  whatever pieces it arrives before the stream ends, a server with the largest payload bound ends the
  connection in the handshake: it opens no session, sends nothing, and leaves the governor alone. The mode with the
  wrong sum is always caught by the checksum, although two bytes are changed and the checksum is not a
  cryptographic one; the other two are truncated streams, also the one that is meant to be too large, for
  its declared length is the bound itself.\<close>

theorem malformed_traffic_refused:
  assumes "mode \<in> {ascii ''badsum'', ascii ''short'', ascii ''oversize''}"
    and "steady (lo_idle_polls options) 0 events" "data_of events = malformed_frame mode epoch publisher snapshot"
    and "length (encode_evidence snapshot) < unat kMaxFramePayloadBytes" "lo_max_payload options = kMaxFramePayloadBytes"
  shows "fst (handshake env options link events) = (None, count_stats (count_unreadable True
      (if mode = ascii ''badsum'' then ChecksumMismatch else Truncated)) link) \<and>
    lk_governor (snd (fst (handshake env options link events))) = lk_governor link \<and>
    lk_sent (snd (fst (handshake env options link events))) = lk_sent link \<and>
    ls_oversized_frames (lk_stats (snd (fst (handshake env options link events)))) = ls_oversized_frames (lk_stats link)"
proof -
  obtain rest where "read_frame kMaxFramePayloadBytes (lo_idle_polls options) events
      = (Inl (if mode = ascii ''badsum'' then (ChecksumMismatch, False) else (Truncated, True)), rest)"
    using malformed_read [OF assms(1-4)] by (cases "read_frame kMaxFramePayloadBytes (lo_idle_polls options) events") simp
  then have "fst (handshake env options link events) = (None, count_stats (count_unreadable True
      (if mode = ascii ''badsum'' then ChecksumMismatch else Truncated)) link)"
    by (simp add: handshake_def assms(5))
  then show ?thesis by (simp add: count_stats_def count_unreadable_def Let_def)
qed

theorem malformed_traffic_refused_witness:
  "fst (handshake sample_env sample_options sample_link [Arrived (malformed_frame (ascii ''badsum'') 1 3 sample_evidence)])
    = (None, count_stats (count_unreadable True ChecksumMismatch) sample_link)"
proof -
  have ne: "malformed_frame (ascii ''badsum'') 1 3 sample_evidence \<noteq> []"
    by (simp add: malformed_frame_def Let_def)
  have len: "length (encode_evidence sample_evidence) < unat kMaxFramePayloadBytes"
    by (simp add: encode_evidence_def put_evidence_fields_def sample_evidence_def kMaxFramePayloadBytes_def length_put_records)
  show ?thesis
    using malformed_traffic_refused [of "ascii ''badsum''" sample_options "[Arrived (malformed_frame (ascii ''badsum'') 1 3 sample_evidence)]"
        1 3 sample_evidence sample_env sample_link] ne len
    by (simp add: sample_options_def)
qed

end
