(* ===== verification/Spec2Isabelle.thy ===== *)
theory Spec2Isabelle
  imports FG_Fairness FG_Restart FG_Tools
begin

text \<open>
  A verification development for the Fairness Governor, a C++ library that watches how service is shared
  out among subjects in windows, decides what each subject was entitled to, proposes bounded corrections,
  and keeps the carry of every subject durably. This development translates the library's own code into
  HOL and proves what makes its parts correct, alone and together.

  \<^bold>\<open>The program.\<close> A policy (\<open>model/policy\<close>) names groups in a forest and subjects in groups. Evidence
  (\<open>model/evidence\<close>) is what a producer observed in one window. The engine (\<open>eval/engine.cpp\<close>) distributes
  the window over the tree, compares, and plans corrections: a decision (\<open>model/outcome\<close>). The governor
  (\<open>eval/governor.cpp\<close>) owns the policy, the epoch, the staged evidence and the accounting
  (\<open>model/accounting\<close>); committing a decision applies it to the accounting and writes a record through the
  store (\<open>persist/store.cpp\<close>), from which the next process opens. Evidence comes in over framed connections
  (\<open>link/\<close>); documents of the scenario format (\<open>scenario.cpp\<close>) describe policies and evidence as text, and a
  decision is rendered as text (\<open>eval/explain.cpp\<close>). Three programs use the library (\<open>tools/\<close>): a command line
  governor, a link server and a publisher.

  \<^bold>\<open>The theories\<close>, in the order of the code.
  \<^item> \<open>FG_Prelude\<close>: integer types, theorem collections, generic facts. \<open>FG_Core\<close>: status codes, identities,
    limits and checked arithmetic of \<open>core/\<close>. \<open>FG_U128\<close>: the 128-bit product and quotient of \<open>core/u128.hpp\<close>.
    \<open>FG_Bytes\<close>: the bounded reader and writer of \<open>core/bytes.hpp\<close>, with a locale of what a wire format
    promises, interpreted for every width.
  \<^item> \<open>FG_Policy\<close>, \<open>FG_Evidence\<close>, \<open>FG_Accounting\<close>, \<open>FG_Outcome\<close>: the data of \<open>model/\<close> as records, the
    validations, and their equivalence with declarative well-formedness.
  \<^item> \<open>FG_Greedy\<close>, \<open>FG_Allocate\<close>: sorting, the greedy grant loop, and \<open>allocate_whole\<close> with its contract.
    \<open>FG_Distributor\<close>, \<open>FG_Distribute\<close>, \<open>FG_Conservation\<close>: the tree of groups and the distribution of a
    window over it.
  \<^item> \<open>FG_Codec\<close>: the encoders, decoders and digests of \<open>persist/codec.cpp\<close>, and their round trips.
  \<^item> \<open>FG_Engine\<close>: \<open>evaluate_fairness\<close> phase by phase; \<open>FG_Plan\<close>, \<open>FG_Corrections\<close>, \<open>FG_Evaluation\<close>,
    \<open>FG_Returns\<close>, \<open>FG_Decision\<close> take a decision apart; \<open>FG_Fairness\<close> holds its properties.
  \<^item> \<open>FG_Record\<close>, \<open>FG_Store\<close>, \<open>FG_Durability\<close>: the record with its two checksums, commit, load and recovery
    over the files, and what survives a failure or a crash. A commit is a program of file system calls
    (\<open>disk_program\<close>, \<open>commit_program\<close>); \<open>store_commit\<close> runs it to its end, a crash (\<open>crashes\<close>) stops it anywhere.
  \<^item> \<open>FG_Governor\<close>, \<open>FG_Commit\<close>: the state of the governor (\<open>Impl\<close>) and one function per public operation,
    guards, order of effects and rollbacks as in the code. \<open>FG_Lifecycle\<close>, \<open>FG_Opening\<close>: the inductive
    predicate of reachable states and its invariant. \<open>FG_Progress\<close>, \<open>FG_Runs\<close>, \<open>FG_Restart\<close>: progress, runs of
    calls as a step relation, and reopening.
  \<^item> \<open>FG_Frame\<close>, \<open>FG_Link\<close>, \<open>FG_Transport\<close>: frames, the two ends of a connection, and what they deliver.
    \<open>FG_Workers\<close>: the accept loop and its workers as a step relation whose steps interleave in any order.
    \<open>FG_Sockets\<close>: the loops around the socket calls, the opening of a listener and of a connection, and the raw
    session. \<open>FG_Shutdown\<close>: the shutdown of a server, with the writes of its workers over what their sockets answer.
  \<^item> \<open>FG_Files\<close>: the primitives of \<open>persist/fsutil.cpp\<close> as sequences of system calls, the paths of the store, and
    the boot identities of \<open>core/entropy.cpp\<close>.
  \<^item> \<open>FG_Scenario\<close>, \<open>FG_Intake\<close>, \<open>FG_Explain\<close>: the scenario format, its acceptance by the governor, and the
    rendering of decisions. \<open>FG_Tools\<close>: the three programs of \<open>tools/\<close>.

  \<^bold>\<open>How the code is modelled.\<close> Unsigned and signed integers are words of their width; a plus of the source is a
  plus of words, and the checked operations return options. Strings and buffers are byte lists, vectors are
  lists, structs are records with the fields of the source, enumerations are datatypes with explicit
  numbers. A function that returns \<open>Result\<close> or \<open>Status\<close> returns a sum or a \<open>StatusCode\<close>; the detail texts
  of a status are dropped, an error of the scenario parser keeps its line. The state lock makes every
  operation of the governor atomic, so each is one function on the state, and a concurrent use is a
  sequence of such steps. The server of connections is modelled twice: whole connections as functions, and
  workers whose intakes, evaluations, commits and replies interleave with those of others and with the
  operator; a worker left alone is proved to do what the function does. What a client may rely on is the
  locale \<open>governor_contract\<close>, extended by \<open>operated_governor\<close>, both interpreted on the governor. Sorting is an insertion sort; the comparators are shown to be strict and total, so
  every correct sort gives the same result.

  \<^bold>\<open>The outside world.\<close> Which file system calls fail, reads included, is a function given to the store operations, and a
  crash may happen between any two of them or inside one; only a crash tears a rename. What a socket
  answers is a list of events (data in pieces of any size, nothing in time, closed, an error, the stop flag),
  and what a write that returns reports is a function; the shutdown of a server runs the steps of its workers over
  writes that may never return. Below that, a send or a write takes any part of what it is given, asks
  again or fails, as a numbered sequence of answers; the file primitives over such answers are proved to do
  what the store's calls do. Boot identities (from the draws of the random device) and the texts of
  acknowledgements are arguments.

  \<^bold>\<open>Fuel and termination.\<close> The walks over the group forest carry fuel 9: an accepted policy has depth at most
  8, and the distribution and the evaluation are proved to return a result for every accepted policy. The
  frame loop is a function with a termination proof: every turn that goes on consumes a frame. The loop that
  writes to a socket need not end and is an option-valued partial function, with the exact condition for its
  end proved. A joined worker runs with the number of its own steps left as fuel, at most five, which is
  proved to bring it to its end where its writes return. The other loops are structural or have measures.

  \<^bold>\<open>What is proved\<close> in the large. Allocations and distributions add up exactly at every level, honour
  floors and follow the largest remainders; corrections balance and stay inside every cap, and nothing is corrected without authority;
  starvation is reported. Every validation decides its well-formedness, every codec inverts, every decoder
  admits legal objects only. The store leaves the old or the new record after any failure or crash, also for the calls of a first commit. In every
  reachable state the governor is legal; a decision is committed once; a commit conserves the carry; the next
  window can always be committed; a restart restores policy, epoch and accounting. No interleaving of connections and
  operator calls breaks a governor or commits a window twice, though the bound on connections can be passed;
  only in-order evidence of the session reaches it, and a submitted snapshot is committed and
  acknowledged. A write to a socket delivers everything, reports an error or never returns, and it is exact
  when; a shutdown that returns has brought every worker to its end, and only a write that never returns can
  hold it. A document that parses is one the governor accepts, and the
  command line governor takes it to a decision and a commit; the malformed modes of the publisher are refused.

  \<^bold>\<open>Not modelled.\<close> The system calls behind files, directories, sockets and threads, which are arguments, and
  the branches for Windows; the detail texts of errors and notes and the usage texts of the tools; the time a
  call waits; the numbers of the product version and of the ABI level, which no code of the library reads; the benchmarks and the
  example, which only call the library.
\<close>

end
